(* ===== verification/Go_Float.thy ===== *)
theory Go_Float
  imports Complex_Main
begin

text \<open>
  \<open>float64\<close> as the statistics of the Go programs use it: a finite value is the
  rational it denotes, every operation rounds to 53 significant bits, half to even. The
  exponent is not bounded: all quantities here (counts, nanoseconds, bytes and their
  quotients) lie between \<open>2 ^ - 100\<close> and \<open>2 ^ 100\<close>, far from overflow and from the
  subnormal range. The sign of a zero is not kept.
\<close>

section \<open>Rounding\<close>

fun bitlen :: "nat \<Rightarrow> nat" where
  "bitlen n = (if n = 0 then 0 else Suc (bitlen (n div 2)))"

declare bitlen.simps [simp del]

definition pow2 :: "int \<Rightarrow> rat" where
  "pow2 e = 2 powi e"

definition ilog2 :: "rat \<Rightarrow> int" where
  "ilog2 x =
     (case quotient_of x of (a, b) \<Rightarrow>
        (let e = int (bitlen (nat a)) - int (bitlen (nat b))
         in if pow2 e \<le> x then e else e - 1))"

definition round_even :: "rat \<Rightarrow> int" where
  "round_even x =
     (let f = \<lfloor>x\<rfloor>; d = x - of_int f
      in if d < 1 / 2 then f else if 1 / 2 < d then f + 1 else if even f then f else f + 1)"

definition fl_pos :: "rat \<Rightarrow> rat" where
  "fl_pos x = (let e = ilog2 x - 52 in of_int (round_even (x / pow2 e)) * pow2 e)"

definition fl :: "rat \<Rightarrow> rat" where
  "fl x = (if x = 0 then 0 else if x < 0 then - fl_pos (- x) else fl_pos x)"

section \<open>Values and operations\<close>

datatype float64 = Fin rat | PosInf | NegInf | NaN

definition float_of_int :: "int \<Rightarrow> float64" where
  "float_of_int i = Fin (fl (of_int i))"

definition inf_sign :: "rat \<Rightarrow> float64" where
  "inf_sign x = (if x = 0 then NaN else if 0 < x then PosInf else NegInf)"

fun fdiv :: "float64 \<Rightarrow> float64 \<Rightarrow> float64" where
  "fdiv (Fin a) (Fin b) = (if b = 0 then inf_sign a else Fin (fl (a / b)))"
| "fdiv (Fin a) PosInf = Fin 0"
| "fdiv (Fin a) NegInf = Fin 0"
| "fdiv PosInf (Fin b) = (if 0 \<le> b then PosInf else NegInf)"
| "fdiv NegInf (Fin b) = (if 0 \<le> b then NegInf else PosInf)"
| "fdiv _ _ = NaN"

fun fmul :: "float64 \<Rightarrow> float64 \<Rightarrow> float64" where
  "fmul (Fin a) (Fin b) = Fin (fl (a * b))"
| "fmul PosInf (Fin b) = inf_sign b"
| "fmul (Fin a) PosInf = inf_sign a"
| "fmul NegInf (Fin b) = inf_sign (- b)"
| "fmul (Fin a) NegInf = inf_sign (- a)"
| "fmul PosInf PosInf = PosInf"
| "fmul NegInf NegInf = PosInf"
| "fmul PosInf NegInf = NegInf"
| "fmul NegInf PosInf = NegInf"
| "fmul _ _ = NaN"

fun fadd :: "float64 \<Rightarrow> float64 \<Rightarrow> float64" where
  "fadd (Fin a) (Fin b) = Fin (fl (a + b))"
| "fadd PosInf (Fin b) = PosInf"
| "fadd (Fin a) PosInf = PosInf"
| "fadd NegInf (Fin b) = NegInf"
| "fadd (Fin a) NegInf = NegInf"
| "fadd PosInf PosInf = PosInf"
| "fadd NegInf NegInf = NegInf"
| "fadd _ _ = NaN"

fun fless :: "float64 \<Rightarrow> float64 \<Rightarrow> bool" where
  "fless (Fin a) (Fin b) = (a < b)"
| "fless (Fin a) PosInf = True"
| "fless NegInf (Fin b) = True"
| "fless NegInf PosInf = True"
| "fless _ _ = False"

text \<open>The comparison \<open>==\<close>: a NaN differs from everything.\<close>

definition feq :: "float64 \<Rightarrow> float64 \<Rightarrow> bool" where
  "feq a b = (a \<noteq> NaN \<and> a = b)"

text \<open>\<open>int(f)\<close> truncates towards zero; the result for a value out of range is never used here.\<close>

fun int_of_float :: "float64 \<Rightarrow> int" where
  "int_of_float (Fin a) = (if 0 \<le> a then \<lfloor>a\<rfloor> else \<lceil>a\<rceil>)"
| "int_of_float _ = - (2 ^ 63)"

text \<open>\<open>Duration.Seconds()\<close>: whole seconds plus the rest over \<open>1e9\<close>; Go's \<open>/\<close> and \<open>%\<close> truncate.\<close>

definition Seconds :: "int \<Rightarrow> float64" where
  "Seconds d =
     (let sec = (if 0 \<le> d then d div 1000000000 else - (- d div 1000000000));
          nsec = d - sec * 1000000000
      in fadd (float_of_int sec) (fdiv (float_of_int nsec) (Fin 1000000000)))"

section \<open>The error of rounding\<close>

lemma bitlen_bounds: "0 < n \<Longrightarrow> 2 ^ (bitlen n - 1) \<le> n \<and> n < 2 ^ bitlen n \<and> 0 < bitlen n"
proof (induction n rule: bitlen.induct)
  case (1 n)
  show ?case
  proof (cases "n div 2 = 0")
    case True
    then have "n = 1" using 1 by auto
    then show ?thesis by (simp add: bitlen.simps)
  next
    case False
    have b: "bitlen n = Suc (bitlen (n div 2))" using 1(2) by (subst bitlen.simps) simp
    have IH: "2 ^ (bitlen (n div 2) - 1) \<le> n div 2" "n div 2 < 2 ^ bitlen (n div 2)" "0 < bitlen (n div 2)"
      using 1 False by auto
    have "(2 :: nat) ^ bitlen (n div 2) = 2 * 2 ^ (bitlen (n div 2) - 1)"
      using IH(3) by (cases "bitlen (n div 2)") simp_all
    then have "2 ^ bitlen (n div 2) \<le> n" using IH(1) by linarith
    moreover have "n < 2 * 2 ^ bitlen (n div 2)" using IH(2) by linarith
    ultimately show ?thesis by (simp add: b)
  qed
qed

lemma pow2_pos: "0 < pow2 e"
  by (simp add: pow2_def)

lemma pow2_add: "pow2 (a + b) = pow2 a * pow2 b"
  by (simp add: pow2_def power_int_add)

lemma pow2_nat: "pow2 (int n) = 2 ^ n"
  by (simp add: pow2_def)

lemma pow2_diff: "pow2 (int m - int n) = 2 ^ m / 2 ^ n"
  by (simp add: pow2_def power_int_diff)

lemma quotient_of_pos:
  assumes "0 < x" and "quotient_of x = (a, b)"
  shows "0 < a" and "0 < b" and "x = of_int a / of_int b"
proof -
  show b: "0 < b" and x: "x = of_int a / of_int b"
    using quotient_of_denom_pos [OF assms(2)] quotient_of_div [OF assms(2)] by auto
  then show "0 < a" using assms(1) by (simp add: zero_less_divide_iff)
qed

lemma frac_bounds:
  fixes p q :: nat
  assumes "0 < p" and "0 < q"
  shows "pow2 (int (bitlen p) - int (bitlen q) - 1) < of_nat p / of_nat q"
    and "of_nat p / of_nat q < pow2 (int (bitlen p) - int (bitlen q) + 1)"
proof -
  let ?m = "bitlen p" and ?n = "bitlen q"
  have p: "2 ^ (?m - 1) \<le> p" "p < 2 ^ ?m" "0 < ?m" and q: "2 ^ (?n - 1) \<le> q" "q < 2 ^ ?n" "0 < ?n"
    using bitlen_bounds [OF assms(1)] bitlen_bounds [OF assms(2)] by auto
  have P: "2 ^ (?m - 1) \<le> (of_nat p :: rat)" "of_nat p < (2 ^ ?m :: rat)"
    using p(1,2) by (metis of_nat_le_iff of_nat_numeral of_nat_power, metis of_nat_less_iff of_nat_numeral of_nat_power)
  have Q: "2 ^ (?n - 1) \<le> (of_nat q :: rat)" "of_nat q < (2 ^ ?n :: rat)"
    using q(1,2) by (metis of_nat_le_iff of_nat_numeral of_nat_power, metis of_nat_less_iff of_nat_numeral of_nat_power)
  have e1: "int ?m - int ?n - 1 = int (?m - 1) - int ?n" using p(3) by simp
  have "2 ^ (?m - 1) / 2 ^ ?n < (of_nat p :: rat) / of_nat q"
    using P(1) Q(2) assms by (intro frac_less2) auto
  then show "pow2 (int ?m - int ?n - 1) < of_nat p / of_nat q"
    unfolding e1 pow2_diff .
  have e2: "int ?m - int ?n + 1 = int ?m - int (?n - 1)" using q(3) by simp
  have "(of_nat p :: rat) / of_nat q < 2 ^ ?m / 2 ^ (?n - 1)"
    using P(2) Q(1) assms by (intro frac_less) auto
  then show "of_nat p / of_nat q < pow2 (int ?m - int ?n + 1)"
    unfolding e2 pow2_diff .
qed

lemma ilog2_bounds:
  assumes "0 < x"
  shows "pow2 (ilog2 x) \<le> x" and "x < pow2 (ilog2 x + 1)"
proof -
  obtain a b where ab: "quotient_of x = (a, b)" by fastforce
  note q = quotient_of_pos [OF assms ab]
  define e where "e = int (bitlen (nat a)) - int (bitlen (nat b))"
  have x: "x = of_nat (nat a) / of_nat (nat b)" using q by simp
  have "0 < nat a" "0 < nat b" using q by simp_all
  from frac_bounds [OF this] have f: "pow2 (e - 1) < x" "x < pow2 (e + 1)"
    unfolding x e_def by simp_all
  have i: "ilog2 x = (if pow2 e \<le> x then e else e - 1)"
    by (simp add: ilog2_def ab e_def Let_def)
  show "pow2 (ilog2 x) \<le> x" and "x < pow2 (ilog2 x + 1)"
    using f by (auto simp: i)
qed

lemma round_even_error: "\<bar>of_int (round_even x) - x\<bar> \<le> 1 / 2"
proof -
  have "of_int \<lfloor>x\<rfloor> \<le> x" "x < of_int \<lfloor>x\<rfloor> + 1" by linarith+
  then show ?thesis unfolding round_even_def Let_def abs_le_iff by (auto simp del: of_int_floor_le)
qed

text \<open>The relative error of a rounded positive value.\<close>

lemma fl_pos_error:
  assumes "0 < x"
  shows "\<bar>fl_pos x - x\<bar> \<le> x / 2 ^ 53"
proof -
  define e where "e = ilog2 x - 52"
  have p: "0 < pow2 e" by (rule pow2_pos)
  have "pow2 (e + 52) \<le> x" using ilog2_bounds(1) [OF assms] by (simp add: e_def)
  then have big: "pow2 e * 2 ^ 52 \<le> x" using pow2_add [of e 52] pow2_nat [of 52] by simp
  have "\<bar>fl_pos x - x\<bar> = \<bar>of_int (round_even (x / pow2 e)) - x / pow2 e\<bar> * pow2 e"
    using p by (simp add: fl_pos_def e_def [symmetric] Let_def abs_if field_simps)
  also have "\<dots> \<le> 1 / 2 * pow2 e"
    using round_even_error p by (intro mult_right_mono) auto
  also have "\<dots> \<le> x / 2 ^ 53" using big by simp
  finally show ?thesis .
qed

lemma fl_error: "\<bar>fl x - x\<bar> \<le> \<bar>x\<bar> / 2 ^ 53"
  using fl_pos_error [of x] fl_pos_error [of "- x"] by (auto simp: fl_def abs_if split: if_splits)

lemma fl_bounds:
  assumes "0 \<le> x"
  shows "x * (1 - 1 / 2 ^ 53) \<le> fl x" and "fl x \<le> x * (1 + 1 / 2 ^ 53)"
  using fl_error [of x] assms by (auto simp: abs_if algebra_simps split: if_splits)

lemma fl_nonneg: "0 \<le> x \<Longrightarrow> 0 \<le> fl x"
  using fl_bounds(1) [of x] by (auto intro: order_trans [rotated])

text \<open>An integer of at most 53 bits is exact.\<close>

lemma round_even_int: "round_even (of_int i) = i"
  by (simp add: round_even_def)

lemma fl_exact:
  assumes "\<bar>i\<bar> < 2 ^ 53"
  shows "fl (of_int i) = of_int i"
proof -
  have pos: "fl_pos (of_int j) = of_int j" if "0 < j" "j < 2 ^ 53" for j
  proof -
    let ?e = "ilog2 (of_int j) - 52"
    have "pow2 (ilog2 (of_int j)) < pow2 53"
      using ilog2_bounds(1) [of "of_int j"] that pow2_nat [of 53] by (simp add: le_less_trans)
    then have "ilog2 (of_int j) < 53" unfolding pow2_def using power_int_increasing [of 53 "ilog2 (of_int j)" "2 :: rat"]
      by (meson leD linorder_not_le one_le_numeral)
    then have e: "?e \<le> 0" by simp
    have "of_int j / pow2 ?e = of_int (j * 2 ^ nat (- ?e))"
      using e by (simp add: pow2_def power_int_def field_simps)
    then have "round_even (of_int j / pow2 ?e) = j * 2 ^ nat (- ?e)"
      by (simp only: round_even_int)
    then have "fl_pos (of_int j) = of_int j / pow2 ?e * pow2 ?e"
      using \<open>of_int j / pow2 ?e = of_int (j * 2 ^ nat (- ?e))\<close> by (simp only: fl_pos_def Let_def)
    then show ?thesis using pow2_pos [of ?e] by simp
  qed
  show ?thesis using pos [of i] pos [of "- i"] assms by (auto simp: fl_def)
qed

end
