(* ===== verification/Prelude.thy ===== *)
theory Prelude
  imports Main "HOL-Library.Word" "HOL-Library.Multiset"
begin

unbundle bit_operations_syntax

text \<open>
  Prelude of the development: the machine integers of Go and Crystal, the
  error values of Go (kept as the call that builds them: a format string and
  its arguments; the rendering to text by package fmt is not modelled),
  bytes and strings, and the word and list lemmas the component theories share.
\<close>

section \<open>Types\<close>

type_synonym byte = "8 word"
type_synonym u16 = "16 word"
type_synonym u32 = "32 word"
type_synonym u64 = "64 word"

text \<open>
  \<open>Errorf f args\<close> is \<open>fmt.Errorf(f, args...)\<close>; \<open>ErrEOF\<close> and
  \<open>ErrUnexpectedEOF\<close> are the two errors of \<open>io.ReadFull\<close>; \<open>ErrExt\<close> is an
  error handed over by code outside the repository (quic-go, net/url).
  \<open>Prefixed p e\<close> is the text \<open>p + e.Error()\<close>. A message built by \<open>fmt.Sprintf\<close> is kept
  in the same form, as a \<open>go_text\<close>.
\<close>

datatype go_error =
    Errorf string "go_val list"
  | ErrEOF
  | ErrUnexpectedEOF
  | ErrExt string
  | Prefixed string go_error
and go_val =
    VInt int
  | VStr string
  | VErr go_error

type_synonym go_text = go_error

text \<open>Go's \<open>int\<close> is 64 bits wide: products that may leave its range wrap.\<close>

definition wrap64 :: "int \<Rightarrow> int" where
  "wrap64 x = (x + 2 ^ 63) mod 2 ^ 64 - 2 ^ 63"

definition wrap32 :: "int \<Rightarrow> int" where
  "wrap32 x = (x + 2 ^ 31) mod 2 ^ 32 - 2 ^ 31"

lemma wrap64_id: "- (2 ^ 63) \<le> x \<Longrightarrow> x < 2 ^ 63 \<Longrightarrow> wrap64 x = x"
  by (simp add: wrap64_def)

lemma wrap32_id: "- (2 ^ 31) \<le> x \<Longrightarrow> x < 2 ^ 31 \<Longrightarrow> wrap32 x = x"
  by (simp add: wrap32_def)

section \<open>Lemma collections\<close>

named_theorems wire_simps \<open>the encoders and decoders of the wire formats\<close>
named_theorems len_simps \<open>lengths of encoded values\<close>
named_theorems sched_simps \<open>the step relations of the concurrent harness\<close>

section \<open>Bytes and words\<close>

definition string_bytes :: "string \<Rightarrow> byte list" where
  "string_bytes s = map (\<lambda>c. of_nat (of_char c)) s"

definition bytes_string :: "byte list \<Rightarrow> string" where
  "bytes_string bs = map (\<lambda>b. char_of (unat b)) bs"

lemma length_string_bytes [simp, len_simps]: "length (string_bytes s) = length s"
  by (simp add: string_bytes_def)

lemma length_bytes_string [simp]: "length (bytes_string bs) = length bs"
  by (simp add: bytes_string_def)

lemma unat_add_of_nat: "unat (x::u64) + n < 2 ^ 64 \<Longrightarrow> unat (x + of_nat n) = unat x + n"
  by (simp add: unat_word_ariths unat_of_nat take_bit_eq_mod)

lemma of_char_less_256: "(of_char c :: nat) < 256"
  using of_char_mod_256 [of c, where ?'a = nat] mod_less_divisor [of 256 "of_char c :: nat"]
  by linarith

lemma bytes_string_of_string_bytes [simp]: "bytes_string (string_bytes s) = s"
  by (induction s) (simp_all add: bytes_string_def string_bytes_def unat_of_nat
      of_char_less_256)

lemma byte_of_nat_mod [simp]: "word_of_nat (unat a mod 256) = (a :: byte)"
proof -
  have "unat a < 256" using unsigned_less [of a, where ?'a = nat] by simp
  then show ?thesis by simp
qed

lemma string_bytes_of_bytes_string [simp]: "string_bytes (bytes_string bs) = bs"
  by (induction bs) (simp_all add: bytes_string_def string_bytes_def)

lemma string_bytes_append [simp]: "string_bytes (s @ t) = string_bytes s @ string_bytes t"
  by (simp add: string_bytes_def)

text \<open>A word below \<open>2 ^ k\<close> has no bit at or above position \<open>k\<close>.\<close>

lemma word_less_take_bit:
  fixes v :: "'a::len word"
  assumes "v < 2 ^ k"
  shows "take_bit k v = v"
  using assms by (simp add: less_mask_eq take_bit_eq_mask)

lemma word_less_bit:
  fixes v :: "'a::len word"
  assumes "v < 2 ^ k" and "bit v n"
  shows "n < k"
proof -
  have "bit (take_bit k v) n"
    using assms by (simp add: word_less_take_bit)
  then show ?thesis by (simp add: bit_take_bit_iff)
qed

text \<open>
  Big-endian bytes: the byte at position \<open>k\<close> joined to what lies above it, and
  the two prefix bits of a variable-length integer.
\<close>

lemma byte_join:
  "push_bit 8 (drop_bit (k + 8) v) OR ucast (ucast (drop_bit k v) :: byte) = (drop_bit k v :: u64)"
proof (rule bit_word_eqI)
  fix n assume "n < LENGTH(64)"
  then show "bit (push_bit 8 (drop_bit (k + 8) v) OR ucast (ucast (drop_bit k v) :: byte)) n
      = bit (drop_bit k v) n"
    by (cases "n < 8") (auto simp: bit_simps not_less)
qed

lemma byte_mask_6: "(0x3f :: byte) = mask 6"
  by (simp add: mask_eq_decr_exp)

lemma prefix_low:
  assumes "x < 64" and "take_bit 6 p = 0"
  shows "(ucast ((p OR ucast x) AND 0x3f :: byte) :: u64) = x"
proof (rule bit_word_eqI)
  fix n assume "n < LENGTH(64)"
  have x: "n < 6" if "bit x n"
    using assms(1) that word_less_bit [of x 6 n] by simp
  have p: "\<not> bit p n" if "n < 6"
    using assms(2) that by (metis bit_take_bit_iff bit_0_eq bot_apply bot_bool_def)
  show "bit (ucast ((p OR ucast x) AND 0x3f :: byte) :: u64) n = bit x n"
    unfolding byte_mask_6 using x p by (auto simp: bit_simps)
qed

lemma prefix_high:
  assumes "x < (64 :: u64)"
  shows "drop_bit 6 (p OR ucast x :: byte) = drop_bit 6 p"
proof (rule bit_word_eqI)
  fix n assume "n < LENGTH(8)"
  have "\<not> bit x (6 + n)"
    using assms word_less_bit [of x 6 "6 + n"] by auto
  then show "bit (drop_bit 6 (p OR ucast x :: byte)) n = bit (drop_bit 6 p) n"
    by (simp add: bit_simps)
qed

lemma drop_bit_less_64:
  assumes "v < 2 ^ (k + 6)"
  shows "drop_bit k (v :: u64) < 64"
proof -
  have "take_bit 6 (drop_bit k v) = drop_bit k v"
    using word_less_take_bit [OF assms]
    by (metis add.commute drop_bit_take_bit add_diff_cancel_right' add_diff_cancel_left')
  moreover have "take_bit 6 (drop_bit k v) < 2 ^ 6"
    unfolding take_bit_eq_mask by (rule and_mask_less') simp
  ultimately show ?thesis by simp
qed

text \<open>Exact sums and shifts, and the two parts of a byte of a QPACK integer.\<close>

lemma unat_push_bit_exact:
  assumes "unat (x::u64) * 2 ^ m < 2 ^ 64"
  shows "unat (push_bit m x) = unat x * 2 ^ m"
proof -
  have "unat (push_bit m x) = take_bit 64 (push_bit m (unat x))"
    by (simp add: unsigned_push_bit_eq)
  then show ?thesis using assms by (simp add: push_bit_eq_mult take_bit_nat_eq_self)
qed

lemma byte_less_256: "unat (b :: byte) < 256"
  using unsigned_less [of b, where ?'a = nat] by simp

lemma unat_byte_and_127: "unat (b AND 127 :: byte) = unat b mod 128"
proof -
  have "(127 :: byte) = mask 7" by (simp add: mask_eq_decr_exp)
  then have "b AND 127 = take_bit 7 b" by (simp add: take_bit_eq_mask)
  then show ?thesis by (simp add: take_bit_eq_mod unat_mod)
qed

lemma byte_and_128: "(b AND 128 = 0) = (unat (b::byte) < 128)"
proof -
  have "(b AND 128 = 0) = (\<not> bit b 7)"
    using and_exp_eq_0_iff_not_bit [of b 7] by simp
  also have "bit b 7 = bit (unat b) 7" by (simp add: bit_unsigned_iff)
  also have "\<dots> = odd (unat b div 128)" by (simp add: bit_iff_odd)
  also have "\<dots> = (\<not> unat b < 128)"
  proof (cases "unat b < 128")
    case False
    then have "unat b div 128 = 1" using byte_less_256 [of b] by auto
    then show ?thesis using False by simp
  qed simp
  finally show ?thesis by simp
qed

lemma unat_ucast_byte: "unat (x :: u64) < 256 \<Longrightarrow> unat (ucast x :: byte) = unat x"
  by (simp add: unsigned_ucast_eq take_bit_nat_eq_self)

lemma unat_add_exact: "unat (a::u64) + unat b < 2 ^ 64 \<Longrightarrow> unat (a + b) = unat a + unat b"
  by (rule unat_add_lem [THEN iffD1]) simp

lemma unat_ucast_u64: "unat (ucast (b :: byte) :: u64) = unat b"
proof -
  have "unat b < 2 ^ 64" using byte_less_256 [of b] by simp
  then show ?thesis by (simp add: unsigned_ucast_eq take_bit_nat_eq_self)
qed

lemma take_bit_0_bit: "take_bit n x = 0 \<Longrightarrow> k < n \<Longrightarrow> \<not> bit x k"
  by (metis bit_take_bit_iff bit_0_eq bot_apply bot_bool_def)

section \<open>Reading from a byte source\<close>

text \<open>
  \<open>io.ReadFull(r, make([]byte, n))\<close>: the bytes read, the error, and what is
  left of the source.
\<close>

definition ReadFull :: "byte list \<Rightarrow> nat \<Rightarrow> byte list \<times> go_error option \<times> byte list" where
  "ReadFull r n =
     (if n \<le> length r then (take n r, None, drop n r)
      else (r, Some (if r = [] then ErrEOF else ErrUnexpectedEOF), []))"

lemma ReadFull_append [simp]: "n = length xs \<Longrightarrow> ReadFull (xs @ ys) n = (xs, None, ys)"
  by (simp add: ReadFull_def)

lemma ReadFull_0 [simp]: "ReadFull r 0 = ([], None, r)"
  by (simp add: ReadFull_def)

lemma ReadFull_Cons_1 [simp]: "ReadFull (b # r) (Suc 0) = ([b], None, r)"
  by (simp add: ReadFull_def)

lemma ReadFull_Nil_1 [simp]: "ReadFull [] (Suc 0) = ([], Some ErrEOF, [])"
  by (simp add: ReadFull_def)

lemma ReadFull_rest: "ReadFull r n = (xs, e, r') \<Longrightarrow> length r' \<le> length r"
  by (auto simp: ReadFull_def split: if_splits)

lemma ReadFull_Some_rest: "ReadFull r n = (xs, Some e, r') \<Longrightarrow> r' = []"
  by (auto simp: ReadFull_def split: if_splits)

text \<open>A number in decimal, as both languages print it\<close>

fun show_nat :: "nat \<Rightarrow> string" where
  "show_nat n =
     (if n < 10 then [char_of (48 + n)] else show_nat (n div 10) @ [char_of (48 + n mod 10)])"

declare show_nat.simps [simp del]

end
