(* ===== verification/Go_Stats.thy ===== *)
theory Go_Stats
  imports Go_Float Prelude
begin

text \<open>
  The statistics of the benchmark programs: percentiles and means of latencies
  (\<open>time.Duration\<close>, nanoseconds in an \<open>int64\<close>). bench_concurrent, bench_3way, bench_h3,
  bench_qpack and stress_test each carry a copy of the same two functions; \<open>pct\<close> and
  \<open>avgDur\<close> model them. The index is computed in floating point, so that it is in
  range at all is a fact about rounding, proved here.
\<close>

section \<open>Percentile and mean\<close>

definition p50 :: float64 where "p50 = Fin (fl (50 / 100))"
definition p95 :: float64 where "p95 = Fin (fl (95 / 100))"
definition p99 :: float64 where "p99 = Fin (fl (99 / 100))"
definition p999 :: float64 where "p999 = Fin (fl (999 / 1000))"

definition pct_index :: "nat \<Rightarrow> float64 \<Rightarrow> int" where
  "pct_index n p = int_of_float (fmul (float_of_int (int n)) p)"

text \<open>
  \<open>lats[idx]\<close> panics out of range: \<open>None\<close>. A negative index, or one at or beyond the
  length after the clamp, is such a panic.
\<close>

definition slice_get :: "'a list \<Rightarrow> int \<Rightarrow> 'a option" where
  "slice_get xs i = (if 0 \<le> i \<and> i < int (length xs) then Some (xs ! nat i) else None)"

definition pct :: "int list \<Rightarrow> float64 \<Rightarrow> int option" where
  "pct lats p =
     (if length lats = 0 then Some 0
      else
        (let idx = pct_index (length lats) p;
             idx = (if int (length lats) \<le> idx then int (length lats) - 1 else idx)
         in slice_get lats idx))"

text \<open>The sum wraps at 64 bits; \<open>/\<close> truncates towards zero.\<close>

definition quot :: "int \<Rightarrow> int \<Rightarrow> int" where
  "quot a b = (if 0 \<le> a then a div b else - (- a div b))"

definition avgDur :: "int list \<Rightarrow> int" where
  "avgDur lats =
     (if length lats = 0 then 0
      else quot (foldl (\<lambda>s l. wrap64 (s + l)) 0 lats) (int (length lats)))"

section \<open>The index\<close>

lemma const_bounds:
  assumes "0 \<le> x"
  shows "x * (1 - 1 / 2 ^ 53) \<le> fl x" and "fl x \<le> x * (1 + 1 / 2 ^ 53)"
  using fl_bounds [OF assms] by auto

lemma pct_index_eq:
  assumes "n < 2 ^ 53" and "0 \<le> q"
  shows "pct_index n (Fin q) = \<lfloor>fl (of_nat n * q)\<rfloor>"
proof -
  have "fl (of_int (int n)) = of_int (int n)" using assms(1) by (intro fl_exact) simp
  then show ?thesis
    using fl_nonneg [of "of_nat n * q"] assms(2) by (simp add: pct_index_def float_of_int_def)
qed

lemma pct_index_less:
  assumes "0 < n" and "n < 2 ^ 53" and "0 \<le> q" and "q * (1 + 1 / 2 ^ 53) < 1"
  shows "0 \<le> pct_index n (Fin q)" and "pct_index n (Fin q) < int n"
proof -
  have "0 \<le> fl (of_nat n * q)" using assms(3) by (intro fl_nonneg) simp
  then show "0 \<le> pct_index n (Fin q)" using pct_index_eq [OF assms(2,3)] by simp
  have "fl (of_nat n * q) \<le> of_nat n * q * (1 + 1 / 2 ^ 53)" using assms(3) by (intro fl_bounds(2)) simp
  also have "\<dots> < of_nat n * 1"
    using assms(1,4) unfolding mult.assoc by (intro mult_strict_left_mono) simp_all
  finally show "pct_index n (Fin q) < int n"
    using pct_index_eq [OF assms(2,3)] by (simp add: floor_less_iff)
qed

lemma pct_index_mono:
  assumes "n < 2 ^ 53" and "0 \<le> q" and "0 \<le> r" and "q * (1 + 1 / 2 ^ 53) \<le> r * (1 - 1 / 2 ^ 53)"
  shows "pct_index n (Fin q) \<le> pct_index n (Fin r)"
proof -
  have "fl (of_nat n * q) \<le> of_nat n * (q * (1 + 1 / 2 ^ 53))"
    using fl_bounds(2) [of "of_nat n * q"] assms(2) by (simp add: mult.assoc)
  also have "\<dots> \<le> of_nat n * (r * (1 - 1 / 2 ^ 53))"
    using assms(4) by (intro mult_left_mono) simp_all
  also have "\<dots> \<le> fl (of_nat n * r)"
    using fl_bounds(1) [of "of_nat n * r"] assms(3) by (simp add: mult.assoc)
  finally show ?thesis using pct_index_eq assms by (simp add: floor_mono)
qed

text \<open>The four percentiles the programs ask for.\<close>

lemma percentile_consts:
  "0 \<le> fl (50 / 100)" "0 \<le> fl (95 / 100)" "0 \<le> fl (99 / 100)" "0 \<le> fl (999 / 1000)"
  by (intro fl_nonneg; simp)+

lemma percentile_less_1:
  "fl (50 / 100) * (1 + 1 / 2 ^ 53) < 1" "fl (95 / 100) * (1 + 1 / 2 ^ 53) < 1"
  "fl (99 / 100) * (1 + 1 / 2 ^ 53) < 1" "fl (999 / 1000) * (1 + 1 / 2 ^ 53) < 1"
  using const_bounds(2) [of "50 / 100"] const_bounds(2) [of "95 / 100"]
    const_bounds(2) [of "99 / 100"] const_bounds(2) [of "999 / 1000"] by simp_all

lemma percentile_steps:
  "fl (50 / 100) * (1 + 1 / 2 ^ 53) \<le> fl (95 / 100) * (1 - 1 / 2 ^ 53)"
  "fl (95 / 100) * (1 + 1 / 2 ^ 53) \<le> fl (99 / 100) * (1 - 1 / 2 ^ 53)"
  "fl (99 / 100) * (1 + 1 / 2 ^ 53) \<le> fl (999 / 1000) * (1 - 1 / 2 ^ 53)"
  using const_bounds [of "50 / 100"] const_bounds [of "95 / 100"]
    const_bounds [of "99 / 100"] const_bounds [of "999 / 1000"] by simp_all

lemmas percentile_index_range =
  pct_index_less [OF _ _ percentile_consts(1) percentile_less_1(1), folded p50_def]
  pct_index_less [OF _ _ percentile_consts(2) percentile_less_1(2), folded p95_def]
  pct_index_less [OF _ _ percentile_consts(3) percentile_less_1(3), folded p99_def]
  pct_index_less [OF _ _ percentile_consts(4) percentile_less_1(4), folded p999_def]

lemmas percentile_index_mono =
  pct_index_mono [OF _ percentile_consts(1,2) percentile_steps(1), folded p50_def p95_def]
  pct_index_mono [OF _ percentile_consts(2,3) percentile_steps(2), folded p95_def p99_def]
  pct_index_mono [OF _ percentile_consts(3,4) percentile_steps(3), folded p99_def p999_def]

section \<open>Percentiles of a sorted list\<close>

lemma pct_in_range:
  assumes "lats \<noteq> []" and "0 \<le> pct_index (length lats) p" and "pct_index (length lats) p < int (length lats)"
  shows "pct lats p = Some (lats ! nat (pct_index (length lats) p))"
  using assms by (simp add: pct_def slice_get_def Let_def)

lemma pct_values:
  assumes "lats \<noteq> []" and "length lats < 2 ^ 53"
  shows "pct lats p50 = Some (lats ! nat (pct_index (length lats) p50))"
    and "pct lats p95 = Some (lats ! nat (pct_index (length lats) p95))"
    and "pct lats p99 = Some (lats ! nat (pct_index (length lats) p99))"
    and "pct lats p999 = Some (lats ! nat (pct_index (length lats) p999))"
proof -
  have l: "0 < length lats" using assms(1) by simp
  note r = percentile_index_range [OF l assms(2)]
  show "pct lats p50 = Some (lats ! nat (pct_index (length lats) p50))" by (rule pct_in_range [OF assms(1) r(1,2)])
  show "pct lats p95 = Some (lats ! nat (pct_index (length lats) p95))" by (rule pct_in_range [OF assms(1) r(3,4)])
  show "pct lats p99 = Some (lats ! nat (pct_index (length lats) p99))" by (rule pct_in_range [OF assms(1) r(5,6)])
  show "pct lats p999 = Some (lats ! nat (pct_index (length lats) p999))" by (rule pct_in_range [OF assms(1) r(7,8)])
qed

lemma sorted_pct_order:
  assumes "sorted lats" and "lats \<noteq> []" and "length lats < 2 ^ 53"
  obtains a b c d where "pct lats p50 = Some a" and "pct lats p95 = Some b" and "pct lats p99 = Some c"
    and "pct lats p999 = Some d" and "hd lats \<le> a" and "a \<le> b" and "b \<le> c" and "c \<le> d" and "d \<le> last lats"
    and "{a, b, c, d} \<subseteq> set lats"
proof -
  let ?n = "length lats"
  have l: "0 < ?n" using assms(2) by simp
  note r = percentile_index_range [OF l assms(3)] and m = percentile_index_mono [OF assms(3)]
  have nth: "lats ! nat i \<le> lats ! nat j" if "0 \<le> i" "i \<le> j" "j < int ?n" for i j
    using sorted_nth_mono [OF assms(1), of "nat i" "nat j"] that by auto
  have "hd lats \<le> lats ! nat (pct_index ?n p50)"
    using nth [of 0 "pct_index ?n p50"] r(1,2) assms(2) by (simp add: hd_conv_nth)
  moreover have "lats ! nat (pct_index ?n p999) \<le> last lats"
    using nth [of "pct_index ?n p999" "int ?n - 1"] r(7,8) assms(2)
    by (simp add: last_conv_nth nat_diff_distrib)
  moreover have "{lats ! nat (pct_index ?n p50), lats ! nat (pct_index ?n p95), lats ! nat (pct_index ?n p99),
      lats ! nat (pct_index ?n p999)} \<subseteq> set lats"
    using r by (auto intro!: nth_mem)
  ultimately show ?thesis
    using that [OF pct_values [OF assms(2,3)]] nth [OF r(1) m(1) r(4)] nth [OF r(3) m(2) r(6)]
      nth [OF r(5) m(3) r(8)] by blast
qed

section \<open>Means\<close>

lemma sum_wrap:
  assumes "\<forall>l\<in>set lats. 0 \<le> l" and "0 \<le> s" and "s + sum_list lats < 2 ^ 63"
  shows "foldl (\<lambda>s l. wrap64 (s + l)) s lats = s + sum_list lats"
  using assms
proof (induction lats arbitrary: s)
  case (Cons l lats)
  have "0 \<le> sum_list lats" using Cons.prems by (intro sum_list_nonneg) auto
  then have "wrap64 (s + l) = s + l" using Cons.prems by (intro wrap64_id) auto
  then show ?case using Cons by (simp add: add.assoc)
qed simp

lemma avgDur_eq:
  assumes "\<forall>l\<in>set lats. 0 \<le> l" and "sum_list lats < 2 ^ 63" and "lats \<noteq> []"
  shows "avgDur lats = sum_list lats div int (length lats)"
proof -
  have "0 \<le> sum_list lats" using assms(1) by (intro sum_list_nonneg) auto
  then show ?thesis using assms sum_wrap [OF assms(1), of 0] by (simp add: avgDur_def quot_def)
qed

lemma sum_list_bounds:
  fixes xs :: "int list"
  assumes "\<forall>x\<in>set xs. a \<le> x \<and> x \<le> b"
  shows "int (length xs) * a \<le> sum_list xs" and "sum_list xs \<le> int (length xs) * b"
  using assms by (induction xs) (auto simp: algebra_simps)

lemma avgDur_bounds:
  assumes "\<forall>l\<in>set lats. a \<le> l \<and> l \<le> b" and "0 \<le> a" and "sum_list lats < 2 ^ 63" and "lats \<noteq> []"
  shows "a \<le> avgDur lats" and "avgDur lats \<le> b"
proof -
  have l: "0 < int (length lats)" using assms(4) by simp
  have e: "avgDur lats = sum_list lats div int (length lats)"
    using assms by (intro avgDur_eq) auto
  have "int (length lats) * a div int (length lats) \<le> sum_list lats div int (length lats)"
    using l sum_list_bounds(1) [OF assms(1)] by (intro zdiv_mono1) auto
  then show "a \<le> avgDur lats" using e l by simp
  have "sum_list lats div int (length lats) \<le> int (length lats) * b div int (length lats)"
    using l sum_list_bounds(2) [OF assms(1)] by (intro zdiv_mono1) auto
  then show "avgDur lats \<le> b" using e l by simp
qed

end
