(* ===== verification/Go_Http.thy ===== *)
theory Go_Http
  imports Prelude
begin

text \<open>
  What the Go clients use of package net/http and strings, and the check helpers
  and \<open>doRequest\<close> of bench/go_client/main.go. The transport (quic-go's
  \<open>http3.Transport\<close> behind \<open>http.Client.Do\<close>) and the URL parser are arguments: a
  \<open>client\<close> maps the number of a call and its request to an error or a response, so
  that two equal requests may be answered differently.
\<close>

section \<open>Package strings\<close>

fun contains :: "string \<Rightarrow> string \<Rightarrow> bool" where
  "contains s sub = (take (length sub) s = sub \<or> (case s of [] \<Rightarrow> False | _ # t \<Rightarrow> contains t sub))"

declare contains.simps [simp del]

lemma contains_iff: "contains s sub \<longleftrightarrow> (\<exists>p q. s = p @ sub @ q)"
proof (induction s)
  case Nil
  then show ?case by (auto simp: contains.simps)
next
  case (Cons c s)
  have "take (length sub) (c # s) = sub \<longleftrightarrow> (\<exists>q. c # s = sub @ q)"
    by (metis append_eq_conv_conj append_take_drop_id)
  then show ?case
    using Cons by (subst contains.simps) (auto simp: Cons_eq_append_conv)
qed

lemma contains_refl [simp]: "contains s s"
  unfolding contains_iff by (rule exI [of _ "[]"], rule exI [of _ "[]"]) simp

lemma contains_append1: "contains s sub \<Longrightarrow> contains (s @ t) sub"
  unfolding contains_iff by (metis append.assoc)

lemma contains_append2: "contains t sub \<Longrightarrow> contains (s @ t) sub"
  unfolding contains_iff by (metis append.assoc)

definition Repeat :: "string \<Rightarrow> nat \<Rightarrow> string" where
  "Repeat s n = concat (replicate n s)"

lemma length_Repeat [simp]: "length (Repeat s n) = n * length s"
  by (induction n) (simp_all add: Repeat_def)

lemma Repeat_single: "Repeat [c] n = replicate n c"
  by (induction n) (simp_all add: Repeat_def)

text \<open>The non-ASCII characters of the messages, in UTF-8, and decimal numbers (\<open>%d\<close>).\<close>

definition arrow :: string where "arrow = [CHR 0xE2, CHR 0x86, CHR 0x92]"
definition times_sign :: string where "times_sign = [CHR 0xC3, CHR 0x97]"
definition em_dash :: string where "em_dash = [CHR 0xE2, CHR 0x80, CHR 0x94]"
definition section_sign :: string where "section_sign = [CHR 0xC2, CHR 0xA7]"

definition show_int :: "int \<Rightarrow> string" where
  "show_int i = (if i < 0 then ''-'' @ show_nat (nat (- i)) else show_nat (nat i))"

definition ellipsis :: string where
  "ellipsis = [CHR 0xE2, CHR 0x80, CHR 0xA6]"

definition truncate_str :: "string \<Rightarrow> nat \<Rightarrow> string" where
  "truncate_str s n = (if length s \<le> n then s else take n s @ ellipsis)"

lemma length_truncate_str: "length (truncate_str s n) \<le> n + 3"
  by (simp add: truncate_str_def ellipsis_def)

text \<open>The UTF-8 encodings of the characters \<open>unicode.IsSpace\<close> accepts.\<close>

definition space_seqs :: "string list" where
  "space_seqs =
     [[CHR 0x09], [CHR 0x0A], [CHR 0x0B], [CHR 0x0C], [CHR 0x0D], [CHR 0x20],
      [CHR 0xC2, CHR 0x85], [CHR 0xC2, CHR 0xA0], [CHR 0xE1, CHR 0x9A, CHR 0x80],
      [CHR 0xE2, CHR 0x80, CHR 0x80], [CHR 0xE2, CHR 0x80, CHR 0x81], [CHR 0xE2, CHR 0x80, CHR 0x82],
      [CHR 0xE2, CHR 0x80, CHR 0x83], [CHR 0xE2, CHR 0x80, CHR 0x84], [CHR 0xE2, CHR 0x80, CHR 0x85],
      [CHR 0xE2, CHR 0x80, CHR 0x86], [CHR 0xE2, CHR 0x80, CHR 0x87], [CHR 0xE2, CHR 0x80, CHR 0x88],
      [CHR 0xE2, CHR 0x80, CHR 0x89], [CHR 0xE2, CHR 0x80, CHR 0x8A], [CHR 0xE2, CHR 0x80, CHR 0xA8],
      [CHR 0xE2, CHR 0x80, CHR 0xA9], [CHR 0xE2, CHR 0x80, CHR 0xAF], [CHR 0xE2, CHR 0x81, CHR 0x9F],
      [CHR 0xE3, CHR 0x80, CHR 0x80]]"

lemma find_prefix_shorter:
  assumes "find (\<lambda>w. w \<noteq> [] \<and> take (length w) s = w) ws = Some w"
  shows "length (drop (length w) s) < length s"
proof -
  have "w \<noteq> []" and "take (length w) s = w" using assms by (auto simp: find_Some_iff)
  then show ?thesis by (cases s) auto
qed

function strip :: "string list \<Rightarrow> string \<Rightarrow> string" where
  "strip ws s =
     (case find (\<lambda>w. w \<noteq> [] \<and> take (length w) s = w) ws of
        Some w \<Rightarrow> strip ws (drop (length w) s)
      | None \<Rightarrow> s)"
  by pat_completeness auto
termination
  by (relation "measure (\<lambda>(ws, s). length s)") (simp_all add: find_prefix_shorter del: length_drop)

declare strip.simps [simp del]

definition TrimSpace :: "string \<Rightarrow> string" where
  "TrimSpace s = rev (strip (map rev space_seqs) (rev (strip space_seqs s)))"

text \<open>\<open>strings.Split\<close> at a one-byte separator.\<close>

fun splitOn :: "char \<Rightarrow> string \<Rightarrow> string list" where
  "splitOn d [] = [[]]"
| "splitOn d (c # s) =
     (if c = d then [] # splitOn d s
      else (case splitOn d s of w # ws \<Rightarrow> (c # w) # ws | [] \<Rightarrow> [[c]]))"

lemma splitOn_plain: "d \<notin> set s \<Longrightarrow> splitOn d s = [s]"
  by (induction s) auto

lemma splitOn_head: "d \<notin> set s \<Longrightarrow> splitOn d (s @ d # t) = s # splitOn d t"
  by (induction s) auto

definition hexval :: "char \<Rightarrow> nat option" where
  "hexval c =
     (let n = of_char c :: nat
      in if 48 \<le> n \<and> n \<le> 57 then Some (n - 48) else if 97 \<le> n \<and> n \<le> 102 then Some (n - 87)
         else if 65 \<le> n \<and> n \<le> 70 then Some (n - 55) else None)"

section \<open>Headers\<close>

text \<open>
  \<open>http.Header\<close> maps canonical names to lists of values. A name with a byte
  that no token may have is its own canonical form.
\<close>

type_synonym http_header = "string \<rightharpoonup> string list"

definition token_byte :: "char \<Rightarrow> bool" where
  "token_byte c =
     (let n = (of_char c :: nat)
      in 48 \<le> n \<and> n \<le> 57 \<or> 65 \<le> n \<and> n \<le> 90 \<or> 97 \<le> n \<and> n \<le> 122 \<or>
         c \<in> set ''!#$%&*+-.^_`|~'' \<or> n = 39)"

definition upper_byte :: "char \<Rightarrow> char" where
  "upper_byte c = (let n = (of_char c :: nat) in if 97 \<le> n \<and> n \<le> 122 then char_of (n - 32) else c)"

definition lower_byte :: "char \<Rightarrow> char" where
  "lower_byte c = (let n = (of_char c :: nat) in if 65 \<le> n \<and> n \<le> 90 then char_of (n + 32) else c)"

fun canonical_bytes :: "bool \<Rightarrow> string \<Rightarrow> string" where
  "canonical_bytes upper [] = []"
| "canonical_bytes upper (c # cs) =
     (if upper then upper_byte c else lower_byte c) # canonical_bytes (c = CHR ''-'') cs"

definition CanonicalMIMEHeaderKey :: "string \<Rightarrow> string" where
  "CanonicalMIMEHeaderKey s = (if list_all token_byte s then canonical_bytes True s else s)"

definition Header_Get :: "http_header \<Rightarrow> string \<Rightarrow> string" where
  "Header_Get h key =
     (case h (CanonicalMIMEHeaderKey key) of Some (v # _) \<Rightarrow> v | _ \<Rightarrow> [])"

definition Header_Set :: "http_header \<Rightarrow> string \<Rightarrow> string \<Rightarrow> http_header" where
  "Header_Set h key v = h(CanonicalMIMEHeaderKey key \<mapsto> [v])"

lemma Header_Get_Set:
  "Header_Get (Header_Set h k v) k' =
     (if CanonicalMIMEHeaderKey k' = CanonicalMIMEHeaderKey k then v else Header_Get h k')"
  by (simp add: Header_Get_def Header_Set_def)

section \<open>Requests and responses\<close>

record http_request =
  rq_method :: string
  rq_url :: string
  rq_body :: "string option"
  rq_header :: http_header
  rq_timeout :: int

text \<open>A response: \<open>io.ReadAll\<close> of its body gives the bytes and, on failure, an error.\<close>

record http_response =
  StatusCode :: int
  rs_body :: string
  rs_readErr :: "go_error option"
  rs_header :: http_header

record client =
  cl_parse :: "string \<Rightarrow> go_error option"
  cl_do :: "nat \<Rightarrow> http_request \<Rightarrow> go_error + http_response"

definition valid_method :: "string \<Rightarrow> bool" where
  "valid_method m = (m \<noteq> [] \<and> list_all token_byte m)"

definition NewRequestWithContext ::
    "client \<Rightarrow> int \<Rightarrow> string \<Rightarrow> string \<Rightarrow> string option \<Rightarrow> go_error + http_request" where
  "NewRequestWithContext c tmo method url body =
     (let method = (if method = [] then ''GET'' else method)
      in if \<not> valid_method method then Inl (Errorf ''net/http: invalid method %q'' [VStr method])
         else (case cl_parse c url of
                 Some e \<Rightarrow> Inl e
               | None \<Rightarrow> Inr \<lparr>rq_method = method, rq_url = url, rq_body = body,
                              rq_header = Map.empty, rq_timeout = tmo\<rparr>))"

section \<open>Test cases\<close>

record testCase =
  tc_name :: string
  tc_method :: string
  tc_path :: string
  tc_body :: string
  tc_headers :: "(string \<times> string) list"
  tc_timeout :: int
  tc_check :: "int \<Rightarrow> string \<Rightarrow> http_header \<Rightarrow> go_error option"

definition Second :: int where "Second = 1000000000"
definition Millisecond :: int where "Millisecond = 1000000"

definition doRequest :: "client \<Rightarrow> nat \<Rightarrow> string \<Rightarrow> testCase \<Rightarrow> go_error option" where
  "doRequest c k base tc =
     (let tmo = (if tc_timeout tc = 0 then 20 * Second else tc_timeout tc);
          reqBody = (if tc_body tc \<noteq> [] then Some (tc_body tc) else None)
      in case NewRequestWithContext c tmo (tc_method tc) (base @ tc_path tc) reqBody of
           Inl err \<Rightarrow> Some err
         | Inr req \<Rightarrow>
             (let req = req\<lparr>rq_header := foldl (\<lambda>h (k, v). Header_Set h k v) (rq_header req)
                                            (tc_headers tc)\<rparr>
              in case cl_do c k req of
                   Inl err \<Rightarrow> Some err
                 | Inr resp \<Rightarrow>
                     (case rs_readErr resp of
                        Some readErr \<Rightarrow>
                          Some (Errorf ''body read error after %d bytes: %w''
                                  [VInt (int (length (rs_body resp))), VErr readErr])
                      | None \<Rightarrow> tc_check tc (StatusCode resp) (rs_body resp) (rs_header resp))))"

section \<open>Check helpers\<close>

definition expectStatus :: "int \<Rightarrow> int \<Rightarrow> string \<Rightarrow> http_header \<Rightarrow> go_error option" where
  "expectStatus want status body headers =
     (if status \<noteq> want then Some (Errorf ''expected status %d, got %d'' [VInt want, VInt status])
      else None)"

definition expectStatusBody ::
    "int \<Rightarrow> string \<Rightarrow> int \<Rightarrow> string \<Rightarrow> http_header \<Rightarrow> go_error option" where
  "expectStatusBody wantStatus wantBodyContains status body headers =
     (if status \<noteq> wantStatus then
        Some (Errorf ''expected status %d, got %d'' [VInt wantStatus, VInt status])
      else if \<not> contains body wantBodyContains then
        Some (Errorf ''body %q does not contain %q''
                [VStr (truncate_str body 80), VStr wantBodyContains])
      else None)"

definition expectBodyLen :: "int \<Rightarrow> nat \<Rightarrow> int \<Rightarrow> string \<Rightarrow> http_header \<Rightarrow> go_error option" where
  "expectBodyLen wantStatus minLen status body headers =
     (if status \<noteq> wantStatus then
        Some (Errorf ''expected status %d, got %d'' [VInt wantStatus, VInt status])
      else if length body < minLen then
        Some (Errorf ''expected body >= %d bytes, got %d''
                [VInt (int minLen), VInt (int (length body))])
      else None)"

text \<open>\<open>sha256hex\<close>: the digest is an argument (crypto/sha256), the rendering is hex.\<close>

definition hex_digit :: "nat \<Rightarrow> char" where
  "hex_digit n = ''0123456789abcdef'' ! n"

definition EncodeToString :: "byte list \<Rightarrow> string" where
  "EncodeToString bs = concat (map (\<lambda>b. [hex_digit (unat b div 16), hex_digit (unat b mod 16)]) bs)"

definition sha256hex :: "(byte list \<Rightarrow> byte list) \<Rightarrow> string \<Rightarrow> string" where
  "sha256hex Sum256 s = EncodeToString (Sum256 (string_bytes s))"

lemma length_EncodeToString [simp]: "length (EncodeToString bs) = 2 * length bs"
  by (induction bs) (simp_all add: EncodeToString_def)

lemma doRequest_None_iff:
  assumes "valid_method (tc_method tc)" and "cl_parse c (base @ tc_path tc) = None"
  shows "doRequest c k base tc = None \<longleftrightarrow>
    (\<exists>resp. cl_do c k \<lparr>rq_method = tc_method tc, rq_url = base @ tc_path tc,
              rq_body = (if tc_body tc \<noteq> [] then Some (tc_body tc) else None),
              rq_header = foldl (\<lambda>h (k, v). Header_Set h k v) Map.empty (tc_headers tc),
              rq_timeout = (if tc_timeout tc = 0 then 20 * Second else tc_timeout tc)\<rparr> = Inr resp \<and>
            rs_readErr resp = None \<and>
            tc_check tc (StatusCode resp) (rs_body resp) (rs_header resp) = None)"
  using assms by (auto simp: doRequest_def NewRequestWithContext_def valid_method_def Let_def
      split: sum.splits option.splits)

end
