(* ===== verification/Go_Wire.thy ===== *)
theory Go_Wire
  imports Prelude
begin

text \<open>
  The wire helpers of the Go clients: QUIC variable-length integers and HTTP/3
  frames in bench/go_client/main.go (\<open>readVarInt\<close>, \<open>writeVarInt\<close>,
  \<open>readH3Frame\<close>, \<open>encodeH3Request\<close>, the control-stream parser of
  \<open>testGoawayAndControlStream\<close>) and in bench/go_client/cross_test/main.go
  (\<open>appendVarInt\<close>, \<open>h3Frame\<close>, \<open>minimalQPACKHeaders\<close>).
\<close>

section \<open>Variable-length integers\<close>

definition readVarInt :: "byte list \<Rightarrow> u64 \<times> go_error option \<times> byte list" where
  "readVarInt r =
     (case ReadFull r 1 of
        (_, Some e, r1) \<Rightarrow> (0, Some e, r1)
      | (b, None, r1) \<Rightarrow>
          (let pfx = drop_bit 6 (b ! 0);
               val = (ucast (b ! 0 AND 0x3f) :: u64)
           in case ReadFull r1 (2 ^ unat pfx - 1) of
                (_, Some e, r2) \<Rightarrow> (0, Some e, r2)
              | (extra, None, r2) \<Rightarrow>
                  (foldl (\<lambda>val e. push_bit 8 val OR ucast e) val extra, None, r2)))"

definition writeVarInt :: "u64 \<Rightarrow> byte list" where
  "writeVarInt v =
     (if v < 0x40 then [ucast v]
      else if v < 0x4000 then [0x40 OR ucast (drop_bit 8 v), ucast v]
      else if v < 0x40000000 then
        [0x80 OR ucast (drop_bit 24 v), ucast (drop_bit 16 v), ucast (drop_bit 8 v), ucast v]
      else
        [0xc0 OR ucast (drop_bit 56 v), ucast (drop_bit 48 v), ucast (drop_bit 40 v),
         ucast (drop_bit 32 v), ucast (drop_bit 24 v), ucast (drop_bit 16 v),
         ucast (drop_bit 8 v), ucast v])"

definition appendVarInt :: "byte list \<Rightarrow> u64 \<Rightarrow> byte list" where
  "appendVarInt b v =
     (if v < 64 then b @ [ucast v]
      else if v < 16384 then b @ [ucast (drop_bit 8 v) OR 0x40, ucast v]
      else if v < 1073741824 then
        b @ [ucast (drop_bit 24 v) OR 0x80, ucast (drop_bit 16 v), ucast (drop_bit 8 v), ucast v]
      else
        b @ [ucast (drop_bit 56 v) OR 0xC0, ucast (drop_bit 48 v), ucast (drop_bit 40 v),
             ucast (drop_bit 32 v), ucast (drop_bit 24 v), ucast (drop_bit 16 v),
             ucast (drop_bit 8 v), ucast v])"

section \<open>HTTP/3 frames\<close>

text \<open>
  \<open>make([]byte, length)\<close> panics when the length exceeds the largest
  allocation, \<open>2 ^ 48\<close> bytes on 64-bit Linux.
\<close>

datatype 'a go_result = Ret 'a | Panic string

definition makeslice_max :: nat where
  "makeslice_max = 2 ^ 48"

definition readH3Frame ::
    "byte list \<Rightarrow> (u64 \<times> byte list \<times> go_error option \<times> byte list) go_result" where
  "readH3Frame r =
     (case readVarInt r of
        (_, Some e, r1) \<Rightarrow> Ret (0, [], Some e, r1)
      | (ftype, None, r1) \<Rightarrow>
          (case readVarInt r1 of
             (_, Some e, r2) \<Rightarrow> Ret (0, [], Some e, r2)
           | (len, None, r2) \<Rightarrow>
               if makeslice_max < unat len then Panic ''makeslice: len out of range''
               else (case ReadFull r2 (unat len) of
                       (_, Some e, r3) \<Rightarrow> Ret (0, [], Some e, r3)
                     | (payload, None, r3) \<Rightarrow> Ret (ftype, payload, None, r3))))"

definition h3Frame :: "u64 \<Rightarrow> byte list \<Rightarrow> byte list" where
  "h3Frame typ payload =
     (let b = appendVarInt [] typ;
          b = appendVarInt b (of_nat (length payload))
      in b @ payload)"

text \<open>
  \<open>encodeH3Request\<close>. The QPACK encoder is quic-go's: \<open>writeFields\<close> stands for
  the bytes its \<open>WriteField\<close> calls append, in order, for a list of fields.
\<close>

definition encodeH3Request ::
    "((string \<times> string) list \<Rightarrow> byte list) \<Rightarrow> string \<Rightarrow> string \<Rightarrow> string \<Rightarrow> byte list" where
  "encodeH3Request writeFields method path authority =
     (let qbuf = [0x00, 0x00] @
            writeFields [('':method'', method), ('':path'', path),
                         ('':scheme'', ''https''), ('':authority'', authority)]
      in writeVarInt 0x01 @ writeVarInt (of_nat (length qbuf)) @ qbuf)"

section \<open>Round trips\<close>

lemma appendVarInt_eq [wire_simps]: "appendVarInt b v = b @ writeVarInt v"
  by (simp add: appendVarInt_def writeVarInt_def or.commute)

lemma byte_join_0: "push_bit 8 (drop_bit 8 v) OR ucast (ucast v :: byte) = (v :: u64)"
  using byte_join [of 0 v] by simp

lemmas byte_joins =
  byte_join [of 48, simplified] byte_join [of 40, simplified] byte_join [of 32, simplified]
  byte_join [of 24, simplified] byte_join [of 16, simplified] byte_join [of 8, simplified]
  byte_join_0

lemma readVarInt_writeVarInt:
  assumes "v < 2 ^ 62"
  shows "readVarInt (writeVarInt v @ r) = (v, None, r)"
proof -
  consider "v < 0x40" | "\<not> v < 0x40" "v < 0x4000" | "\<not> v < 0x40" "\<not> v < 0x4000" "v < 0x40000000"
    | "\<not> v < 0x40" "\<not> v < 0x4000" "\<not> v < 0x40000000" by blast
  then show ?thesis
  proof cases
    case 1
    then show ?thesis
      using prefix_low [of v 0] prefix_high [of v 0]
      by (simp add: writeVarInt_def readVarInt_def)
  next
    case 2
    have "drop_bit 8 v < 64" using 2 by (intro drop_bit_less_64) simp
    then show ?thesis
      using 2 prefix_low [of "drop_bit 8 v" "0x40"] prefix_high [of "drop_bit 8 v" "0x40"]
      by (simp add: writeVarInt_def readVarInt_def ReadFull_def byte_joins)
  next
    case 3
    have "drop_bit 24 v < 64" using 3 by (intro drop_bit_less_64) simp
    then show ?thesis
      using 3 prefix_low [of "drop_bit 24 v" "0x80"] prefix_high [of "drop_bit 24 v" "0x80"]
      by (simp add: writeVarInt_def readVarInt_def ReadFull_def byte_joins)
  next
    case 4
    have "drop_bit 56 v < 64" using assms by (intro drop_bit_less_64) simp
    then show ?thesis
      using 4 prefix_low [of "drop_bit 56 v" "0xc0"] prefix_high [of "drop_bit 56 v" "0xc0"]
      by (simp add: writeVarInt_def readVarInt_def ReadFull_def byte_joins)
  qed
qed

end
