(* ===== verification/Go_Harness.thy ===== *)
theory Go_Harness
  imports Go_Http Go_Wire
begin

text \<open>
  The suite runners of bench/go_client/main.go: \<open>runSerial\<close>, \<open>runSequential\<close> and
  \<open>runParallel\<close>. The concurrent runner is modelled twice: as the step relation
  \<open>par_step\<close> of its goroutines, channel and wait group, and as the function
  \<open>runParallel\<close> of the order in which the goroutines deliver their results;
  every complete execution of the former is a run of the latter. What the suites
  rely on (every request is counted once, as passed or as one more failure) is the
  locale \<open>suite_runner\<close>.
\<close>

section \<open>Recording results\<close>

record run_state =
  passed :: int
  errs :: "go_text list"
  failures :: "go_text list"
  calls :: nat

definition record_result :: "string \<Rightarrow> string \<Rightarrow> go_error option \<Rightarrow> run_state \<Rightarrow> run_state" where
  "record_result suiteName tcname res st =
     (case res of
        None \<Rightarrow> st\<lparr>passed := passed st + 1\<rparr>
      | Some err \<Rightarrow>
          st\<lparr>errs := errs st @ [Errorf ''    FAIL  %s: %v'' [VStr tcname, VErr err]],
             failures := failures st @
               [Errorf ''%s / %s: %v'' [VStr suiteName, VStr tcname, VErr err]]\<rparr>)"

text \<open>The number of tests the loops run: \<open>n\<close> rounds over the list.\<close>

definition jobs :: "testCase list \<Rightarrow> int \<Rightarrow> testCase list" where
  "jobs tests n = concat (replicate (nat n) tests)"

section \<open>Serial runs\<close>

definition runSerial ::
    "string \<Rightarrow> client \<Rightarrow> string \<Rightarrow> testCase list \<Rightarrow> int \<Rightarrow> go_text list \<Rightarrow> int \<times> int \<times> go_text list" where
  "runSerial suiteName c base tests n fails =
     (let total = wrap64 (n * int (length tests));
          st = foldl (\<lambda>st i.
                 foldl (\<lambda>st tc.
                   record_result suiteName (tc_name tc) (doRequest c (calls st) base tc)
                     (st\<lparr>calls := calls st + 1\<rparr>)) st tests)
                 \<lparr>passed = 0, errs = [], failures = fails, calls = 0\<rparr> [0 ..< nat n]
      in (passed st, total, failures st))"

definition runSequential ::
    "string \<Rightarrow> client \<Rightarrow> string \<Rightarrow> testCase list \<Rightarrow> int \<Rightarrow> go_text list \<Rightarrow> int \<times> int \<times> go_text list" where
  "runSequential suiteName c base tests n fails = runSerial suiteName c base tests n fails"

section \<open>Parallel runs as a function of the delivery order\<close>

text \<open>
  A delivery order is chosen by a list of picks: each takes one of the goroutines
  that have not delivered yet; when the picks end the rest comes in order. Every
  order is chosen by some picks (\<open>arrange_surj\<close>).
\<close>

fun arrange :: "nat list \<Rightarrow> 'a list \<Rightarrow> 'a list" where
  "arrange [] xs = xs"
| "arrange (p # ps) xs =
     (if xs = [] then []
      else (let i = p mod length xs
            in xs ! i # arrange ps (take i xs @ drop (Suc i) xs)))"

definition chan_result :: "client \<Rightarrow> string \<Rightarrow> testCase list \<Rightarrow> nat \<Rightarrow> string \<times> go_error option" where
  "chan_result c base js k = (tc_name (js ! k), doRequest c k base (js ! k))"

text \<open>Draining the closed channel.\<close>

definition drain :: "string \<Rightarrow> (string \<times> go_error option) list \<Rightarrow> go_text list \<Rightarrow> run_state" where
  "drain suiteName results fails =
     foldl (\<lambda>st (nm, e). record_result suiteName nm e st)
       \<lparr>passed = 0, errs = [], failures = fails, calls = 0\<rparr> results"

text \<open>\<open>make(chan result, size)\<close>: an element is 32 bytes (a string and an interface), a channel header 96 bytes.\<close>

definition makechan_ok :: "int \<Rightarrow> bool" where
  "makechan_ok sz = (0 \<le> sz \<and> sz * 32 \<le> 2 ^ 48 - 96)"

definition runParallel ::
    "string \<Rightarrow> client \<Rightarrow> nat list \<Rightarrow> string \<Rightarrow> testCase list \<Rightarrow> int \<Rightarrow> go_text list
      \<Rightarrow> (int \<times> int \<times> go_text list) go_result" where
  "runParallel suiteName c picks base tests n fails =
     (if \<not> makechan_ok (wrap64 (n * int (length tests))) then Panic ''makechan: size out of range''
      else
        (let js = jobs tests n;
             results = map (chan_result c base js) (arrange picks [0 ..< length js]);
             total = wrap64 (n * int (length tests));
             st = drain suiteName results fails
         in Ret (passed st, total, failures st)))"

section \<open>Parallel runs as goroutines\<close>

text \<open>
  \<open>started\<close> counts the goroutines the loops have launched, \<open>running\<close> are those
  before their send, \<open>sent\<close> those between the send and the deferred \<open>wg.Done()\<close>.
\<close>

record 'r par_state =
  started :: nat
  running :: "nat set"
  sent :: "nat set"
  results :: "'r list"
  wg :: int

definition par_init :: "'r par_state" where
  "par_init = \<lparr>started = 0, running = {}, sent = {}, results = [], wg = 0\<rparr>"

inductive par_step :: "nat \<Rightarrow> (nat \<Rightarrow> 'r) \<Rightarrow> nat \<Rightarrow> 'r par_state \<Rightarrow> 'r par_state \<Rightarrow> bool"
  for tot :: nat and out :: "nat \<Rightarrow> 'r" and capacity :: nat where
  launch: "started s < tot \<Longrightarrow>
     par_step tot out capacity s
       (s\<lparr>started := started s + 1, running := insert (started s) (running s), wg := wg s + 1\<rparr>)"
| deliver: "k \<in> running s \<Longrightarrow> length (results s) < capacity \<Longrightarrow>
     par_step tot out capacity s
       (s\<lparr>running := running s - {k}, sent := insert k (sent s), results := results s @ [out k]\<rparr>)"
| finish: "k \<in> sent s \<Longrightarrow>
     par_step tot out capacity s (s\<lparr>sent := sent s - {k}, wg := wg s - 1\<rparr>)"

inductive_cases par_stepE: "par_step tot out capacity s s'"

text \<open>\<open>wg.Wait()\<close> returns: everything is launched and the counter is back to zero.\<close>

definition par_done :: "nat \<Rightarrow> 'r par_state \<Rightarrow> bool" where
  "par_done tot s = (started s = tot \<and> wg s = 0)"

definition par_reach :: "nat \<Rightarrow> (nat \<Rightarrow> 'r) \<Rightarrow> nat \<Rightarrow> 'r par_state \<Rightarrow> bool" where
  "par_reach tot out capacity s = (par_step tot out capacity)\<^sup>*\<^sup>* par_init s"

section \<open>Delivery orders\<close>

lemma remove_nth_mset: "i < length xs \<Longrightarrow> add_mset (xs ! i) (mset (take i xs @ drop (Suc i) xs)) = mset xs"
  by (metis id_take_nth_drop mset.simps(2) mset_append union_mset_add_mset_right)

lemma mset_arrange [simp]: "mset (arrange ps xs) = mset xs"
proof (induction ps xs rule: arrange.induct)
  case (2 p ps xs)
  then show ?case
    using remove_nth_mset [of "p mod length xs" xs] by (cases "xs = []") (simp_all add: Let_def)
qed simp

lemma arrange_surj: "mset ys = mset xs \<Longrightarrow> \<exists>ps. arrange ps xs = ys"
proof (induction ys arbitrary: xs)
  case Nil
  then show ?case by (intro exI [of _ "[]"]) simp
next
  case (Cons y ys)
  then have "y \<in> set xs" by (metis list.set_intros(1) set_mset_mset)
  then obtain i where i: "i < length xs" "xs ! i = y" by (auto simp: in_set_conv_nth)
  have "mset ys = mset (take i xs @ drop (Suc i) xs)"
    using Cons.prems remove_nth_mset [OF i(1)] i(2) by (metis add_mset_add_mset_same_iff mset.simps(2))
  then obtain ps where "arrange ps (take i xs @ drop (Suc i) xs) = ys"
    using Cons.IH by blast
  then have "arrange (i # ps) xs = y # ys" using i by auto
  then show ?case by blast
qed

section \<open>Counting\<close>

definition new_failures :: "string \<Rightarrow> (string \<times> go_error option) list \<Rightarrow> go_text list" where
  "new_failures suiteName rs =
     map (\<lambda>(nm, e). Errorf ''%s / %s: %v'' [VStr suiteName, VStr nm, VErr (the e)])
       (filter (\<lambda>(nm, e). e \<noteq> None) rs)"

definition new_passed :: "(string \<times> go_error option) list \<Rightarrow> int" where
  "new_passed rs = int (length (filter (\<lambda>(nm, e). e = None) rs))"

lemma drain_fold:
  "failures (foldl (\<lambda>st (nm, e). record_result sn nm e st) st rs) = failures st @ new_failures sn rs"
  "passed (foldl (\<lambda>st (nm, e). record_result sn nm e st) st rs) = passed st + new_passed rs"
  by (induction rs arbitrary: st)
     (auto simp: record_result_def new_failures_def new_passed_def split: option.splits)

lemma failures_drain: "failures (drain sn rs fails) = fails @ new_failures sn rs"
  by (simp add: drain_def drain_fold)

lemma passed_drain: "passed (drain sn rs fails) = new_passed rs"
  by (simp add: drain_def drain_fold)

lemma new_count: "new_passed rs + int (length (new_failures sn rs)) = int (length rs)"
  by (induction rs) (auto simp: new_passed_def new_failures_def)

lemma new_perm:
  assumes "mset rs = mset rs'"
  shows "new_passed rs = new_passed rs'" and "mset (new_failures sn rs) = mset (new_failures sn rs')"
proof -
  have eq: "mset (filter P rs) = mset (filter P rs')" for P :: "string \<times> go_error option \<Rightarrow> bool"
    using assms by simp
  show "new_passed rs = new_passed rs'"
    unfolding new_passed_def size_mset [symmetric] eq by (rule refl)
  show "mset (new_failures sn rs) = mset (new_failures sn rs')"
    unfolding new_failures_def mset_map eq by (rule refl)
qed

lemma length_jobs: "length (jobs tests n) = nat n * length tests"
  unfolding jobs_def by (induction "nat n" arbitrary: n) (simp_all add: length_concat sum_list_replicate)

lemma foldl_rounds: "foldl (\<lambda>st i. foldl f st tests) st [0 ..< m] = foldl f st (concat (replicate m tests))"
proof (induction m)
  case (Suc m)
  have "concat (replicate (Suc m) tests) = concat (replicate m tests) @ tests"
    by (metis append_Nil2 concat.simps concat_append replicate_append_same replicate_Suc)
  then show ?case using Suc by simp
qed simp

lemma serial_fold:
  "foldl (\<lambda>st tc. record_result sn (tc_name tc) (doRequest c (calls st) base tc)
            (st\<lparr>calls := calls st + 1\<rparr>)) st js
   = (foldl (\<lambda>st (nm, e). record_result sn nm e st) st
       (map (\<lambda>(i, tc). (tc_name tc, doRequest c (calls st + i) base tc)) (enumerate 0 js)))
       \<lparr>calls := calls st + length js\<rparr>"
proof (induction js rule: rev_induct)
  case (snoc tc js)
  then show ?case
    by (simp add: enumerate_append_eq record_result_def split: option.splits)
qed simp

lemma runSerial_eq:
  "runSerial sn c base tests n fails =
     (let rs = map (chan_result c base (jobs tests n)) [0 ..< length (jobs tests n)]
      in (new_passed rs, wrap64 (n * int (length tests)), fails @ new_failures sn rs))"
proof -
  have "map (\<lambda>(i, tc). (tc_name tc, doRequest c i base tc)) (enumerate 0 js)
      = map (chan_result c base js) [0 ..< length js]" for js
    by (rule nth_equalityI) (simp_all add: chan_result_def nth_enumerate_eq)
  then show ?thesis
    unfolding runSerial_def Let_def foldl_rounds jobs_def [symmetric]
    unfolding serial_fold by (simp add: drain_fold)
qed

lemma runParallel_eq:
  assumes "makechan_ok (wrap64 (n * int (length tests)))"
  shows "runParallel sn c picks base tests n fails =
     (let rs = map (chan_result c base (jobs tests n)) (arrange picks [0 ..< length (jobs tests n)])
      in Ret (new_passed rs, wrap64 (n * int (length tests)), fails @ new_failures sn rs))"
  using assms by (simp add: runParallel_def passed_drain failures_drain Let_def)


section \<open>The goroutines\<close>

text \<open>
  What holds in every reachable state: the launched goroutines are split into those
  still to deliver, and those that have delivered in some order; the wait group counts
  the ones that have not finished.
\<close>

definition par_inv :: "nat \<Rightarrow> (nat \<Rightarrow> 'r) \<Rightarrow> 'r par_state \<Rightarrow> bool" where
  "par_inv tot out s =
     (started s \<le> tot \<and> running s \<subseteq> {..<started s} \<and> sent s \<subseteq> {..<started s} - running s \<and>
      wg s = int (card (running s)) + int (card (sent s)) \<and>
      (\<exists>order. distinct order \<and> set order = {..<started s} - running s \<and>
               results s = map out order))"

lemma par_inv_init: "par_inv tot out par_init"
  by (simp add: par_inv_def par_init_def)

lemma par_inv_finite:
  assumes "par_inv tot out s"
  shows "finite (running s)" and "finite (sent s)"
  using assms by (auto simp: par_inv_def intro: finite_subset [of _ "{..<started s}"])

lemma par_inv_launch:
  assumes "par_inv tot out s" and "started s < tot"
  shows "par_inv tot out
    (s\<lparr>started := started s + 1, running := insert (started s) (running s), wg := wg s + 1\<rparr>)"
proof -
  from assms obtain order where o: "distinct order" "set order = {..<started s} - running s"
    "results s = map out order" and r: "running s \<subseteq> {..<started s}" "sent s \<subseteq> {..<started s} - running s"
    by (auto simp: par_inv_def)
  have "set order = {..<Suc (started s)} - insert (started s) (running s)"
    unfolding o(2) lessThan_Suc by blast
  then have ex: "\<exists>order. distinct order \<and>
      set order = {..<Suc (started s)} - insert (started s) (running s) \<and> results s = map out order"
    using o by blast
  have "started s \<notin> running s" using r by auto
  then have "card (insert (started s) (running s)) = Suc (card (running s))"
    using par_inv_finite [OF assms(1)] by simp
  moreover have "wg s = int (card (running s)) + int (card (sent s))" using assms(1) by (simp add: par_inv_def)
  moreover have "insert (started s) (running s) \<subseteq> {..<Suc (started s)}"
    "sent s \<subseteq> {..<Suc (started s)} - insert (started s) (running s)" using r by auto
  ultimately show ?thesis using ex assms(2) unfolding par_inv_def by simp
qed

lemma par_inv_deliver:
  assumes "par_inv tot out s" and "k \<in> running s"
  shows "par_inv tot out
    (s\<lparr>running := running s - {k}, sent := insert k (sent s), results := results s @ [out k]\<rparr>)"
proof -
  from assms obtain order where o: "distinct order" "set order = {..<started s} - running s"
    "results s = map out order" and r: "running s \<subseteq> {..<started s}" "sent s \<subseteq> {..<started s} - running s"
    by (auto simp: par_inv_def)
  have "distinct (order @ [k])" "set (order @ [k]) = {..<started s} - (running s - {k})"
    "results s @ [out k] = map out (order @ [k])"
    using o assms(2) r by auto
  then have ex: "\<exists>order. distinct order \<and> set order = {..<started s} - (running s - {k}) \<and>
      results s @ [out k] = map out order" by blast
  have "k \<notin> sent s" using r assms(2) by auto
  then have "int (card (running s - {k})) + int (card (insert k (sent s)))
      = int (card (running s)) + int (card (sent s))"
    using par_inv_finite [OF assms(1)] assms(2) card_gt_0_iff [of "running s"]
    by (auto simp: card_Diff_singleton)
  then show ?thesis using assms ex r unfolding par_inv_def by auto
qed

lemma par_inv_finish:
  assumes "par_inv tot out s" and "k \<in> sent s"
  shows "par_inv tot out (s\<lparr>sent := sent s - {k}, wg := wg s - 1\<rparr>)"
proof -
  have "int (card (sent s - {k})) = int (card (sent s)) - 1"
    using par_inv_finite [OF assms(1)] assms(2) card_gt_0_iff [of "sent s"]
    by (auto simp: card_Diff_singleton)
  then show ?thesis using assms unfolding par_inv_def by auto
qed

lemma par_inv_step: "par_step tot out capacity s s' \<Longrightarrow> par_inv tot out s \<Longrightarrow> par_inv tot out s'"
  by (erule par_step.cases) (simp_all only: par_inv_launch par_inv_deliver par_inv_finish)

lemma par_reach_inv: "par_reach tot out capacity s \<Longrightarrow> par_inv tot out s"
  unfolding par_reach_def
  by (induction rule: rtranclp_induct) (auto intro: par_inv_init par_inv_step)

lemma par_inv_delivered: "par_inv tot out s \<Longrightarrow> length (results s) + card (running s) = started s"
proof -
  assume inv: "par_inv tot out s"
  then obtain order where o: "distinct order" "set order = {..<started s} - running s"
    "results s = map out order" and r: "running s \<subseteq> {..<started s}"
    by (auto simp: par_inv_def)
  have "length order = card ({..<started s} - running s)"
    using distinct_card [OF o(1)] o(2) by simp
  also have "\<dots> = started s - card (running s)"
    using r par_inv_finite [OF inv] by (simp add: card_Diff_subset)
  finally show ?thesis
    using o(3) card_mono [OF finite_lessThan r] by simp
qed

text \<open>The send of a goroutine finds room: the channel was made for all of them.\<close>

lemma par_send_ready:
  assumes "par_inv tot out s" and "tot \<le> capacity" and "k \<in> running s"
  shows "length (results s) < capacity"
proof -
  have "0 < card (running s)" using assms par_inv_finite [OF assms(1)] card_gt_0_iff by blast
  then show ?thesis using par_inv_delivered [OF assms(1)] assms by (auto simp: par_inv_def)
qed

lemma par_progress:
  assumes "par_inv tot out s" and "tot \<le> capacity" and "\<not> par_done tot s"
  shows "\<exists>s'. par_step tot out capacity s s'"
proof -
  consider "started s < tot" | k where "k \<in> running s" | k where "k \<in> sent s"
    using assms by (fastforce simp: par_done_def par_inv_def)
  then show ?thesis
    by cases (use assms par_send_ready in \<open>blast intro: par_step.intros\<close>)+
qed

text \<open>Every step takes one of the three actions a goroutine has.\<close>

definition par_actions :: "'r par_state \<Rightarrow> nat" where
  "par_actions s = started s + length (results s) + (length (results s) - card (sent s))"

lemma par_inv_sent: "par_inv tot out s \<Longrightarrow> card (sent s) \<le> length (results s)"
proof -
  assume inv: "par_inv tot out s"
  then obtain order where o: "distinct order" "set order = {..<started s} - running s"
    "results s = map out order" "sent s \<subseteq> {..<started s} - running s"
    by (auto simp: par_inv_def)
  then have "card (sent s) \<le> card (set order)" by (metis card_mono List.finite_set)
  then show ?thesis using distinct_card [OF o(1)] o(3) by simp
qed

lemma par_actions_step:
  assumes "par_step tot out capacity s s'" and "par_inv tot out s"
  shows "par_actions s' = par_actions s + 1"
proof -
  have r: "k \<notin> sent s" if "k \<in> running s" for k using assms(2) that by (auto simp: par_inv_def)
  have f: "finite (sent s)" using par_inv_finite [OF assms(2)] by simp
  have c: "0 < card (sent s)" if "k \<in> sent s" for k using f that card_gt_0_iff by blast
  show ?thesis
    using assms(1)
  proof cases
    case (deliver k)
    then show ?thesis using par_inv_sent [OF assms(2)] r f by (simp add: par_actions_def)
  next
    case (finish k)
    then show ?thesis
      using par_inv_sent [OF assms(2)] c [of k] by (simp add: par_actions_def card_Diff_singleton)
  qed (simp add: par_actions_def)
qed

lemma par_actions_steps:
  "(par_step tot out capacity ^^ m) par_init s \<Longrightarrow> par_inv tot out s \<and> par_actions s = m"
proof (induction m arbitrary: s)
  case 0
  then have "s = par_init" by simp
  moreover have "par_actions par_init = 0" by (simp add: par_actions_def par_init_def)
  ultimately show ?case by (simp add: par_inv_init)
next
  case (Suc m)
  then obtain s0 where s0: "(par_step tot out capacity ^^ m) par_init s0" "par_step tot out capacity s0 s"
    by auto
  then show ?case using Suc.IH [OF s0(1)] par_actions_step par_inv_step by fastforce
qed

lemma par_actions_bound:
  assumes "par_inv tot out s"
  shows "par_actions s \<le> 3 * tot" and "par_actions s = 3 * tot \<longleftrightarrow> par_done tot s"
proof -
  note d = par_inv_delivered [OF assms] and t = par_inv_sent [OF assms]
  show "par_actions s \<le> 3 * tot" using d t assms by (auto simp: par_actions_def par_inv_def)
  show "par_actions s = 3 * tot \<longleftrightarrow> par_done tot s"
    using d t assms by (auto simp: par_actions_def par_inv_def par_done_def)
qed

lemma par_done_order:
  assumes "par_inv tot out s" and "par_done tot s"
  shows "\<exists>order. mset order = mset [0 ..< tot] \<and> results s = map out order"
proof -
  from assms obtain order where o: "distinct order" "set order = {..<started s} - running s"
    "results s = map out order" by (auto simp: par_inv_def)
  have "card (running s) = 0" using assms by (simp add: par_inv_def par_done_def)
  then have "running s = {}" using par_inv_finite [OF assms(1)] by simp
  then have "set order = set [0 ..< tot]" using o(2) assms(2) by (auto simp: par_done_def)
  then have "mset order = mset [0 ..< tot]" using o(1) by (metis distinct_upt set_eq_iff_mset_eq_distinct)
  then show ?thesis using o(3) by blast
qed


section \<open>The contract of a suite runner\<close>

text \<open>The largest number of requests a channel can be made for.\<close>

definition runner_limit :: int where
  "runner_limit = 8796093022205"

locale suite_runner =
  fixes run :: "testCase list \<Rightarrow> int \<Rightarrow> go_text list \<Rightarrow> (int \<times> int \<times> go_text list) go_result"
  assumes counts: "0 \<le> n \<Longrightarrow> n * int (length tests) \<le> runner_limit \<Longrightarrow>
      \<exists>p new. run tests n fs = Ret (p, n * int (length tests), fs @ new) \<and> 0 \<le> p \<and>
              p + int (length new) = n * int (length tests)"
begin

lemma all_passed_iff:
  assumes "0 \<le> n" and "n * int (length tests) \<le> runner_limit" and "run tests n fs = Ret (p, t, fs')"
  shows "p = t \<longleftrightarrow> fs' = fs"
  using counts [OF assms(1,2), of fs] assms(3) by auto

lemma nothing_to_run:
  assumes "n = 0 \<or> tests = []" and "0 \<le> n"
  shows "run tests n fs = Ret (0, 0, fs)"
proof -
  have z: "n * int (length tests) = 0" using assms by auto
  then obtain p new where "run tests n fs = Ret (p, 0, fs @ new)" "0 \<le> p" "p + int (length new) = 0"
    using counts [of n tests fs] assms(2) by (auto simp: runner_limit_def)
  moreover from this have "p = 0" "new = []" by (linarith, cases new, simp_all)
  ultimately show ?thesis by simp
qed

lemma never_panics:
  assumes "0 \<le> n" and "n * int (length tests) \<le> runner_limit"
  shows "run tests n fs \<noteq> Panic m"
  using counts [OF assms, of fs] by auto

end

lemma wrap64_total:
  assumes "0 \<le> n" and "n * int (length tests) \<le> runner_limit"
  shows "wrap64 (n * int (length tests)) = n * int (length tests)"
    and "makechan_ok (wrap64 (n * int (length tests)))"
proof -
  have "0 \<le> n * int (length tests)" using assms(1) by simp
  then show w: "wrap64 (n * int (length tests)) = n * int (length tests)"
    using assms(2) by (intro wrap64_id) (simp_all add: runner_limit_def)
  then show "makechan_ok (wrap64 (n * int (length tests)))"
    using assms by (simp add: makechan_ok_def runner_limit_def)
qed

lemma int_length_jobs: "0 \<le> n \<Longrightarrow> int (length (jobs tests n)) = n * int (length tests)"
  by (simp add: length_jobs)

lemma new_passed_nonneg: "0 \<le> new_passed rs"
  by (simp add: new_passed_def)

lemma length_arrange [simp]: "length (arrange ps xs) = length xs"
  by (metis mset_arrange size_mset)

interpretation serial: suite_runner "\<lambda>tests n fs. Ret (runSerial sn c base tests n fs)" for sn c base
proof (unfold_locales, goal_cases)
  case (1 n tests fs)
  show ?case
    unfolding runSerial_eq Let_def wrap64_total [OF 1]
    using new_count [of "map (chan_result c base (jobs tests n)) [0 ..< length (jobs tests n)]" sn]
      new_passed_nonneg int_length_jobs [OF 1(1), of tests] by auto
qed

interpretation parallel: suite_runner "runParallel sn c picks base" for sn c picks base
proof (unfold_locales, goal_cases)
  case (1 n tests fs)
  show ?case
    unfolding runParallel_eq [OF wrap64_total(2) [OF 1]] Let_def wrap64_total [OF 1]
    using new_count [of "map (chan_result c base (jobs tests n)) (arrange picks [0 ..< length (jobs tests n)])" sn]
      new_passed_nonneg int_length_jobs [OF 1(1), of tests] by auto
qed

lemma parallel_serial:
  assumes "0 \<le> n" and "n * int (length tests) \<le> runner_limit"
    and "runSerial sn c base tests n fs = (p, t, fs @ new)"
  shows "\<exists>new'. runParallel sn c picks base tests n fs = Ret (p, t, fs @ new') \<and> mset new' = mset new"
proof -
  let ?out = "chan_result c base (jobs tests n)"
  have m: "mset (map ?out (arrange picks [0 ..< length (jobs tests n)]))
      = mset (map ?out [0 ..< length (jobs tests n)])" by (simp only: mset_map mset_arrange)
  show ?thesis
    using assms(3) new_perm(1) [OF m] new_perm(2) [OF m, of sn]
    unfolding runParallel_eq [OF wrap64_total(2) [OF assms(1,2)]] runSerial_eq Let_def by auto
qed

lemma par_done_runParallel:
  fixes tests :: "testCase list" and n :: int
  defines "js \<equiv> jobs tests n"
  assumes "0 \<le> n" and "n * int (length tests) \<le> runner_limit"
    and inv: "par_inv (length js) (chan_result c base js) s" and fin: "par_done (length js) s"
  shows "\<exists>picks. runParallel sn c picks base tests n fs =
    Ret (passed (drain sn (results s) fs), n * int (length tests), failures (drain sn (results s) fs))"
proof -
  obtain order where o: "mset order = mset [0 ..< length js]" "results s = map (chan_result c base js) order"
    using par_done_order [OF inv fin] by blast
  obtain picks where p: "arrange picks [0 ..< length js] = order" using arrange_surj [OF o(1)] by blast
  have "runParallel sn c picks base tests n fs =
      Ret (passed (drain sn (results s) fs), n * int (length tests), failures (drain sn (results s) fs))"
    unfolding runParallel_def Let_def js_def [symmetric] p o(2) wrap64_total(1) [OF assms(2,3)]
    using wrap64_total(2) [OF assms(2,3)] wrap64_total(1) [OF assms(2,3)] by simp
  then show ?thesis by blast
qed

section \<open>A concrete suite\<close>

text \<open>A server that answers every second request with an error page, and a suite of one test.\<close>

definition demo_response :: "int \<Rightarrow> string \<Rightarrow> http_response" where
  "demo_response code body = \<lparr>StatusCode = code, rs_body = body, rs_readErr = None, rs_header = Map.empty\<rparr>"

definition demo_client :: client where
  "demo_client = \<lparr>cl_parse = \<lambda>_. None,
     cl_do = \<lambda>k rq. Inr (if even k then demo_response 200 ''pong'' else demo_response 500 ''error'')\<rparr>"

definition demo_tests :: "testCase list" where
  "demo_tests = [\<lparr>tc_name = ''ping'', tc_method = ''GET'', tc_path = ''/ping'', tc_body = [],
     tc_headers = [], tc_timeout = 0, tc_check = expectStatus 200\<rparr>]"

lemma demo_jobs: "jobs demo_tests 2 = demo_tests @ demo_tests"
  by (simp add: jobs_def numeral_2_eq_2)

lemma demo_doRequest:
  "doRequest demo_client k b (demo_tests ! 0) =
     (if even k then None else Some (Errorf ''expected status %d, got %d'' [VInt 200, VInt 500]))"
  by (simp add: doRequest_def demo_client_def demo_tests_def demo_response_def NewRequestWithContext_def
      valid_method_def token_byte_def expectStatus_def)

lemma demo_results:
  "map (chan_result demo_client b (jobs demo_tests 2)) [0 ..< length (jobs demo_tests 2)] =
     [(''ping'', None), (''ping'', Some (Errorf ''expected status %d, got %d'' [VInt 200, VInt 500]))]"
proof -
  have "demo_tests = [demo_tests ! 0]" "tc_name (demo_tests ! 0) = ''ping''"
    by (simp_all add: demo_tests_def)
  then have "jobs demo_tests 2 = [demo_tests ! 0, demo_tests ! 0]" by (metis demo_jobs append_Cons append_Nil)
  then show ?thesis using \<open>tc_name (demo_tests ! 0) = ''ping''\<close>
    by (simp add: chan_result_def upt_rec demo_doRequest)
qed

section \<open>Properties\<close>

text \<open>
  C8. \<open>runParallel\<close> gives, whatever the order in which the goroutines deliver, the same
  passed count and total as \<open>runSerial\<close> on the same answers and appends the same failures
  up to their order; the failures already recorded are kept in front.
\<close>

theorem runParallel_order_independent:
  assumes "0 \<le> n" and "n * int (length tests) \<le> runner_limit"
    and "runSerial sn c base tests n fs = (p, t, fs')"
  shows "\<exists>new new'. fs' = fs @ new \<and> mset new' = mset new \<and>
      runParallel sn c picks base tests n fs = Ret (p, t, fs @ new')"
proof -
  obtain new where "fs' = fs @ new" using assms(3) by (auto simp: runSerial_eq Let_def)
  then show ?thesis using parallel_serial [OF assms(1,2), of sn c base fs p t new picks] assms(3) by auto
qed

theorem runParallel_order_independent_witness:
  "\<exists>new new'. [Errorf ''%s / %s: %v'' [VStr ''Demo'', VStr ''ping'',
        VErr (Errorf ''expected status %d, got %d'' [VInt 200, VInt 500])]] = [] @ new \<and>
     mset new' = mset new \<and>
     runParallel ''Demo'' demo_client [1] ''https://h'' demo_tests 2 [] = Ret (1, 2, [] @ new')"
proof -
  have "runSerial ''Demo'' demo_client ''https://h'' demo_tests 2 [] =
      (1, 2, [Errorf ''%s / %s: %v'' [VStr ''Demo'', VStr ''ping'',
        VErr (Errorf ''expected status %d, got %d'' [VInt 200, VInt 500])]])"
    unfolding runSerial_eq demo_results Let_def
    by (simp add: new_passed_def new_failures_def demo_tests_def wrap64_def)
  from runParallel_order_independent [OF _ _ this, of "[1]"] show ?thesis
    by (simp add: runner_limit_def demo_tests_def)
qed

text \<open>
  C9. The goroutines of \<open>runParallel\<close> neither deadlock nor run forever: in every reachable
  state before \<open>wg.Wait()\<close> returns some goroutine can move, a pending send always finds room
  in the channel, an execution of \<open>m\<close> steps has \<open>m \<le> 3 * tot\<close>, and \<open>Wait\<close> returns
  exactly after \<open>3 * tot\<close> of them.
\<close>

theorem goroutines_complete:
  assumes "tot \<le> capacity" and "(par_step tot out capacity ^^ m) par_init s"
  shows "(\<not> par_done tot s \<longrightarrow> (\<exists>s'. par_step tot out capacity s s')) \<and>
    (\<forall>k\<in>running s. length (results s) < capacity) \<and> 0 \<le> wg s \<and>
    m \<le> 3 * tot \<and> (par_done tot s \<longleftrightarrow> m = 3 * tot)"
proof -
  have inv: "par_inv tot out s" and m: "par_actions s = m" using par_actions_steps [OF assms(2)] by auto
  then have "0 \<le> wg s" by (simp add: par_inv_def)
  then show ?thesis
    using par_progress [OF inv assms(1)] par_send_ready [OF inv assms(1)] par_actions_bound [OF inv] m
    by blast
qed

theorem goroutines_complete_witness:
  "let out = (\<lambda>k. (''ping'', None :: go_error option));
       s = \<lparr>started = 1, running = {0}, sent = {}, results = [] :: (string \<times> go_error option) list, wg = 1\<rparr>
   in (par_step 1 out 1 ^^ 1) par_init s \<and>
     (\<not> par_done 1 s \<longrightarrow> (\<exists>s'. par_step 1 out 1 s s')) \<and>
     (\<forall>k\<in>running s. length (results s) < 1) \<and> 0 \<le> wg s \<and>
     1 \<le> 3 * (1::nat) \<and> (par_done 1 s \<longleftrightarrow> (1::nat) = 3 * 1)"
proof -
  let ?out = "\<lambda>k. (''ping'', None :: go_error option)"
  let ?s = "\<lparr>started = 1, running = {0}, sent = {}, results = [] :: (string \<times> go_error option) list, wg = 1\<rparr>"
  have "par_step 1 ?out 1 par_init ?s"
    using launch [of par_init 1 ?out 1] by (simp add: par_init_def)
  then have "(par_step 1 ?out 1 ^^ 1) par_init ?s" unfolding One_nat_def relpowp.simps by auto
  from goroutines_complete [OF _ this] this show ?thesis unfolding Let_def by simp
qed

text \<open>
  C10. Every execution of the goroutines that reaches the return of \<open>wg.Wait()\<close> leaves in the
  channel what some delivery order of the function \<open>runParallel\<close> drains: the step relation
  refines the function.
\<close>

theorem goroutines_refine_runParallel:
  assumes "0 \<le> n" and "n * int (length tests) \<le> runner_limit"
    and "par_reach (length (jobs tests n)) (chan_result c base (jobs tests n)) capacity s"
    and "par_done (length (jobs tests n)) s"
  shows "\<exists>picks. runParallel sn c picks base tests n fs =
    Ret (passed (drain sn (results s) fs), n * int (length tests), failures (drain sn (results s) fs))"
  using par_done_runParallel [OF assms(1,2) par_reach_inv [OF assms(3)] assms(4)] .

theorem goroutines_refine_runParallel_witness:
  "let s = \<lparr>started = 1, running = {}, sent = {}, results = [(''ping'', None)], wg = 0\<rparr>
   in par_reach 1 (chan_result demo_client ''https://h'' (jobs demo_tests 1)) 1 s \<and>
      (\<exists>picks. runParallel ''Demo'' demo_client picks ''https://h'' demo_tests 1 [] =
         Ret (passed (drain ''Demo'' (results s) []), 1 * int (length demo_tests),
              failures (drain ''Demo'' (results s) [])))"
proof -
  let ?out = "chan_result demo_client ''https://h'' (jobs demo_tests 1)"
  let ?s = "\<lparr>started = 1, running = {}, sent = {}, results = [(''ping'', None)], wg = 0\<rparr>"
  have l: "length (jobs demo_tests 1) = 1" by (simp add: jobs_def demo_tests_def)
  have o: "?out 0 = (''ping'', None)"
    using demo_doRequest [of 0 "''https://h''"] by (simp add: chan_result_def jobs_def demo_tests_def)
  let ?s1 = "\<lparr>started = 1, running = {0}, sent = {}, results = [], wg = 1\<rparr>"
  let ?s2 = "\<lparr>started = 1, running = {}, sent = {0}, results = [?out 0], wg = 1\<rparr>"
  have 1: "par_step 1 ?out 1 par_init ?s1" using launch [of par_init 1 ?out 1] by (simp add: par_init_def)
  have 2: "par_step 1 ?out 1 ?s1 ?s2" using deliver [of 0 ?s1 1 1 ?out] by simp
  have 3: "par_step 1 ?out 1 ?s2 ?s" using finish [of 0 ?s2 1 ?out 1] o by simp
  have r: "par_reach 1 ?out 1 ?s" unfolding par_reach_def
    by (rule converse_rtranclp_into_rtranclp, rule 1, rule converse_rtranclp_into_rtranclp, rule 2,
        rule r_into_rtranclp, rule 3)
  show ?thesis
    using goroutines_refine_runParallel [of 1 demo_tests demo_client "''https://h''" 1 ?s "''Demo''" "[]"] r
    unfolding l Let_def by (simp add: runner_limit_def demo_tests_def par_done_def)
qed

text \<open>
  Every request of a suite is counted exactly once: \<open>runParallel\<close> never panics on a
  non-negative repetition count within the channel limit, the total is \<open>n\<close> times the number of tests,
  and passed requests plus new failure lines make up the total.
\<close>

theorem runParallel_accounts:
  assumes "0 \<le> n" and "n * int (length tests) \<le> runner_limit"
  shows "\<exists>p new. runParallel sn c picks base tests n fs = Ret (p, n * int (length tests), fs @ new) \<and>
    0 \<le> p \<and> p + int (length new) = n * int (length tests)"
  by (rule parallel.counts [OF assms])

theorem runParallel_accounts_witness:
  "\<exists>p new. runParallel ''Demo'' demo_client [1] ''https://h'' demo_tests 2 [] =
     Ret (p, 2 * int (length demo_tests), [] @ new) \<and> 0 \<le> p \<and>
     p + int (length new) = 2 * int (length demo_tests)"
  by (rule runParallel_accounts) (simp_all add: runner_limit_def demo_tests_def)

end
