(* ===== verification/Go_Pool.thy ===== *)
theory Go_Pool
  imports Go_Harness
begin

text \<open>
  The bounded worker pool of bench_3way (\<open>runScenario\<close>) and bench_h3 (\<open>runConc\<close>):
  the loop acquires a slot of the semaphore channel \<open>sem\<close> of capacity \<open>c\<close> before it
  launches a goroutine, and the goroutine's deferred function gives the slot back before
  \<open>wg.Done()\<close>. The state extends that of the goroutines of \<open>Go_Harness\<close>; dropping the
  semaphore maps every step to a step there.
\<close>

section \<open>The machine\<close>

text \<open>\<open>released\<close>: goroutines between \<open><-sem\<close> and \<open>wg.Done()\<close>.\<close>

record 'r pool_state = "'r par_state" +
  sem :: nat
  released :: "nat set"

definition pool_init :: "'r pool_state" where
  "pool_init = \<lparr>started = 0, running = {}, sent = {}, results = [], wg = 0, sem = 0, released = {}\<rparr>"

inductive pool_step :: "nat \<Rightarrow> (nat \<Rightarrow> 'r) \<Rightarrow> nat \<Rightarrow> 'r pool_state \<Rightarrow> 'r pool_state \<Rightarrow> bool"
  for n :: nat and out :: "nat \<Rightarrow> 'r" and c :: nat where
  acquire: "started s < n \<Longrightarrow> sem s < c \<Longrightarrow>
     pool_step n out c s
       (s\<lparr>sem := sem s + 1, started := started s + 1, running := insert (started s) (running s), wg := wg s + 1\<rparr>)"
| work: "k \<in> running s \<Longrightarrow>
     pool_step n out c s
       (s\<lparr>running := running s - {k}, sent := insert k (sent s), results := results s @ [out k]\<rparr>)"
| release: "k \<in> sent s \<Longrightarrow> k \<notin> released s \<Longrightarrow>
     pool_step n out c s (s\<lparr>sem := sem s - 1, released := insert k (released s)\<rparr>)"
| leave: "k \<in> sent s \<Longrightarrow> k \<in> released s \<Longrightarrow>
     pool_step n out c s (s\<lparr>sent := sent s - {k}, released := released s - {k}, wg := wg s - 1\<rparr>)"

definition forget :: "'r pool_state \<Rightarrow> 'r par_state" where
  "forget s = \<lparr>started = started s, running = running s, sent = sent s, results = results s, wg = wg s\<rparr>"

definition pool_reach :: "nat \<Rightarrow> (nat \<Rightarrow> 'r) \<Rightarrow> nat \<Rightarrow> 'r pool_state \<Rightarrow> bool" where
  "pool_reach n out c s = (pool_step n out c)\<^sup>*\<^sup>* pool_init s"

definition pool_done :: "nat \<Rightarrow> 'r pool_state \<Rightarrow> bool" where
  "pool_done n s = par_done n (forget s)"

section \<open>Refinement\<close>

lemma forget_simps [simp]:
  "started (forget s) = started s" "running (forget s) = running s" "sent (forget s) = sent s"
  "results (forget s) = results s" "wg (forget s) = wg s"
  by (simp_all add: forget_def)

text \<open>The channel of results of the harness has room for all: capacity \<open>n\<close>.\<close>

lemma pool_step_forget:
  assumes "pool_step n out c s s'" and "par_inv n out (forget s)"
  shows "forget s' = forget s \<or> par_step n out n (forget s) (forget s')"
  using assms(1)
proof cases
  case acquire
  then have "forget s' = (forget s)\<lparr>started := started (forget s) + 1,
      running := insert (started (forget s)) (running (forget s)), wg := wg (forget s) + 1\<rparr>"
    by (simp add: forget_def)
  moreover have "started (forget s) < n" using acquire by simp
  ultimately show ?thesis using launch [of "forget s" n out n] by metis
next
  case (work k)
  then have "forget s' = (forget s)\<lparr>running := running (forget s) - {k}, sent := insert k (sent (forget s)),
      results := results (forget s) @ [out k]\<rparr>"
    by (simp add: forget_def)
  moreover have "length (results (forget s)) < n"
    using par_send_ready [OF assms(2), of n k] work by simp
  moreover have "k \<in> running (forget s)" using work by simp
  ultimately show ?thesis using deliver [of k "forget s" n n out] by metis
next
  case (release k)
  then show ?thesis by (simp add: forget_def)
next
  case (leave k)
  then have "forget s' = (forget s)\<lparr>sent := sent (forget s) - {k}, wg := wg (forget s) - 1\<rparr>"
    by (simp add: forget_def)
  moreover have "k \<in> sent (forget s)" using leave by simp
  ultimately show ?thesis using finish [of k "forget s" n out n] by metis
qed

definition pool_inv :: "nat \<Rightarrow> (nat \<Rightarrow> 'r) \<Rightarrow> nat \<Rightarrow> 'r pool_state \<Rightarrow> bool" where
  "pool_inv n out c s =
     (par_inv n out (forget s) \<and> released s \<subseteq> sent s \<and> sem s \<le> c \<and>
      sem s + card (released s) = card (running s) + card (sent s))"

lemma pool_inv_init: "pool_inv n out c pool_init"
proof -
  have "forget pool_init = (par_init :: 'a par_state)" by (simp add: forget_def pool_init_def par_init_def)
  then show ?thesis using par_inv_init [of n out] by (simp add: pool_inv_def) (simp add: pool_init_def)
qed

lemma pool_inv_step:
  assumes "pool_step n out c s s'" and "pool_inv n out c s"
  shows "pool_inv n out c s'"
proof -
  have inv: "par_inv n out (forget s)" and rel: "released s \<subseteq> sent s" and sem: "sem s \<le> c"
    "sem s + card (released s) = card (running s) + card (sent s)"
    using assms(2) by (auto simp: pool_inv_def)
  have fin: "finite (running s)" "finite (sent s)" using par_inv_finite [OF inv] by simp_all
  have fr: "finite (released s)" using rel fin finite_subset by blast
  have inv': "par_inv n out (forget s')"
    using pool_step_forget [OF assms(1) inv] par_inv_step inv by fastforce
  have new: "started s \<notin> running s" "k \<in> running s \<Longrightarrow> k \<notin> sent s" for k
    using inv by (auto simp: par_inv_def)
  show ?thesis
    using assms(1)
  proof cases
    case acquire
    then show ?thesis using inv' rel sem fin new by (auto simp: pool_inv_def)
  next
    case (work k)
    then have "card (running s - {k}) + card (insert k (sent s)) = card (running s) + card (sent s)"
      using fin new card_gt_0_iff [of "running s"] by (auto simp: card_Diff_singleton)
    then show ?thesis using work inv' rel sem by (auto simp: pool_inv_def)
  next
    case (release k)
    have "card (insert k (released s)) \<le> card (sent s)" using release rel fin by (intro card_mono) auto
    then show ?thesis using release inv' rel sem fr by (auto simp: pool_inv_def)
  next
    case (leave k)
    have "0 < card (released s)" "0 < card (sent s)" using leave fr fin card_gt_0_iff by blast+
    then have "card (released s - {k}) = card (released s) - 1" "card (sent s - {k}) = card (sent s) - 1"
      using leave by (simp_all add: card_Diff_singleton)
    then show ?thesis
      using leave inv' rel sem \<open>0 < card (released s)\<close> \<open>0 < card (sent s)\<close> by (auto simp: pool_inv_def)
  qed
qed

lemma pool_reach_inv: "pool_reach n out c s \<Longrightarrow> pool_inv n out c s"
  unfolding pool_reach_def
  by (induction rule: rtranclp_induct) (auto intro: pool_inv_init pool_inv_step)

lemma pool_in_flight:
  assumes "pool_inv n out c s"
  shows "card (running s) \<le> c"
proof -
  have "finite (sent s)" using assms par_inv_finite [of n out "forget s"] by (simp add: pool_inv_def)
  then have "card (released s) \<le> card (sent s)" using assms by (auto simp: pool_inv_def intro: card_mono)
  then show ?thesis using assms by (auto simp: pool_inv_def)
qed

lemma pool_progress:
  assumes "pool_inv n out c s" and "0 < c" and "\<not> pool_done n s"
  shows "\<exists>s'. pool_step n out c s s'"
proof -
  have inv: "par_inv n out (forget s)" using assms(1) by (simp add: pool_inv_def)
  consider k where "k \<in> running s" | k where "k \<in> sent s" | "running s = {}" "sent s = {}" by blast
  then show ?thesis
  proof cases
    case 1
    then show ?thesis using work by blast
  next
    case (2 k)
    then show ?thesis using release leave by blast
  next
    case 3
    then have "wg s = 0" using inv by (simp add: par_inv_def)
    then have "started s < n" using assms(3) inv by (auto simp: pool_done_def par_done_def par_inv_def)
    moreover have "sem s = 0" using assms(1) 3 by (auto simp: pool_inv_def)
    ultimately show ?thesis using acquire assms(2) by metis
  qed
qed

text \<open>With no slot at all the first acquisition blocks for ever.\<close>

lemma pool_no_slot: "0 < n \<Longrightarrow> \<not> pool_step n out 0 pool_init s'"
  by (auto simp: pool_init_def elim: pool_step.cases)

text \<open>Every execution ends: each goroutine has four actions.\<close>

definition pool_actions :: "'r pool_state \<Rightarrow> nat" where
  "pool_actions s = par_actions (forget s) + (length (results s) - (card (sent s) - card (released s)))"

lemma pool_actions_step:
  assumes "pool_step n out c s s'" and "pool_inv n out c s"
  shows "pool_actions s' = pool_actions s + 1"
proof -
  have inv: "par_inv n out (forget s)" and rel: "released s \<subseteq> sent s" using assms(2) by (auto simp: pool_inv_def)
  have fin: "finite (running s)" "finite (sent s)" using par_inv_finite [OF inv] by simp_all
  have fr: "finite (released s)" using rel fin finite_subset by blast
  have le: "card (sent s) \<le> length (results s)" using par_inv_sent [OF inv] by simp
  have rl: "card (released s) \<le> card (sent s)" using rel fin by (intro card_mono)
  have new: "k \<in> running s \<Longrightarrow> k \<notin> sent s" for k using inv by (auto simp: par_inv_def)
  show ?thesis
    using assms(1)
  proof cases
    case acquire
    then show ?thesis by (simp add: pool_actions_def par_actions_def)
  next
    case (work k)
    then show ?thesis using fin new le rl by (simp add: pool_actions_def par_actions_def)
  next
    case (release k)
    have "card (insert k (released s)) \<le> card (sent s)" using release rel fin by (intro card_mono) auto
    then show ?thesis using release fr le rl by (simp add: pool_actions_def par_actions_def)
  next
    case (leave k)
    have "0 < card (released s)" "0 < card (sent s)" using leave fr fin card_gt_0_iff by blast+
    then show ?thesis using leave fr fin le rl by (simp add: pool_actions_def par_actions_def card_Diff_singleton)
  qed
qed

lemma pool_actions_steps:
  "(pool_step n out c ^^ m) pool_init s \<Longrightarrow> pool_inv n out c s \<and> pool_actions s = m"
proof (induction m arbitrary: s)
  case 0
  have "pool_actions (pool_init :: 'a pool_state) = 0"
    by (simp add: pool_actions_def par_actions_def) (simp add: pool_init_def)
  then show ?case using 0 pool_inv_init by auto
next
  case (Suc m)
  then obtain s0 where "(pool_step n out c ^^ m) pool_init s0" "pool_step n out c s0 s" by auto
  then show ?case using Suc.IH [of s0] pool_actions_step pool_inv_step by fastforce
qed

lemma pool_actions_bound:
  assumes "pool_inv n out c s"
  shows "pool_actions s \<le> 4 * n" and "pool_done n s \<longleftrightarrow> pool_actions s = 4 * n"
proof -
  have inv: "par_inv n out (forget s)" and rel: "released s \<subseteq> sent s" using assms by (auto simp: pool_inv_def)
  have fin: "finite (sent s)" using par_inv_finite [OF inv] by simp
  have a: "par_actions (forget s) \<le> 3 * n" "par_actions (forget s) = 3 * n \<longleftrightarrow> pool_done n s"
    using par_actions_bound [OF inv] by (auto simp: pool_done_def)
  have l: "length (results s) \<le> n" using par_inv_delivered [OF inv] inv by (auto simp: par_inv_def)
  show "pool_actions s \<le> 4 * n" using a l by (simp add: pool_actions_def)
  show "pool_done n s \<longleftrightarrow> pool_actions s = 4 * n"
  proof
    assume d: "pool_done n s"
    then have "card (running s) = 0" "card (sent s) = 0"
      using inv by (auto simp: pool_done_def par_done_def par_inv_def)
    then have "length (results s) = n"
      using d par_inv_delivered [OF inv] by (simp add: pool_done_def par_done_def)
    then show "pool_actions s = 4 * n" using a d \<open>card (sent s) = 0\<close> by (simp add: pool_actions_def)
  next
    assume "pool_actions s = 4 * n"
    then have "par_actions (forget s) = 3 * n" using a(1) l unfolding pool_actions_def by linarith
    then show "pool_done n s" using a by simp
  qed
qed

lemma pool_done_results:
  assumes "pool_inv n out c s" and "pool_done n s"
  shows "\<exists>picks. results s = map out (arrange picks [0 ..< n])"
proof -
  have "par_inv n out (forget s)" using assms(1) by (simp add: pool_inv_def)
  from par_done_order [OF this] assms(2) obtain order where
    "mset order = mset [0 ..< n]" "results s = map out order" by (auto simp: pool_done_def)
  then show ?thesis using arrange_surj [of order "[0 ..< n]"] by metis
qed

section \<open>Properties\<close>

text \<open>
  C26. The worker pool: with at least one slot, at most \<open>c\<close> requests are in flight at any time, the
  pool never deadlocks before all \<open>n\<close> goroutines have finished, an execution takes at most \<open>4 * n\<close>
  steps and \<open>wg.Wait()\<close> returns exactly at \<open>4 * n\<close>; then the results are those of the \<open>n\<close>
  requests, each once, in some order.
\<close>

theorem worker_pool_correct:
  assumes "0 < c" and "(pool_step n out c ^^ m) pool_init s"
  shows "card (running s) \<le> c \<and> sem s \<le> c \<and> m \<le> 4 * n \<and>
    (pool_done n s \<longleftrightarrow> m = 4 * n) \<and> (pool_done n s \<or> (\<exists>s'. pool_step n out c s s')) \<and>
    (pool_done n s \<longrightarrow> (\<exists>picks. results s = map out (arrange picks [0 ..< n])))"
proof -
  have inv: "pool_inv n out c s" and m: "pool_actions s = m" using pool_actions_steps [OF assms(2)] by auto
  then have "sem s \<le> c" by (simp add: pool_inv_def)
  then show ?thesis
    using pool_in_flight [OF inv] pool_progress [OF inv assms(1)] pool_actions_bound [OF inv] m
      pool_done_results [OF inv] by blast
qed

theorem worker_pool_correct_witness:
  "let s = pool_init :: int pool_state in
     card (running s) \<le> 1 \<and> sem s \<le> 1 \<and> 0 \<le> 4 * (2::nat) \<and>
     (pool_done 2 s \<longleftrightarrow> 0 = 4 * (2::nat)) \<and> (pool_done 2 s \<or> (\<exists>s'. pool_step 2 int 1 s s')) \<and>
     (pool_done 2 s \<longrightarrow> (\<exists>picks. results s = map int (arrange picks [0 ..< 2])))"
  unfolding Let_def by (rule worker_pool_correct) simp_all

end
