(* ===== verification/Go_Bench.thy ===== *)
theory Go_Bench
  imports Go_Stats Go_Pool
begin

text \<open>
  The four benchmark programs below bench/go_client: bench_concurrent, bench_3way, bench_h3
  and bench_qpack. A request's answer comes from the client of its call (\<open>Go_Http.client\<close>),
  its duration from a clock argument \<open>lat\<close> (nanoseconds per call); concurrent runs take the
  order in which the goroutines finish. Printing is left out; what is printed is kept as a
  record. A panic, and the runtime's report that all goroutines are asleep, end a run with
  \<open>Panic\<close>.
\<close>

section \<open>Requests\<close>

definition timed_request ::
    "client \<Rightarrow> (nat \<Rightarrow> int) \<Rightarrow> nat \<Rightarrow> int \<Rightarrow> string \<Rightarrow> string \<Rightarrow> string \<Rightarrow> string option
      \<Rightarrow> int \<times> int \<times> go_error option" where
  "timed_request c lat k tmo ctype method url body =
     (case NewRequestWithContext c tmo method url
             (case body of None \<Rightarrow> None | Some b \<Rightarrow> if b = [] then None else Some b) of
        Inl err \<Rightarrow> (0, 0, Some err)
      | Inr req \<Rightarrow>
          (let req = (case body of None \<Rightarrow> req
                      | Some b \<Rightarrow> req\<lparr>rq_header := Header_Set (rq_header req) ''content-type'' ctype\<rparr>)
           in case cl_do c k req of
                Inl err \<Rightarrow> (0, lat k, Some err)
              | Inr resp \<Rightarrow> (StatusCode resp, lat k, None)))"

definition bc_doRequest ::
    "client \<Rightarrow> (nat \<Rightarrow> int) \<Rightarrow> nat \<Rightarrow> string \<Rightarrow> string \<Rightarrow> string \<Rightarrow> string option \<Rightarrow> int \<times> int" where
  "bc_doRequest c lat k base method path body =
     (case timed_request c lat k (30 * Second) ''application/octet-stream'' method (base @ path) body of
        (status, elapsed, _) \<Rightarrow> (status, elapsed))"

definition tw_doRequest ::
    "client \<Rightarrow> (nat \<Rightarrow> int) \<Rightarrow> nat \<Rightarrow> string \<Rightarrow> string \<Rightarrow> string \<Rightarrow> string option \<Rightarrow> int \<times> int" where
  "tw_doRequest c lat k base method path body =
     (case timed_request c lat k (20 * Second) ''application/json'' method (base @ path) body of
        (status, elapsed, _) \<Rightarrow> (status, elapsed))"

definition doReq ::
    "client \<Rightarrow> (nat \<Rightarrow> int) \<Rightarrow> nat \<Rightarrow> string \<Rightarrow> string \<Rightarrow> string option \<Rightarrow> int \<times> int \<times> go_error option" where
  "doReq c lat k method url body = timed_request c lat k (15 * Second) ''application/json'' method url body"

definition bench_Get :: "client \<Rightarrow> nat \<Rightarrow> string \<Rightarrow> go_error + http_response" where
  "bench_Get c k url =
     (case NewRequestWithContext c 0 ''GET'' url None of Inl err \<Rightarrow> Inl err | Inr req \<Rightarrow> cl_do c k req)"

record scenario =
  sc_label :: string
  sc_method :: string
  sc_path :: string
  sc_body :: "string option"

definition need :: "'a option \<Rightarrow> ('a \<Rightarrow> 'b go_result) \<Rightarrow> 'b go_result" where
  "need x f = (case x of None \<Rightarrow> Panic ''index out of range'' | Some v \<Rightarrow> f v)"

section \<open>bench_concurrent\<close>

record bc_result =
  bc_ok :: nat
  bc_total :: int
  bc_failed :: int
  bc_tps :: float64
  bc_p50 :: int
  bc_p95 :: int
  bc_p99 :: int
  bc_max :: int
  bc_avg :: int

definition bc_runScenario ::
    "(nat \<Rightarrow> client) \<Rightarrow> (nat \<Rightarrow> int) \<Rightarrow> nat list \<Rightarrow> int \<Rightarrow> string \<Rightarrow> scenario \<Rightarrow> int \<Rightarrow> int \<Rightarrow> bc_result go_result" where
  "bc_runScenario cl lat picks wall base sc conns reps =
     (let total = wrap64 (conns * reps) in
      if total < 0 then Panic ''makeslice: cap out of range''
      else
        (let outs = map (\<lambda>k. bc_doRequest (cl k) lat k base (sc_method sc) (sc_path sc) (sc_body sc))
                      (arrange picks [0 ..< nat total]);
             ok = length (filter (\<lambda>(status, l). status = 200) outs);
             lats = sort (map snd outs);
             maxLat = (if lats \<noteq> [] then last lats else 0)
         in need (pct lats p50) (\<lambda>a. need (pct lats p95) (\<lambda>b. need (pct lats p99) (\<lambda>c.
              Ret \<lparr>bc_ok = ok, bc_total = total, bc_failed = total - int ok,
                   bc_tps = fdiv (float_of_int (int ok)) (Seconds wall),
                   bc_p50 = a, bc_p95 = b, bc_p99 = c, bc_max = maxLat, bc_avg = avgDur lats\<rparr>)))))"

definition bc_scenarios :: "scenario list" where
  "bc_scenarios =
     [\<lparr>sc_label = ''GET  /          '', sc_method = ''GET'', sc_path = ''/'', sc_body = None\<rparr>,
      \<lparr>sc_label = ''POST /echo  20B '', sc_method = ''POST'', sc_path = ''/echo'',
       sc_body = Some ([CHR 0x7B, CHR 0x22] @ ''msg'' @ [CHR 0x22] @ '':'' @ [CHR 0x22] @ ''hello'' @ [CHR 0x22, CHR 0x7D])\<rparr>,
      \<lparr>sc_label = ''POST /echo  1MB '', sc_method = ''POST'', sc_path = ''/echo'', sc_body = Some (replicate 1048576 (CHR ''x''))\<rparr>]"

fun run_each :: "('a \<Rightarrow> 'b go_result) \<Rightarrow> 'a list \<Rightarrow> 'b list go_result" where
  "run_each f [] = Ret []"
| "run_each f (x # xs) =
     (case f x of Panic m \<Rightarrow> Panic m
      | Ret y \<Rightarrow> (case run_each f xs of Panic m \<Rightarrow> Panic m | Ret ys \<Rightarrow> Ret (y # ys)))"

text \<open>The environment of one scenario: clients, clock, finishing order, wall time.\<close>

record bench_env =
  be_cl :: "nat \<Rightarrow> client"
  be_lat :: "nat \<Rightarrow> int"
  be_picks :: "nat list"
  be_wall :: int

definition bc_main ::
    "client \<Rightarrow> (nat \<Rightarrow> bench_env) \<Rightarrow> int \<Rightarrow> int \<Rightarrow> int \<Rightarrow> (int \<times> bc_result list) go_result" where
  "bc_main c0 env port conns reps =
     (let base = ''https://127.0.0.1:'' @ show_int port in
      case bc_doRequest c0 (\<lambda>_. 0) 0 base ''GET'' ''/'' None of (status, _) \<Rightarrow>
        if status = 0 then Ret (1, [])
        else (case run_each (\<lambda>(i, sc). bc_runScenario (be_cl (env i)) (be_lat (env i)) (be_picks (env i))
                                (be_wall (env i)) base sc conns reps) (enumerate 0 bc_scenarios) of
                Panic m \<Rightarrow> Panic m
              | Ret rs \<Rightarrow> Ret (0, rs)))"

section \<open>bench_3way\<close>

record stats =
  st_n :: nat
  st_mean :: int
  st_p50 :: int
  st_p95 :: int
  st_p99 :: int
  st_rps :: float64

definition computeStats :: "int list \<Rightarrow> stats go_result" where
  "computeStats lats =
     (if length lats = 0 then
        Ret \<lparr>st_n = 0, st_mean = 0, st_p50 = 0, st_p95 = 0, st_p99 = 0, st_rps = Fin 0\<rparr>
      else
        (let lats = sort lats;
             m = avgDur lats;
             rps = (if 0 < m then fdiv (float_of_int Second) (float_of_int m) else Fin 0)
         in need (pct lats p50) (\<lambda>a. need (pct lats p95) (\<lambda>b. need (pct lats p99) (\<lambda>c.
              Ret \<lparr>st_n = length lats, st_mean = m, st_p50 = a, st_p95 = b, st_p99 = c, st_rps = rps\<rparr>)))))"

text \<open>
  The slice, the semaphore channel and the loop of the pool: negative sizes panic, and
  with a channel without room the first send blocks for ever (\<open>Go_Pool.pool_no_slot\<close>).
\<close>

definition pool_run :: "nat list \<Rightarrow> int \<Rightarrow> int \<Rightarrow> (nat \<Rightarrow> 'r) \<Rightarrow> 'r list go_result" where
  "pool_run picks n c out =
     (if n < 0 then Panic ''makeslice: cap out of range''
      else if c < 0 then Panic ''makechan: size out of range''
      else if c = 0 \<and> 0 < n then Panic ''all goroutines are asleep - deadlock!''
      else Ret (map out (arrange picks [0 ..< nat n])))"

definition tw_runScenario ::
    "(nat \<Rightarrow> client) \<Rightarrow> (nat \<Rightarrow> int) \<Rightarrow> nat list \<Rightarrow> string \<Rightarrow> scenario \<Rightarrow> int \<Rightarrow> int \<Rightarrow> stats go_result" where
  "tw_runScenario cl lat picks base sc n c =
     (case pool_run picks n c (\<lambda>k. tw_doRequest (cl k) lat k base (sc_method sc) (sc_path sc) (sc_body sc)) of
        Panic m \<Rightarrow> Panic m
      | Ret outs \<Rightarrow> computeStats (map snd (filter (\<lambda>(status, l). status = 200) outs)))"

record winner =
  w_label :: string
  w_crP50 :: int
  w_goP50 :: int
  winCryst :: bool

definition tw_printSummary :: "winner list \<Rightarrow> nat \<times> nat" where
  "tw_printSummary wins =
     foldl (\<lambda>(crWins, goWins) w. if winCryst w then (crWins + 1, goWins) else (crWins, goWins + 1)) (0, 0) wins"

definition tw_scenarios :: "scenario list" where
  "tw_scenarios =
     [\<lparr>sc_label = ''GET /'', sc_method = ''GET'', sc_path = ''/'', sc_body = None\<rparr>,
      \<lparr>sc_label = ''GET /greet'', sc_method = ''GET'', sc_path = ''/greet?name=Bench'', sc_body = None\<rparr>,
      \<lparr>sc_label = ''GET /users/42'', sc_method = ''GET'', sc_path = ''/users/42'', sc_body = None\<rparr>,
      \<lparr>sc_label = ''POST /echo 1KB'', sc_method = ''POST'', sc_path = ''/echo'',
       sc_body = Some ([CHR 0x7B, CHR 0x22] @ ''k'' @ [CHR 0x22] @ '':'' @ [CHR 0x22] @ Repeat ''v'' 512 @ [CHR 0x22, CHR 0x7D])\<rparr>,
      \<lparr>sc_label = ''POST /echo 64KB'', sc_method = ''POST'', sc_path = ''/echo'', sc_body = Some (replicate 65536 (CHR ''x''))\<rparr>]"

definition tw_compare ::
    "(nat \<Rightarrow> bench_env) \<Rightarrow> (nat \<Rightarrow> bench_env) \<Rightarrow> string \<Rightarrow> string \<Rightarrow> int \<Rightarrow> int \<Rightarrow> nat \<times> scenario \<Rightarrow> winner go_result" where
  "tw_compare cre goe crBase goBase n c isc =
     (case isc of (i, sc) \<Rightarrow>
      (case tw_runScenario (be_cl (cre i)) (be_lat (cre i)) (be_picks (cre i)) crBase sc n c of
         Panic m \<Rightarrow> Panic m
       | Ret crStats \<Rightarrow>
           (case tw_runScenario (be_cl (goe i)) (be_lat (goe i)) (be_picks (goe i)) goBase sc n c of
              Panic m \<Rightarrow> Panic m
            | Ret goStats \<Rightarrow>
                Ret \<lparr>w_label = sc_label sc, w_crP50 = st_p50 crStats, w_goP50 = st_p50 goStats,
                     winCryst = st_p50 crStats \<le> st_p50 goStats\<rparr>)))"

text \<open>
  \<open>main\<close>: the error of the inline server, the probe of the Crystal server, and then the
  scenarios; the result is the exit code and the two counts of the summary. The warm-up
  requests have no effect on the result.
\<close>

definition tw_main ::
    "go_error option \<Rightarrow> client \<Rightarrow> (nat \<Rightarrow> bench_env) \<Rightarrow> (nat \<Rightarrow> bench_env) \<Rightarrow> int \<Rightarrow> int \<Rightarrow> int \<Rightarrow> int
      \<Rightarrow> (int \<times> nat \<times> nat) go_result" where
  "tw_main srvErr probe cre goe crystalPort goPort n c =
     (case srvErr of Some err \<Rightarrow> Ret (1, 0, 0)
      | None \<Rightarrow>
          (let crystalBase = ''https://127.0.0.1:'' @ show_int crystalPort;
               goBase = ''https://127.0.0.1:'' @ show_int goPort
           in case NewRequestWithContext probe (5 * Second) ''GET'' (crystalBase @ ''/ping'') None of
                Inl err \<Rightarrow> Panic ''nil pointer dereference''
              | Inr req \<Rightarrow>
                  (case cl_do probe 0 req of
                     Inl err \<Rightarrow> Ret (1, 0, 0)
                   | Inr resp \<Rightarrow>
                       (case run_each (tw_compare cre goe crystalBase goBase n c) (enumerate 0 tw_scenarios) of
                          Panic m \<Rightarrow> Panic m
                        | Ret wins \<Rightarrow> Ret (0, tw_printSummary wins)))))"

section \<open>bench_h3\<close>

definition runSeq :: "client \<Rightarrow> (nat \<Rightarrow> int) \<Rightarrow> string \<Rightarrow> int \<Rightarrow> (int list \<times> nat) go_result" where
  "runSeq c lat url n =
     (if n < 0 then Panic ''makeslice: cap out of range''
      else
        (case foldl (\<lambda>(lats, errCount) i.
                case bench_Get c i url of
                  Inl err \<Rightarrow> (lats, errCount + 1)
                | Inr resp \<Rightarrow> (lats @ [lat i], errCount)) ([], 0) [0 ..< nat n] of
           (lats, errCount) \<Rightarrow> Ret (sort lats, errCount)))"

definition runConc ::
    "client \<Rightarrow> (nat \<Rightarrow> int) \<Rightarrow> nat list \<Rightarrow> int \<Rightarrow> string \<Rightarrow> int \<Rightarrow> int \<Rightarrow> (float64 \<times> int \<times> int \<times> int) go_result" where
  "runConc cl lat picks elapsed url n c =
     (case pool_run picks n c (\<lambda>k. case bench_Get cl k url of Inl err \<Rightarrow> None | Inr resp \<Rightarrow> Some (lat k)) of
        Panic m \<Rightarrow> Panic m
      | Ret outs \<Rightarrow>
          (let lats = sort (map the (filter (\<lambda>x. x \<noteq> None) outs));
               errs = wrap32 (int (length (filter (\<lambda>x. x = None) outs)));
               rps = fdiv (float_of_int (int (length lats))) (Seconds elapsed)
           in if lats \<noteq> [] then
                need (slice_get lats (pct_index (length lats) p99)) (\<lambda>q. Ret (rps, q, last lats, errs))
              else Ret (rps, 0, 0, errs)))"

definition runThroughput :: "client \<Rightarrow> int \<Rightarrow> string \<Rightarrow> int \<Rightarrow> float64 \<times> nat" where
  "runThroughput c elapsed url n =
     (case foldl (\<lambda>(nb, errCount) i.
             case bench_Get c i url of
               Inl err \<Rightarrow> (nb, errCount + 1)
             | Inr resp \<Rightarrow> (wrap64 (nb + int (length (rs_body resp))), errCount)) (0, 0) [0 ..< nat n] of
        (nb, errCount) \<Rightarrow>
          (if 0 < elapsed then fdiv (fdiv (float_of_int nb) (Seconds elapsed)) (Fin 1000000) else Fin 0, errCount))"

record h3_result =
  h3_seqAvg :: int
  h3_seqP50 :: int
  h3_seqP99 :: int
  h3_seqMax :: int
  h3_concRPS :: float64
  h3_concP99 :: int
  h3_concMax :: int
  h3_throughputMB :: float64

text \<open>The three runs of \<open>bench\<close> share one client; each numbers its own calls.\<close>

record h3_env =
  he_seq :: client
  he_seqLat :: "nat \<Rightarrow> int"
  he_conc :: client
  he_concLat :: "nat \<Rightarrow> int"
  he_picks :: "nat list"
  he_concElapsed :: int
  he_tp :: client
  he_tpElapsed :: int

definition bench :: "h3_env \<Rightarrow> string \<Rightarrow> int \<Rightarrow> int \<Rightarrow> int \<Rightarrow> int \<Rightarrow> h3_result go_result" where
  "bench e base seqN concN concC tpN =
     (case runSeq (he_seq e) (he_seqLat e) (base @ ''/ping'') seqN of
        Panic m \<Rightarrow> Panic m
      | Ret (lats, serr) \<Rightarrow>
     (case runConc (he_conc e) (he_concLat e) (he_picks e) (he_concElapsed e) (base @ ''/ping'') concN concC of
        Panic m \<Rightarrow> Panic m
      | Ret (rps, cp99, cmax, cerr) \<Rightarrow>
          (let mbps = fst (runThroughput (he_tp e) (he_tpElapsed e) (base @ ''/100k'') tpN);
               seqMax = (if lats \<noteq> [] then last lats else 0)
           in need (pct lats p50) (\<lambda>a. need (pct lats p99) (\<lambda>b.
                Ret \<lparr>h3_seqAvg = avgDur lats, h3_seqP50 = a, h3_seqP99 = b, h3_seqMax = seqMax,
                     h3_concRPS = rps, h3_concP99 = cp99, h3_concMax = cmax, h3_throughputMB = mbps\<rparr>)))))"

text \<open>The verdict lines of \<open>printReport\<close>: whether Crystal is called faster, and the ratio.\<close>

definition report_line :: "bool \<Rightarrow> float64 \<Rightarrow> float64 \<Rightarrow> bool \<times> float64" where
  "report_line crystal better worse = (crystal, fdiv better worse)"

definition printReport :: "h3_result \<Rightarrow> h3_result \<Rightarrow> (bool \<times> float64) list" where
  "printReport cr go =
     (if 0 < h3_seqAvg go \<and> 0 < h3_seqAvg cr then
        [if h3_seqAvg cr < h3_seqAvg go
         then report_line True (float_of_int (h3_seqAvg go)) (float_of_int (h3_seqAvg cr))
         else report_line False (float_of_int (h3_seqAvg cr)) (float_of_int (h3_seqAvg go)),
         if fless (h3_concRPS go) (h3_concRPS cr) then report_line True (h3_concRPS cr) (h3_concRPS go)
         else report_line False (h3_concRPS go) (h3_concRPS cr),
         if fless (h3_throughputMB go) (h3_throughputMB cr)
         then report_line True (h3_throughputMB cr) (h3_throughputMB go)
         else report_line False (h3_throughputMB go) (h3_throughputMB cr)]
      else [])"

datatype h3_end = Exit1 | ServesForever | Report "(bool \<times> float64) list"

definition probe_ok :: "client \<Rightarrow> string \<Rightarrow> bool go_result" where
  "probe_ok c base =
     (case NewRequestWithContext c (5 * Second) ''GET'' (base @ ''/ping'') None of
        Inl err \<Rightarrow> Panic ''nil pointer dereference''
      | Inr req \<Rightarrow> Ret (case cl_do c 0 req of Inl err \<Rightarrow> False | Inr resp \<Rightarrow> True))"

definition h3_main ::
    "bool \<Rightarrow> go_error option \<Rightarrow> client \<Rightarrow> client \<Rightarrow> h3_env \<Rightarrow> h3_env \<Rightarrow> int \<Rightarrow> int \<Rightarrow> int \<Rightarrow> int \<Rightarrow> int \<Rightarrow> int
      \<Rightarrow> h3_end go_result" where
  "h3_main serverMode srvErr crProbe goProbe cre goe crystalPort goPort seqN concN concC tpN =
     (if serverMode then Ret (if srvErr \<noteq> None then Exit1 else ServesForever)
      else
        (let crystalBase = ''https://127.0.0.1:'' @ show_int crystalPort;
             goBase = ''https://127.0.0.1:'' @ show_int goPort
         in case probe_ok crProbe crystalBase of
              Panic m \<Rightarrow> Panic m
            | Ret False \<Rightarrow> Ret Exit1
            | Ret True \<Rightarrow>
          (case probe_ok goProbe goBase of
              Panic m \<Rightarrow> Panic m
            | Ret False \<Rightarrow> Ret Exit1
            | Ret True \<Rightarrow>
          (case bench cre crystalBase seqN concN concC tpN of
              Panic m \<Rightarrow> Panic m
            | Ret crRes \<Rightarrow>
          (case bench goe goBase seqN concN concC tpN of
              Panic m \<Rightarrow> Panic m
            | Ret goRes \<Rightarrow> Ret (Report (printReport crRes goRes)))))))"

section \<open>bench_qpack\<close>

definition runBatch :: "client \<Rightarrow> (nat \<Rightarrow> int) \<Rightarrow> string \<Rightarrow> scenario \<Rightarrow> int \<Rightarrow> int list go_result" where
  "runBatch c lat base sc batchN =
     (if batchN < 0 then Panic ''makeslice: cap out of range''
      else Ret (foldl (\<lambda>lats i.
                  case doReq c lat i (sc_method sc) (base @ sc_path sc) (sc_body sc) of
                    (_, elapsed, None) \<Rightarrow> lats @ [elapsed]
                  | (_, elapsed, Some err) \<Rightarrow> lats) [] [0 ..< nat batchN]))"

text \<open>
  The loop of \<open>benchScenario\<close>: connection \<open>j\<close> answers batch \<open>j\<close>. A batch size of 0
  never decreases \<open>remaining\<close>; not returning is \<open>None\<close>. The result lists the sizes of the
  batches beside the latencies.
\<close>

partial_function (option) batch_loop ::
    "(nat \<Rightarrow> client) \<Rightarrow> (nat \<Rightarrow> nat \<Rightarrow> int) \<Rightarrow> string \<Rightarrow> scenario \<Rightarrow> int \<Rightarrow> nat \<Rightarrow> int \<Rightarrow> int list \<Rightarrow> int list
      \<Rightarrow> (int list \<times> int list) go_result option" where
  "batch_loop cl lat base sc batch j remaining acc sizes =
     (if 0 < remaining then
        (let b = (if remaining < batch then remaining else batch)
         in case runBatch (cl j) (lat j) base sc b of
              Panic m \<Rightarrow> Some (Panic m)
            | Ret lats \<Rightarrow> batch_loop cl lat base sc batch (j + 1) (remaining - b) (acc @ lats) (sizes @ [b]))
      else Some (Ret (acc, sizes)))"

definition benchScenario ::
    "client \<Rightarrow> (nat \<Rightarrow> client) \<Rightarrow> (nat \<Rightarrow> nat \<Rightarrow> int) \<Rightarrow> string \<Rightarrow> scenario \<Rightarrow> int \<Rightarrow> int \<Rightarrow> int
      \<Rightarrow> stats go_result option" where
  "benchScenario wcl cl lat base sc n warmup batch =
     (let wn = (if batch < warmup then batch else warmup)
      in case runBatch wcl (\<lambda>_. 0) base sc wn of
           Panic m \<Rightarrow> Some (Panic m)
         | Ret _ \<Rightarrow>
             if n < 0 then Some (Panic ''makeslice: cap out of range'')
             else
               (case batch_loop cl lat base sc batch 0 n [] [] of
                  None \<Rightarrow> None
                | Some (Panic m) \<Rightarrow> Some (Panic m)
                | Some (Ret (lats, sizes)) \<Rightarrow>
                    (let lats = sort lats; m = avgDur lats;
                         rps = (if 0 < m then fdiv (float_of_int Second) (float_of_int m) else Fin 0)
                     in Some (need (pct lats p50) (\<lambda>a. need (pct lats p95) (\<lambda>b. need (pct lats p99) (\<lambda>c.
                          Ret \<lparr>st_n = length lats, st_mean = m, st_p50 = a, st_p95 = b, st_p99 = c, st_rps = rps\<rparr>)))))))"

definition qp_scenarios :: "scenario list" where
  "qp_scenarios =
     [\<lparr>sc_label = ''GET /'', sc_method = ''GET'', sc_path = ''/'', sc_body = None\<rparr>,
      \<lparr>sc_label = ''GET /greet'', sc_method = ''GET'', sc_path = ''/greet?name=World'', sc_body = None\<rparr>,
      \<lparr>sc_label = ''GET /users/42'', sc_method = ''GET'', sc_path = ''/users/42'', sc_body = None\<rparr>,
      \<lparr>sc_label = ''POST /echo 1KB'', sc_method = ''POST'', sc_path = ''/echo'',
       sc_body = Some ([CHR 0x7B, CHR 0x22] @ ''d'' @ [CHR 0x22] @ '':'' @ [CHR 0x22] @ Repeat ''x'' 1000 @ [CHR 0x22, CHR 0x7D])\<rparr>]"

text \<open>
  \<open>benchBinary\<close>: whether the binary exists and starts, then one result per scenario (a map
  with the scenario labels as keys). \<open>main\<close>: the exit code and the table.
\<close>

record qp_env =
  qe_missing :: bool
  qe_startErr :: "go_error option"
  qe_warm :: "nat \<Rightarrow> client"
  qe_cl :: "nat \<Rightarrow> nat \<Rightarrow> client"
  qe_lat :: "nat \<Rightarrow> nat \<Rightarrow> nat \<Rightarrow> int"

fun qp_results ::
    "qp_env \<Rightarrow> string \<Rightarrow> int \<Rightarrow> int \<Rightarrow> int \<Rightarrow> (nat \<times> scenario) list \<Rightarrow> (string \<rightharpoonup> stats) \<Rightarrow> (string \<rightharpoonup> stats) go_result option" where
  "qp_results e base n warmup batch [] rmap = Some (Ret rmap)"
| "qp_results e base n warmup batch ((i, sc) # rest) rmap =
     (case benchScenario (qe_warm e i) (qe_cl e i) (qe_lat e i) base sc n warmup batch of
        None \<Rightarrow> None
      | Some (Panic m) \<Rightarrow> Some (Panic m)
      | Some (Ret r) \<Rightarrow> qp_results e base n warmup batch rest (rmap(sc_label sc \<mapsto> r)))"

definition benchBinary ::
    "qp_env \<Rightarrow> string \<Rightarrow> int \<Rightarrow> int \<Rightarrow> int \<Rightarrow> int \<Rightarrow> ((string \<rightharpoonup> stats) option) go_result option" where
  "benchBinary e host port n warmup batch =
     (if qe_missing e \<or> qe_startErr e \<noteq> None then Some (Ret None)
      else
        (case qp_results e (''https://'' @ host @ '':'' @ show_int port) n warmup batch (enumerate 0 qp_scenarios) Map.empty of
           None \<Rightarrow> None
         | Some (Panic m) \<Rightarrow> Some (Panic m)
         | Some (Ret rmap) \<Rightarrow> Some (Ret (Some rmap))))"

text \<open>
  \<open>printTable\<close>: for every scenario one row for each mode that has results, with the durations
  rounded to ten microseconds (half away from zero) and, for every row but the first, the change of
  the median in per cent when the first median is positive.
\<close>

definition dur_round :: "int \<Rightarrow> int \<Rightarrow> int" where
  "dur_round m d =
     (let r = \<bar>d\<bar> mod m; x = (if r + r < m then \<bar>d\<bar> - r else \<bar>d\<bar> + (m - r))
      in if d < 0 then - x else x)"

record table_row =
  tr_scenario :: string
  tr_mode :: string
  tr_durs :: "int list"
  tr_rps :: float64
  tr_delta :: "float64 option"

fun table_rows ::
    "(string \<times> (string \<rightharpoonup> stats)) list \<Rightarrow> scenario \<Rightarrow> string \<Rightarrow> int option \<Rightarrow> string list \<Rightarrow> table_row list" where
  "table_rows allResults sc label0 refP50 [] = []"
| "table_rows allResults sc label0 refP50 (label # labels) =
     (case Option.bind (map_of allResults label) (\<lambda>res. res (sc_label sc)) of
        None \<Rightarrow> table_rows allResults sc label0 refP50 labels
      | Some r \<Rightarrow>
          \<lparr>tr_scenario = (if label = label0 then sc_label sc else replicate 17 (CHR '' '')), tr_mode = label,
           tr_durs = map (dur_round 10000) [st_mean r, st_p50 r, st_p95 r, st_p99 r], tr_rps = st_rps r,
           tr_delta = (case refP50 of None \<Rightarrow> None
              | Some p \<Rightarrow> if 0 < p then Some (fmul (fdiv (float_of_int (st_p50 r - p)) (float_of_int p)) (Fin 100)) else None)\<rparr>
          # table_rows allResults sc label0 (case refP50 of None \<Rightarrow> Some (st_p50 r) | Some p \<Rightarrow> Some p) labels)"

definition printTable :: "(string \<times> (string \<rightharpoonup> stats)) list \<Rightarrow> string list \<Rightarrow> scenario list \<Rightarrow> table_row list list" where
  "printTable allResults labels scenarios = map (\<lambda>sc. table_rows allResults sc (hd labels) None labels) scenarios"

definition qp_main ::
    "qp_env \<Rightarrow> qp_env \<Rightarrow> string \<Rightarrow> int \<Rightarrow> int \<Rightarrow> int \<Rightarrow> int \<Rightarrow> (int \<times> table_row list list) go_result option" where
  "qp_main stat dyn host port n warmup batch =
     (case benchBinary stat host port n warmup batch of
        None \<Rightarrow> None
      | Some (Panic m) \<Rightarrow> Some (Panic m)
      | Some (Ret r1) \<Rightarrow>
          (case benchBinary dyn host port n warmup batch of
             None \<Rightarrow> None
           | Some (Panic m) \<Rightarrow> Some (Panic m)
           | Some (Ret r2) \<Rightarrow>
               (let allResults = (case r1 of None \<Rightarrow> [] | Some x \<Rightarrow> [(''STATIC  (cap=0)'', x)]) @
                                 (case r2 of None \<Rightarrow> [] | Some x \<Rightarrow> [(''DYNAMIC (cap=4096)'', x)])
                in Some (Ret (if allResults = [] then (1, [])
                              else (0, printTable allResults (map fst allResults) qp_scenarios))))))"

section \<open>Percentiles never panic\<close>

lemma need_pct:
  assumes "length lats < 2 ^ 53"
  shows "\<exists>a b c. need (pct lats p50) (\<lambda>a. need (pct lats p95) (\<lambda>b. need (pct lats p99) (\<lambda>c. f a b c))) = f a b c"
proof (cases "lats = []")
  case True
  then have "pct lats q = Some 0" for q by (simp add: pct_def)
  then show ?thesis by (auto simp: need_def)
next
  case False
  then show ?thesis using pct_values [OF False assms] by (auto simp: need_def)
qed

lemma sort_Nil_iff: "sort xs = [] \<longleftrightarrow> xs = []"
  by (metis length_0_conv length_sort)

lemma computeStats_sorted:
  assumes "lats \<noteq> []" and "length lats < 2 ^ 53" and "\<forall>l\<in>set lats. 0 \<le> l" and "sum_list lats < 2 ^ 63"
  shows "\<exists>st. computeStats lats = Ret st \<and> st_n st = length lats \<and>
    Min (set lats) \<le> st_p50 st \<and> st_p50 st \<le> st_p95 st \<and> st_p95 st \<le> st_p99 st \<and> st_p99 st \<le> Max (set lats) \<and>
    {st_p50 st, st_p95 st, st_p99 st} \<subseteq> set lats \<and>
    Min (set lats) \<le> st_mean st \<and> st_mean st \<le> Max (set lats)"
proof -
  let ?s = "sort lats"
  have s: "sorted ?s" "?s \<noteq> []" "length ?s < 2 ^ 53" "set ?s = set lats" "sum_list ?s = sum_list lats"
    using assms(1,2) by (simp_all add: sort_Nil_iff sum_mset_sum_list [symmetric])
  obtain a b c d where p: "pct ?s p50 = Some a" "pct ?s p95 = Some b" "pct ?s p99 = Some c"
    and o: "hd ?s \<le> a" "a \<le> b" "b \<le> c" "c \<le> d" "d \<le> last ?s" "{a, b, c, d} \<subseteq> set ?s"
    by (rule sorted_pct_order [OF s(1,2,3)])
  have mm: "\<forall>l\<in>set ?s. Min (set lats) \<le> l \<and> l \<le> Max (set lats)" using s(4) by simp
  have "hd ?s \<in> set lats" "last ?s \<in> set lats" using s by (metis hd_in_set, metis last_in_set)
  then have e: "Min (set lats) \<le> hd ?s" "last ?s \<le> Max (set lats)" by simp_all
  have "0 \<le> Min (set lats)" using assms(1,3) by simp
  then have "Min (set lats) \<le> avgDur ?s" "avgDur ?s \<le> Max (set lats)"
    using avgDur_bounds [OF mm _ _ s(2)] s(5) assms(4) by simp_all
  then show ?thesis
    using p o e s assms(1) by (auto simp: computeStats_def need_def Let_def)
qed

section \<open>The batches\<close>

lemma runBatch_length:
  assumes "runBatch c lat base sc b = Ret lats"
  shows "length lats \<le> nat b"
proof -
  have "length (foldl (\<lambda>lats i.
                  case doReq c lat i (sc_method sc) (base @ sc_path sc) (sc_body sc) of
                    (_, elapsed, None) \<Rightarrow> lats @ [elapsed]
                  | (_, elapsed, Some err) \<Rightarrow> lats) acc is) \<le> length acc + length is" for acc "is"
    by (induction "is" rule: rev_induct) (auto split: prod.splits option.splits)
  from this [of "[]" "[0 ..< nat b]"] show ?thesis using assms by (auto simp: runBatch_def split: if_splits)
qed

lemma batch_loop_returns:
  assumes "0 < batch"
  shows "\<exists>lats bs. batch_loop cl lat base sc batch j remaining acc sizes = Some (Ret (acc @ lats, sizes @ bs)) \<and>
    (\<forall>b\<in>set bs. 0 < b \<and> b \<le> batch) \<and> sum_list bs = max 0 remaining \<and> int (length lats) \<le> max 0 remaining \<and>
    int (length bs) = (max 0 remaining + batch - 1) div batch"
proof (induction "nat remaining" arbitrary: j remaining acc sizes rule: less_induct)
  case less
  show ?case
  proof (cases "0 < remaining")
    case False
    then have "batch_loop cl lat base sc batch j remaining acc sizes = Some (Ret (acc, sizes))"
      by (subst batch_loop.simps) simp
    moreover have "(batch - 1) div batch = 0" using assms by simp
    ultimately show ?thesis using False by (intro exI [of _ "[]"] exI [of _ "[]"]) (simp add: max_def)
  next
    case True
    define b where "b = (if remaining < batch then remaining else batch)"
    have b: "0 < b" "b \<le> batch" "b \<le> remaining" using True assms by (auto simp: b_def)
    obtain ls where r: "runBatch (cl j) (lat j) base sc b = Ret ls"
      using b by (auto simp: runBatch_def)
    have "int (length ls) \<le> b" using runBatch_length [OF r] b by linarith
    obtain lats bs where IH: "batch_loop cl lat base sc batch (j + 1) (remaining - b) (acc @ ls) (sizes @ [b])
        = Some (Ret ((acc @ ls) @ lats, (sizes @ [b]) @ bs))"
      "\<forall>b\<in>set bs. 0 < b \<and> b \<le> batch" "sum_list bs = max 0 (remaining - b)"
      "int (length lats) \<le> max 0 (remaining - b)" "int (length bs) = (max 0 (remaining - b) + batch - 1) div batch"
      using less [of "remaining - b" "j + 1" "acc @ ls" "sizes @ [b]"] b by auto
    have "batch_loop cl lat base sc batch j remaining acc sizes = Some (Ret (acc @ (ls @ lats), sizes @ (b # bs)))"
      using True r IH(1) by (subst batch_loop.simps) (simp add: b_def [symmetric] Let_def)
    moreover have "int (length (b # bs)) = (max 0 remaining + batch - 1) div batch"
    proof (cases "remaining < batch")
      case True
      then have "b = remaining" by (simp add: b_def)
      then have "int (length bs) = 0" using IH(5) assms by simp
      moreover have "(remaining + batch - 1) div batch = 1"
        using True \<open>0 < remaining\<close> by (intro int_div_pos_eq [of _ _ 1 "remaining - 1"]) auto
      ultimately show ?thesis using \<open>0 < remaining\<close> by (simp add: max_def)
    next
      case False
      then have "remaining + batch - 1 = (remaining - batch + batch - 1) + batch" "b = batch" by (simp_all add: b_def)
      then have "(remaining + batch - 1) div batch = (remaining - batch + batch - 1) div batch + 1"
        using assms by (metis div_add_self2 less_irrefl)
      then show ?thesis using IH(5) False \<open>b = batch\<close> \<open>0 < remaining\<close> by (simp add: max_def)
    qed
    ultimately show ?thesis
      using IH(2-4) b \<open>int (length ls) \<le> b\<close> by (intro exI [of _ "ls @ lats"] exI [of _ "b # bs"]) auto
  qed
qed

lemma batch_loop_stuck:
  assumes "batch_loop cl lat base sc 0 j remaining acc sizes = Some r"
  shows "remaining \<le> 0"
proof -
  have "(0 :: int) = 0 \<longrightarrow> remaining \<le> 0"
  proof (rule batch_loop.raw_induct [OF _ assms, where P = "\<lambda>cl lat base sc batch j remaining acc sizes r. batch = 0 \<longrightarrow> remaining \<le> 0"],
      intro impI, rule ccontr)
    fix loop cl lat base sc batch j remaining acc sizes r
    assume IH: "\<And>cl lat base sc batch j remaining acc sizes r.
        loop cl lat base sc batch j remaining acc sizes = Some r \<Longrightarrow> batch = 0 \<longrightarrow> remaining \<le> 0"
      and body: "(if 0 < remaining
         then let b = if remaining < batch then remaining else batch
              in case runBatch (cl j) (lat j) base sc b of
                   Ret lats \<Rightarrow> loop cl lat base sc batch (j + 1) (remaining - b) (acc @ lats) (sizes @ [b])
                 | Panic m \<Rightarrow> Some (Panic m)
         else Some (Ret (acc, sizes))) = Some r"
      and z: "batch = 0" "\<not> remaining \<le> 0"
    obtain ls where "runBatch (cl j) (lat j) base sc 0 = Ret ls" by (simp add: runBatch_def)
    then have "loop cl lat base sc batch (j + 1) remaining (acc @ ls) (sizes @ [0]) = Some r"
      using body z by (simp add: Let_def)
    then show False using IH z by blast
  qed
  then show ?thesis by simp
qed

section \<open>Properties\<close>

text \<open>
  C32. \<open>computeStats\<close> of bench_3way is sound on every non-empty list of non-negative latencies: the
  floating-point percentile indices never leave the slice, the percentiles are samples in ascending
  order between the smallest and the largest latency, and so is the mean.
\<close>

theorem computeStats_sound:
  assumes "lats \<noteq> []" and "length lats < 2 ^ 53" and "\<forall>l\<in>set lats. 0 \<le> l" and "sum_list lats < 2 ^ 63"
  shows "\<exists>st. computeStats lats = Ret st \<and> st_n st = length lats \<and>
    Min (set lats) \<le> st_p50 st \<and> st_p50 st \<le> st_p95 st \<and> st_p95 st \<le> st_p99 st \<and> st_p99 st \<le> Max (set lats) \<and>
    {st_p50 st, st_p95 st, st_p99 st} \<subseteq> set lats \<and>
    Min (set lats) \<le> st_mean st \<and> st_mean st \<le> Max (set lats)"
  by (rule computeStats_sorted [OF assms])

theorem computeStats_sound_witness:
  "\<exists>st. computeStats [30, 10, 20] = Ret st \<and> st_n st = length [30, 10, 20 :: int] \<and>
    Min (set [30, 10, 20]) \<le> st_p50 st \<and> st_p50 st \<le> st_p95 st \<and> st_p95 st \<le> st_p99 st \<and>
    st_p99 st \<le> Max (set [30, 10, 20]) \<and> {st_p50 st, st_p95 st, st_p99 st} \<subseteq> set [30, 10, 20] \<and>
    Min (set [30, 10, 20]) \<le> st_mean st \<and> st_mean st \<le> Max (set [30, 10, 20])"
  by (rule computeStats_sound) simp_all

text \<open>
  C33. \<open>runConc\<close> of bench_h3 indexes its sorted latencies with \<open>int(float64(len(lats))*0.99)\<close> without a
  clamp, and needs none: with a positive concurrency it never panics, reports exactly the calls that
  failed as errors whatever the finishing order, and its p99 is at most its maximum.
\<close>

theorem runConc_safe:
  assumes "0 \<le> n" and "n < 2 ^ 31" and "0 < c"
  shows "\<exists>rps q mx. runConc cl lat picks elapsed url n c =
      Ret (rps, q, mx, int (length (filter (\<lambda>k. \<exists>e. bench_Get cl k url = Inl e) [0 ..< nat n]))) \<and> q \<le> mx"
proof -
  define out where "out = (\<lambda>k. case bench_Get cl k url of Inl err \<Rightarrow> None | Inr resp \<Rightarrow> Some (lat k))"
  define outs where "outs = map out (arrange picks [0 ..< nat n])"
  define lats where "lats = sort (map the (filter (\<lambda>x. x \<noteq> None) outs))"
  have o: "out k = None \<longleftrightarrow> (\<exists>e. bench_Get cl k url = Inl e)" for k
    by (simp add: out_def split: sum.splits)
  have "mset outs = mset (map out [0 ..< nat n])" by (simp only: outs_def mset_map mset_arrange)
  then have "size (filter_mset (\<lambda>x. x = None) (mset outs)) = size (filter_mset (\<lambda>x. x = None) (mset (map out [0 ..< nat n])))"
    by simp
  then have e: "length (filter (\<lambda>x. x = None) outs) = length (filter (\<lambda>k. \<exists>e. bench_Get cl k url = Inl e) [0 ..< nat n])"
    by (simp only: mset_filter [symmetric] size_mset filter_map length_map comp_def o)
  have l: "length outs = nat n" by (simp add: outs_def)
  have "nat n < 2 ^ 31" using assms(2) by simp
  moreover have "length (filter P outs) \<le> nat n" for P using l length_filter_le [of P outs] by simp
  ultimately have f: "length (filter P outs) < 2 ^ 31" for P using le_less_trans by blast
  from f [of "\<lambda>x. x = None"] have w: "wrap32 (int (length (filter (\<lambda>x. x = None) outs))) = int (length (filter (\<lambda>x. x = None) outs))"
    by (intro wrap32_id) (simp_all add: of_nat_less_numeral_power_cancel_iff)
  have we: "wrap32 (int (length (filter (\<lambda>x. x = None) outs))) = int (length (filter (\<lambda>k. \<exists>e. bench_Get cl k url = Inl e) [0 ..< nat n]))"
    using w by (simp only: e)
  have ll: "length lats < 2 ^ 53" unfolding lats_def length_sort length_map
    by (rule less_trans [OF f]) simp
  have p: "pool_run picks n c out = Ret outs" using assms by (simp add: pool_run_def outs_def)
  show ?thesis
  proof (cases "lats = []")
    case True
    then show ?thesis
      unfolding runConc_def out_def [symmetric] p go_result.case Let_def lats_def [symmetric] we by simp
  next
    case False
    have "sorted lats" by (simp add: lats_def)
    then obtain a b q d where q: "pct lats p99 = Some q" "q \<le> last lats"
      by (rule sorted_pct_order [OF _ False ll]) auto
    have "0 < length lats" using False by simp
    note r = percentile_index_range(5,6) [OF this ll]
    have "slice_get lats (pct_index (length lats) p99) = Some q"
      using q(1) r False by (simp add: pct_def Let_def)
    then show ?thesis using False q(2)
      unfolding runConc_def out_def [symmetric] p go_result.case Let_def lats_def [symmetric] we
      by (simp add: need_def)
  qed
qed

theorem runConc_safe_witness:
  "\<exists>rps q mx. runConc demo_client (\<lambda>k. int k) [2] 1000 ''https://h/ping'' 5 2 =
      Ret (rps, q, mx, int (length (filter (\<lambda>k. \<exists>e. bench_Get demo_client k ''https://h/ping'' = Inl e) [0 ..< nat 5]))) \<and> q \<le> mx"
  by (rule runConc_safe) simp_all

text \<open>
  C34. \<open>benchScenario\<close> of bench_qpack, for non-negative flags, returns if and only if the batch size is
  positive or there is nothing to send (\<open>-batch 0\<close> loops for ever); when it returns it has
  sent the \<open>n\<close> requests over \<open>\<lceil>n / batch\<rceil>\<close> connections of at most \<open>batch\<close> requests each.
\<close>

theorem benchScenario_terminates_iff:
  assumes "0 \<le> n" and "n < 2 ^ 53" and "0 \<le> warmup" and "0 \<le> batch"
  shows "((\<exists>r. benchScenario wcl cl lat base sc n warmup batch = Some r) \<longleftrightarrow> 0 < batch \<or> n = 0) \<and>
    (0 < batch \<longrightarrow>
      (\<exists>st lats bs. benchScenario wcl cl lat base sc n warmup batch = Some (Ret st) \<and>
         batch_loop cl lat base sc batch 0 n [] [] = Some (Ret (lats, bs)) \<and> st_n st = length lats \<and>
         int (length lats) \<le> n \<and> sum_list bs = n \<and> (\<forall>b\<in>set bs. b \<le> batch) \<and>
         int (length bs) = (n + batch - 1) div batch))"
proof -
  have "0 \<le> (if batch < warmup then batch else warmup)" using assms by auto
  then obtain ls where w: "runBatch wcl (\<lambda>_. 0) base sc (if batch < warmup then batch else warmup) = Ret ls"
    by (simp add: runBatch_def)
  have pos: "\<exists>st lats bs. benchScenario wcl cl lat base sc n warmup batch = Some (Ret st) \<and>
         batch_loop cl lat base sc batch 0 n [] [] = Some (Ret (lats, bs)) \<and> st_n st = length lats \<and>
         int (length lats) \<le> n \<and> sum_list bs = n \<and> (\<forall>b\<in>set bs. b \<le> batch) \<and>
         int (length bs) = (n + batch - 1) div batch" if "0 < batch"
  proof -
    note bp = that
    obtain lats bs where l: "batch_loop cl lat base sc batch 0 n [] [] = Some (Ret ([] @ lats, [] @ bs))"
      "\<forall>b\<in>set bs. 0 < b \<and> b \<le> batch" "sum_list bs = max 0 n" "int (length lats) \<le> max 0 n"
      "int (length bs) = (max 0 n + batch - 1) div batch"
      using batch_loop_returns [OF bp, of cl lat base sc 0 n "[]" "[]"] by metis
    have "length (sort lats) < 2 ^ 53" using l(4) assms(1,2) by (simp add: max_def)
    note np = need_pct [OF this]
    define mk where "mk = (\<lambda>a b c. Ret \<lparr>st_n = length (sort lats), st_mean = avgDur (sort lats), st_p50 = a, st_p95 = b, st_p99 = c,
           st_rps = (if 0 < avgDur (sort lats) then fdiv (float_of_int Second) (float_of_int (avgDur (sort lats))) else Fin 0)\<rparr>)"
    from np [of mk] obtain a b c where
      k: "need (pct (sort lats) p50) (\<lambda>a. need (pct (sort lats) p95) (\<lambda>b. need (pct (sort lats) p99) (\<lambda>c. mk a b c))) = mk a b c"
      by blast
    have "benchScenario wcl cl lat base sc n warmup batch = Some (mk a b c)"
      unfolding benchScenario_def Let_def w l(1) k [symmetric] using assms(1)
      by (simp add: mk_def)
    moreover obtain st where "mk a b c = Ret st" "st_n st = length lats" by (simp add: mk_def)
    ultimately have "\<exists>st. benchScenario wcl cl lat base sc n warmup batch = Some (Ret st) \<and> st_n st = length lats" by metis
    then show ?thesis using l assms(1) by (auto simp: max_def)
  qed
  have zero: "benchScenario wcl cl lat base sc n warmup 0 = None" if "0 < n"
    using batch_loop_stuck [of cl lat base sc 0 n "[]" "[]"] that assms(3)
    by (auto simp: benchScenario_def runBatch_def Let_def split: option.splits)
  have "\<exists>r. benchScenario wcl cl lat base sc n warmup 0 = Some r" if "n = 0"
    using that assms(3) by (auto simp: benchScenario_def runBatch_def Let_def batch_loop.simps)
  then show ?thesis using pos zero assms(1,4) by (metis less_le option.distinct(1))
qed

theorem benchScenario_terminates_iff_witness:
  "\<exists>st lats bs. benchScenario demo_client (\<lambda>_. demo_client) (\<lambda>_ _. 7) ''https://h''
       \<lparr>sc_label = ''ping'', sc_method = ''GET'', sc_path = ''/ping'', sc_body = None\<rparr> 5 1 2 = Some (Ret st) \<and>
     batch_loop (\<lambda>_. demo_client) (\<lambda>_ _. 7) ''https://h''
       \<lparr>sc_label = ''ping'', sc_method = ''GET'', sc_path = ''/ping'', sc_body = None\<rparr> 2 0 5 [] [] = Some (Ret (lats, bs)) \<and>
     st_n st = length lats \<and> int (length lats) \<le> 5 \<and> sum_list bs = 5 \<and> int (length bs) = 3"
  using benchScenario_terminates_iff [of 5 1 2 demo_client "\<lambda>_. demo_client" "\<lambda>_ _. 7" "''https://h''"
    "\<lparr>sc_label = ''ping'', sc_method = ''GET'', sc_path = ''/ping'', sc_body = None\<rparr>"]
  by auto

end
