(* ===== verification/Go_Stress.thy ===== *)
theory Go_Stress
  imports Go_Bench
begin

text \<open>
  The stress test (bench/go_client/stress_test): the shared counters and the goroutines that
  update them, the six phases, the comparison and summary tables and \<open>main\<close>. The goroutines
  of a phase are programs of atomic actions on the counters; a scheduler argument picks the
  goroutine that acts next. Answers, durations and clock readings are arguments, one per
  goroutine and call. Of what is printed the values are kept, not the column widths.
\<close>

section \<open>Counters\<close>

record metrics =
  mt_lats :: "int list"
  mt_errors :: int
  mt_total :: int
  mt_bytes :: int

definition metrics_zero :: metrics where
  "metrics_zero = \<lparr>mt_lats = [], mt_errors = 0, mt_total = 0, mt_bytes = 0\<rparr>"

text \<open>The critical section of \<open>record\<close> and the two atomic additions are one action each.\<close>

datatype m_act = AddLat (al_lat: int) (al_bytes: int) | AddErrors | AddTotal

primrec act :: "m_act \<Rightarrow> metrics \<Rightarrow> metrics" where
  "act (AddLat lat nb) m = m\<lparr>mt_lats := mt_lats m @ [lat], mt_bytes := wrap64 (mt_bytes m + nb)\<rparr>"
| "act AddErrors m = m\<lparr>mt_errors := wrap64 (mt_errors m + 1)\<rparr>"
| "act AddTotal m = m\<lparr>mt_total := wrap64 (mt_total m + 1)\<rparr>"

definition metrics_record :: "int \<Rightarrow> int \<Rightarrow> m_act list" where
  "metrics_record lat nb = [AddLat lat nb, AddTotal]"

definition metrics_fail :: "m_act list" where
  "metrics_fail = [AddErrors, AddTotal]"

definition metrics_sorted :: "metrics \<Rightarrow> int list" where
  "metrics_sorted m = sort (mt_lats m)"

text \<open>
  The goroutines of a phase: at every step one that still has actions performs its next one.
  \<open>weave picks\<close> is the run in which the picks choose among them; every complete run of the
  relation is one (\<open>weave_complete\<close>).
\<close>

inductive act_step :: "metrics \<times> m_act list list \<Rightarrow> metrics \<times> m_act list list \<Rightarrow> bool" where
  act_step: "i < length pss \<Longrightarrow> pss ! i = a # as \<Longrightarrow> act_step (m, pss) (act a m, pss[i := as])"

fun weave :: "nat list \<Rightarrow> m_act list list \<Rightarrow> m_act list" where
  "weave [] pss = concat pss"
| "weave (p # ps) pss =
     (if p < length pss then
        (case pss ! p of [] \<Rightarrow> weave ps pss | a # as \<Rightarrow> a # weave ps (pss[p := as]))
      else weave ps pss)"

definition run_acts :: "m_act list \<Rightarrow> metrics" where
  "run_acts as = fold act as metrics_zero"

section \<open>Durations\<close>

text \<open>\<open>%.<p>f\<close>: the exact value, rounded half to even at \<open>p\<close> decimals.\<close>

definition fixed_digits :: "nat \<Rightarrow> nat \<Rightarrow> string" where
  "fixed_digits p n =
     (if p = 0 then show_nat n
      else (let f = show_nat (n mod 10 ^ p)
            in show_nat (n div 10 ^ p) @ ''.'' @ replicate (p - length f) (CHR ''0'') @ f))"

fun fmt_fixed :: "nat \<Rightarrow> float64 \<Rightarrow> string" where
  "fmt_fixed p (Fin x) =
     (if x < 0 then ''-'' else []) @ fixed_digits p (nat (round_even (\<bar>x\<bar> * 10 ^ p)))"
| "fmt_fixed p PosInf = ''+Inf''"
| "fmt_fixed p NegInf = ''-Inf''"
| "fmt_fixed p NaN = ''NaN''"

definition micro_sign :: string where "micro_sign = [CHR 0xC2, CHR 0xB5]"

definition fmtDur :: "int \<Rightarrow> string" where
  "fmtDur d =
     (if d = 0 then em_dash
      else if d < Millisecond then fmt_fixed 0 (fdiv (float_of_int d) (float_of_int 1000)) @ micro_sign @ ''s''
      else fmt_fixed 2 (fdiv (float_of_int d) (float_of_int Millisecond)) @ ''ms'')"

section \<open>Phase results\<close>

record phaseResult =
  pr_name :: string
  pr_ok :: int
  pr_total :: int
  pr_errors :: int
  pr_elapsed :: int
  pr_lats :: "int list"
  pr_bytes :: int
  pr_rps :: float64
  pr_mbps :: float64
  pr_p50 :: int
  pr_p95 :: int
  pr_p99 :: int
  pr_p999 :: int
  pr_maxLat :: int
  pr_avgLat :: int

definition no_result :: phaseResult where
  "no_result = \<lparr>pr_name = [], pr_ok = 0, pr_total = 0, pr_errors = 0, pr_elapsed = 0, pr_lats = [], pr_bytes = 0,
     pr_rps = Fin 0, pr_mbps = Fin 0, pr_p50 = 0, pr_p95 = 0, pr_p99 = 0, pr_p999 = 0, pr_maxLat = 0, pr_avgLat = 0\<rparr>"

text \<open>The field \<open>bytes_\<close> of the result is not set by the code and keeps its zero.\<close>

definition finalize :: "string \<Rightarrow> metrics \<Rightarrow> int \<Rightarrow> phaseResult go_result" where
  "finalize name m elapsed =
     (let lats = metrics_sorted m;
          ok = wrap64 (mt_total m - mt_errors m);
          maxLat = (if 0 < length lats then last lats else 0);
          rps = (if 0 < elapsed then fdiv (float_of_int ok) (Seconds elapsed) else Fin 0);
          mb = (if 0 < elapsed then fdiv (fdiv (float_of_int (mt_bytes m)) (Seconds elapsed)) (Fin 1000000) else Fin 0)
      in need (if 1000 \<le> length lats then pct lats p999 else Some 0) (\<lambda>q999.
         need (pct lats p50) (\<lambda>q50. need (pct lats p95) (\<lambda>q95. need (pct lats p99) (\<lambda>q99.
         Ret \<lparr>pr_name = name, pr_ok = ok, pr_total = mt_total m, pr_errors = mt_errors m, pr_elapsed = elapsed,
              pr_lats = lats, pr_bytes = 0, pr_rps = rps, pr_mbps = mb, pr_p50 = q50, pr_p95 = q95, pr_p99 = q99,
              pr_p999 = q999, pr_maxLat = maxLat, pr_avgLat = avgDur lats\<rparr>)))))"

section \<open>Phases\<close>

text \<open>
  The environment of a phase: the client of goroutine \<open>i\<close> (its answer to call \<open>j\<close>; a shared
  transport may answer differently to each goroutine too), the duration of call \<open>j\<close> of
  goroutine \<open>i\<close>, the clock when the phase starts and at the head of iteration \<open>j\<close> of
  goroutine \<open>i\<close>, the schedule and the measured time of the phase.
\<close>

record stress_env =
  se_cl :: "nat \<Rightarrow> client"
  se_lat :: "nat \<Rightarrow> nat \<Rightarrow> int"
  se_start :: int
  se_now :: "nat \<Rightarrow> nat \<Rightarrow> int"
  se_picks :: "nat list"
  se_elapsed :: int

definition answer_acts :: "int \<Rightarrow> go_error + http_response \<Rightarrow> m_act list" where
  "answer_acts lat r =
     (case r of Inl err \<Rightarrow> metrics_fail | Inr resp \<Rightarrow> metrics_record lat (int (length (rs_body resp))))"

definition get_acts :: "stress_env \<Rightarrow> nat \<Rightarrow> nat \<Rightarrow> string \<Rightarrow> m_act list" where
  "get_acts e i j url = answer_acts (se_lat e i j) (bench_Get (se_cl e i) j url)"

definition phaseFlood :: "stress_env \<Rightarrow> string \<Rightarrow> int \<Rightarrow> phaseResult go_result" where
  "phaseFlood e base conns =
     finalize ''Connection Flood''
       (run_acts (weave (se_picks e) (map (\<lambda>i. get_acts e i 0 (base @ ''/ping'')) [0 ..< nat conns]))) (se_elapsed e)"

text \<open>
  The loop \<open>for time.Now().Before(deadline)\<close> of a goroutine, with its local variable: it returns
  once a clock reading is not before the deadline, and \<open>None\<close> is a loop that never ends. \<open>wg.Wait\<close>
  needs every goroutine to return.
\<close>

partial_function (option) deadline_loop ::
    "(nat \<Rightarrow> int) \<Rightarrow> int \<Rightarrow> (nat \<Rightarrow> 's \<Rightarrow> m_act list \<times> 's) \<Rightarrow> nat \<Rightarrow> 's \<Rightarrow> m_act list \<Rightarrow> m_act list option" where
  "deadline_loop now deadline body j x acc =
     (if now j < deadline then
        (case body j x of (as, x') \<Rightarrow> deadline_loop now deadline body (j + 1) x' (acc @ as))
      else Some acc)"

definition timed_phase ::
    "string \<Rightarrow> stress_env \<Rightarrow> int \<Rightarrow> (nat \<Rightarrow> m_act list option) \<Rightarrow> phaseResult go_result option" where
  "timed_phase name e workers worker =
     (case those (map worker [0 ..< nat workers]) of
        None \<Rightarrow> None
      | Some pss \<Rightarrow> Some (finalize name (run_acts (weave (se_picks e) pss)) (se_elapsed e)))"

definition phaseRPS :: "stress_env \<Rightarrow> string \<Rightarrow> int \<Rightarrow> int \<Rightarrow> phaseResult go_result option" where
  "phaseRPS e base conns duration =
     timed_phase ''Sustained RPS'' e conns (\<lambda>i.
       deadline_loop (se_now e i) (se_start e + duration) (\<lambda>j x. (get_acts e i j (base @ ''/ping''), x)) 0 () [])"

definition phaseThroughput :: "stress_env \<Rightarrow> string \<Rightarrow> int \<Rightarrow> int \<Rightarrow> phaseResult go_result" where
  "phaseThroughput e base conns reqsPerConn =
     (let workers = quot conns 4;
          workers = (if workers < 10 then 10 else workers)
      in finalize ''Throughput''
           (run_acts (weave (se_picks e)
              (map (\<lambda>i. concat (map (\<lambda>j. get_acts e i j (base @ ''/100k'')) [0 ..< nat reqsPerConn])) [0 ..< nat workers])))
           (se_elapsed e))"

definition phaseChurn :: "stress_env \<Rightarrow> string \<Rightarrow> int \<Rightarrow> int \<Rightarrow> phaseResult go_result option" where
  "phaseChurn e base conns duration =
     (let workers = quot conns 2;
          workers = (if workers < 1 then 1 else workers)
      in timed_phase ''Connection Churn'' e workers (\<lambda>i.
           deadline_loop (se_now e i) (se_start e + duration) (\<lambda>j x. (get_acts e i j (base @ ''/ping''), x)) 0 () []))"

definition bench_Post :: "client \<Rightarrow> nat \<Rightarrow> string \<Rightarrow> string \<Rightarrow> string \<Rightarrow> go_error + http_response" where
  "bench_Post c k url ctype body =
     (case NewRequestWithContext c 0 ''POST'' url (Some body) of
        Inl err \<Rightarrow> Inl err
      | Inr req \<Rightarrow> cl_do c k (req\<lparr>rq_header := Header_Set (rq_header req) ''Content-Type'' ctype\<rparr>))"

definition mixed_pick :: "int \<Rightarrow> int" where
  "mixed_pick idx = idx - 10 * quot idx 10"

definition mixed_call :: "client \<Rightarrow> nat \<Rightarrow> string \<Rightarrow> string \<Rightarrow> int \<Rightarrow> go_error + http_response" where
  "mixed_call c j base body pick =
     (if pick \<le> 6 then bench_Get c j (base @ ''/ping'')
      else if pick \<le> 8 then bench_Post c j (base @ ''/echo'') ''application/octet-stream'' body
      else bench_Get c j (base @ ''/100k''))"

definition mixed_body :: "stress_env \<Rightarrow> string \<Rightarrow> string \<Rightarrow> nat \<Rightarrow> nat \<Rightarrow> int \<Rightarrow> m_act list \<times> int" where
  "mixed_body e base body i j idx =
     (answer_acts (se_lat e i j) (mixed_call (se_cl e i) j base body (mixed_pick idx)), wrap64 (idx + 1))"

definition phaseMixed :: "stress_env \<Rightarrow> string \<Rightarrow> int \<Rightarrow> int \<Rightarrow> string \<Rightarrow> phaseResult go_result option" where
  "phaseMixed e base conns duration body =
     timed_phase ''Mixed Load'' e conns (\<lambda>i.
       deadline_loop (se_now e i) (se_start e + duration) (mixed_body e base body i) 0 (int i) [])"

definition phaseLongLived :: "stress_env \<Rightarrow> string \<Rightarrow> int \<Rightarrow> int \<Rightarrow> phaseResult go_result" where
  "phaseLongLived e base numConns reqsPerConn =
     finalize ''Long-Lived''
       (run_acts (weave (se_picks e)
          (map (\<lambda>i. concat (map (\<lambda>j. get_acts e i j (base @ ''/ping'')) [0 ..< nat reqsPerConn])) [0 ..< nat numConns])))
       (se_elapsed e)"

section \<open>Tables\<close>

definition green :: string where "green = [CHR 0x1B] @ ''[32m''"

definition colorWinner :: "float64 \<Rightarrow> float64 \<Rightarrow> bool \<Rightarrow> string" where
  "colorWinner v other higher =
     (if feq v (Fin 0) \<and> feq other (Fin 0) then []
      else if higher then (if fless other v then green else [])
      else if fless v other then green else [])"

definition maxf :: "float64 \<Rightarrow> float64 \<Rightarrow> float64" where
  "maxf a b = (if fless b a then a else b)"

text \<open>A printed line: the two cells of a metric with their colours, the winner, or a warning.\<close>

datatype out_line =
    Cells string "string \<times> string" "string \<times> string"
  | RpsWinner string string
  | HighErrors string string

definition success_cell :: "phaseResult \<Rightarrow> string" where
  "success_cell r =
     show_int (pr_ok r) @ ''/'' @ show_int (pr_total r) @ '' ('' @
     fmt_fixed 0 (fdiv (fmul (Fin 100) (float_of_int (pr_ok r))) (maxf (float_of_int (pr_total r)) (Fin 1))) @ ''%)''"

definition errRate :: "phaseResult \<Rightarrow> float64" where
  "errRate r = fmul (fdiv (float_of_int (pr_errors r)) (maxf (float_of_int (pr_total r)) (Fin 1))) (Fin 100)"

definition dur_row :: "string \<Rightarrow> int \<Rightarrow> int \<Rightarrow> out_line" where
  "dur_row label c g = Cells label ([], fmtDur c) ([], fmtDur g)"

definition rps_winner :: "float64 \<Rightarrow> float64 \<Rightarrow> out_line" where
  "rps_winner c g =
     (let ratio = fdiv c g in
      if fless (Fin 1) ratio then RpsWinner ''Crystal'' (fmt_fixed 0 (fmul (fadd ratio (Fin (- 1))) (Fin 100)))
      else RpsWinner ''Go'' (fmt_fixed 0 (fmul (fadd (fdiv (Fin 1) ratio) (Fin (- 1))) (Fin 100))))"

definition printPhaseComparison :: "phaseResult \<Rightarrow> phaseResult \<Rightarrow> out_line list" where
  "printPhaseComparison cr goR =
     [Cells ''Success rate'' ([], success_cell cr) ([], success_cell goR)] @
     (if 0 < pr_avgLat cr \<or> 0 < pr_avgLat goR then
        [Cells ''Avg latency''
           (colorWinner (float_of_int (pr_avgLat cr)) (float_of_int (pr_avgLat goR)) False, fmtDur (pr_avgLat cr))
           (colorWinner (float_of_int (pr_avgLat goR)) (float_of_int (pr_avgLat cr)) False, fmtDur (pr_avgLat goR)),
         dur_row ''p50'' (pr_p50 cr) (pr_p50 goR),
         dur_row ''p95'' (pr_p95 cr) (pr_p95 goR),
         dur_row ''p99'' (pr_p99 cr) (pr_p99 goR)] @
        (if 0 < pr_p999 cr \<or> 0 < pr_p999 goR then [dur_row ''p999'' (pr_p999 cr) (pr_p999 goR)] else []) @
        [dur_row ''max'' (pr_maxLat cr) (pr_maxLat goR)]
      else []) @
     (if fless (Fin 0) (pr_rps cr) \<or> fless (Fin 0) (pr_rps goR) then
        [Cells ''RPS'' (colorWinner (pr_rps cr) (pr_rps goR) True, fmt_fixed 0 (pr_rps cr))
                       (colorWinner (pr_rps goR) (pr_rps cr) True, fmt_fixed 0 (pr_rps goR))]
      else []) @
     (if fless (Fin 0) (pr_mbps cr) \<or> fless (Fin 0) (pr_mbps goR) then
        [Cells ''Throughput (MB/s)'' (colorWinner (pr_mbps cr) (pr_mbps goR) True, fmt_fixed 1 (pr_mbps cr))
                                     (colorWinner (pr_mbps goR) (pr_mbps cr) True, fmt_fixed 1 (pr_mbps goR))]
      else []) @
     (if fless (Fin 0) (pr_rps cr) \<and> fless (Fin 0) (pr_rps goR) then [rps_winner (pr_rps cr) (pr_rps goR)] else []) @
     (if fless (Fin 20) (errRate cr) then [HighErrors ''Crystal'' (fmt_fixed 0 (errRate cr))] else []) @
     (if fless (Fin 20) (errRate goR) then [HighErrors ''Go'' (fmt_fixed 0 (errRate goR))] else [])"

record summaryRow =
  sr_phase :: string
  sr_crMetric :: float64
  sr_goMetric :: float64
  sr_unit :: string
  sr_higher :: bool

definition formatMetric :: "float64 \<Rightarrow> string \<Rightarrow> string" where
  "formatMetric v unit =
     (if unit = ''rps'' then fmt_fixed 0 v @ '' req/s''
      else if unit = ''mb'' then fmt_fixed 1 v @ '' MB/s''
      else if unit = ''ms'' then fmt_fixed 2 v @ ''ms''
      else if unit = ''conn/s'' then fmt_fixed 0 v @ '' conn/s''
      else fmt_fixed 2 v)"

definition cr_wins :: "summaryRow \<Rightarrow> bool" where
  "cr_wins r =
     ((sr_higher r \<and> fless (sr_goMetric r) (sr_crMetric r)) \<or> (\<not> sr_higher r \<and> fless (sr_crMetric r) (sr_goMetric r)))"

definition overall_line :: "nat \<Rightarrow> nat \<Rightarrow> nat \<Rightarrow> string" where
  "overall_line crystalWins goWins tot =
     ''  Overall: Crystal '' @ show_nat crystalWins @ ''/'' @ show_nat tot @ ''  Go '' @ show_nat goWins @ ''/'' @ show_nat tot"

text \<open>
  The rows, and the last line with its padding, \<open>strings.Repeat(" ", 66-len(...)-2)\<close>: a
  negative count panics.
\<close>

definition st_printSummary :: "summaryRow list \<Rightarrow> ((string \<times> string \<times> string) list \<times> string) go_result" where
  "st_printSummary rows =
     (let crystalWins = foldl (\<lambda>k r. if cr_wins r then k + 1 else k) 0 rows;
          tot = length rows;
          goWins = tot - crystalWins;
          line = overall_line crystalWins goWins tot
      in if 64 < length line then Panic ''strings: negative Repeat count''
         else Ret (map (\<lambda>r. (sr_phase r, formatMetric (sr_crMetric r) (sr_unit r), formatMetric (sr_goMetric r) (sr_unit r))) rows,
                   line @ replicate (64 - length line) (CHR '' '')))"

section \<open>Main\<close>

definition portListening :: "bool \<Rightarrow> client \<Rightarrow> int \<Rightarrow> bool go_result" where
  "portListening dialOk c port =
     (if dialOk then Ret True
      else (case NewRequestWithContext c (2 * Second) ''GET'' (''https://127.0.0.1:'' @ show_int port @ ''/ping'') None of
              Inl err \<Rightarrow> Panic ''nil pointer dereference''
            | Inr req \<Rightarrow> (case cl_do c 0 req of Inl err \<Rightarrow> Ret False | Inr resp \<Rightarrow> Ret True)))"

definition phase_keys :: "string list" where
  "phase_keys = [''flood'', ''rps'', ''throughput'', ''churn'', ''mixed'', ''longlived'']"

definition activePhases :: "string \<Rightarrow> string list" where
  "activePhases phasesFlag = (if phasesFlag = ''all'' then phase_keys else map TrimSpace (splitOn (CHR '','') phasesFlag))"

definition churnDur :: "int \<Rightarrow> int" where
  "churnDur phaseDur = (let d = quot phaseDur 3 in if d < 5 * Second then 5 * Second else d)"

definition body64k :: string where "body64k = Repeat ''y'' 65536"

definition run_phase :: "string \<Rightarrow> stress_env \<Rightarrow> string \<Rightarrow> int \<Rightarrow> int \<Rightarrow> phaseResult go_result option" where
  "run_phase key e base conns phaseDur =
     (if key = ''flood'' then Some (phaseFlood e base conns)
      else if key = ''rps'' then phaseRPS e base conns phaseDur
      else if key = ''throughput'' then Some (phaseThroughput e base conns 10)
      else if key = ''churn'' then phaseChurn e base conns (churnDur phaseDur)
      else if key = ''mixed'' then phaseMixed e base conns phaseDur body64k
      else Some (phaseLongLived e base 10 10000))"

record stress_flags =
  fl_crystalPort :: int
  fl_goPort :: int
  fl_duration :: int
  fl_conns :: int
  fl_noCrystal :: bool
  fl_noGo :: bool
  fl_phases :: string
  fl_autoStart :: bool

text \<open>
  The surroundings of \<open>main\<close>: the results of the two UDP dials, the clients of the two probes,
  the errors of starting the servers, and the environment of each phase on each side.
\<close>

record stress_world =
  sw_dial :: "nat \<Rightarrow> bool"
  sw_probe :: "nat \<Rightarrow> client"
  sw_startErr :: "go_error option"
  sw_goErr :: "go_error option"
  sw_cr :: "string \<Rightarrow> stress_env"
  sw_go :: "string \<Rightarrow> stress_env"

definition crystal_ready :: "stress_world \<Rightarrow> bool \<Rightarrow> int \<Rightarrow> bool go_result" where
  "crystal_ready w autoStart port =
     (let probe = (\<lambda>k. portListening (sw_dial w k) (sw_probe w k) port)
      in if \<not> autoStart then probe 1
         else (case probe 0 of
                 Panic m \<Rightarrow> Panic m
               | Ret True \<Rightarrow> probe 1
               | Ret False \<Rightarrow> if sw_startErr w \<noteq> None then Ret False else probe 1))"

definition one_side :: "bool \<Rightarrow> phaseResult go_result option \<Rightarrow> phaseResult go_result option" where
  "one_side skip r = (if skip then Some (Ret no_result) else r)"

definition pair_phase ::
    "stress_flags \<Rightarrow> stress_world \<Rightarrow> string \<Rightarrow> (phaseResult \<times> phaseResult) go_result option" where
  "pair_phase f w key =
     (let phaseDur = wrap64 (fl_duration f * Second) in
      case one_side (fl_noCrystal f)
             (run_phase key (sw_cr w key) (''https://127.0.0.1:'' @ show_int (fl_crystalPort f)) (fl_conns f) phaseDur) of
        None \<Rightarrow> None
      | Some (Panic m) \<Rightarrow> Some (Panic m)
      | Some (Ret crR) \<Rightarrow>
          (case one_side (fl_noGo f)
                  (run_phase key (sw_go w key) (''https://127.0.0.1:'' @ show_int (fl_goPort f)) (fl_conns f) phaseDur) of
             None \<Rightarrow> None
           | Some (Panic m) \<Rightarrow> Some (Panic m)
           | Some (Ret goR) \<Rightarrow> Some (Ret (crR, goR))))"

fun run_phases ::
    "stress_flags \<Rightarrow> stress_world \<Rightarrow> string list \<Rightarrow> (string \<times> phaseResult \<times> phaseResult) list go_result option" where
  "run_phases f w [] = Some (Ret [])"
| "run_phases f w (key # keys) =
     (if key \<in> set (activePhases (fl_phases f)) then
        (case pair_phase f w key of
           None \<Rightarrow> None
         | Some (Panic m) \<Rightarrow> Some (Panic m)
         | Some (Ret pr) \<Rightarrow>
             (case run_phases f w keys of
                Some (Ret rs) \<Rightarrow> Some (Ret ((key, pr) # rs))
              | r \<Rightarrow> r))
      else run_phases f w keys)"

definition phaseOrder :: "(string \<times> string \<times> string \<times> (phaseResult \<Rightarrow> float64) \<times> bool) list" where
  "phaseOrder =
     [(''flood'', ''1. Connection Flood'', ''rps'', pr_rps, True),
      (''rps'', ''2. Sustained RPS'', ''rps'', pr_rps, True),
      (''throughput'', ''3. Throughput'', ''mb'', pr_mbps, True),
      (''churn'', ''4. Conn Churn'', ''conn/s'', pr_rps, True),
      (''mixed'', ''5. Mixed Load'', ''rps'', pr_rps, True),
      (''longlived'', ''6. Long-Lived'', ''rps'', pr_rps, True)]"

definition summary_rows :: "(string \<times> phaseResult \<times> phaseResult) list \<Rightarrow> summaryRow list" where
  "summary_rows rmap =
     concat (map (\<lambda>(key, label, unit, field, higher).
       case map_of rmap key of
         None \<Rightarrow> []
       | Some (cr, goR) \<Rightarrow>
           [\<lparr>sr_phase = label, sr_crMetric = field cr, sr_goMetric = field goR, sr_unit = unit, sr_higher = higher\<rparr>])
       phaseOrder)"

record stress_out =
  so_exit :: int
  so_tables :: "out_line list list"
  so_summary :: "((string \<times> string \<times> string) list \<times> string) option"

definition stress_main :: "stress_world \<Rightarrow> stress_flags \<Rightarrow> stress_out go_result option" where
  "stress_main w f =
     (case (if fl_noCrystal f then Ret True else crystal_ready w (fl_autoStart f) (fl_crystalPort f)) of
        Panic m \<Rightarrow> Some (Panic m)
      | Ret False \<Rightarrow> Some (Ret \<lparr>so_exit = 1, so_tables = [], so_summary = None\<rparr>)
      | Ret True \<Rightarrow>
     (if \<not> fl_noGo f \<and> sw_goErr w \<noteq> None then Some (Ret \<lparr>so_exit = 1, so_tables = [], so_summary = None\<rparr>)
      else
        (case run_phases f w phase_keys of
           None \<Rightarrow> None
         | Some (Panic m) \<Rightarrow> Some (Panic m)
         | Some (Ret rmap) \<Rightarrow>
             (let tables = map (\<lambda>(key, cr, goR). printPhaseComparison cr goR) rmap;
                  rows = summary_rows rmap
              in if rows \<noteq> [] then
                   (case st_printSummary rows of
                      Panic m \<Rightarrow> Some (Panic m)
                    | Ret s \<Rightarrow> Some (Ret \<lparr>so_exit = 0, so_tables = tables, so_summary = Some s\<rparr>))
                 else Some (Ret \<lparr>so_exit = 0, so_tables = tables, so_summary = None\<rparr>)))))"

section \<open>The counters after a run\<close>

lemma wrap64_absorb: "wrap64 (wrap64 x + y) = wrap64 (x + y)"
  by (simp add: wrap64_def) (metis (no_types, lifting) ab_semigroup_add_class.add_ac(1) add.commute mod_add_left_eq diff_add_cancel)

lemma wrap64_absorb': "wrap64 (y + wrap64 x) = wrap64 (y + x)"
  using wrap64_absorb [of x y] by (simp only: add.commute)

lemma run_acts_eq:
  "run_acts as = \<lparr>mt_lats = map al_lat (filter is_AddLat as), mt_errors = wrap64 (int (length (filter (\<lambda>a. a = AddErrors) as))),
     mt_total = wrap64 (int (length (filter (\<lambda>a. a = AddTotal) as))),
     mt_bytes = wrap64 (sum_list (map al_bytes (filter is_AddLat as)))\<rparr>"
proof (induction as rule: rev_induct)
  case Nil
  then show ?case by (simp add: run_acts_def metrics_zero_def wrap64_id)
next
  case (snoc a as)
  have "run_acts (as @ [a]) = act a (run_acts as)" by (simp add: run_acts_def)
  then show ?case unfolding snoc.IH by (cases a) (simp_all add: wrap64_absorb' ac_simps)
qed

lemma mset_weave: "mset (weave ps pss) = mset (concat pss)"
proof (induction ps pss rule: weave.induct)
  case (2 p ps pss)
  show ?case
  proof (cases "p < length pss")
    case True
    then have s: "pss = take p pss @ (pss ! p) # drop (Suc p) pss" by (rule id_take_nth_drop)
    show ?thesis
    proof (cases "pss ! p")
      case Nil
      then show ?thesis using 2(1) [OF True Nil] True by simp
    next
      case (Cons a as)
      have "mset (concat pss) = add_mset a (mset (concat (pss[p := as])))"
        by (subst s, simp add: Cons upd_conv_take_nth_drop [OF True])
      then show ?thesis using 2(2) [OF True Cons] True Cons by simp
    qed
  qed (use 2(3) in simp)
qed simp

text \<open>Sorting forgets the order, so a result depends on the multiset of the actions only.\<close>

lemma sort_mset_cong: "mset xs = mset ys \<Longrightarrow> sort xs = sort (ys :: int list)"
  by (rule properties_for_sort) simp_all

lemma finalize_mset:
  assumes "mset as = mset bs"
  shows "finalize name (run_acts as) elapsed = finalize name (run_acts bs) elapsed"
proof -
  have f: "mset (filter P as) = mset (filter P bs)" for P using assms by (simp add: mset_filter)
  have l: "length (filter P as) = length (filter P bs)" for P using f mset_eq_length by blast
  have m: "mset (map g (filter P as)) = mset (map g (filter P bs))" for P and g :: "m_act \<Rightarrow> int" using f by simp
  have "sum_list (map al_bytes (filter is_AddLat as)) = sum_list (map al_bytes (filter is_AddLat bs))"
    using m by (metis sum_mset_sum_list)
  then show ?thesis unfolding finalize_def metrics_sorted_def run_acts_eq
    by (simp only: metrics.select_convs sort_mset_cong [OF m] l)
qed

lemmas finalize_weave = finalize_mset [OF mset_weave]

section \<open>Complete executions\<close>

lemma weave_complete_aux:
  assumes "act_step\<^sup>*\<^sup>* s s'"
  shows "\<exists>ps. fold act (weave ps (snd s)) (fst s) = fold act (concat (snd s')) (fst s')"
  using assms
proof (induction rule: converse_rtranclp_induct)
  case base
  have "fold act (weave [] (snd s')) (fst s') = fold act (concat (snd s')) (fst s')" by simp
  then show ?case by blast
next
  case (step s t)
  then obtain ps where ps: "fold act (weave ps (snd t)) (fst t) = fold act (concat (snd s')) (fst s')" by blast
  from step.hyps(1) obtain i pss a as m where st: "s = (m, pss)" "t = (act a m, pss[i := as])"
    and i: "i < length pss" "pss ! i = a # as" by (cases rule: act_step.cases) auto
  have "fold act (weave (i # ps) (snd s)) (fst s) = fold act (concat (snd s')) (fst s')" using ps st i by simp
  then show ?case by blast
qed

lemma weave_complete:
  assumes "act_step\<^sup>*\<^sup>* (metrics_zero, pss) (m, pss')" and "\<forall>as\<in>set pss'. as = []"
  shows "\<exists>ps. m = run_acts (weave ps pss)"
proof -
  have e: "concat pss' = []" using assms(2) by simp
  obtain ps where "fold act (weave ps pss) metrics_zero = fold act (concat pss') m"
    using weave_complete_aux [OF assms(1)] by auto
  then have "m = run_acts (weave ps pss)" unfolding e by (simp add: run_acts_def)
  then show ?thesis ..
qed

section \<open>Deadlines\<close>

lemma deadline_loop_stop:
  assumes "\<not> now (j + k) < deadline" and "\<forall>l<k. now (j + l) < deadline"
    and "\<forall>l<k. body (j + l) (g (j + l)) = (f (j + l), g (Suc (j + l)))"
  shows "deadline_loop now deadline body j (g j) acc = Some (acc @ concat (map f [j ..< j + k]))"
  using assms
proof (induction k arbitrary: j acc)
  case 0
  then show ?case by (simp add: deadline_loop.simps [of _ _ _ j])
next
  case (Suc k)
  have "now j < deadline" "body j (g j) = (f j, g (Suc j))"
    using Suc.prems(2,3) by (metis add.right_neutral zero_less_Suc)+
  moreover have "deadline_loop now deadline body (j + 1) (g (j + 1)) (acc @ f j) =
      Some ((acc @ f j) @ concat (map f [j + 1 ..< j + 1 + k]))"
    using Suc.prems by (intro Suc.IH) auto
  moreover have "[j ..< j + Suc k] = j # [j + 1 ..< j + 1 + k]" by (simp add: upt_rec)
  ultimately show ?case by (subst deadline_loop.simps) simp
qed

lemma deadline_loop_reached:
  assumes "deadline_loop now deadline body j x acc = Some r"
  shows "\<exists>k\<ge>j. \<not> now k < deadline"
proof (rule deadline_loop.raw_induct [where xa = "(((((now, deadline), body), j), x), acc)" and y = r and
      P = "\<lambda>now deadline body j x acc r. \<exists>k\<ge>j. \<not> now k < deadline", unfolded prod.case, OF _ assms])
  fix loop :: "(nat \<Rightarrow> int) \<Rightarrow> int \<Rightarrow> (nat \<Rightarrow> 'a \<Rightarrow> m_act list \<times> 'a) \<Rightarrow> nat \<Rightarrow> 'a \<Rightarrow> m_act list \<Rightarrow> m_act list option"
    and now deadline body j x acc r
  assume IH: "\<And>now deadline body j x acc r. loop now deadline body j x acc = Some r \<Longrightarrow> \<exists>k\<ge>j. \<not> now k < deadline"
    and body: "(if now j < deadline then case body j x of (as, x') \<Rightarrow> loop now deadline body (j + 1) x' (acc @ as)
      else Some acc) = Some r"
  show "\<exists>k\<ge>j. \<not> now k < deadline"
  proof (cases "now j < deadline")
    case True
    then obtain as x' where "loop now deadline body (j + 1) x' (acc @ as) = Some r"
      using body by (auto split: prod.splits)
    from IH [OF this] show ?thesis by (metis add_leD1)
  qed auto
qed

text \<open>A goroutine makes as many requests as there are clock readings before the first one at the deadline.\<close>

definition iterations :: "(nat \<Rightarrow> int) \<Rightarrow> int \<Rightarrow> nat" where
  "iterations now deadline = (LEAST j. deadline \<le> now j)"

lemma iterations_le: "deadline \<le> now j \<Longrightarrow> iterations now deadline \<le> j"
  unfolding iterations_def by (rule Least_le)

lemma deadline_loop_iterations:
  assumes "\<exists>j. deadline \<le> now j" and "\<forall>j<iterations now deadline. body j (g j) = (f j, g (Suc j))"
  shows "deadline_loop now deadline body 0 (g 0) [] = Some (concat (map f [0 ..< iterations now deadline]))"
proof -
  have "deadline \<le> now (iterations now deadline)"
    unfolding iterations_def by (rule LeastI_ex [OF assms(1)])
  moreover have "\<forall>l<iterations now deadline. now l < deadline"
    unfolding iterations_def using not_less_Least by fastforce
  ultimately show ?thesis
    using deadline_loop_stop [of now 0 "iterations now deadline" deadline body g f "[]"] assms(2) by simp
qed

lemma those_map_Some: "(\<forall>x\<in>set xs. f x = Some (g x)) \<Longrightarrow> those (map f xs) = Some (map g xs)"
  by (induction xs) auto

lemma those_None_iff: "those xs = None \<longleftrightarrow> None \<in> set xs"
  by (induction xs) (auto split: option.splits)

lemma timed_phase_stuck_iff: "timed_phase name e n worker = None \<longleftrightarrow> (\<exists>i<nat n. worker i = None)"
proof -
  have "those (map worker [0 ..< nat n]) = None \<longleftrightarrow> (\<exists>i<nat n. worker i = None)"
    unfolding those_None_iff by (force simp: image_iff)
  then show ?thesis by (auto simp: timed_phase_def split: option.splits)
qed

section \<open>Accounts\<close>

text \<open>
  What a phase result says about the cs of a phase, a list of durations and answers: every call
  is counted once, as an error or as a success, and the latencies are those of the successes, sorted.
\<close>

definition accounts :: "phaseResult \<Rightarrow> (int \<times> (go_error + http_response)) list \<Rightarrow> bool" where
  "accounts r cs =
     (pr_total r = int (length cs) \<and> pr_errors r = int (length (filter (\<lambda>c. isl (snd c)) cs)) \<and>
      pr_ok r + pr_errors r = pr_total r \<and> pr_lats r = sort (map fst (filter (\<lambda>c. \<not> isl (snd c)) cs)) \<and>
      int (length (pr_lats r)) = pr_ok r)"

definition phase_calls ::
    "nat \<Rightarrow> (nat \<Rightarrow> nat) \<Rightarrow> (nat \<Rightarrow> nat \<Rightarrow> int) \<Rightarrow> (nat \<Rightarrow> nat \<Rightarrow> go_error + http_response)
      \<Rightarrow> (int \<times> (go_error + http_response)) list" where
  "phase_calls n k lat ans = concat (map (\<lambda>i. map (\<lambda>j. (lat i j, ans i j)) [0 ..< k i]) [0 ..< n])"

lemma length_phase_calls: "length (phase_calls n k lat ans) = (\<Sum>i<n. k i)"
  by (simp add: phase_calls_def length_concat comp_def sum.list_conv_set_nth interv_sum_list_conv_sum_set_nat atLeast0LessThan)

lemma phase_calls_acts:
  "concat (map (\<lambda>i. concat (map (\<lambda>j. answer_acts (lat i j) (ans i j)) [0 ..< k i])) [0 ..< n]) =
   concat (map (\<lambda>(l, a). answer_acts l a) (phase_calls n k lat ans))"
  unfolding phase_calls_def by (induction n) (simp_all add: comp_def)

lemma calls_counters:
  "map al_lat (filter is_AddLat (concat (map (\<lambda>(l, a). answer_acts l a) cs))) = map fst (filter (\<lambda>c. \<not> isl (snd c)) cs)"
  "length (filter (\<lambda>a. a = AddErrors) (concat (map (\<lambda>(l, a). answer_acts l a) cs))) = length (filter (\<lambda>c. isl (snd c)) cs)"
  "length (filter (\<lambda>a. a = AddTotal) (concat (map (\<lambda>(l, a). answer_acts l a) cs))) = length cs"
  by (induction cs; clarsimp simp: answer_acts_def metrics_fail_def metrics_record_def split: sum.split)+

lemma finalize_need:
  assumes "length (mt_lats m) < 2 ^ 53"
  shows "\<exists>q999 q50 q95 q99. finalize name m elapsed =
    Ret \<lparr>pr_name = name, pr_ok = wrap64 (mt_total m - mt_errors m), pr_total = mt_total m, pr_errors = mt_errors m,
      pr_elapsed = elapsed, pr_lats = sort (mt_lats m), pr_bytes = 0,
      pr_rps = (if 0 < elapsed then fdiv (float_of_int (wrap64 (mt_total m - mt_errors m))) (Seconds elapsed) else Fin 0),
      pr_mbps = (if 0 < elapsed then fdiv (fdiv (float_of_int (mt_bytes m)) (Seconds elapsed)) (Fin 1000000) else Fin 0),
      pr_p50 = q50, pr_p95 = q95, pr_p99 = q99, pr_p999 = q999,
      pr_maxLat = (if 0 < length (sort (mt_lats m)) then last (sort (mt_lats m)) else 0), pr_avgLat = avgDur (sort (mt_lats m))\<rparr>"
proof -
  have l: "length (sort (mt_lats m)) < 2 ^ 53" using assms by simp
  have "\<exists>q. (if 1000 \<le> length (sort (mt_lats m)) then pct (sort (mt_lats m)) p999 else Some 0) = Some q"
    using pct_values(4) [OF _ l] by (cases "mt_lats m = []") (auto simp: sort_Nil_iff)
  then obtain q where q: "(if 1000 \<le> length (sort (mt_lats m)) then pct (sort (mt_lats m)) p999 else Some 0) = Some q" ..
  have n: "need (Some q) F = F q" for F :: "int \<Rightarrow> phaseResult go_result" by (simp add: need_def)
  show ?thesis unfolding finalize_def metrics_sorted_def Let_def q n
    by (rule exI [of _ q], rule need_pct [OF l])
qed

lemma finalize_calls:
  assumes "length cs < 2 ^ 53"
  shows "\<exists>r. finalize name (run_acts (concat (map (\<lambda>(l, a). answer_acts l a) cs))) elapsed = Ret r \<and> accounts r cs"
proof -
  let ?m = "run_acts (concat (map (\<lambda>(l, a). answer_acts l a) cs))"
  have f: "length (filter P cs) < 2 ^ 53" for P using assms le_less_trans [OF length_filter_le] by blast
  have b: "int n < 2 ^ 63" if "n < 2 ^ 53" for n :: nat
  proof -
    have "int n < int (2 ^ 53)" using that by (simp only: of_nat_less_iff)
    then show ?thesis by simp
  qed
  have m: "mt_lats ?m = map fst (filter (\<lambda>c. \<not> isl (snd c)) cs)"
    "mt_errors ?m = int (length (filter (\<lambda>c. isl (snd c)) cs))" "mt_total ?m = int (length cs)"
    using b [OF f] b [OF assms] by (simp_all add: run_acts_eq calls_counters wrap64_id)
  have s: "length (filter (\<lambda>c. isl (snd c)) cs) + length (filter (\<lambda>c. \<not> isl (snd c)) cs) = length cs"
    by (rule sum_length_filter_compl)
  then have w: "wrap64 (mt_total ?m - mt_errors ?m) = int (length (filter (\<lambda>c. \<not> isl (snd c)) cs))"
    using b [OF f [of "\<lambda>c. \<not> isl (snd c)"]] unfolding m by (subst wrap64_id) linarith+
  have "length (mt_lats ?m) < 2 ^ 53" using f by (simp add: m)
  from finalize_need [OF this, of name elapsed] obtain r where
    "finalize name ?m elapsed = Ret r" "pr_ok r = wrap64 (mt_total ?m - mt_errors ?m)" "pr_total r = mt_total ?m"
    "pr_errors r = mt_errors ?m" "pr_lats r = sort (mt_lats ?m)" by fastforce
  then show ?thesis using s unfolding w accounts_def by (auto simp: m)
qed

section \<open>The phases as lists of calls\<close>

lemma fixed_phase_accounts:
  assumes "n * k < 2 ^ 53"
  shows "\<exists>r. finalize name (run_acts (weave ps
      (map (\<lambda>i. concat (map (\<lambda>j. answer_acts (lat i j) (ans i j)) [0 ..< k])) [0 ..< n]))) elapsed = Ret r \<and>
    accounts r (phase_calls n (\<lambda>_. k) lat ans)"
  unfolding finalize_weave phase_calls_acts [where k = "\<lambda>_. k"]
  using assms by (intro finalize_calls) (simp add: length_phase_calls)

lemma timed_phase_accounts:
  assumes "\<forall>i<nat n. \<exists>j. deadline \<le> se_now e i j"
    and "\<forall>i<nat n. \<forall>j<iterations (se_now e i) deadline. body i j (g i j) = (answer_acts (se_lat e i j) (ans i j), g i (Suc j))"
    and "(\<Sum>i<nat n. iterations (se_now e i) deadline) < 2 ^ 53"
  shows "\<exists>r. timed_phase name e n (\<lambda>i. deadline_loop (se_now e i) deadline (body i) 0 (g i 0) []) = Some (Ret r) \<and>
    accounts r (phase_calls (nat n) (\<lambda>i. iterations (se_now e i) deadline) (se_lat e) ans)"
proof -
  let ?k = "\<lambda>i. iterations (se_now e i) deadline"
  have "those (map (\<lambda>i. deadline_loop (se_now e i) deadline (body i) 0 (g i 0) []) [0 ..< nat n]) =
      Some (map (\<lambda>i. concat (map (\<lambda>j. answer_acts (se_lat e i j) (ans i j)) [0 ..< ?k i])) [0 ..< nat n])"
    using assms(1,2) by (intro those_map_Some ballI deadline_loop_iterations) auto
  moreover have "length (phase_calls (nat n) ?k (se_lat e) ans) < 2 ^ 53" using assms(3) by (simp add: length_phase_calls)
  from finalize_calls [OF this, of name "se_elapsed e"] obtain r where
    "finalize name (run_acts (concat (map (\<lambda>(l, a). answer_acts l a) (phase_calls (nat n) ?k (se_lat e) ans)))) (se_elapsed e) = Ret r"
    "accounts r (phase_calls (nat n) ?k (se_lat e) ans)" by blast
  ultimately show ?thesis unfolding timed_phase_def by (simp add: finalize_weave phase_calls_acts)
qed

lemma timed_phase_returns_iff:
  "(\<exists>r. timed_phase name e n (\<lambda>i. deadline_loop (se_now e i) deadline (body i) 0 (x i) []) = Some r) \<longleftrightarrow>
   (\<forall>i<nat n. \<exists>j. deadline \<le> se_now e i j)"
proof -
  have "deadline_loop (se_now e i) deadline (body i) 0 (x i) [] \<noteq> None \<longleftrightarrow> (\<exists>j. deadline \<le> se_now e i j)" for i
  proof
    assume "\<exists>j. deadline \<le> se_now e i j"
    moreover define g where "g = rec_nat (x i) (\<lambda>j y. snd (body i j y))"
    ultimately have "deadline_loop (se_now e i) deadline (body i) 0 (g 0) [] =
        Some (concat (map (\<lambda>j. fst (body i j (g j))) [0 ..< iterations (se_now e i) deadline]))"
      by (intro deadline_loop_iterations) auto
    then show "deadline_loop (se_now e i) deadline (body i) 0 (x i) [] \<noteq> None" by (simp add: g_def)
  qed (use deadline_loop_reached in \<open>fastforce simp: not_less\<close>)
  then show ?thesis using timed_phase_stuck_iff by (metis (no_types, lifting) not_None_eq)
qed

section \<open>Mixed load\<close>

lemma mixed_pick_nat: "mixed_pick (int n) = int (n mod 10)"
  by (simp add: mixed_pick_def quot_def zmod_int minus_mult_div_eq_mod)

lemma window_count: "length (filter (\<lambda>k. P (k mod 10)) [m ..< m + 10]) = length (filter P [0 ..< 10])"
proof (induction m)
  case 0
  have "filter (\<lambda>k. P (k mod 10)) [0 ..< 0 + 10] = filter P [0 ..< 10]" by (rule filter_cong) simp_all
  then show ?case by (simp only:)
next
  case (Suc m)
  have "[m ..< m + 10] = m # [Suc m ..< m + 10]" "[Suc m ..< Suc m + 10] = [Suc m ..< m + 10] @ [m + 10]"
    by (simp_all add: upt_rec)
  then show ?case using Suc by (simp del: upt_Suc split: if_splits)
qed

lemma rotation_count: "length (filter (\<lambda>k. P ((i + k) mod 10)) [j ..< j + 10]) = length (filter P [0 ..< 10])"
proof -
  have "[i + j ..< i + j + 10] = map (\<lambda>k. i + k) [j ..< j + 10]" by (rule nth_equalityI) simp_all
  then show ?thesis using window_count [of P "i + j"] by (simp add: filter_map comp_def)
qed

section \<open>The summary\<close>

lemma foldl_count: "foldl (\<lambda>k r. if P r then k + 1 else k) (m :: nat) rows = m + length (filter P rows)"
  by (induction rows arbitrary: m) simp_all

lemma length_show_digit: "n < 10 \<Longrightarrow> length (show_nat n) = 1"
  by (simp add: show_nat.simps)

lemma summary_line:
  assumes "length rows < 10"
  defines "c \<equiv> length (filter cr_wins rows)"
  shows "st_printSummary rows =
    Ret (map (\<lambda>r. (sr_phase r, formatMetric (sr_crMetric r) (sr_unit r), formatMetric (sr_goMetric r) (sr_unit r))) rows,
      overall_line c (length rows - c) (length rows) @ replicate 34 (CHR '' ''))"
proof -
  have "c < 10" using assms le_less_trans [OF length_filter_le] by (simp add: c_def)
  then have "length (overall_line c (length rows - c) (length rows)) = 30"
    using assms(1) by (simp add: overall_line_def length_show_digit)
  then show ?thesis by (simp add: st_printSummary_def foldl_count c_def Let_def)
qed

lemma length_summary_rows: "length (summary_rows rmap) \<le> 6"
  by (simp add: summary_rows_def phaseOrder_def split: option.splits)

section \<open>The accounts of each phase\<close>

abbreviation pings :: "stress_env \<Rightarrow> string \<Rightarrow> nat \<Rightarrow> nat \<Rightarrow> go_error + http_response" where
  "pings e base i j \<equiv> bench_Get (se_cl e i) j (base @ ''/ping'')"

lemma flood_accounts:
  assumes "nat conns < 2 ^ 53"
  shows "\<exists>r. phaseFlood e base conns = Ret r \<and> accounts r (phase_calls (nat conns) (\<lambda>_. 1) (se_lat e) (pings e base))"
  using fixed_phase_accounts [of "nat conns" 1 "''Connection Flood''" "se_picks e" "se_lat e" "pings e base" "se_elapsed e"] assms
  by (simp add: phaseFlood_def get_acts_def)

lemma throughput_accounts:
  assumes "nat (max 10 (quot conns 4)) * nat reqs < 2 ^ 53"
  shows "\<exists>r. phaseThroughput e base conns reqs = Ret r \<and>
    accounts r (phase_calls (nat (max 10 (quot conns 4))) (\<lambda>_. nat reqs) (se_lat e) (\<lambda>i j. bench_Get (se_cl e i) j (base @ ''/100k'')))"
proof -
  have "(if quot conns 4 < 10 then 10 else quot conns 4) = max 10 (quot conns 4)" by (simp add: max_def)
  then show ?thesis unfolding phaseThroughput_def Let_def get_acts_def using fixed_phase_accounts [OF assms] by (simp only:)
qed

lemma longlived_accounts:
  assumes "nat n * nat reqs < 2 ^ 53"
  shows "\<exists>r. phaseLongLived e base n reqs = Ret r \<and> accounts r (phase_calls (nat n) (\<lambda>_. nat reqs) (se_lat e) (pings e base))"
  unfolding phaseLongLived_def get_acts_def by (rule fixed_phase_accounts [OF assms])

lemma ping_loop_accounts:
  assumes "\<forall>i<nat n. \<exists>j. deadline \<le> se_now e i j" and "(\<Sum>i<nat n. iterations (se_now e i) deadline) < 2 ^ 53"
  shows "\<exists>r. timed_phase name e n (\<lambda>i. deadline_loop (se_now e i) deadline (\<lambda>j x. (get_acts e i j (base @ ''/ping''), x)) 0 () []) = Some (Ret r) \<and>
    accounts r (phase_calls (nat n) (\<lambda>i. iterations (se_now e i) deadline) (se_lat e) (pings e base))"
  using timed_phase_accounts [OF assms(1) _ assms(2), of "\<lambda>i j x. (get_acts e i j (base @ ''/ping''), x)" "\<lambda>_ _. ()" "pings e base" name]
  by (simp add: get_acts_def)

lemma rps_accounts:
  assumes "\<forall>i<nat conns. \<exists>j. se_start e + d \<le> se_now e i j"
    and "(\<Sum>i<nat conns. iterations (se_now e i) (se_start e + d)) < 2 ^ 53"
  shows "\<exists>r. phaseRPS e base conns d = Some (Ret r) \<and>
    accounts r (phase_calls (nat conns) (\<lambda>i. iterations (se_now e i) (se_start e + d)) (se_lat e) (pings e base))"
  unfolding phaseRPS_def by (rule ping_loop_accounts [OF assms])

lemma churn_accounts:
  assumes "\<forall>i<nat (max 1 (quot conns 2)). \<exists>j. se_start e + d \<le> se_now e i j"
    and "(\<Sum>i<nat (max 1 (quot conns 2)). iterations (se_now e i) (se_start e + d)) < 2 ^ 53"
  shows "\<exists>r. phaseChurn e base conns d = Some (Ret r) \<and>
    accounts r (phase_calls (nat (max 1 (quot conns 2))) (\<lambda>i. iterations (se_now e i) (se_start e + d)) (se_lat e) (pings e base))"
proof -
  have "(if quot conns 2 < 1 then 1 else quot conns 2) = max 1 (quot conns 2)" by (simp add: max_def)
  then show ?thesis unfolding phaseChurn_def Let_def using ping_loop_accounts [OF assms] by (simp only:)
qed

lemma mixed_accounts:
  assumes "\<forall>i<nat conns. \<exists>j. se_start e + d \<le> se_now e i j"
    and "(\<Sum>i<nat conns. iterations (se_now e i) (se_start e + d)) < 2 ^ 53" and "conns < 2 ^ 53"
  shows "\<exists>r. phaseMixed e base conns d body = Some (Ret r) \<and>
    accounts r (phase_calls (nat conns) (\<lambda>i. iterations (se_now e i) (se_start e + d)) (se_lat e)
      (\<lambda>i j. mixed_call (se_cl e i) j base body (int ((i + j) mod 10))))"
proof -
  let ?k = "\<lambda>i. iterations (se_now e i) (se_start e + d)"
  have b: "mixed_body e base body i j (int (i + j)) =
      (answer_acts (se_lat e i j) (mixed_call (se_cl e i) j base body (int ((i + j) mod 10))), int (i + Suc j))"
    if "i < nat conns" "j < ?k i" for i j
  proof -
    have "?k i \<le> (\<Sum>i<nat conns. ?k i)" using that(1) by (intro member_le_sum) auto
    then have "int (i + Suc j) < 2 ^ 63" using that assms(2,3) by simp
    then have "wrap64 (int (i + j) + 1) = int (i + Suc j)" by (subst wrap64_id) simp_all
    then show ?thesis by (simp only: mixed_body_def mixed_pick_nat)
  qed
  show ?thesis
    using timed_phase_accounts [OF assms(1) _ assms(2), of "\<lambda>i. mixed_body e base body i" "\<lambda>i j. int (i + j)"
        "\<lambda>i j. mixed_call (se_cl e i) j base body (int ((i + j) mod 10))" "''Mixed Load''"] b
    by (simp add: phaseMixed_def)
qed

section \<open>Main\<close>

lemma run_phases_active:
  assumes "\<forall>key\<in>set keys. \<exists>pr. pair_phase f w key = Some (Ret pr)"
  shows "\<exists>rs. run_phases f w keys = Some (Ret rs) \<and> map fst rs = filter (\<lambda>k. k \<in> set (activePhases (fl_phases f))) keys"
  using assms by (induction keys) auto

definition phase_label :: "string \<Rightarrow> string" where
  "phase_label key = the (map_of (map (\<lambda>(k, label, r). (k, label)) phaseOrder) key)"

lemma summary_labels:
  "map sr_phase (summary_rows rs) = map phase_label (filter (\<lambda>k. k \<in> set (map fst rs)) phase_keys)"
proof -
  have c: "(case map_of rs k of None \<Rightarrow> [] | Some (cr, goR) \<Rightarrow> F cr goR) =
      (if k \<in> set (map fst rs) then F (fst (the (map_of rs k))) (snd (the (map_of rs k))) else [])"
    for k and F :: "phaseResult \<Rightarrow> phaseResult \<Rightarrow> summaryRow list"
  proof (cases "map_of rs k")
    case None
    then have "k \<notin> set (map fst rs)" by (simp add: map_of_eq_None_iff)
    then show ?thesis using None by simp
  next
    case (Some pr)
    then have "k \<in> set (map fst rs)" by (force dest: map_of_SomeD)
    then show ?thesis using Some by (simp add: case_prod_beta)
  qed
  show ?thesis unfolding summary_rows_def c by (simp add: phaseOrder_def phase_keys_def phase_label_def)
qed

lemma if_ex: "(b \<Longrightarrow> \<exists>r. x = F r) \<Longrightarrow> (\<not> b \<Longrightarrow> \<exists>r. y = F r) \<Longrightarrow> \<exists>r. (if b then x else y) = F r"
  by simp

lemma phases_bounded:
  assumes "0 \<le> duration" and "duration < 2 ^ 33" and "conns \<le> 2 ^ 20"
    and "\<forall>i. \<exists>j<2 ^ 20. se_start e + max (5 * Second) (duration * Second) \<le> se_now e i j"
  shows "\<exists>r. run_phase key e base conns (wrap64 (duration * Second)) = Some (Ret r)"
proof -
  have w: "wrap64 (duration * Second) = duration * Second" using assms(1,2) by (intro wrap64_id) (simp_all add: Second_def)
  have d: "duration * Second \<le> max (5 * Second) (duration * Second)"
    "churnDur (duration * Second) \<le> max (5 * Second) (duration * Second)"
    using assms(1) by (auto simp: churnDur_def Let_def quot_def Second_def)
  have reach: "\<forall>i<n. \<exists>j<2 ^ 20. se_start e + t \<le> se_now e i j" if "t \<le> max (5 * Second) (duration * Second)" for n t
    using assms(4) that by (meson add_left_mono order_trans)
  have small: "(\<Sum>i<nat n. iterations (se_now e i) (se_start e + t)) < 2 ^ 53"
    if t: "t \<le> max (5 * Second) (duration * Second)" and "n \<le> 2 ^ 20" for n t
  proof -
    have "iterations (se_now e i) (se_start e + t) \<le> 2 ^ 20" for i
      using reach [OF t, of "Suc i"] iterations_le by (meson lessI less_imp_le order_trans)
    then have "(\<Sum>i<nat n. iterations (se_now e i) (se_start e + t)) \<le> nat n * 2 ^ 20"
      using sum_bounded_above [of "{..<nat n}" "\<lambda>i. iterations (se_now e i) (se_start e + t)" "2 ^ 20"] by simp
    also have "\<dots> \<le> 2 ^ 20 * 2 ^ 20" using that(2) by (intro mult_right_mono) auto
    finally show ?thesis by simp
  qed
  have runs: "\<forall>i<nat n. \<exists>j. se_start e + t \<le> se_now e i j" if "t \<le> max (5 * Second) (duration * Second)" for n t
    using reach [OF that] by blast
  have c: "nat conns \<le> 2 ^ 20" "quot conns 4 \<le> 2 ^ 20" "max 1 (quot conns 2) \<le> 2 ^ 20" "conns < 2 ^ 53"
    using assms(3) by (auto simp: quot_def)
  have "nat (max 10 (quot conns 4)) * nat 10 < 2 ^ 53" "nat conns < 2 ^ 53" using c by auto
  note fixed = flood_accounts [OF this(2)] throughput_accounts [OF this(1)]
  have "nat 10 * nat 10000 < (2 ^ 53 :: nat)" by simp
  note fixed = fixed longlived_accounts [OF this]
  have f: "\<exists>r. phaseFlood e base conns = Ret r" "\<exists>r. phaseThroughput e base conns 10 = Ret r"
    "\<exists>r. phaseLongLived e base 10 10000 = Ret r" using fixed by blast+
  have t: "\<exists>r. phaseRPS e base conns (duration * Second) = Some (Ret r)"
    "\<exists>r. phaseMixed e base conns (duration * Second) body64k = Some (Ret r)"
    "\<exists>r. phaseChurn e base conns (churnDur (duration * Second)) = Some (Ret r)"
    using rps_accounts [OF runs [OF d(1)] small [OF d(1) assms(3)]]
      mixed_accounts [OF runs [OF d(1)] small [OF d(1) assms(3)] c(4)]
      churn_accounts [OF runs [OF d(2)] small [OF d(2) c(3)]] by blast+
  show ?thesis unfolding w run_phase_def using f t
    by (intro if_ex) blast+
qed

lemma crystal_ready_dial: "sw_dial w 0 \<Longrightarrow> sw_dial w 1 \<Longrightarrow> crystal_ready w auto port = Ret True"
  by (simp add: crystal_ready_def portListening_def)

lemma pair_phase_bounded:
  assumes "0 \<le> fl_duration f" and "fl_duration f < 2 ^ 33" and "fl_conns f \<le> 2 ^ 20"
    and "\<forall>e\<in>{sw_cr w key, sw_go w key}. \<forall>i. \<exists>j<2 ^ 20. se_start e + max (5 * Second) (fl_duration f * Second) \<le> se_now e i j"
  shows "\<exists>pr. pair_phase f w key = Some (Ret pr)"
proof -
  obtain r where r: "one_side (fl_noCrystal f) (run_phase key (sw_cr w key) (''https://127.0.0.1:'' @ show_int (fl_crystalPort f))
      (fl_conns f) (wrap64 (fl_duration f * Second))) = Some (Ret r)"
    using phases_bounded [OF assms(1-3)] assms(4) unfolding one_side_def by (metis insertI1)
  moreover obtain r' where r': "one_side (fl_noGo f) (run_phase key (sw_go w key) (''https://127.0.0.1:'' @ show_int (fl_goPort f))
      (fl_conns f) (wrap64 (fl_duration f * Second))) = Some (Ret r')"
    using phases_bounded [OF assms(1-3)] assms(4) unfolding one_side_def by (metis insertI1 insertI2)
  ultimately show ?thesis by (simp add: pair_phase_def Let_def)
qed

lemma summary_line_length:
  assumes "length rows < 10"
  shows "length (overall_line (length (filter cr_wins rows)) (length rows - length (filter cr_wins rows)) (length rows) @
    replicate 34 (CHR '' '')) = 64"
  using assms le_less_trans [OF length_filter_le assms, of cr_wins] by (simp add: overall_line_def length_show_digit)

definition active_keys :: "string \<Rightarrow> string list" where
  "active_keys phasesFlag = filter (\<lambda>k. k \<in> set (activePhases phasesFlag)) phase_keys"

section \<open>Properties\<close>

text \<open>
  C28. The result of a stress phase does not depend on the schedule of its goroutines: for all six
  phases any two schedules of the shared counters give the same counts, latencies, percentiles and
  rates (or both do not return).
\<close>

theorem phases_schedule_independent:
  "phaseFlood (e\<lparr>se_picks := p\<rparr>) base conns = phaseFlood (e\<lparr>se_picks := q\<rparr>) base conns \<and>
   phaseRPS (e\<lparr>se_picks := p\<rparr>) base conns d = phaseRPS (e\<lparr>se_picks := q\<rparr>) base conns d \<and>
   phaseThroughput (e\<lparr>se_picks := p\<rparr>) base conns reqs = phaseThroughput (e\<lparr>se_picks := q\<rparr>) base conns reqs \<and>
   phaseChurn (e\<lparr>se_picks := p\<rparr>) base conns d = phaseChurn (e\<lparr>se_picks := q\<rparr>) base conns d \<and>
   phaseMixed (e\<lparr>se_picks := p\<rparr>) base conns d body = phaseMixed (e\<lparr>se_picks := q\<rparr>) base conns d body \<and>
   phaseLongLived (e\<lparr>se_picks := p\<rparr>) base conns reqs = phaseLongLived (e\<lparr>se_picks := q\<rparr>) base conns reqs"
  unfolding phaseFlood_def phaseRPS_def phaseThroughput_def phaseChurn_def phaseMixed_def phaseLongLived_def
    timed_phase_def finalize_weave get_acts_def mixed_body_def by (simp cong: option.case_cong)

text \<open>
  C27. Any execution of the goroutines of a phase, one atomic action at a time in any order, can go
  on until all are done, and when they are the result that \<open>finalize\<close> computes from the counters is
  the one of every schedule of the function that models the phase.
\<close>

theorem goroutine_runs_agree:
  assumes "act_step\<^sup>*\<^sup>* (metrics_zero, pss) (m, pss')"
  shows "if list_all (\<lambda>as. as = []) pss' then finalize name m elapsed = finalize name (run_acts (weave ps pss)) elapsed
    else \<exists>s. act_step (m, pss') s"
proof (cases "list_all (\<lambda>as. as = []) pss'")
  case True
  then obtain qs where "m = run_acts (weave qs pss)" using weave_complete [OF assms] by (auto simp: list_all_iff)
  then show ?thesis using True by (simp add: finalize_weave)
next
  case False
  then obtain i where i: "i < length pss'" "pss' ! i \<noteq> []" by (auto simp: list_all_length)
  then obtain a as where "pss' ! i = a # as" by (cases "pss' ! i") auto
  from act_step [OF i(1) this, of m] show ?thesis unfolding if_not_P [OF False] ..
qed

theorem goroutine_runs_agree_witness:
  "finalize ''x'' \<lparr>mt_lats = [5], mt_errors = 1, mt_total = 2, mt_bytes = 4\<rparr> 9 =
   finalize ''x'' (run_acts (weave [1, 0, 1] [metrics_fail, metrics_record 5 4])) 9"
proof -
  have "act_step\<^sup>*\<^sup>* (metrics_zero, [metrics_fail, metrics_record 5 4]) (\<lparr>mt_lats = [5], mt_errors = 1, mt_total = 2, mt_bytes = 4\<rparr>, [[], []])"
    using act_step [of 1 "[metrics_fail, metrics_record 5 4]" "AddLat 5 4" "[AddTotal]" metrics_zero]
      act_step [of 0 "[metrics_fail, [AddTotal]]" AddErrors "[AddTotal]" "\<lparr>mt_lats = [5], mt_errors = 0, mt_total = 0, mt_bytes = 4\<rparr>"]
      act_step [of 1 "[[AddTotal], [AddTotal]]" AddTotal "[]" "\<lparr>mt_lats = [5], mt_errors = 1, mt_total = 0, mt_bytes = 4\<rparr>"]
      act_step [of 0 "[[AddTotal], []]" AddTotal "[]" "\<lparr>mt_lats = [5], mt_errors = 1, mt_total = 1, mt_bytes = 4\<rparr>"]
    by (simp add: metrics_fail_def metrics_record_def metrics_zero_def wrap64_def)
  from goroutine_runs_agree [OF this, of "''x''" 9 "[1, 0, 1]"] show ?thesis by simp
qed

text \<open>
  C29. The phases with a fixed number of requests return and account for every request: the flood
  makes one request per connection, the throughput phase \<open>reqs\<close> requests on each of
  \<open>max 10 (conns / 4)\<close> connections, the long-lived phase \<open>reqs\<close> requests per connection. Each is
  counted once, as a success whose latency is kept or as an error.
\<close>

theorem fixed_phases_account:
  assumes "nat conns < 2 ^ 53" and "nat (max 10 (quot conns 4)) * nat reqs < 2 ^ 53" and "nat conns * nat reqs < 2 ^ 53"
  shows "(\<exists>r. phaseFlood e base conns = Ret r \<and> accounts r (phase_calls (nat conns) (\<lambda>_. 1) (se_lat e) (pings e base))) \<and>
    (\<exists>r. phaseThroughput e base conns reqs = Ret r \<and>
       accounts r (phase_calls (nat (max 10 (quot conns 4))) (\<lambda>_. nat reqs) (se_lat e) (\<lambda>i j. bench_Get (se_cl e i) j (base @ ''/100k'')))) \<and>
    (\<exists>r. phaseLongLived e base conns reqs = Ret r \<and> accounts r (phase_calls (nat conns) (\<lambda>_. nat reqs) (se_lat e) (pings e base)))"
  using flood_accounts [OF assms(1)] throughput_accounts [OF assms(2)] longlived_accounts [OF assms(3)] by blast

definition stress_demo_env :: stress_env where
  "stress_demo_env = \<lparr>se_cl = \<lambda>_. demo_client, se_lat = \<lambda>i j. int (i + j), se_start = 0, se_now = \<lambda>i j. int j * 1000000000,
     se_picks = [], se_elapsed = 2000000000\<rparr>"

theorem fixed_phases_account_witness:
  "(\<exists>r. phaseFlood stress_demo_env ''https://h'' 3 = Ret r \<and> accounts r (phase_calls 3 (\<lambda>_. 1) (se_lat stress_demo_env) (pings stress_demo_env ''https://h''))) \<and>
   (\<exists>r. phaseLongLived stress_demo_env ''https://h'' 3 4 = Ret r \<and> accounts r (phase_calls 3 (\<lambda>_. 4) (se_lat stress_demo_env) (pings stress_demo_env ''https://h'')))"
proof -
  have "nat 3 < (2 ^ 53 :: nat)" "nat (max 10 (quot 3 4)) * nat 4 < 2 ^ 53" "nat 3 * nat 4 < (2 ^ 53 :: nat)"
    by (simp_all add: quot_def)
  from fixed_phases_account [OF this, of stress_demo_env "''https://h''"] show ?thesis by simp
qed

text \<open>
  C30. A timed phase returns exactly when the clock of each of its goroutines reaches the deadline: all
  \<open>conns\<close> goroutines for the throughput and the mixed phase, half of them but at least one for the churn
  phase.
\<close>

theorem timed_phases_return_iff:
  "((\<exists>r. phaseRPS e base conns d = Some r) \<longleftrightarrow> (\<forall>i<nat conns. \<exists>j. se_start e + d \<le> se_now e i j)) \<and>
   ((\<exists>r. phaseChurn e base conns d = Some r) \<longleftrightarrow> (\<forall>i<nat (max 1 (quot conns 2)). \<exists>j. se_start e + d \<le> se_now e i j)) \<and>
   ((\<exists>r. phaseMixed e base conns d body = Some r) \<longleftrightarrow> (\<forall>i<nat conns. \<exists>j. se_start e + d \<le> se_now e i j))"
proof -
  have "(if quot conns 2 < 1 then 1 else quot conns 2) = max 1 (quot conns 2)" by (simp add: max_def)
  then show ?thesis
    unfolding phaseRPS_def phaseChurn_def phaseMixed_def Let_def timed_phase_returns_iff by (simp only: simp_thms)
qed

theorem timed_phases_return_iff_witness:
  "(\<exists>r. phaseRPS stress_demo_env ''https://h'' 3 2000000000 = Some r) \<and>
   \<not> (\<exists>r. phaseChurn (stress_demo_env\<lparr>se_now := \<lambda>i j. 0\<rparr>) ''https://h'' 3 2000000000 = Some r)"
proof -
  have "\<forall>i<nat 3. \<exists>j. se_start stress_demo_env + 2000000000 \<le> se_now stress_demo_env i j"
    by (auto simp: stress_demo_env_def intro: exI [of _ 2])
  then have a: "\<exists>r. phaseRPS stress_demo_env ''https://h'' 3 2000000000 = Some r"
    using timed_phases_return_iff [of stress_demo_env "''https://h''" 3 2000000000] by blast
  have "0 < nat (max 1 (quot 3 2))" by simp
  moreover have "\<not> (\<exists>j. se_start (stress_demo_env\<lparr>se_now := \<lambda>i j. 0\<rparr>) + 2000000000 \<le> se_now (stress_demo_env\<lparr>se_now := \<lambda>i j. 0\<rparr>) 0 j)"
    by (simp add: stress_demo_env_def)
  ultimately have "\<not> (\<exists>r. phaseChurn (stress_demo_env\<lparr>se_now := \<lambda>i j. 0\<rparr>) ''https://h'' 3 2000000000 = Some r)"
    using timed_phases_return_iff [of "stress_demo_env\<lparr>se_now := \<lambda>i j. 0\<rparr>" "''https://h''" 3 2000000000] by blast
  then show ?thesis using a by blast
qed

text \<open>
  The mixed phase is the mix its comment names: request \<open>j\<close> of goroutine \<open>i\<close> is chosen by
  \<open>(i + j) mod 10\<close>, every request is counted once, and any ten requests in a row of a goroutine are
  seven small GETs, two POSTs and one large GET.
\<close>

theorem mixed_rotation:
  assumes "\<forall>i<nat conns. \<exists>j. se_start e + d \<le> se_now e i j"
    and "(\<Sum>i<nat conns. iterations (se_now e i) (se_start e + d)) < 2 ^ 53" and "conns < 2 ^ 53"
  shows "(\<exists>r. phaseMixed e base conns d body = Some (Ret r) \<and>
      accounts r (phase_calls (nat conns) (\<lambda>i. iterations (se_now e i) (se_start e + d)) (se_lat e)
        (\<lambda>i j. mixed_call (se_cl e i) j base body (int ((i + j) mod 10))))) \<and>
    length (filter (\<lambda>k. mixed_pick (int (i + k)) \<le> 6) [j ..< j + 10]) = 7 \<and>
    length (filter (\<lambda>k. 6 < mixed_pick (int (i + k)) \<and> mixed_pick (int (i + k)) \<le> 8) [j ..< j + 10]) = 2 \<and>
    length (filter (\<lambda>k. 8 < mixed_pick (int (i + k))) [j ..< j + 10]) = 1"
proof -
  have c: "length (filter (\<lambda>k. P (mixed_pick (int (i + k)))) [j ..< j + 10]) = length (filter (\<lambda>k. P (int k)) [0 ..< 10])" for P
    using rotation_count [of "\<lambda>k. P (int k)"] by (simp only: mixed_pick_nat)
  have u: "[0 ..< 10] = [0, 1, 2, 3, 4, 5, 6, 7, 8, 9 :: nat]" by (simp add: upt_rec)
  show ?thesis
    using mixed_accounts [OF assms] c [of "\<lambda>x. x \<le> 6"] c [of "\<lambda>x. 6 < x \<and> x \<le> 8"] c [of "\<lambda>x. 8 < x"] unfolding u by simp
qed

theorem mixed_rotation_witness:
  "(\<exists>r. phaseMixed stress_demo_env ''https://h'' 2 3000000000 ''y'' = Some (Ret r) \<and>
      accounts r (phase_calls 2 (\<lambda>_. 3) (se_lat stress_demo_env)
        (\<lambda>i j. mixed_call demo_client j ''https://h'' ''y'' (int ((i + j) mod 10))))) \<and>
    length (filter (\<lambda>k. mixed_pick (int (3 + k)) \<le> 6) [5 ..< 5 + 10]) = 7"
proof -
  have "3000000000 \<le> se_now stress_demo_env i j \<longleftrightarrow> 3 \<le> j" for i j by (simp add: stress_demo_env_def)
  then have it: "iterations (se_now stress_demo_env i) (se_start stress_demo_env + 3000000000) = 3" for i
    unfolding iterations_def by (intro Least_equality) (auto simp: stress_demo_env_def)
  have r: "\<forall>i<nat 2. \<exists>j. se_start stress_demo_env + 3000000000 \<le> se_now stress_demo_env i j" by (auto simp: stress_demo_env_def intro: exI [of _ 3])
  have "(\<Sum>i<nat 2. iterations (se_now stress_demo_env i) (se_start stress_demo_env + 3000000000)) < 2 ^ 53" by (simp add: it)
  from mixed_rotation [OF r this, of "''https://h''" "''y''" 3 5] show ?thesis by (simp add: it) (simp add: stress_demo_env_def)
qed

text \<open>
  The summary of the stress test: for at most nine phases it never panics and its last line
  fills the box, the first number is the count of phases with a strictly better Crystal metric and
  every other phase, ties included, is counted for Go.
\<close>

theorem summary_counts:
  assumes "length rows < 10"
  shows "st_printSummary rows =
      Ret (map (\<lambda>r. (sr_phase r, formatMetric (sr_crMetric r) (sr_unit r), formatMetric (sr_goMetric r) (sr_unit r))) rows,
        overall_line (length (filter cr_wins rows)) (length (filter (\<lambda>r. \<not> cr_wins r) rows)) (length rows) @ replicate 34 (CHR '' ''))"
proof -
  have "length rows - length (filter cr_wins rows) = length (filter (\<lambda>r. \<not> cr_wins r) rows)"
    using sum_length_filter_compl [of cr_wins rows] by simp
  then show ?thesis using summary_line [OF assms] by simp
qed

theorem summary_counts_witness:
  "st_printSummary [\<lparr>sr_phase = ''1'', sr_crMetric = Fin 3, sr_goMetric = Fin 2, sr_unit = ''rps'', sr_higher = True\<rparr>,
      \<lparr>sr_phase = ''2'', sr_crMetric = Fin 2, sr_goMetric = Fin 2, sr_unit = ''mb'', sr_higher = True\<rparr>] =
    Ret ([(''1'', ''3 req/s'', ''2 req/s''), (''2'', ''2.0 MB/s'', ''2.0 MB/s'')],
      ''  Overall: Crystal 1/2  Go 1/2'' @ replicate 34 (CHR '' ''))"
  using summary_counts [of "[\<lparr>sr_phase = ''1'', sr_crMetric = Fin 3, sr_goMetric = Fin 2, sr_unit = ''rps'', sr_higher = True\<rparr>,
      \<lparr>sr_phase = ''2'', sr_crMetric = Fin 2, sr_goMetric = Fin 2, sr_unit = ''mb'', sr_higher = True\<rparr>]"]
  by (simp add: formatMetric_def fixed_digits_def round_even_def Let_def cr_wins_def overall_line_def show_nat.simps char_of_def bit_0)

text \<open>
  C31. With reachable servers, clocks that pass the deadlines and flags in range the stress test
  returns with exit code 0: one comparison table for each requested phase, in the fixed order, and a
  summary with one row for each, whose last line fills the box (no summary when no phase was named).
\<close>

theorem stress_main_returns:
  assumes "sw_dial w 0" and "sw_dial w 1" and "sw_goErr w = None"
    and "0 \<le> fl_duration f" and "fl_duration f < 2 ^ 33" and "fl_conns f \<le> 2 ^ 20"
    and "\<forall>key\<in>set phase_keys. \<forall>e\<in>{sw_cr w key, sw_go w key}. \<forall>i.
           \<exists>j<2 ^ 20. se_start e + max (5 * Second) (fl_duration f * Second) \<le> se_now e i j"
  shows "\<exists>out. stress_main w f = Some (Ret out) \<and> so_exit out = 0 \<and> length (so_tables out) = length (active_keys (fl_phases f)) \<and>
    (case so_summary out of None \<Rightarrow> active_keys (fl_phases f) = [] | Some (rows, line) \<Rightarrow> map fst rows = map phase_label (active_keys (fl_phases f)) \<and> length line = 64)"
proof -
  define active where "active = active_keys (fl_phases f)"
  note active_def = active_def [unfolded active_keys_def]
  have "\<forall>key\<in>set phase_keys. \<exists>pr. pair_phase f w key = Some (Ret pr)"
    using pair_phase_bounded [OF assms(4-6)] assms(7) by blast
  from run_phases_active [OF this] obtain rs where rs: "run_phases f w phase_keys = Some (Ret rs)" "map fst rs = active"
    unfolding active_def by blast
  have "filter (\<lambda>k. k \<in> set (map fst rs)) phase_keys = active"
    unfolding rs(2) unfolding active_def by (rule filter_cong) auto
  then have lab: "map sr_phase (summary_rows rs) = map phase_label active" by (simp only: summary_labels)
  have l: "length (summary_rows rs) < 10" using length_summary_rows [of rs] by simp
  have n: "summary_rows rs = [] \<longleftrightarrow> active = []" using lab by (metis map_is_Nil_conv)
  obtain line where p: "st_printSummary (summary_rows rs) = Ret (map (\<lambda>r. (sr_phase r, formatMetric (sr_crMetric r) (sr_unit r),
      formatMetric (sr_goMetric r) (sr_unit r))) (summary_rows rs), line)" "length line = 64"
    using summary_line [OF l] summary_line_length [OF l] by auto
  have "length rs = length active" using rs(2) by (metis length_map)
  then show ?thesis unfolding active_keys_def active_def [symmetric] using assms(1-3) rs(1) p n lab
    by (cases "active = []") (simp_all add: stress_main_def crystal_ready_dial Let_def comp_def)
qed


definition demo_world :: stress_world where
  "demo_world = \<lparr>sw_dial = \<lambda>_. True, sw_probe = \<lambda>_. demo_client, sw_startErr = None, sw_goErr = None,
     sw_cr = \<lambda>_. stress_demo_env, sw_go = \<lambda>_. stress_demo_env\<rparr>"

definition demo_flags :: stress_flags where
  "demo_flags = \<lparr>fl_crystalPort = 4433, fl_goPort = 4444, fl_duration = 2, fl_conns = 4, fl_noCrystal = False, fl_noGo = False,
     fl_phases = ''mixed, rps'', fl_autoStart = True\<rparr>"

theorem stress_main_returns_witness:
  "\<exists>out. stress_main demo_world demo_flags = Some (Ret out) \<and> so_exit out = 0 \<and> length (so_tables out) = 2 \<and>
    (case so_summary out of None \<Rightarrow> False | Some (rows, line) \<Rightarrow> map fst rows = [''2. Sustained RPS'', ''5. Mixed Load''] \<and> length line = 64)"
proof -
  have a: "active_keys (fl_phases demo_flags) = [''rps'', ''mixed'']" by code_simp
  have l: "map phase_label [''rps'', ''mixed''] = [''2. Sustained RPS'', ''5. Mixed Load'']" by code_simp
  have e: "([''rps'', ''mixed''] = []) = False" by simp
  have "\<exists>j<2 ^ 20. se_start stress_demo_env + max (5 * Second) (2 * Second) \<le> se_now stress_demo_env i j" for i
    by (rule exI [of _ 5]) (simp add: stress_demo_env_def Second_def)
  then show ?thesis
    using stress_main_returns [of demo_world demo_flags] unfolding a l e by (simp add: demo_world_def demo_flags_def numeral_2_eq_2)
qed

end
