(* ===== verification/Go_Servers.thy ===== *)
theory Go_Servers
  imports Go_Stress
begin

text \<open>
  The Go HTTP/3 servers: bench/go_server, bench/go_server_3way and the servers that
  bench_3way, bench_h3 and stress_test start inside their own process. A handler is a
  function from a request to what it writes on the response. \<open>net/http\<close> is modelled as
  far as the handlers use it: the patterns of \<open>ServeMux\<close>, \<open>Header\<close>, \<open>Write\<close>, \<open>http.Error\<close>,
  the query string. Request paths are taken as they are, without percent escapes. TLS,
  certificates and the QUIC listener are not modelled.
\<close>

section \<open>Requests and responses\<close>

record server_request =
  sv_method :: string
  sv_path :: string
  sv_rawQuery :: string
  sv_header :: http_header
  sv_body :: string
  sv_bodyErr :: "go_error option"

record response_writer =
  rw_header :: http_header
  rw_status :: int
  rw_body :: string

definition rw_new :: response_writer where
  "rw_new = \<lparr>rw_header = Map.empty, rw_status = 0, rw_body = []\<rparr>"

definition set_header :: "string \<Rightarrow> string \<Rightarrow> response_writer \<Rightarrow> response_writer" where
  "set_header k v w = w\<lparr>rw_header := Header_Set (rw_header w) k v\<rparr>"

definition WriteHeader :: "int \<Rightarrow> response_writer \<Rightarrow> response_writer" where
  "WriteHeader code w = (if rw_status w = 0 then w\<lparr>rw_status := code\<rparr> else w)"

definition Write :: "string \<Rightarrow> response_writer \<Rightarrow> response_writer" where
  "Write s w = (let w = WriteHeader 200 w in w\<lparr>rw_body := rw_body w @ s\<rparr>)"

definition http_Error :: "string \<Rightarrow> int \<Rightarrow> response_writer \<Rightarrow> response_writer" where
  "http_Error msg code w =
     Write (msg @ [CHR 0x0A]) (WriteHeader code
       (set_header ''X-Content-Type-Options'' ''nosniff'' (set_header ''Content-Type'' ''text/plain; charset=utf-8'' w)))"

definition NotFound :: "response_writer \<Rightarrow> response_writer" where
  "NotFound w = http_Error ''404 page not found'' 404 w"

type_synonym handler = "server_request \<Rightarrow> response_writer \<Rightarrow> response_writer"

section \<open>ServeMux\<close>

text \<open>The path with empty and dot segments resolved; a final slash is kept.\<close>

fun clean_segs :: "string list \<Rightarrow> string list \<Rightarrow> string list" where
  "clean_segs out [] = out"
| "clean_segs out (s # ss) =
     (if s = [] \<or> s = ''.'' then clean_segs out ss
      else if s = ''..'' then clean_segs (if out = [] then [] else butlast out) ss
      else clean_segs (out @ [s]) ss)"

definition cleanPath :: "string \<Rightarrow> string" where
  "cleanPath p =
     (if p = [] then ''/''
      else
        (let out = clean_segs [] (splitOn (CHR ''/'') p);
             np = (if out = [] then ''/'' else concat (map (\<lambda>s. ''/'' @ s) out))
         in if last p = CHR ''/'' \<and> np \<noteq> ''/'' then np @ ''/'' else np))"

definition pattern_matches :: "string \<Rightarrow> string \<Rightarrow> bool" where
  "pattern_matches pat p = (p = pat \<or> (last pat = CHR ''/'' \<and> take (length pat) p = pat))"

fun mux_handler :: "(string \<times> handler) list \<Rightarrow> string \<Rightarrow> (string \<times> handler) option" where
  "mux_handler [] p = None"
| "mux_handler ((pat, h) # m) p =
     (let r = mux_handler m p
      in if pattern_matches pat p then
           (case r of None \<Rightarrow> Some (pat, h)
            | Some (pat', h') \<Rightarrow> if length pat < length pat' then Some (pat', h') else Some (pat, h))
         else r)"

text \<open>
  The reply of a server: a redirect to another path, or what the handler has written when it
  returns (status 200 when it wrote nothing).
\<close>

definition finish_reply :: "response_writer \<Rightarrow> response_writer" where
  "finish_reply w = WriteHeader 200 w"

definition mux_serve :: "(string \<times> handler) list \<Rightarrow> server_request \<Rightarrow> string + response_writer" where
  "mux_serve m r =
     (let p = (if sv_method r = ''CONNECT'' then sv_path r else cleanPath (sv_path r)) in
      if p \<notin> fst ` set m \<and> p @ ''/'' \<in> fst ` set m then Inl (p @ ''/'')
      else if p \<noteq> sv_path r then Inl p
      else (case mux_handler m p of
              None \<Rightarrow> Inr (finish_reply (NotFound rw_new))
            | Some (pat, h) \<Rightarrow> Inr (finish_reply (h r rw_new))))"

section \<open>Query strings\<close>

fun QueryUnescape :: "string \<Rightarrow> string option" where
  "QueryUnescape [] = Some []"
| "QueryUnescape (c # s) =
     (if c = CHR ''%'' then
        (case s of
           a # b # s' \<Rightarrow>
             (case (hexval a, hexval b, QueryUnescape s') of
                (Some x, Some y, Some t) \<Rightarrow> Some (char_of (16 * x + y) # t)
              | _ \<Rightarrow> None)
         | _ \<Rightarrow> None)
      else (case QueryUnescape s of
              None \<Rightarrow> None
            | Some t \<Rightarrow> Some ((if c = CHR ''+'' then CHR '' '' else c) # t)))"

definition cut_eq :: "string \<Rightarrow> string \<times> string" where
  "cut_eq s = (takeWhile (\<lambda>c. c \<noteq> CHR ''='') s, drop 1 (dropWhile (\<lambda>c. c \<noteq> CHR ''='') s))"

definition query_pair :: "string \<Rightarrow> (string \<times> string) list" where
  "query_pair kv =
     (if kv = [] \<or> CHR '';'' \<in> set kv then []
      else (case cut_eq kv of (k, v) \<Rightarrow>
              (case (QueryUnescape k, QueryUnescape v) of
                 (Some k', Some v') \<Rightarrow> [(k', v')]
               | _ \<Rightarrow> [])))"

definition Query_Get :: "server_request \<Rightarrow> string \<Rightarrow> string" where
  "Query_Get r name =
     (case map_of (concat (map query_pair (splitOn (CHR ''&'') (sv_rawQuery r)))) name of None \<Rightarrow> [] | Some v \<Rightarrow> v)"

section \<open>Formatting\<close>

definition dq :: string where "dq = [CHR 0x22]"

definition lhex :: "nat \<Rightarrow> char" where
  "lhex n = (if n < 10 then char_of (48 + n) else char_of (87 + n))"

text \<open>
  \<open>%q\<close> and the strings of \<open>json.Marshal\<close> on ASCII text; text with other bytes goes to the
  argument \<open>uni\<close>, since which characters print is a matter of the Unicode tables.
\<close>

definition quote_byte :: "char \<Rightarrow> string" where
  "quote_byte c =
     (let n = of_char c :: nat; bs = CHR 0x5C
      in if n = 34 \<or> n = 92 then [bs, c]
         else if n = 7 then [bs, CHR ''a''] else if n = 8 then [bs, CHR ''b''] else if n = 12 then [bs, CHR ''f'']
         else if n = 10 then [bs, CHR ''n''] else if n = 13 then [bs, CHR ''r''] else if n = 9 then [bs, CHR ''t'']
         else if n = 11 then [bs, CHR ''v'']
         else if n < 32 \<or> n = 127 then [bs, CHR ''x'', lhex (n div 16), lhex (n mod 16)]
         else [c])"

definition is_ascii :: "string \<Rightarrow> bool" where
  "is_ascii s = list_all (\<lambda>c. (of_char c :: nat) < 128) s"

definition Quote :: "(string \<Rightarrow> string) \<Rightarrow> string \<Rightarrow> string" where
  "Quote uni s = (if is_ascii s then dq @ concat (map quote_byte s) @ dq else uni s)"

definition json_byte :: "char \<Rightarrow> string" where
  "json_byte c =
     (let n = of_char c :: nat; bs = CHR 0x5C
      in if n = 34 \<or> n = 92 then [bs, c]
         else if n = 8 then [bs, CHR ''b''] else if n = 12 then [bs, CHR ''f'']
         else if n = 10 then [bs, CHR ''n''] else if n = 13 then [bs, CHR ''r''] else if n = 9 then [bs, CHR ''t'']
         else if n < 32 \<or> c \<in> {CHR ''<'', CHR ''>'', CHR ''&''} then
           [bs, CHR ''u'', CHR ''0'', CHR ''0'', lhex (n div 16), lhex (n mod 16)]
         else [c])"

definition json_string :: "(string \<Rightarrow> string) \<Rightarrow> string \<Rightarrow> string" where
  "json_string uni s = (if is_ascii s then dq @ concat (map json_byte s) @ dq else uni s)"

text \<open>A raw string literal of the source, with quotation marks written as \<open>~\<close>.\<close>

definition lit :: "string \<Rightarrow> string" where
  "lit s = map (\<lambda>c. if c = CHR ''~'' then CHR 0x22 else c) s"

section \<open>bench/go_server\<close>

definition gs_root :: handler where
  "gs_root r w =
     Write (''<!DOCTYPE html><html><body><h1>quic-go HTTP/3 benchmark server</h1></body></html>'' @ [CHR 0x0A])
       (set_header ''content-type'' ''text/html'' w)"

definition gs_echo :: "(string \<Rightarrow> string) \<Rightarrow> handler" where
  "gs_echo uni r w =
     (case sv_bodyErr r of
        Some err \<Rightarrow> http_Error ''read error'' 500 w
      | None \<Rightarrow>
          if Header_Get (sv_header r) ''content-type'' = ''application/json'' then
            Write (lit ''{~echo~:'' @ Quote uni (sv_body r) @ lit '',~bytes~:'' @ show_nat (length (sv_body r)) @ ''}'')
              (set_header ''content-type'' ''application/json'' w)
          else Write (''Echo: '' @ sv_body r) (set_header ''content-type'' ''text/plain'' w))"

definition gs_greet :: handler where
  "gs_greet r w =
     (let name = Query_Get r ''name''; name = (if name = [] then ''stranger'' else name)
      in Write (lit ''{~message~:~Hello, '' @ name @ lit ''!~,~server~:~quic-go~}'')
           (set_header ''content-type'' ''application/json'' w))"

definition go_server_mux :: "(string \<Rightarrow> string) \<Rightarrow> (string \<times> handler) list" where
  "go_server_mux uni = [(''/'', gs_root), (''/echo'', gs_echo uni), (''/greet'', gs_greet)]"

section \<open>bench/go_server_3way\<close>

definition base_name :: "string \<Rightarrow> string" where
  "base_name p =
     (if p = [] then ''.''
      else
        (let p = rev (dropWhile (\<lambda>c. c = CHR ''/'') (rev p));
             b = rev (takeWhile (\<lambda>c. c \<noteq> CHR ''/'') (rev p))
         in if b = [] then ''/'' else b))"

definition w3_root :: handler where
  "w3_root r w =
     Write ''<!DOCTYPE html><html><body><h1>Go HTTP/3 Server</h1><p>quic-go benchmark</p></body></html>''
       (set_header ''x-powered-by'' ''quic-go'' (set_header ''content-type'' ''text/html; charset=utf-8'' w))"

definition w3_greet :: handler where
  "w3_greet r w =
     (let name = Query_Get r ''name''; name = (if name = [] then ''stranger'' else name)
      in Write (lit ''{~message~:~Hello, '' @ name @ lit ''!~,~server~:~quic-go~}'')
           (set_header ''x-powered-by'' ''quic-go'' (set_header ''content-type'' ''application/json'' w)))"

definition w3_users :: handler where
  "w3_users r w =
     (let i = base_name (sv_path r);
          w = set_header ''x-powered-by'' ''quic-go'' (set_header ''content-type'' ''application/json'' w)
      in if sv_method r = ''GET'' then Write (lit ''{~user~:{~id~:~'' @ i @ lit ''~,~status~:~active~}}'') w
         else if sv_method r = ''DELETE'' then Write (lit ''{~deleted~:true,~id~:~'' @ i @ lit ''~}'') w
         else http_Error ''method not allowed'' 405 w)"

text \<open>One \<open>Body.Read\<close> into a buffer of 1 MiB: \<open>rd\<close> is the most bytes it delivers at once.\<close>

definition w3_echo :: "nat \<Rightarrow> handler" where
  "w3_echo rd r w =
     (if sv_method r \<noteq> ''POST'' then http_Error ''method not allowed'' 405 w
      else
        (let body = take (min rd 1048576) (sv_body r);
             ct = Header_Get (sv_header r) ''content-type'';
             w = set_header ''x-powered-by'' ''quic-go'' w
         in if ct = ''application/json'' then
              Write (lit ''{~echo~:'' @ body @ lit '',~bytes~:'' @ show_nat (length body) @ ''}'')
                (set_header ''content-type'' ''application/json'' w)
            else Write (''Echo: '' @ body) (set_header ''content-type'' ''text/plain'' w)))"

definition w3_healthz :: "int \<Rightarrow> string \<Rightarrow> int \<Rightarrow> handler" where
  "w3_healthz uptime version goroutines r w =
     Write (lit ''{~status~:~ok~,~uptime_ms~:'' @ show_int uptime @ lit '',~go_version~:~'' @ version @
            lit ''~,~goroutines~:'' @ show_int goroutines @ ''}'')
       (set_header ''content-type'' ''application/json'' w)"

definition server_3way_mux :: "nat \<Rightarrow> int \<Rightarrow> string \<Rightarrow> int \<Rightarrow> (string \<times> handler) list" where
  "server_3way_mux rd uptime version goroutines =
     [(''/'', w3_root), (''/greet'', w3_greet), (''/users/'', w3_users), (''/echo'', w3_echo rd),
      (''/healthz'', w3_healthz uptime version goroutines)]"

text \<open>\<open>filepath.Join(filepath.Dir(exe), p)\<close> is a call of the library: \<open>joined\<close>.\<close>

definition resolveRelativePath :: "string option \<Rightarrow> (string \<Rightarrow> string \<Rightarrow> string) \<Rightarrow> string \<Rightarrow> string" where
  "resolveRelativePath exe joined p =
     (if p \<noteq> [] \<and> hd p = CHR ''/'' then p
      else (case exe of None \<Rightarrow> p | Some e \<Rightarrow> joined e p))"

section \<open>Inline servers\<close>

definition welcome_json :: string where
  "welcome_json = lit ''{~message~:~Welcome to quic.cr~,~version~:~1.0~}''"

definition in_ping :: handler where
  "in_ping r w = Write ''pong'' (set_header ''content-type'' ''text/plain'' w)"

definition in_100k :: "string \<Rightarrow> handler" where
  "in_100k payload r w = Write payload (set_header ''content-type'' ''application/octet-stream'' w)"

text \<open>\<open>io.Copy(w, r.Body)\<close>: without a byte to copy nothing is written.\<close>

definition st_echo :: handler where
  "st_echo r w =
     (let w = set_header ''content-type'' ''application/octet-stream'' w
      in if sv_body r = [] then w else Write (sv_body r) w)"

definition st_root :: handler where
  "st_root r w = Write welcome_json (set_header ''content-type'' ''application/json'' w)"

definition payload100k :: string where "payload100k = replicate (100 * 1024) (CHR ''x'')"

definition stress_mux :: "(string \<times> handler) list" where
  "stress_mux = [(''/ping'', in_ping), (''/100k'', in_100k payload100k), (''/echo'', st_echo), (''/'', st_root)]"

definition h3_mux :: "(string \<times> handler) list" where
  "h3_mux = [(''/ping'', in_ping), (''/100k'', in_100k payload100k)]"

definition tw_root :: handler where
  "tw_root r w =
     (if sv_path r \<noteq> ''/'' then NotFound w
      else Write welcome_json (set_header ''content-type'' ''application/json'' w))"

definition tw_greet :: "(string \<Rightarrow> string) \<Rightarrow> handler" where
  "tw_greet uni r w =
     (let name = Query_Get r ''name''; name = (if name = [] then ''World'' else name)
      in Write (lit ''{~message~:'' @ json_string uni (''Hello, '' @ name @ ''!'') @ ''}'')
           (set_header ''content-type'' ''application/json'' w))"

definition TrimPrefix :: "string \<Rightarrow> string \<Rightarrow> string" where
  "TrimPrefix s p = (if take (length p) s = p then drop (length p) s else s)"

definition tw_users :: "(string \<Rightarrow> string) \<Rightarrow> handler" where
  "tw_users uni r w =
     (let i = TrimPrefix (sv_path r) ''/users/''
      in Write (lit ''{~id~:'' @ json_string uni i @ lit '',~name~:'' @ json_string uni (''User '' @ i) @ ''}'')
           (set_header ''content-type'' ''application/json'' w))"

definition tw_echo :: handler where
  "tw_echo r w = Write (sv_body r) (set_header ''content-type'' ''application/octet-stream'' w)"

definition inline_3way_mux :: "(string \<Rightarrow> string) \<Rightarrow> (string \<times> handler) list" where
  "inline_3way_mux uni =
     [(''/'', tw_root), (''/greet'', tw_greet uni), (''/users/'', tw_users uni), (''/echo'', tw_echo), (''/ping'', in_ping)]"

section \<open>Clients of a server\<close>

text \<open>
  The client whose requests a server answers. The request target is split at the question
  mark; a redirect is passed on as a 301 and not followed.
\<close>

definition request_of :: "string \<Rightarrow> http_request \<Rightarrow> server_request" where
  "request_of base rq =
     (let target = drop (length base) (rq_url rq)
      in \<lparr>sv_method = rq_method rq, sv_path = takeWhile (\<lambda>c. c \<noteq> CHR ''?'') target,
          sv_rawQuery = drop 1 (dropWhile (\<lambda>c. c \<noteq> CHR ''?'') target), sv_header = rq_header rq,
          sv_body = (case rq_body rq of None \<Rightarrow> [] | Some b \<Rightarrow> b), sv_bodyErr = None\<rparr>)"

definition server_client :: "string \<Rightarrow> (string \<times> handler) list \<Rightarrow> client" where
  "server_client base m = \<lparr>cl_parse = \<lambda>_. None,
     cl_do = \<lambda>k rq. Inr (case mux_serve m (request_of base rq) of
        Inl loc \<Rightarrow> \<lparr>StatusCode = 301, rs_body = [], rs_readErr = None, rs_header = Header_Set Map.empty ''Location'' loc\<rparr>
      | Inr w \<Rightarrow> \<lparr>StatusCode = rw_status w, rs_body = rw_body w, rs_readErr = None, rs_header = rw_header w\<rparr>)\<rparr>"

section \<open>The multiplexer\<close>

lemma mux_handler_longest:
  "mux_handler m p = Some (pat, h) \<Longrightarrow>
     (pat, h) \<in> set m \<and> pattern_matches pat p \<and> (\<forall>(pat', h')\<in>set m. pattern_matches pat' p \<longrightarrow> length pat' \<le> length pat)"
proof (induction m p arbitrary: pat h rule: mux_handler.induct)
  case (2 q g m p)
  show ?case
  proof (cases "mux_handler m p")
    case None
    have "\<not> pattern_matches pat' p" if "(pat', h') \<in> set m" for pat' h'
      using None that
      by (induction m) (auto simp: Let_def split: if_splits option.splits)
    then show ?thesis using 2(2) None by (auto simp: Let_def split: if_splits)
  next
    case (Some r)
    obtain q' g' where "r = (q', g')" by (cases r)
    note s = Some [unfolded this]
    show ?thesis using 2(2) s 2(1) [OF s] by (auto simp: Let_def split: if_splits)
  qed
qed simp

lemma mux_serve_direct:
  assumes "cleanPath (sv_path r) = sv_path r"
    and "sv_path r \<in> fst ` set m \<or> sv_path r @ ''/'' \<notin> fst ` set m"
  shows "mux_serve m r = Inr (case mux_handler m (sv_path r) of
      None \<Rightarrow> finish_reply (NotFound rw_new) | Some (pat, h) \<Rightarrow> finish_reply (h r rw_new))"
  using assms by (auto simp: mux_serve_def Let_def split: option.splits)

lemma clean_paths [simp]:
  "cleanPath ''/'' = ''/''" "cleanPath ''/echo'' = ''/echo''" "cleanPath ''/ping'' = ''/ping''"
  "cleanPath ''/greet'' = ''/greet''" "cleanPath ''/users/42'' = ''/users/42''" "cleanPath ''/100k'' = ''/100k''"
  "cleanPath ''/healthz'' = ''/healthz''"
  by (simp_all add: cleanPath_def Let_def)

lemma inline_3way_routes:
  "sv_path r = ''/'' \<Longrightarrow> mux_serve (inline_3way_mux uni) r = Inr (finish_reply (tw_root r rw_new))"
  "sv_path r = ''/greet'' \<Longrightarrow> mux_serve (inline_3way_mux uni) r = Inr (finish_reply (tw_greet uni r rw_new))"
  "sv_path r = ''/users/42'' \<Longrightarrow> mux_serve (inline_3way_mux uni) r = Inr (finish_reply (tw_users uni r rw_new))"
  "sv_path r = ''/echo'' \<Longrightarrow> mux_serve (inline_3way_mux uni) r = Inr (finish_reply (tw_echo r rw_new))"
  "sv_path r = ''/ping'' \<Longrightarrow> mux_serve (inline_3way_mux uni) r = Inr (finish_reply (in_ping r rw_new))"
  by (subst mux_serve_direct; simp add: inline_3way_mux_def pattern_matches_def)+

lemma stress_routes:
  "sv_path r = ''/ping'' \<Longrightarrow> mux_serve stress_mux r = Inr (finish_reply (in_ping r rw_new))"
  "sv_path r = ''/100k'' \<Longrightarrow> mux_serve stress_mux r = Inr (finish_reply (in_100k payload100k r rw_new))"
  "sv_path r = ''/echo'' \<Longrightarrow> mux_serve stress_mux r = Inr (finish_reply (st_echo r rw_new))"
  by (subst mux_serve_direct; simp add: stress_mux_def pattern_matches_def)+

lemma server_3way_routes:
  "sv_path r = ''/greet'' \<Longrightarrow> mux_serve (server_3way_mux rd u v g) r = Inr (finish_reply (w3_greet r rw_new))"
  "sv_path r = ''/users/42'' \<Longrightarrow> mux_serve (server_3way_mux rd u v g) r = Inr (finish_reply (w3_users r rw_new))"
  "sv_path r = ''/echo'' \<Longrightarrow> mux_serve (server_3way_mux rd u v g) r = Inr (finish_reply (w3_echo rd r rw_new))"
  by (subst mux_serve_direct; simp add: server_3way_mux_def pattern_matches_def)+

lemma reply_simps [simp]:
  "rw_status (Write s w) = (if rw_status w = 0 then 200 else rw_status w)"
  "rw_body (Write s w) = rw_body w @ s" "rw_header (Write s w) = rw_header w"
  "rw_status (set_header k v w) = rw_status w" "rw_body (set_header k v w) = rw_body w"
  "rw_status (WriteHeader c w) = (if rw_status w = 0 then c else rw_status w)" "rw_body (WriteHeader c w) = rw_body w"
  "rw_status (finish_reply w) = (if rw_status w = 0 then 200 else rw_status w)" "rw_body (finish_reply w) = rw_body w"
  "rw_status rw_new = 0" "rw_body rw_new = []"
  by (simp_all add: Write_def WriteHeader_def set_header_def finish_reply_def rw_new_def Let_def)

section \<open>Paths and queries\<close>

lemma user_path:
  assumes "CHR ''/'' \<notin> set i" and "i \<notin> {[], ''.'', ''..''}"
  shows "cleanPath (''/users/'' @ i) = ''/users/'' @ i" and "base_name (''/users/'' @ i) = i"
    and "mux_handler (server_3way_mux rd u v g) (''/users/'' @ i) = Some (''/users/'', w3_users)"
proof -
  have l: "last i \<noteq> CHR ''/''" using assms by (metis insertCI last_in_set)
  have "splitOn (CHR ''/'') (''/users/'' @ i) = [[], ''users'', i]"
    using splitOn_head [of "CHR ''/''" "[]"] splitOn_head [of "CHR ''/''" "''users''" i] splitOn_plain [OF assms(1)] by simp
  then show "cleanPath (''/users/'' @ i) = ''/users/'' @ i" using assms(2) l by (simp add: cleanPath_def Let_def)
  have "dropWhile (\<lambda>c. c = CHR ''/'') (rev i @ rev ''/users/'') = rev i @ rev ''/users/''"
    using l assms(2) by (cases i rule: rev_cases) auto
  moreover have "takeWhile (\<lambda>c. c \<noteq> CHR ''/'') (rev i @ rev ''/users/'') = rev i"
    using assms(1) by (subst takeWhile_append2) auto
  ultimately show "base_name (''/users/'' @ i) = i" using assms(2) by (simp add: base_name_def Let_def)
  show "mux_handler (server_3way_mux rd u v g) (''/users/'' @ i) = Some (''/users/'', w3_users)"
    by (simp add: server_3way_mux_def pattern_matches_def)
qed

lemma user_route:
  assumes "CHR ''/'' \<notin> set i" and "i \<notin> {[], ''.'', ''..''}" and "sv_path r = ''/users/'' @ i"
  shows "mux_serve (server_3way_mux rd u v g) r = Inr (finish_reply (w3_users r rw_new))"
  using user_path [OF assms(1,2)] assms(2,3)
  by (subst mux_serve_direct) (auto simp: server_3way_mux_def)

text \<open>Bytes that stand for themselves in a query value.\<close>

definition plain_value :: "string \<Rightarrow> bool" where
  "plain_value s = list_all (\<lambda>c. c \<notin> set ''%+&;'') s"

lemma QueryUnescape_plain: "plain_value s \<Longrightarrow> QueryUnescape s = Some s"
  by (induction s) (auto simp: plain_value_def)

lemma Query_Get_name:
  assumes "plain_value name" and "sv_rawQuery r = ''name='' @ name"
  shows "Query_Get r ''name'' = name"
proof -
  have n: "CHR ''&'' \<notin> set (''name='' @ name)" "CHR '';'' \<notin> set (''name='' @ name)"
    using assms(1) by (auto simp: plain_value_def list_all_iff)
  have "query_pair (''name='' @ name) = [(''name'', name)]"
    using n(2) QueryUnescape_plain [OF assms(1)] QueryUnescape_plain [of "''name''"]
    by (simp add: query_pair_def cut_eq_def plain_value_def)
  then show ?thesis unfolding Query_Get_def assms(2) splitOn_plain [OF n(1)] by simp
qed

section \<open>Measured scenarios\<close>

lemma tw_doRequest_scenario:
  assumes "sc \<in> set tw_scenarios"
  shows "tw_doRequest (server_client base (inline_3way_mux uni)) lat k base (sc_method sc) (sc_path sc) (sc_body sc) = (200, lat k)"
  using assms
  by (auto simp: tw_scenarios_def tw_doRequest_def timed_request_def NewRequestWithContext_def valid_method_def token_byte_def
      server_client_def request_of_def Let_def inline_3way_routes tw_root_def tw_greet_def tw_users_def tw_echo_def)

lemma computeStats_n:
  assumes "length lats < 2 ^ 53"
  shows "\<exists>st. computeStats lats = Ret st \<and> st_n st = length lats"
proof (cases "lats = []")
  case False
  have l: "length (sort lats) < 2 ^ 53" using assms by simp
  define mk where "mk = (\<lambda>a b c. Ret \<lparr>st_n = length (sort lats), st_mean = avgDur (sort lats), st_p50 = a, st_p95 = b, st_p99 = c,
      st_rps = (if 0 < avgDur (sort lats) then fdiv (float_of_int Second) (float_of_int (avgDur (sort lats))) else Fin 0)\<rparr>)"
  from need_pct [OF l, of mk] obtain a b c where
    "need (pct (sort lats) p50) (\<lambda>a. need (pct (sort lats) p95) (\<lambda>b. need (pct (sort lats) p99) (\<lambda>c. mk a b c))) = mk a b c" by blast
  then have "computeStats lats = mk a b c" using False by (simp add: computeStats_def mk_def Let_def)
  then show ?thesis by (simp add: mk_def)
qed (simp add: computeStats_def)

section \<open>Properties\<close>



text \<open>
  \<open>/users/<id>\<close> of go_server_3way, on every branch: for an id that is one path segment a GET
  and a DELETE are answered 200 with that id in the body, any other method gets 405.
\<close>

theorem server_3way_users:
  assumes "CHR ''/'' \<notin> set i" and "i \<notin> {[], ''.'', ''..''}" and "sv_path r = ''/users/'' @ i"
  shows "\<exists>w. mux_serve (server_3way_mux rd u v g) r = Inr w \<and>
    (rw_status w, rw_body w) =
      (if sv_method r = ''GET'' then (200, lit ''{~user~:{~id~:~'' @ i @ lit ''~,~status~:~active~}}'')
       else if sv_method r = ''DELETE'' then (200, lit ''{~deleted~:true,~id~:~'' @ i @ lit ''~}'')
       else (405, ''method not allowed'' @ [CHR 0x0A]))"
  unfolding user_route [OF assms]
  by (simp add: w3_users_def Let_def assms(3) user_path(2) [OF assms(1,2), simplified] http_Error_def)

theorem server_3way_users_witness:
  "\<exists>w. mux_serve (server_3way_mux 7 0 ''go1.26'' 3)
      \<lparr>sv_method = ''DELETE'', sv_path = ''/users/42'', sv_rawQuery = [], sv_header = Map.empty, sv_body = [], sv_bodyErr = None\<rparr> = Inr w \<and>
    (rw_status w, rw_body w) = (200, lit ''{~deleted~:true,~id~:~42~}'')"
  using server_3way_users [of "''42''"
      "\<lparr>sv_method = ''DELETE'', sv_path = ''/users/42'', sv_rawQuery = [], sv_header = Map.empty, sv_body = [], sv_bodyErr = None\<rparr>"
      7 0 "''go1.26''" 3]
  by (simp add: lit_def)

text \<open>
  \<open>/greet?name=...\<close> greets by that name on all three servers that have it, and the echo of
  go_server_3way returns exactly the bytes that its single \<open>Read\<close> delivered, the whole body if and
  only if it fits that read and the buffer of 1 MiB.
\<close>

theorem greet_and_echo:
  assumes "plain_value name" and "name \<noteq> []" and "sv_rawQuery r = ''name='' @ name" and "sv_path r = ''/greet''"
    and "sv_path q = ''/echo''" and "sv_method q = ''POST''"
  shows "(\<exists>w. mux_serve (server_3way_mux rd u v g) r = Inr w \<and> rw_status w = 200 \<and>
      rw_body w = lit ''{~message~:~Hello, '' @ name @ lit ''!~,~server~:~quic-go~}'') \<and>
    (\<exists>w. mux_serve (go_server_mux uni) r = Inr w \<and> rw_status w = 200 \<and>
      rw_body w = lit ''{~message~:~Hello, '' @ name @ lit ''!~,~server~:~quic-go~}'') \<and>
    (\<exists>w. mux_serve (inline_3way_mux uni) r = Inr w \<and> rw_status w = 200 \<and>
      rw_body w = lit ''{~message~:'' @ json_string uni (''Hello, '' @ name @ ''!'') @ ''}'') \<and>
    (\<exists>w. mux_serve (server_3way_mux rd u v g) q = Inr w \<and> rw_status w = 200 \<and>
      (Header_Get (sv_header q) ''content-type'' \<noteq> ''application/json'' \<longrightarrow>
        (rw_body w = ''Echo: '' @ sv_body q \<longleftrightarrow> length (sv_body q) \<le> min rd 1048576)))"
proof -
  note qn = Query_Get_name [OF assms(1,3)]
  have "mux_serve (go_server_mux uni) r = Inr (finish_reply (gs_greet r rw_new))"
    by (subst mux_serve_direct; simp add: go_server_mux_def pattern_matches_def assms(4))
  moreover have "take m b = b \<longleftrightarrow> length b \<le> m" for m and b :: string by (metis take_all_iff)
  ultimately show ?thesis
    unfolding server_3way_routes(1) [OF assms(4)] inline_3way_routes(2) [OF assms(4)] server_3way_routes(3) [OF assms(5)]
    using assms(2,6) by (simp add: w3_greet_def gs_greet_def tw_greet_def w3_echo_def qn Let_def)
qed

theorem greet_and_echo_witness:
  "(\<exists>w. mux_serve (server_3way_mux 3 0 [] 1) \<lparr>sv_method = ''GET'', sv_path = ''/greet'', sv_rawQuery = ''name=Ada'', sv_header = Map.empty, sv_body = [], sv_bodyErr = None\<rparr> = Inr w \<and> rw_status w = 200 \<and>
      rw_body w = lit ''{~message~:~Hello, Ada!~,~server~:~quic-go~}'') \<and>
   (\<exists>w. mux_serve (server_3way_mux 3 0 [] 1) \<lparr>sv_method = ''POST'', sv_path = ''/echo'', sv_rawQuery = [], sv_header = Map.empty, sv_body = ''hello'', sv_bodyErr = None\<rparr> = Inr w \<and> rw_status w = 200 \<and> rw_body w \<noteq> ''Echo: hello'')"
proof -
  have p: "plain_value ''Ada''" by (simp add: plain_value_def)
  show ?thesis
    using greet_and_echo [OF p, of "\<lparr>sv_method = ''GET'', sv_path = ''/greet'', sv_rawQuery = ''name=Ada'', sv_header = Map.empty, sv_body = [], sv_bodyErr = None\<rparr>"
      "\<lparr>sv_method = ''POST'', sv_path = ''/echo'', sv_rawQuery = [], sv_header = Map.empty, sv_body = ''hello'', sv_bodyErr = None\<rparr>" 3 0 "[]" 1]
    by (simp add: lit_def Header_Get_def)
qed

end
