(* ===== verification/Cr_VarInt.thy ===== *)
theory Cr_VarInt
  imports Prelude
begin

text \<open>
  Crystal side of the variable-length integers: src/quic/varint.cr
  (\<open>VarInt.write\<close>, \<open>VarInt.encode\<close>, the two \<open>VarInt.decode\<close>) and the reader of
  src/quic/slice_reader.cr. A Crystal exception is the left value of a sum; an
  \<open>IO\<close> that is read is the list of the bytes still to come.
\<close>

section \<open>Exceptions and sequencing\<close>

datatype cr_error =
    BufferTooShort
  | ProtocolViolation string
  | InvalidPacket string
  | InternalError string
  | QuicError string
  | OverflowError
  | DivisionByZeroError
  | EOFError
  | IOError string
  | RuntimeError string
  | ValidationError string
  | QpackBlockedError u64
  | ArgumentError string
  | KeyError

fun rbind :: "'e + 'a \<Rightarrow> ('a \<Rightarrow> 'e + 'b) \<Rightarrow> 'e + 'b" where
  "rbind (Inl e) f = Inl e"
| "rbind (Inr x) f = f x"

lemma rbind_Inr_iff: "rbind m f = Inr y \<longleftrightarrow> (\<exists>x. m = Inr x \<and> f x = Inr y)"
  by (cases m) simp_all

lemma rbind_split [split]: "P (rbind m f) \<longleftrightarrow> (\<forall>e. m = Inl e \<longrightarrow> P (Inl e)) \<and> (\<forall>x. m = Inr x \<longrightarrow> P (f x))"
  by (cases m) simp_all

section \<open>varint.cr\<close>

definition VarInt_write :: "u64 \<Rightarrow> cr_error + byte list" where
  "VarInt_write value =
     (if value \<le> 0x3f then Inr [ucast value]
      else if value \<le> 0x3fff then
        (let v = (ucast value :: u16) OR 0x4000
         in Inr [ucast (drop_bit 8 v AND 0xff), ucast (v AND 0xff)])
      else if value \<le> 0x3fffffff then
        (let v = value OR 0x80000000
         in Inr [ucast (drop_bit 24 v AND 0xff), ucast (drop_bit 16 v AND 0xff),
                 ucast (drop_bit 8 v AND 0xff), ucast (v AND 0xff)])
      else if value \<le> 0x3fffffffffffffff then
        (let v = value OR 0xc000000000000000
         in Inr [ucast (drop_bit 56 v AND 0xff), ucast (drop_bit 48 v AND 0xff),
                 ucast (drop_bit 40 v AND 0xff), ucast (drop_bit 32 v AND 0xff),
                 ucast (drop_bit 24 v AND 0xff), ucast (drop_bit 16 v AND 0xff),
                 ucast (drop_bit 8 v AND 0xff), ucast (v AND 0xff)])
      else Inl (QuicError (''Value too large for QUIC VarInt: '' @ show_nat (unat value))))"

definition VarInt_encode :: "u64 \<Rightarrow> cr_error + byte list" where
  "VarInt_encode value = VarInt_write value"

text \<open>\<open>io.read_byte || raise BufferTooShort.new\<close>\<close>

fun read_byte :: "byte list \<Rightarrow> cr_error + (byte \<times> byte list)" where
  "read_byte [] = Inl BufferTooShort"
| "read_byte (b # io) = Inr (b, io)"

definition VarInt_decode :: "byte list \<Rightarrow> cr_error + (u64 \<times> byte list)" where
  "VarInt_decode io =
     rbind (read_byte io) (\<lambda>(first_byte, io).
       let len_type = drop_bit 6 first_byte in
       if len_type = 0 then Inr (ucast (first_byte AND 0x3f), io)
       else if len_type = 1 then
         rbind (read_byte io) (\<lambda>(second_byte, io).
           Inr (push_bit 8 (ucast first_byte AND 0x3f) OR ucast second_byte, io))
       else if len_type = 2 then
         (let res = push_bit 24 (ucast first_byte AND 0x3f) in
          rbind (read_byte io) (\<lambda>(b1, io).
          rbind (read_byte io) (\<lambda>(b2, io).
          rbind (read_byte io) (\<lambda>(b3, io).
            Inr (res OR push_bit 16 (ucast b1) OR push_bit 8 (ucast b2) OR ucast b3, io)))))
       else if len_type = 3 then
         (let res = push_bit 56 (ucast first_byte AND 0x3f) in
          rbind (read_byte io) (\<lambda>(b1, io).
          rbind (read_byte io) (\<lambda>(b2, io).
          rbind (read_byte io) (\<lambda>(b3, io).
          rbind (read_byte io) (\<lambda>(b4, io).
          rbind (read_byte io) (\<lambda>(b5, io).
          rbind (read_byte io) (\<lambda>(b6, io).
          rbind (read_byte io) (\<lambda>(b7, io).
            Inr (res OR push_bit 48 (ucast b1) OR push_bit 40 (ucast b2) OR
                 push_bit 32 (ucast b3) OR push_bit 24 (ucast b4) OR
                 push_bit 16 (ucast b5) OR push_bit 8 (ucast b6) OR ucast b7, io)))))))))
       else Inl (InternalError ''Unreachable VarInt length type''))"

section \<open>slice_reader.cr\<close>

record slice_reader =
  sr_slice :: "byte list"
  sr_pos :: nat

definition SliceReader_reset :: "byte list \<Rightarrow> slice_reader \<Rightarrow> slice_reader" where
  "SliceReader_reset sl r = r\<lparr>sr_slice := sl, sr_pos := 0\<rparr>"

definition SliceReader_remaining :: "slice_reader \<Rightarrow> int" where
  "SliceReader_remaining r = int (length (sr_slice r)) - int (sr_pos r)"

text \<open>\<open>read(slice)\<close>: the bytes copied into the caller's buffer of \<open>n\<close> bytes.\<close>

definition SliceReader_read :: "nat \<Rightarrow> slice_reader \<Rightarrow> byte list \<times> slice_reader" where
  "SliceReader_read n r =
     (let count = min n (length (sr_slice r) - sr_pos r)
      in if count = 0 then ([], r)
         else (take count (drop (sr_pos r) (sr_slice r)), r\<lparr>sr_pos := sr_pos r + count\<rparr>))"

definition SliceReader_read_byte :: "slice_reader \<Rightarrow> byte option \<times> slice_reader" where
  "SliceReader_read_byte r =
     (if length (sr_slice r) \<le> sr_pos r then (None, r)
      else (Some (sr_slice r ! sr_pos r), r\<lparr>sr_pos := sr_pos r + 1\<rparr>))"

definition SliceReader_read_varint :: "slice_reader \<Rightarrow> cr_error + (u64 \<times> slice_reader)" where
  "SliceReader_read_varint r =
     (if length (sr_slice r) \<le> sr_pos r then Inl BufferTooShort
      else
        (let s = sr_slice r; first_byte = s ! sr_pos r; p = sr_pos r + 1;
             len_type = drop_bit 6 first_byte
         in
         if len_type = 0 then Inr (ucast (first_byte AND 0x3f), r\<lparr>sr_pos := p\<rparr>)
         else if len_type = 1 then
           (if length s \<le> p then Inl BufferTooShort
            else Inr (push_bit 8 (ucast first_byte AND 0x3f) OR ucast (s ! p), r\<lparr>sr_pos := p + 1\<rparr>))
         else if len_type = 2 then
           (if length s < p + 3 then Inl BufferTooShort
            else Inr (push_bit 24 (ucast first_byte AND 0x3f) OR push_bit 16 (ucast (s ! p)) OR
                      push_bit 8 (ucast (s ! (p + 1))) OR ucast (s ! (p + 2)), r\<lparr>sr_pos := p + 3\<rparr>))
         else if len_type = 3 then
           (if length s < p + 7 then Inl BufferTooShort
            else Inr (push_bit 56 (ucast first_byte AND 0x3f) OR push_bit 48 (ucast (s ! p)) OR
                      push_bit 40 (ucast (s ! (p + 1))) OR push_bit 32 (ucast (s ! (p + 2))) OR
                      push_bit 24 (ucast (s ! (p + 3))) OR push_bit 16 (ucast (s ! (p + 4))) OR
                      push_bit 8 (ucast (s ! (p + 5))) OR ucast (s ! (p + 6)), r\<lparr>sr_pos := p + 7\<rparr>))
         else Inl (InternalError ''Unreachable VarInt length type'')))"

text \<open>\<open>skip(n)\<close>: \<open>n.to_i\<close> raises when \<open>n\<close> does not fit an Int32.\<close>

definition SliceReader_skip :: "nat \<Rightarrow> slice_reader \<Rightarrow> cr_error + slice_reader" where
  "SliceReader_skip n r =
     (if 2 ^ 31 \<le> n then Inl OverflowError
      else Inr (r\<lparr>sr_pos := sr_pos r + min n (length (sr_slice r) - sr_pos r)\<rparr>))"

section \<open>The slice reader refines the plain decoder\<close>

text \<open>What a slice reader has still to deliver.\<close>

definition sr_rest :: "slice_reader \<Rightarrow> byte list" where
  "sr_rest r = drop (sr_pos r) (sr_slice r)"

lemma byte_top: "drop_bit 6 (b::byte) = 0 \<or> drop_bit 6 b = 1 \<or> drop_bit 6 b = 2 \<or> drop_bit 6 b = 3"
proof -
  have "unat b < 256" using unsigned_less [of b, where ?'a = nat] by simp
  then have "unat (drop_bit 6 b) < 4" 
    unfolding unat_drop_bit_eq drop_bit_eq_div [where ?'a = nat] by auto
  then have "unat (drop_bit 6 b) \<in> {0,1,2,3}" by auto
  then show ?thesis by (auto simp: word_unat_eq_iff)
qed
lemma read_byte_nth: "read_byte io = (if length io = 0 then Inl BufferTooShort else Inr (io ! 0, drop 1 io))"
  by (cases io) simp_all
lemma VarInt_decode_nth:
  "VarInt_decode s =
     (if length s \<le> 0 then Inl BufferTooShort
      else
        (let first_byte = s ! 0; len_type = drop_bit 6 first_byte
         in
         if len_type = 0 then Inr (ucast (first_byte AND 0x3f), drop 1 s)
         else if len_type = 1 then
           (if length s \<le> 1 then Inl BufferTooShort
            else Inr (push_bit 8 (ucast first_byte AND 0x3f) OR ucast (s ! 1), drop 2 s))
         else if len_type = 2 then
           (if length s < 4 then Inl BufferTooShort
            else Inr (push_bit 24 (ucast first_byte AND 0x3f) OR push_bit 16 (ucast (s ! 1)) OR
                      push_bit 8 (ucast (s ! 2)) OR ucast (s ! 3), drop 4 s))
         else if len_type = 3 then
           (if length s < 8 then Inl BufferTooShort
            else Inr (push_bit 56 (ucast first_byte AND 0x3f) OR push_bit 48 (ucast (s ! 1)) OR
                      push_bit 40 (ucast (s ! 2)) OR push_bit 32 (ucast (s ! 3)) OR
                      push_bit 24 (ucast (s ! 4)) OR push_bit 16 (ucast (s ! 5)) OR
                      push_bit 8 (ucast (s ! 6)) OR ucast (s ! 7), drop 8 s))
         else Inl (InternalError ''Unreachable VarInt length type'')))"
  by (auto simp: VarInt_decode_def read_byte_nth Let_def eval_nat_numeral)
lemma read_varint_refines:
  "(case SliceReader_read_varint r of
      Inl e \<Rightarrow> VarInt_decode (sr_rest r) = Inl e
    | Inr (v, r') \<Rightarrow> VarInt_decode (sr_rest r) = Inr (v, sr_rest r'))"
  by (auto simp: SliceReader_read_varint_def VarInt_decode_nth sr_rest_def Let_def eval_nat_numeral)

lemma VarInt_decode_shrinks: "VarInt_decode s = Inr (v, r) \<Longrightarrow> length r < length s"
  by (auto simp: VarInt_decode_nth Let_def split: if_splits)

end
