(* ===== verification/Cr_Qpack.thy ===== *)
theory Cr_Qpack
  imports Cr_VarInt "HOL-Library.AList"
begin

text \<open>
  QPACK of the Crystal server: prefix integers (src/h3/qpack/integer.cr), the
  static and the dynamic table (src/h3/qpack/static_table.cr, dynamic_table.cr), the
  string literals, the instruction decoder of the encoder stream, the header block
  encoder and decoder (src/h3/qpack.cr). A Crystal \<open>Hash\<close> is an association list in
  insertion order, updated in place. The Huffman decoder of src/h3/qpack/huffman.cr
  is an argument, \<open>huff\<close>. The table's counters are naturals: a \<open>UInt64\<close> sum that the
  code computes from the wire is checked where Crystal raises \<open>OverflowError\<close>.
\<close>

section \<open>Prefix integers\<close>

fun qint_loop :: "u64 \<Rightarrow> nat \<Rightarrow> byte list \<Rightarrow> cr_error + (u64 \<times> byte list)" where
  "qint_loop val m [] = Inl (RuntimeError ''Unexpected EOF while decoding QPACK integer'')"
| "qint_loop val m (b # io) =
     (let add = push_bit m (ucast (b AND 127)) in
      if 2 ^ 64 \<le> unat val + unat add then Inl OverflowError
      else if b AND 128 = 0 then Inr (val + add, io)
      else qint_loop (val + add) (m + 7) io)"

definition QInt_decode :: "byte list \<Rightarrow> byte \<Rightarrow> nat \<Rightarrow> cr_error + (u64 \<times> byte list)" where
  "QInt_decode io prefix_val n =
     (if n < 1 \<or> 8 < n then Inl (RuntimeError ''Invalid prefix length'')
      else
        (let mask = (mask n :: byte); val = (ucast (prefix_val AND mask) :: u64) in
         if val < ucast mask then Inr (val, io) else qint_loop val 0 io))"

function qint_tail :: "u64 \<Rightarrow> byte list" where
  "qint_tail value =
     (if 128 \<le> value then ucast (value mod 128 + 128) # qint_tail (value div 128)
      else [ucast value])"
  by pat_completeness auto
termination
  by (relation "measure unat") (auto simp: word_le_nat_alt unat_div)

declare qint_tail.simps [simp del]

definition QInt_encode :: "u64 \<Rightarrow> nat \<Rightarrow> byte \<Rightarrow> byte list" where
  "QInt_encode value n first_byte =
     (let mask = push_bit n 1 - 1 :: u64 in
      if value < mask then [first_byte OR ucast value]
      else (first_byte OR ucast mask) # qint_tail (value - mask))"

section \<open>Static table\<close>

definition STATIC_TABLE :: "(string \<times> string) list" where
  "STATIC_TABLE =
    [('':authority'', ''''),
     ('':path'', ''/''),
     (''age'', ''0''),
     (''content-disposition'', ''''),
     (''content-length'', ''0''),
     (''cookie'', ''''),
     (''date'', ''''),
     (''etag'', ''''),
     (''if-modified-since'', ''''),
     (''if-none-match'', ''''),
     (''last-modified'', ''''),
     (''link'', ''''),
     (''location'', ''''),
     (''referer'', ''''),
     (''set-cookie'', ''''),
     ('':method'', ''CONNECT''),
     ('':method'', ''DELETE''),
     ('':method'', ''GET''),
     ('':method'', ''HEAD''),
     ('':method'', ''OPTIONS''),
     ('':method'', ''POST''),
     ('':method'', ''PUT''),
     ('':scheme'', ''http''),
     ('':scheme'', ''https''),
     ('':status'', ''103''),
     ('':status'', ''200''),
     ('':status'', ''304''),
     ('':status'', ''404''),
     ('':status'', ''503''),
     (''accept'', ''*/*''),
     (''accept'', ''application/dns-message''),
     (''accept-encoding'', ''gzip, deflate, br''),
     (''accept-ranges'', ''bytes''),
     (''access-control-allow-headers'', ''cache-control''),
     (''access-control-allow-headers'', ''content-type''),
     (''access-control-allow-origin'', ''*''),
     (''cache-control'', ''max-age=0''),
     (''cache-control'', ''max-age=2592000''),
     (''cache-control'', ''max-age=31536000''),
     (''cache-control'', ''no-cache''),
     (''cache-control'', ''no-store''),
     (''cache-control'', ''public, max-age=31536000''),
     (''content-encoding'', ''br''),
     (''content-encoding'', ''gzip''),
     (''content-type'', ''application/dns-message''),
     (''content-type'', ''application/javascript''),
     (''content-type'', ''application/json''),
     (''content-type'', ''application/x-www-form-urlencoded''),
     (''content-type'', ''image/gif''),
     (''content-type'', ''image/jpeg''),
     (''content-type'', ''image/png''),
     (''content-type'', ''text/css''),
     (''content-type'', ''text/html; charset=utf-8''),
     (''content-type'', ''text/plain''),
     (''content-type'', ''text/plain;charset=utf-8''),
     (''range'', ''bytes=0-''),
     (''strict-transport-security'', ''max-age=31536000''),
     (''strict-transport-security'', ''max-age=31536000; includesubdomains''),
     (''strict-transport-security'', ''max-age=31536000; includesubdomains; preload''),
     (''vary'', ''accept-encoding''),
     (''vary'', ''origin''),
     (''x-content-type-options'', ''nosniff''),
     (''x-xss-protection'', ''1; mode=block''),
     ('':status'', ''100''),
     ('':status'', ''204''),
     ('':status'', ''206''),
     ('':status'', ''302''),
     ('':status'', ''400''),
     ('':status'', ''403''),
     ('':status'', ''421''),
     ('':status'', ''425''),
     ('':status'', ''500''),
     (''accept-language'', ''''),
     (''access-control-allow-credentials'', ''FALSE''),
     (''access-control-allow-credentials'', ''TRUE''),
     (''access-control-allow-headers'', ''*''),
     (''access-control-allow-methods'', ''get''),
     (''access-control-allow-methods'', ''get, post, options''),
     (''access-control-allow-methods'', ''options''),
     (''access-control-expose-headers'', ''content-length''),
     (''access-control-request-headers'', ''content-type''),
     (''access-control-request-method'', ''get''),
     (''access-control-request-method'', ''post''),
     (''alt-svc'', ''clear''),
     (''authorization'', ''''),
     (''content-security-policy'', ''script-src 'none'; object-src 'none'; base-uri '' @ [CHR 0x27] @ ''none'' @ [CHR 0x27]),
     (''early-data'', ''1''),
     (''expect-ct'', ''''),
     (''forwarded'', ''''),
     (''if-range'', ''''),
     (''origin'', ''''),
     (''purpose'', ''prefetch''),
     (''server'', ''''),
     (''timing-allow-origin'', ''*''),
     (''upgrade-insecure-requests'', ''1''),
     (''user-agent'', ''''),
     (''x-forwarded-for'', ''''),
     (''x-frame-options'', ''deny''),
     (''x-frame-options'', ''sameorigin'')]"

section \<open>Dynamic table\<close>

record entry =
  e_name :: string
  e_value :: string
  e_size :: nat

record dyntab =
  capacity :: nat
  tsize :: nat
  entries :: "entry list"
  insert_count :: nat
  dropped_count :: nat

definition dyntab_new :: dyntab where
  "dyntab_new = \<lparr>capacity = 0, tsize = 0, entries = [], insert_count = 0, dropped_count = 0\<rparr>"

function evict_if_needed :: "dyntab \<Rightarrow> dyntab" where
  "evict_if_needed t =
     (if capacity t < tsize t \<and> entries t \<noteq> [] then
        evict_if_needed (t\<lparr>entries := tl (entries t), tsize := tsize t - e_size (hd (entries t)),
                           dropped_count := dropped_count t + 1\<rparr>)
      else t)"
  by pat_completeness auto
termination
  by (relation "measure (\<lambda>t. length (entries t))") auto

declare evict_if_needed.simps [simp del]

definition set_capacity :: "nat \<Rightarrow> dyntab \<Rightarrow> dyntab" where
  "set_capacity new_capacity t = evict_if_needed (t\<lparr>capacity := new_capacity\<rparr>)"

definition dyntab_add :: "string \<Rightarrow> string \<Rightarrow> dyntab \<Rightarrow> dyntab" where
  "dyntab_add name value t =
     (let entry_size = length name + length value + 32 in
      evict_if_needed
        (t\<lparr>entries := entries t @ [\<lparr>e_name = name, e_value = value, e_size = entry_size\<rparr>],
           tsize := tsize t + entry_size, insert_count := insert_count t + 1\<rparr>))"

definition get_by_absolute :: "dyntab \<Rightarrow> nat \<Rightarrow> (string \<times> string) option" where
  "get_by_absolute t index =
     (if dropped_count t \<le> index \<and> index < insert_count t then
        (let idx = index - dropped_count t in
         if idx < length (entries t)
         then Some (e_name (entries t ! idx), e_value (entries t ! idx)) else None)
      else None)"

definition get_by_relative :: "dyntab \<Rightarrow> nat \<Rightarrow> nat \<Rightarrow> (string \<times> string) option" where
  "get_by_relative t base relative_index =
     (if base \<le> relative_index then None
      else get_by_absolute t (base - 1 - relative_index))"

definition get_by_post_base :: "dyntab \<Rightarrow> nat \<Rightarrow> nat \<Rightarrow> cr_error + (string \<times> string) option" where
  "get_by_post_base t base post_base_index =
     (if 2 ^ 64 \<le> base + post_base_index then Inl OverflowError
      else Inr (get_by_absolute t (base + post_base_index)))"

section \<open>String literals\<close>

definition decode_string ::
    "(byte list \<Rightarrow> cr_error + string) \<Rightarrow> byte list \<Rightarrow> nat \<Rightarrow> byte option
     \<Rightarrow> cr_error + (string \<times> byte list)" where
  "decode_string huff io n first_byte =
     (case (case first_byte of Some b \<Rightarrow> Some (b, io)
            | None \<Rightarrow> (case io of [] \<Rightarrow> None | b # io' \<Rightarrow> Some (b, io'))) of
        None \<Rightarrow> Inr ([], io)
      | Some (b, io) \<Rightarrow>
          (let is_huffman = b AND push_bit n 1 \<noteq> 0 in
           rbind (QInt_decode io b n) (\<lambda>(len, io).
             let len = min (unat len) (length io); buf = take len io in
             if is_huffman then rbind (huff buf) (\<lambda>s. Inr (s, drop len io))
             else Inr (bytes_string buf, drop len io))))"

definition encode_string :: "string \<Rightarrow> nat \<Rightarrow> byte \<Rightarrow> byte list" where
  "encode_string str prefix_len flags =
     QInt_encode (of_nat (length str)) prefix_len flags @ string_bytes str"

text \<open>\<open>Integer.decode(...).to_i\<close>: the index must fit an Int32.\<close>

definition decode_index :: "byte list \<Rightarrow> byte \<Rightarrow> nat \<Rightarrow> cr_error + (nat \<times> byte list)" where
  "decode_index io b n =
     rbind (QInt_decode io b n) (\<lambda>(i, io).
       if 2 ^ 31 \<le> unat i then Inl OverflowError else Inr (unat i, io))"

definition static_get :: "nat \<Rightarrow> (string \<times> string) option" where
  "static_get idx = (if idx < length STATIC_TABLE then Some (STATIC_TABLE ! idx) else None)"

section \<open>Encoder stream instructions\<close>

definition instruction_step ::
    "(byte list \<Rightarrow> cr_error + string) \<Rightarrow> byte \<Rightarrow> byte list \<Rightarrow> dyntab
     \<Rightarrow> cr_error + (dyntab \<times> byte list) option" where
  "instruction_step huff b io t =
     (if b AND 0xE0 = 0x20 then
        rbind (QInt_decode io b 5) (\<lambda>(c, io). Inr (Some (set_capacity (unat c) t, io)))
      else if b AND 0x80 = 0x80 then
        rbind (decode_index io b 6) (\<lambda>(idx, io).
          let entry = (if b AND 0x40 \<noteq> 0 then static_get idx
                       else get_by_relative t (insert_count t) idx);
              name = (case entry of Some e \<Rightarrow> fst e | None \<Rightarrow> []) in
          rbind (decode_string huff io 7 None) (\<lambda>(value, io).
            Inr (Some (dyntab_add name value t, io))))
      else if b AND 0xC0 = 0x40 then
        rbind (decode_string huff io 5 (Some b)) (\<lambda>(name, io).
        rbind (decode_string huff io 7 None) (\<lambda>(value, io).
          Inr (Some (dyntab_add name value t, io))))
      else if b AND 0xE0 = 0x00 then
        rbind (decode_index io b 5) (\<lambda>(idx, io).
          Inr (Some (case get_by_relative t (insert_count t) idx of
                       Some e \<Rightarrow> dyntab_add (fst e) (snd e) t | None \<Rightarrow> t, io)))
      else Inr None)"

section \<open>Field lines\<close>

definition lookup_entry :: "dyntab \<Rightarrow> nat \<Rightarrow> bool \<Rightarrow> nat \<Rightarrow> (string \<times> string) option" where
  "lookup_entry t base is_static idx =
     (if is_static then static_get idx else get_by_relative t base idx)"

text \<open>
  One field line after its first byte \<open>b\<close>: name and value (an empty name when the
  reference is unknown), or \<open>None\<close> for the \<open>should_break\<close> case.
\<close>

definition decode_field ::
    "(byte list \<Rightarrow> cr_error + string) \<Rightarrow> dyntab \<Rightarrow> nat \<Rightarrow> byte \<Rightarrow> byte list
     \<Rightarrow> cr_error + ((string \<times> string) \<times> byte list) option" where
  "decode_field huff t base b io =
     (if b AND 0x80 = 0x80 then
        rbind (decode_index io b 6) (\<lambda>(idx, io).
          Inr (Some (case lookup_entry t base (b AND 0x40 \<noteq> 0) idx of
                       Some e \<Rightarrow> e | None \<Rightarrow> ([], []), io)))
      else if b AND 0xC0 = 0x40 then
        rbind (decode_index io b 4) (\<lambda>(idx, io).
          let entry = lookup_entry t base (b AND 0x10 \<noteq> 0) idx;
              name = (case entry of Some e \<Rightarrow> fst e | None \<Rightarrow> []) in
          rbind (decode_string huff io 7 None) (\<lambda>(value, io). Inr (Some ((name, value), io))))
      else if b AND 0xE0 = 0x20 then
        rbind (decode_string huff io 3 (Some b)) (\<lambda>(name, io).
        rbind (decode_string huff io 7 None) (\<lambda>(value, io). Inr (Some ((name, value), io))))
      else if b AND 0xF0 = 0x10 then
        rbind (decode_index io b 4) (\<lambda>(idx, io).
        rbind (get_by_post_base t base idx) (\<lambda>entry.
          Inr (Some (case entry of Some e \<Rightarrow> e | None \<Rightarrow> ([], []), io))))
      else if b AND 0xF0 = 0x00 then
        rbind (decode_index io b 3) (\<lambda>(idx, io).
        rbind (get_by_post_base t base idx) (\<lambda>entry.
          let name = (case entry of Some e \<Rightarrow> fst e | None \<Rightarrow> []) in
          rbind (decode_string huff io 7 None) (\<lambda>(value, io). Inr (Some ((name, value), io)))))
      else Inr None)"

section \<open>Round trip of the prefix integers\<close>

text \<open>The byte of one 7-bit group, with and without the continuation bit.\<close>

lemma qint_group_more:
  fixes v :: u64
  defines "b \<equiv> ucast (v mod 128 + 128) :: byte"
  shows "ucast (b AND 127) = v mod 128" and "b AND 128 \<noteq> 0"
proof -
  have "unat (v mod 128 + 128) = unat v mod 128 + 128"
    by (subst unat_add_exact) (simp_all add: unat_mod)
  moreover have "unat v mod 128 + 128 < 256" by simp
  ultimately have ub: "unat b = unat v mod 128 + 128"
    unfolding b_def by (simp add: unat_ucast_byte)
  show "ucast (b AND 127) = v mod 128"
    by (rule word_unat_eq_iff [THEN iffD2]) (simp add: unat_ucast_u64 unat_byte_and_127 ub unat_mod)
  show "b AND 128 \<noteq> 0" by (simp add: byte_and_128 ub)
qed

lemma qint_group_last:
  assumes "\<not> 128 \<le> (v :: u64)"
  shows "ucast (ucast v AND 127 :: byte) = v" and "(ucast v :: byte) AND 128 = 0"
proof -
  have v: "unat v < 128" using assms by (simp add: word_le_nat_alt)
  then have ub: "unat (ucast v :: byte) = unat v" by (simp add: unat_ucast_byte)
  show "ucast (ucast v AND 127 :: byte) = v"
    by (rule word_unat_eq_iff [THEN iffD2]) (use v in \<open>simp add: unat_ucast_u64 unat_byte_and_127 ub\<close>)
  show "(ucast v :: byte) AND 128 = 0" using v by (simp add: byte_and_128 ub)
qed

lemma qint_sum:
  assumes "unat val + unat (v :: u64) * 2 ^ m < 2 ^ 64"
  shows "unat (val + push_bit m v) = unat val + unat v * 2 ^ m"
proof -
  have "unat (push_bit m v) = unat v * 2 ^ m"
    using assms by (intro unat_push_bit_exact) simp
  then show ?thesis using assms by (subst unat_add_exact) simp_all
qed

lemma qint_sum_step:
  assumes "unat val + unat (v :: u64) * 2 ^ m < 2 ^ 64"
  shows "unat val + unat (v mod 128) * 2 ^ m < 2 ^ 64"
    and "unat (val + push_bit m (v mod 128)) + unat (v div 128) * 2 ^ (m + 7) < 2 ^ 64"
    and "val + push_bit m (v mod 128) + push_bit (m + 7) (v div 128) = val + push_bit m v"
proof -
  have "unat v div 128 * (2 ^ m * 128) + unat v mod 128 * 2 ^ m
      = (unat v div 128 * 128 + unat v mod 128) * 2 ^ m"
    by (simp only: distrib_right mult.assoc mult.commute [of "2 ^ m" 128])
  then have split: "unat (v div 128) * 2 ^ (m + 7) + unat (v mod 128) * 2 ^ m = unat v * 2 ^ m"
    by (simp add: unat_div unat_mod power_add)
  then show one: "unat val + unat (v mod 128) * 2 ^ m < 2 ^ 64" using assms by simp
  show two: "unat (val + push_bit m (v mod 128)) + unat (v div 128) * 2 ^ (m + 7) < 2 ^ 64"
    using qint_sum [OF one] split assms by simp
  show "val + push_bit m (v mod 128) + push_bit (m + 7) (v div 128) = val + push_bit m v"
    using qint_sum [OF two] qint_sum [OF one] qint_sum [OF assms] split
    by (simp add: word_unat_eq_iff)
qed

lemma qint_loop_tail:
  assumes "unat val + unat v * 2 ^ m < 2 ^ 64"
  shows "qint_loop val m (qint_tail v @ r) = Inr (val + push_bit m v, r)"
  using assms
proof (induction v arbitrary: val m rule: qint_tail.induct)
  case (1 v)
  note s = qint_sum_step [OF "1.prems"]
  show ?case
  proof (cases "128 \<le> v")
    case True
    have no: "\<not> 2 ^ 64 \<le> unat val + unat (push_bit m (v mod 128))"
      using s(1) unat_push_bit_exact [of "v mod 128" m] by simp
    have "qint_loop val m (qint_tail v @ r)
        = qint_loop (val + push_bit m (v mod 128)) (m + 7) (qint_tail (v div 128) @ r)"
      using True no qint_group_more [of v]
      by (subst qint_tail.simps) (simp only: if_True append_Cons qint_loop.simps Let_def if_False)
    also have "\<dots> = Inr (val + push_bit m (v mod 128) + push_bit (m + 7) (v div 128), r)"
      by (rule "1.IH" [OF True s(2)])
    finally show ?thesis by (simp only: s(3))
  next
    case False
    have no: "\<not> 2 ^ 64 \<le> unat val + unat (push_bit m v)"
      using "1.prems" unat_push_bit_exact [of v m] by simp
    show ?thesis using False no qint_group_last [OF False]
      by (subst qint_tail.simps)
         (simp only: if_False append_Cons append_Nil qint_loop.simps Let_def if_True refl)
  qed
qed

lemma ucast_mask: "n \<le> 8 \<Longrightarrow> (ucast (mask n :: byte) :: u64) = mask n"
  by (rule bit_word_eqI) (auto simp: bit_simps)

lemma QInt_encode_mask: "QInt_encode value n fb =
   (if value < mask n then [fb OR ucast value] else (fb OR ucast (mask n :: u64)) # qint_tail (value - mask n))"
  by (simp add: QInt_encode_def mask_eq_exp_minus_1 push_bit_of_1 Let_def)

lemma QInt_roundtrip:
  assumes n: "1 \<le> n" "n \<le> 8" and fb: "take_bit n fb = (0 :: byte)"
  obtains b t where "QInt_encode value n fb = b # t" and "QInt_decode (t @ r) b n = Inr (value, r)"
proof (cases "value < mask n")
  case True
  have "mask n < (2 ^ n :: u64)" using and_mask_less' [of n "mask n :: u64"] n by simp
  then have v: "\<And>k. bit value k \<Longrightarrow> k < n" using True word_less_bit [of "value" n] by fastforce
  have "(ucast ((fb OR ucast value) AND mask n :: byte) :: u64) = value"
    using v take_bit_0_bit [OF fb] n(2)
    by (intro bit_word_eqI) (auto simp: bit_simps dest: v)
  then have "QInt_decode ([] @ r) (fb OR ucast value) n = Inr (value, r)"
    using True n by (simp add: QInt_decode_def ucast_mask Let_def)
  then show ?thesis using that True by (simp add: QInt_encode_mask)
next
  case False
  have m: "(fb OR ucast (mask n :: u64)) AND mask n = (mask n :: byte)"
    using n(2) by (intro bit_word_eqI) (auto simp: bit_simps)
  have le: "mask n \<le> value" using False by simp
  have "unat (mask n :: u64) + unat (value - mask n) = unat value"
    using le by (simp add: unat_sub word_le_nat_alt)
  then have "unat (mask n :: u64) + unat (value - mask n) * 2 ^ 0 < 2 ^ 64"
    using unsigned_less [of "value", where ?'a = nat] by simp
  from qint_loop_tail [OF this]
  have "QInt_decode (qint_tail (value - mask n) @ r) (fb OR ucast (mask n :: u64)) n = Inr (value, r)"
    using n by (simp add: QInt_decode_def ucast_mask m Let_def)
  then show ?thesis using that False by (simp add: QInt_encode_mask)
qed

section \<open>What is left after a field line\<close>

lemma qint_loop_rest: "qint_loop val m io = Inr (v, r) \<Longrightarrow> length r < length io"
  by (induction val m io rule: qint_loop.induct) (fastforce simp: Let_def split: if_splits)+

lemma QInt_decode_rest: "QInt_decode io b n = Inr (v, r) \<Longrightarrow> length r \<le> length io"
  by (auto simp: QInt_decode_def Let_def split: if_splits dest: qint_loop_rest)

lemma decode_index_rest: "decode_index io b n = Inr (v, r) \<Longrightarrow> length r \<le> length io"
  by (auto simp: decode_index_def rbind_Inr_iff split: if_splits dest: QInt_decode_rest)

lemma decode_string_rest: "decode_string huff io n fb = Inr (s, r) \<Longrightarrow> length r \<le> length io"
  by (fastforce simp: decode_string_def rbind_Inr_iff Let_def split: if_splits option.splits list.splits
      dest!: QInt_decode_rest)

lemma decode_field_rest:
  "decode_field huff t base b io = Inr (Some (nv, r)) \<Longrightarrow> length r \<le> length io"
  by (auto simp: decode_field_def rbind_Inr_iff Let_def split: if_splits
      dest!: decode_index_rest decode_string_rest)

section \<open>The header block decoder\<close>

type_synonym headers = "(string \<times> string) list"

definition is_pseudo :: "string \<Rightarrow> bool" where
  "is_pseudo k = (take 1 k = '':'')"

function decode_fields ::
    "(byte list \<Rightarrow> cr_error + string) \<Rightarrow> dyntab \<Rightarrow> nat \<Rightarrow> byte list \<Rightarrow> string list \<Rightarrow> bool
     \<Rightarrow> headers \<Rightarrow> cr_error + headers" where
  "decode_fields huff t base [] seen past headers = Inr headers"
| "decode_fields huff t base (b # io) seen past headers =
     (case decode_field huff t base b io of
        Inl e \<Rightarrow> Inl e
      | Inr None \<Rightarrow> Inr headers
      | Inr (Some ((name, value), io')) \<Rightarrow>
          if name = [] then decode_fields huff t base io' seen past headers
          else if is_pseudo name then
            (if past then Inl (ValidationError ''pseudo-header appears after regular header'')
             else if name \<in> set seen then Inl (ValidationError ''duplicate pseudo-header'')
             else decode_fields huff t base io' (name # seen) past (AList.update name value headers))
          else decode_fields huff t base io' seen True (AList.update name value headers))"
  by pat_completeness auto
termination
  by (relation "measure (\<lambda>(huff, t, base, io, seen, past, headers). length io)")
     (auto dest!: decode_field_rest)

definition required_insert_count :: "dyntab \<Rightarrow> nat \<Rightarrow> cr_error + nat" where
  "required_insert_count t eric =
     (if eric = 0 then Inr 0
      else
        (let max_entries = (if 0 < capacity t then capacity t div 32 else 128);
             full_range = 2 * max_entries;
             max_val = insert_count t + max_entries in
         if full_range = 0 then Inl DivisionByZeroError
         else
           (let max_wrapped = max_val div full_range * full_range in
            if 2 ^ 64 \<le> max_wrapped + eric then Inl OverflowError
            else
              (let ric_val = max_wrapped + eric - 1 in
               if max_val < ric_val then
                 (if ric_val < full_range then Inl OverflowError else Inr (ric_val - full_range))
               else Inr ric_val))))"

definition header_base :: "nat \<Rightarrow> bool \<Rightarrow> nat \<Rightarrow> cr_error + nat" where
  "header_base ric base_sign base_delta =
     (if 0 < ric then
        (if \<not> base_sign then
           (if 2 ^ 64 \<le> ric + base_delta then Inl OverflowError else Inr (ric + base_delta))
         else if ric < base_delta + 1 then Inl OverflowError
         else Inr (ric - base_delta - 1))
      else Inr 0)"

definition Decoder_decode ::
    "(byte list \<Rightarrow> cr_error + string) \<Rightarrow> dyntab \<Rightarrow> byte list \<Rightarrow> cr_error + headers" where
  "Decoder_decode huff t bytes =
     (case bytes of
        [] \<Rightarrow> Inr []
      | first # io \<Rightarrow>
          rbind (QInt_decode io first 8) (\<lambda>(eric, io).
          rbind (required_insert_count t (unat eric)) (\<lambda>ric.
            if insert_count t < ric then Inl (QpackBlockedError (of_nat ric))
            else
              (case io of
                 [] \<Rightarrow> Inr []
               | second # io \<Rightarrow>
                   rbind (QInt_decode io second 7) (\<lambda>(base_delta, io).
                   rbind (header_base ric (second AND 0x80 \<noteq> 0) (unat base_delta)) (\<lambda>base.
                     decode_fields huff t base io [] False []))))))"

section \<open>Round trip of the string literals\<close>

text \<open>The flag bits of a first byte decide its dispatch, whatever integer is packed below them.\<close>

lemma flag_bits:
  assumes "drop_bit n b = drop_bit n c" and "take_bit n m = 0"
  shows "b AND m = c AND (m :: byte)"
proof (rule bit_word_eqI)
  fix k assume "k < LENGTH(8)"
  have "bit b k = bit c k" if "bit m k"
  proof -
    have "\<not> k < n" using that take_bit_0_bit [OF assms(2)] by blast
    then have "n + (k - n) = k" by simp
    then show ?thesis using assms(1) by (metis bit_drop_bit_eq comp_apply)
  qed
  then show "bit (b AND m) k = bit (c AND m) k" by (auto simp: bit_and_iff)
qed

lemma QInt_encode_first:
  assumes "n \<le> 8" and "QInt_encode value n fb = b # t"
  shows "drop_bit n b = drop_bit n fb"
proof (rule bit_word_eqI)
  fix k assume "k < LENGTH(8)"
  have "\<not> bit value (n + k)" if "value < mask n"
  proof -
    have "value < 2 ^ n \<or> n = 0"
      using that and_mask_less' [of n "mask n :: u64"] assms(1) by fastforce
    then show ?thesis using that word_less_bit [of "value" n "n + k"] by auto
  qed
  then show "bit (drop_bit n b) k = bit (drop_bit n fb) k"
    using assms by (auto simp: QInt_encode_mask bit_simps split: if_splits)
qed

lemma QInt_encode_Cons:
  assumes "1 \<le> n" "n \<le> 8" "take_bit n fb = (0 :: byte)"
  obtains b t where "QInt_encode value n fb = b # t" and "drop_bit n b = drop_bit n fb"
    and "\<And>r. QInt_decode (t @ r) b n = Inr (value, r)"
proof -
  obtain b t where bt: "QInt_encode value n fb = b # t" using QInt_roundtrip [OF assms] by metis
  have "QInt_decode (t @ r) b n = Inr (value, r)" for r
    using QInt_roundtrip [OF assms, of "value" r] bt by (metis list.inject)
  then show ?thesis using that bt QInt_encode_first [OF assms(2) bt] by blast
qed

lemma encode_string_Cons:
  assumes "1 \<le> n" "n < 8" "take_bit n fb = (0 :: byte)" "\<not> bit fb n" "length s < 2 ^ 64"
  obtains b t where "encode_string s n fb = b # t" and "drop_bit n b = drop_bit n fb"
    and "\<And>r. decode_string huff (t @ r) n (Some b) = Inr (s, r)"
proof -
  obtain b t where bt: "QInt_encode (of_nat (length s)) n fb = b # t" "drop_bit n b = drop_bit n fb"
      "\<And>r. QInt_decode (t @ r) b n = Inr (of_nat (length s), r)"
    using QInt_encode_Cons [of n fb "of_nat (length s)"] assms by auto
  have "bit (drop_bit n x) 0 = bit x n" for x :: byte by (simp add: bit_drop_bit_eq)
  then have "\<not> bit b n" using bt(2) assms(4) by metis
  then have "b AND push_bit n 1 = 0"
    using and_exp_eq_0_iff_not_bit [of b n] by (simp add: push_bit_of_1)
  moreover have "unat (of_nat (length s) :: u64) = length s"
    using assms(5) by (simp add: unat_of_nat take_bit_nat_eq_self)
  ultimately have "decode_string huff ((t @ string_bytes s) @ r) n (Some b) = Inr (s, r)" for r
    using bt(3) [of "string_bytes s @ r"] by (simp add: decode_string_def Let_def)
  then show ?thesis using that [of b "t @ string_bytes s"] bt by (simp add: encode_string_def)
qed

lemma decode_string_Cons: "decode_string huff (b # io) n None = decode_string huff io n (Some b)"
  by (simp add: decode_string_def)

lemma decode_encode_string:
  assumes "1 \<le> n" "n < 8" "take_bit n fb = (0 :: byte)" "\<not> bit fb n" "length s < 2 ^ 64"
  shows "decode_string huff (encode_string s n fb @ r) n None = Inr (s, r)"
  using encode_string_Cons [OF assms, of huff] by (metis append_Cons decode_string_Cons)

section \<open>Literal field lines\<close>

text \<open>What the decoder demands of the sequence of field names: the specification of \<open>decode_fields\<close>.\<close>

fun validate_fields :: "headers \<Rightarrow> string list \<Rightarrow> bool \<Rightarrow> headers \<Rightarrow> cr_error + headers" where
  "validate_fields [] seen past hs = Inr hs"
| "validate_fields ((name, value) # fs) seen past hs =
     (if name = [] then validate_fields fs seen past hs
      else if is_pseudo name then
        (if past then Inl (ValidationError ''pseudo-header appears after regular header'')
         else if name \<in> set seen then Inl (ValidationError ''duplicate pseudo-header'')
         else validate_fields fs (name # seen) past (AList.update name value hs))
      else validate_fields fs seen True (AList.update name value hs))"

definition literal_line :: "string \<times> string \<Rightarrow> byte list" where
  "literal_line kv = encode_string (fst kv) 3 0x20 @ encode_string (snd kv) 7 0"

text \<open>
  A list of encoded field lines is decoded to the list of fields: \<open>line_ok\<close> says that
  the line is not empty and that \<open>decode_field\<close> reads it back, whatever follows.
\<close>

definition line_ok ::
    "(byte list \<Rightarrow> cr_error + string) \<Rightarrow> dyntab \<Rightarrow> nat \<Rightarrow> byte list \<Rightarrow> string \<times> string \<Rightarrow> bool" where
  "line_ok huff t base l kv =
     (\<exists>b io. l = b # io \<and> (\<forall>r. decode_field huff t base b (io @ r) = Inr (Some (kv, r))))"

lemma decode_fields_lines:
  assumes "list_all2 (line_ok huff t base) ls hs"
  shows "decode_fields huff t base (concat ls) seen past acc = validate_fields hs seen past acc"
  using assms
proof (induction ls hs arbitrary: seen past acc rule: list_all2_induct)
  case (Cons l ls h hs)
  obtain b io where l: "l = b # io" "\<And>r. decode_field huff t base b (io @ r) = Inr (Some (h, r))"
    using Cons.hyps(1) by (auto simp: line_ok_def)
  show ?case by (cases h) (simp add: l Cons.IH)
qed simp

lemma literal_line_ok:
  assumes "length (fst kv) < 2 ^ 64" and "length (snd kv) < 2 ^ 64"
  shows "line_ok huff t base (literal_line kv) kv"
proof -
  obtain b u where bu: "encode_string (fst kv) 3 0x20 = b # u" "drop_bit 3 b = drop_bit 3 (0x20 :: byte)"
      "\<And>r. decode_string huff (u @ r) 3 (Some b) = Inr (fst kv, r)"
    by (rule encode_string_Cons [of 3 "0x20 :: byte" "fst kv" huff]) (use assms in \<open>auto simp: bit_numeral_rec\<close>)
  have f: "b AND 0x80 = 0" "b AND 0xC0 = 0" "b AND 0xE0 = 0x20"
    using flag_bits [OF bu(2), of "0x80"] flag_bits [OF bu(2), of "0xC0"] flag_bits [OF bu(2), of "0xE0"]
    by simp_all
  have v: "decode_string huff (encode_string (snd kv) 7 0 @ r) 7 None = Inr (snd kv, r)" for r
    by (rule decode_encode_string) (use assms in auto)
  have "decode_field huff t base b ((u @ encode_string (snd kv) 7 0) @ r) = Inr (Some (kv, r))" for r
    unfolding decode_field_def f using bu(3) [of "encode_string (snd kv) 7 0 @ r"] v by simp
  then show ?thesis unfolding line_ok_def literal_line_def bu(1) by auto
qed

lemma decode_literal_block:
  assumes "\<forall>kv\<in>set hs. length (fst kv) < 2 ^ 64 \<and> length (snd kv) < 2 ^ 64"
  shows "Decoder_decode huff t ([0x00, 0x00] @ concat (map literal_line hs)) = validate_fields hs [] False []"
proof -
  have "list_all2 (line_ok huff t 0) (map literal_line hs) hs"
    using assms by (simp add: list_all2_conv_all_nth literal_line_ok)
  then show ?thesis
    using decode_fields_lines [of huff t 0 "map literal_line hs" hs]
    by (simp add: Decoder_decode_def QInt_decode_def required_insert_count_def header_base_def
        mask_eq_decr_exp Let_def)
qed

lemma update_new: "k \<notin> fst ` set hs \<Longrightarrow> AList.update k v hs = hs @ [(k, v)]"
  by (induction hs) auto
lemma validate_regular:
  assumes "list_all (\<lambda>(k, v). k \<noteq> [] \<and> \<not> is_pseudo k) fs" and "distinct (map fst (acc @ fs))"
  shows "validate_fields fs seen past acc = Inr (acc @ fs)"
  using assms
proof (induction fs arbitrary: past acc)
  case (Cons x fs)
  obtain k v where x: "x = (k, v)" by fastforce
  show ?case using Cons.IH [of "acc @ [x]" True] Cons.prems x by (simp add: update_new)
qed simp

section \<open>Properties\<close>

text \<open>
  C24. QPACK prefix integers round-trip: every 64-bit value, written with any prefix of 1 to 8
  bits below flags that leave the prefix free, is read back with the bytes that follow left
  unread, and the flag bits of the first byte are kept.
\<close>

theorem qpack_integer_roundtrip:
  assumes "1 \<le> n" and "n \<le> 8" and "take_bit n flags = (0 :: byte)"
  shows "\<exists>b t. QInt_encode value n flags = b # t \<and> drop_bit n b = drop_bit n flags \<and>
           QInt_decode (t @ r) b n = Inr (value, r)"
  using QInt_encode_Cons [OF assms, of "value"] by metis

theorem qpack_integer_roundtrip_witness:
  "\<exists>b t. QInt_encode 18446744073709551615 5 0x20 = b # t \<and> drop_bit 5 b = drop_bit 5 (0x20 :: byte) \<and>
        QInt_decode (t @ [7]) b 5 = Inr (18446744073709551615, [7])"
  by (rule qpack_integer_roundtrip) simp_all

end
