(* ===== verification/Wire_Interop.thy ===== *)
theory Wire_Interop
  imports Go_Wire Cr_VarInt
begin

text \<open>
  The two implementations of the variable-length integers against each other:
  the Go helpers of the test clients and src/quic/varint.cr write the same
  bytes and read every byte string to the same result. The contract of such a
  codec is the locale \<open>varint_codec\<close>; what follows from it (unique decoding,
  type-length-value framing) is proved once and used for the Go side, the Crystal
  side and the two mixed pairs.
\<close>

section \<open>Equality of the two implementations\<close>

lemma ucast_and_ff: "ucast (x AND 0xff :: 'a::len word) = (ucast x :: byte)"
proof (rule bit_word_eqI)
  fix n assume "n < LENGTH(8)"
  then have n: "n < 8" by simp
  have m: "(0xff :: 'a word) = mask 8" by (simp add: mask_eq_decr_exp)
  show "bit (ucast (x AND 0xff :: 'a word) :: byte) n = bit (ucast x :: byte) n"
    unfolding m using n by (auto simp: bit_simps dest: bit_imp_le_length)
qed
lemma ucast16: "ucast (drop_bit 8 (ucast v :: u16)) = (ucast (drop_bit 8 (v::u64)) :: byte)"
  by (rule bit_word_eqI) (simp add: bit_simps)
lemma ucast16': "ucast (ucast v :: u16) = (ucast (v::u64) :: byte)"
  by (rule bit_word_eqI) (simp add: bit_simps)
lemma VarInt_write_eq: assumes "v < 2 ^ 62" shows "VarInt_write v = Inr (writeVarInt v)"
proof -
  have c: "v \<le> 0x3f \<longleftrightarrow> v < 0x40" "v \<le> 0x3fff \<longleftrightarrow> v < 0x4000" "v \<le> 0x3fffffff \<longleftrightarrow> v < 0x40000000"
    "v \<le> 0x3fffffffffffffff"
    using assms by (auto simp: word_le_def word_less_def)
  have z: "(16384 :: byte) = 0" "(32768 :: byte) = 0" "(8388608 :: byte) = 0" "(2147483648 :: byte) = 0"
    "(49152 :: byte) = 0" "(12582912 :: byte) = 0" "(3221225472 :: byte) = 0" "(824633720832 :: byte) = 0"
    "(211106232532992 :: byte) = 0" "(54043195528445952 :: byte) = 0" "(13835058055282163712 :: byte) = 0"
    by simp_all
  show ?thesis unfolding VarInt_write_def writeVarInt_def c Let_def
  by (simp add: c z ucast_and_ff drop_bit_or unsigned_or_eq ucast16 ucast16' or.commute)
qed
lemma VarInt_decode_eq: 
  "VarInt_decode s = (case readVarInt s of (v, None, r) \<Rightarrow> Inr (v, r) | (_, Some e, _) \<Rightarrow> Inl BufferTooShort)"
proof (cases s)
  case Nil then show ?thesis by (simp add: VarInt_decode_def readVarInt_def)
next
  case (Cons b t)
  have a: "ucast (b AND 0x3f) = (ucast b AND 0x3f :: u64)" by (simp add: unsigned_and_eq)
  from byte_top [of b] consider "drop_bit 6 b = 0" | "drop_bit 6 b = 1" | "drop_bit 6 b = 2" | "drop_bit 6 b = 3" by blast
  then show ?thesis
  proof cases
    case 1 then show ?thesis using Cons a by (simp add: VarInt_decode_def readVarInt_def)
  next
    case 2 then show ?thesis using Cons a by (cases t) (simp_all add: VarInt_decode_def readVarInt_def ReadFull_def)
  next
    case 3 then show ?thesis 
    proof (cases "3 \<le> length t")
      case True
      then obtain b0 b1 b2 u where "t = b0 # b1 # b2 # u"
        by (auto simp: eval_nat_numeral Suc_le_length_iff)
      then show ?thesis using 3 Cons a 
        by (simp add: VarInt_decode_def readVarInt_def ReadFull_def push_bit_or or.assoc)
    next
      case False
      then show ?thesis using 3 Cons by (simp add: VarInt_decode_nth readVarInt_def ReadFull_def)
    qed
  next
    case 4 then show ?thesis 
    proof (cases "7 \<le> length t")
      case True
      then obtain b0 b1 b2 b3 b4 b5 b6 u where "t = b0 # b1 # b2 # b3 # b4 # b5 # b6 # u"
        by (auto simp: eval_nat_numeral Suc_le_length_iff)
      then show ?thesis using 4 Cons a 
        by (simp add: VarInt_decode_def readVarInt_def ReadFull_def push_bit_or or.assoc)
    next
      case False
      then show ?thesis using 4 Cons by (simp add: VarInt_decode_nth readVarInt_def ReadFull_def)
    qed
  qed
qed

section \<open>The contract of a variable-length integer codec\<close>

definition tlv_enc :: "(u64 \<Rightarrow> byte list) \<Rightarrow> u64 \<Rightarrow> byte list \<Rightarrow> byte list" where
  "tlv_enc enc t p = enc t @ enc (of_nat (length p)) @ p"

definition tlv_dec :: "(byte list \<Rightarrow> (u64 \<times> byte list) option) \<Rightarrow> byte list
    \<Rightarrow> (u64 \<times> byte list \<times> byte list) option" where
  "tlv_dec dec bs =
     (case dec bs of None \<Rightarrow> None
      | Some (t, r) \<Rightarrow>
          (case dec r of None \<Rightarrow> None
           | Some (n, r) \<Rightarrow>
               if unat n \<le> length r then Some (t, take (unat n) r, drop (unat n) r) else None))"

fun pairs_enc :: "(u64 \<Rightarrow> byte list) \<Rightarrow> (u64 \<times> u64) list \<Rightarrow> byte list" where
  "pairs_enc enc [] = []"
| "pairs_enc enc ((k, v) # kvs) = enc k @ enc v @ pairs_enc enc kvs"

lemma unat_of_nat_62: "n < 2 ^ 62 \<Longrightarrow> unat (of_nat n :: u64) = n"
  by (simp add: unat_of_nat take_bit_nat_eq_self)

lemma VarInt_decode_write: "v < 2 ^ 62 \<Longrightarrow> VarInt_decode (writeVarInt v @ r) = Inr (v, r)"
  by (simp add: VarInt_decode_eq readVarInt_writeVarInt)

lemma of_nat_less_62: "n < 2 ^ 62 \<Longrightarrow> (of_nat n :: u64) < 2 ^ 62"
  by (simp add: word_less_nat_alt unat_of_nat_62)

locale varint_codec =
  fixes enc :: "u64 \<Rightarrow> byte list"
    and dec :: "byte list \<Rightarrow> (u64 \<times> byte list) option"
  assumes dec_enc: "v < 2 ^ 62 \<Longrightarrow> dec (enc v @ r) = Some (v, r)"
    and dec_shrinks: "dec bs = Some (v, r) \<Longrightarrow> length r < length bs"
begin

lemma enc_nonempty:
  assumes "v < 2 ^ 62"
  shows "enc v \<noteq> []"
proof
  assume "enc v = []"
  then have "dec [] = Some (v, [])" using dec_enc [OF assms, of "[]"] by simp
  then show False using dec_shrinks [of "[]" v "[]"] by simp
qed

lemma enc_unique:
  assumes "v < 2 ^ 62" and "w < 2 ^ 62" and "enc v @ r = enc w @ s"
  shows "v = w \<and> r = s"
  using dec_enc [OF assms(1), of r] dec_enc [OF assms(2), of s] unfolding assms(3) by auto

lemma tlv_dec_enc:
  assumes "t < 2 ^ 62" and "length p < 2 ^ 62"
  shows "tlv_dec dec (tlv_enc enc t p @ r) = Some (t, p, r)"
  using dec_enc [OF assms(1), of "enc (of_nat (length p)) @ p @ r"]
    dec_enc [OF of_nat_less_62 [OF assms(2)], of "p @ r"] unat_of_nat_62 [OF assms(2)]
  unfolding tlv_dec_def tlv_enc_def by simp

lemma tlv_unique:
  assumes "t < 2 ^ 62" and "length p < 2 ^ 62" and "t' < 2 ^ 62" and "length p' < 2 ^ 62"
    and "tlv_enc enc t p @ r = tlv_enc enc t' p' @ r'"
  shows "t = t' \<and> p = p' \<and> r = r'"
  using tlv_dec_enc [OF assms(1,2), of r] tlv_dec_enc [OF assms(3,4), of r'] unfolding assms(5) by auto

lemma tlv_dec_shrinks: "tlv_dec dec bs = Some (t, p, r) \<Longrightarrow> length r < length bs"
  by (fastforce simp: tlv_dec_def split: option.splits if_splits dest!: dec_shrinks)

end

text \<open>The four pairs of an encoder and a decoder.\<close>

definition go_dec :: "byte list \<Rightarrow> (u64 \<times> byte list) option" where
  "go_dec bs = (case readVarInt bs of (v, None, r) \<Rightarrow> Some (v, r) | (_, Some e, _) \<Rightarrow> None)"

definition cr_enc :: "u64 \<Rightarrow> byte list" where
  "cr_enc v = (case VarInt_write v of Inl e \<Rightarrow> [] | Inr bs \<Rightarrow> bs)"

definition cr_dec :: "byte list \<Rightarrow> (u64 \<times> byte list) option" where
  "cr_dec bs = (case VarInt_decode bs of Inl e \<Rightarrow> None | Inr x \<Rightarrow> Some x)"

lemma cr_dec_eq_go_dec: "cr_dec = go_dec"
  by (rule ext) (simp add: cr_dec_def go_dec_def VarInt_decode_eq split: prod.splits option.splits)

lemma cr_enc_eq: "v < 2 ^ 62 \<Longrightarrow> cr_enc v = writeVarInt v"
  by (simp add: cr_enc_def VarInt_write_eq)

interpretation go: varint_codec writeVarInt go_dec
proof unfold_locales
  fix v :: u64 and r
  assume "v < 2 ^ 62"
  then show "go_dec (writeVarInt v @ r) = Some (v, r)"
    by (simp add: go_dec_def readVarInt_writeVarInt)
next
  fix bs v r
  assume "go_dec bs = Some (v, r)"
  then have "VarInt_decode bs = Inr (v, r)"
    by (simp add: go_dec_def VarInt_decode_eq split: prod.splits option.splits)
  then show "length r < length bs" by (rule VarInt_decode_shrinks)
qed

interpretation cr: varint_codec cr_enc cr_dec
  by unfold_locales (simp_all add: cr_enc_eq cr_dec_eq_go_dec go.dec_enc go.dec_shrinks)

interpretation go_cr: varint_codec writeVarInt cr_dec
  by unfold_locales (simp_all add: cr_dec_eq_go_dec go.dec_enc go.dec_shrinks)

interpretation cr_go: varint_codec cr_enc go_dec
  by unfold_locales (simp_all add: cr_enc_eq go.dec_enc go.dec_shrinks)

section \<open>Range of the decoded values\<close>

lemma bits_less:
  assumes "\<And>k. bit (v :: u64) k \<Longrightarrow> k < n" and "n < 64"
  shows "v < 2 ^ n"
proof -
  have "take_bit n v = v" by (rule bit_word_eqI) (use assms in \<open>auto simp: bit_take_bit_iff\<close>)
  moreover have "v AND mask n < 2 ^ n" using assms(2) by (intro and_mask_less') simp
  ultimately show ?thesis by (simp add: take_bit_eq_mask)
qed

lemma mask_6: "(0x3f :: u64) = mask 6" and mask_6_byte: "(0x3f :: byte) = mask 6"
  by (simp_all add: mask_eq_decr_exp)

lemma byte_bit_less: "bit (b :: byte) j \<Longrightarrow> j < 8"
  using bit_imp_le_length [of b j] by simp

lemma VarInt_decode_range:
  assumes "VarInt_decode s = Inr (v, r)"
  shows "v < 2 ^ 62"
proof (rule bits_less)
  fix k assume "bit v k"
  then show "k < 62"
    using assms unfolding VarInt_decode_nth Let_def mask_6 mask_6_byte
    by (auto simp: bit_simps split: if_splits dest!: byte_bit_less)
qed simp

section \<open>Properties\<close>

text \<open>
  C21. The Go writer and reader of variable-length integers are inverse to each other, with
  whatever follows left unread, exactly for the values below \<open>2 ^ 62\<close>: from there on
  \<open>writeVarInt\<close> writes bytes that read back as another value.
\<close>

theorem go_varint_roundtrip:
  "readVarInt (writeVarInt v @ r) = (v, None, r) \<longleftrightarrow> v < 2 ^ 62"
proof
  assume "readVarInt (writeVarInt v @ r) = (v, None, r)"
  then have "VarInt_decode (writeVarInt v @ r) = Inr (v, r)" by (simp add: VarInt_decode_eq)
  then show "v < 2 ^ 62" by (rule VarInt_decode_range)
qed (rule readVarInt_writeVarInt)

text \<open>
  C22. The three encoders agree: \<open>VarInt.write\<close> of the Crystal library and \<open>appendVarInt\<close> of
  cross_test write the bytes of \<open>writeVarInt\<close>, except that the Crystal one raises for a value
  of \<open>2 ^ 62\<close> or more.
\<close>

theorem varint_encoders_agree:
  "VarInt_write v =
     (if v < 2 ^ 62 then Inr (writeVarInt v) else Inl (QuicError (''Value too large for QUIC VarInt: '' @ show_nat (unat v)))) \<and>
   VarInt_encode v = VarInt_write v \<and> appendVarInt b v = b @ writeVarInt v"
proof (cases "v < 2 ^ 62")
  case True
  then show ?thesis by (simp add: VarInt_write_eq VarInt_encode_def appendVarInt_eq)
next
  case False
  have "\<not> v \<le> 0x3fffffffffffffff"
  proof
    assume "v \<le> 0x3fffffffffffffff"
    also have "(0x3fffffffffffffff :: u64) < 2 ^ 62" by simp
    finally show False using False by blast
  qed
  moreover from this have "\<not> v \<le> 0x3f" "\<not> v \<le> 0x3fff" "\<not> v \<le> 0x3fffffff"
    by (auto dest: order_trans [where z = "0x3fffffffffffffff :: u64"])
  ultimately show ?thesis using False by (simp add: VarInt_write_def VarInt_encode_def appendVarInt_eq)
qed

text \<open>
  C23. The decoders agree on every byte string, malformed ones included: \<open>VarInt.decode\<close> on an IO
  gives the value and the rest that \<open>readVarInt\<close> gives, and raises \<open>BufferTooShort\<close> exactly when
  \<open>readVarInt\<close> returns an error; the fast path \<open>SliceReader#read_varint\<close> gives the same on what
  its slice has left and leaves the reader just behind the integer.
\<close>

theorem varint_decoders_agree:
  "VarInt_decode s =
     (case readVarInt s of (v, None, r) \<Rightarrow> Inr (v, r) | (_, Some e, _) \<Rightarrow> Inl BufferTooShort) \<and>
   (case SliceReader_read_varint rd of
      Inl e \<Rightarrow> VarInt_decode (sr_rest rd) = Inl e
    | Inr (v, rd') \<Rightarrow> VarInt_decode (sr_rest rd) = Inr (v, sr_rest rd'))"
  using VarInt_decode_eq [of s] read_varint_refines [of rd] by blast

text \<open>
  Type-length-value framing over either encoder is uniquely decodable: two frames followed by
  anything that give the same bytes have the same type, payload and rest, so no frame is a
  proper prefix of another.
\<close>

theorem framing_unique:
  assumes "t < 2 ^ 62" and "length p < 2 ^ 62" and "t' < 2 ^ 62" and "length p' < 2 ^ 62"
    and "h3Frame t p @ r = h3Frame t' p' @ r'"
  shows "t = t' \<and> p = p' \<and> r = r'"
proof -
  have "h3Frame t p = tlv_enc writeVarInt t p" for t p
    by (simp add: h3Frame_def appendVarInt_eq tlv_enc_def)
  then show ?thesis using go.tlv_unique [OF assms(1-4)] assms(5) by simp
qed

end
