(* ===== verification/Cr_H3.thy ===== *)
theory Cr_H3
  imports Cr_Qpack Wire_Interop
begin

text \<open>
  HTTP/3 frames of the Crystal side (src/h3/frame.cr), the error codes
  (src/h3/error.cr), and how the server reads a request from a stream
  (\<open>H3::Server#handle_request\<close> in src/h3/server.cr up to the dispatch). The bytes
  of a stream up to its FIN are a list. A HEADERS frame that refers to dynamic table
  entries not yet received is a \<open>BlockedHeadersFrame\<close>; waiting for the
  encoder stream is outside this model.
\<close>

section \<open>Error codes\<close>

definition H3_FRAME_UNEXPECTED :: u64 where "H3_FRAME_UNEXPECTED = 0x0105"
definition H3_ID_ERROR :: u64 where "H3_ID_ERROR = 0x0108"
definition H3_MESSAGE_ERROR :: u64 where "H3_MESSAGE_ERROR = 0x010e"

section \<open>Frames\<close>

datatype h3_frame =
    DataFrame "byte list"
  | SettingsFrame "(u64 \<times> u64) list"
  | HeadersFrame headers
  | PushPromiseFrame "(u64 \<times> headers) option"
  | PriorityUpdateFrame u64 string bool
  | MaxPushIdFrame u64
  | GoAwayFrame u64
  | UnknownFrame u64 "byte list"
  | BlockedHeadersFrame "byte list" u64

definition write_tlv :: "u64 \<Rightarrow> byte list \<Rightarrow> cr_error + byte list" where
  "write_tlv typ payload =
     rbind (VarInt_write typ) (\<lambda>a.
     rbind (VarInt_write (of_nat (length payload))) (\<lambda>b. Inr (a @ b @ payload)))"

definition DataFrame_encode :: "byte list \<Rightarrow> cr_error + byte list" where
  "DataFrame_encode data = write_tlv 0x00 data"

fun settings_payload :: "(u64 \<times> u64) list \<Rightarrow> cr_error + byte list" where
  "settings_payload [] = Inr []"
| "settings_payload ((k, v) # kvs) =
     rbind (VarInt_write k) (\<lambda>a.
     rbind (VarInt_write v) (\<lambda>b.
     rbind (settings_payload kvs) (\<lambda>c. Inr (a @ b @ c))))"

definition SettingsFrame_encode :: "(u64 \<times> u64) list \<Rightarrow> cr_error + byte list" where
  "SettingsFrame_encode settings = rbind (settings_payload settings) (write_tlv 0x04)"

definition PriorityUpdateFrame_encode :: "u64 \<Rightarrow> string \<Rightarrow> bool \<Rightarrow> cr_error + byte list" where
  "PriorityUpdateFrame_encode element_id pfv request =
     rbind (VarInt_write element_id) (\<lambda>a.
       write_tlv (if request then 0xF0700 else 0xF0701) (a @ string_bytes pfv))"

definition MaxPushIdFrame_encode :: "u64 \<Rightarrow> cr_error + byte list" where
  "MaxPushIdFrame_encode push_id = rbind (VarInt_write push_id) (write_tlv 0x0d)"

definition GoAwayFrame_encode :: "u64 \<Rightarrow> cr_error + byte list" where
  "GoAwayFrame_encode stream_id = rbind (VarInt_write stream_id) (write_tlv 0x07)"

definition MAX_FRAME_PAYLOAD :: nat where
  "MAX_FRAME_PAYLOAD = 16777216"

definition read_fully :: "byte list \<Rightarrow> nat \<Rightarrow> cr_error + (byte list \<times> byte list)" where
  "read_fully io n = (if n \<le> length io then Inr (take n io, drop n io) else Inl EOFError)"

function settings_decode :: "byte list \<Rightarrow> (u64 \<times> u64) list \<Rightarrow> cr_error + (u64 \<times> u64) list" where
  "settings_decode io settings =
     (if io = [] then Inr settings
      else
        (case VarInt_decode io of
           Inl e \<Rightarrow> Inl e
         | Inr (k, io) \<Rightarrow>
             (case VarInt_decode io of
                Inl e \<Rightarrow> Inl e
              | Inr (v, io) \<Rightarrow> settings_decode io (AList.update k v settings))))"
  by pat_completeness auto
termination
  by (relation "measure (\<lambda>(io, s). length io)") (auto dest!: VarInt_decode_shrinks)

declare settings_decode.simps [simp del]

definition Frame_decode ::
    "(byte list \<Rightarrow> cr_error + string) \<Rightarrow> dyntab \<Rightarrow> byte list \<Rightarrow> cr_error + (h3_frame \<times> byte list)" where
  "Frame_decode huff t io =
     rbind (VarInt_decode io) (\<lambda>(type_val, io).
     rbind (VarInt_decode io) (\<lambda>(len, io).
       if MAX_FRAME_PAYLOAD < unat len then Inl (IOError (''H3 frame payload too large ('' @ show_nat (unat len) @ '' bytes)''))
       else
         rbind (read_fully io (unat len)) (\<lambda>(buf, io).
           if type_val = 0x00 then Inr (DataFrame buf, io)
           else if type_val = 0x01 then
             (case Decoder_decode huff t buf of
                Inr headers \<Rightarrow> Inr (HeadersFrame headers, io)
              | Inl (QpackBlockedError n) \<Rightarrow> Inr (BlockedHeadersFrame buf n, io)
              | Inl e \<Rightarrow> Inl e)
           else if type_val = 0x04 then
             rbind (settings_decode buf []) (\<lambda>settings. Inr (SettingsFrame settings, io))
           else if type_val = 0x05 then Inr (PushPromiseFrame None, io)
           else if type_val = 0x07 then
             rbind (VarInt_decode buf) (\<lambda>(stream_id, _). Inr (GoAwayFrame stream_id, io))
           else if type_val = 0x0d then
             rbind (VarInt_decode buf) (\<lambda>(push_id, _). Inr (MaxPushIdFrame push_id, io))
           else if type_val = 0xF0700 \<or> type_val = 0xF0701 then
             rbind (VarInt_decode buf) (\<lambda>(element_id, rest).
               Inr (PriorityUpdateFrame element_id (bytes_string rest) (type_val = 0xF0700), io))
           else Inr (UnknownFrame type_val buf, io))))"

section \<open>Reading a request\<close>

text \<open>
  What \<open>handle_request\<close> does with the bytes of a request stream: it closes the
  connection with an application error code, gives up without a response, waits for
  QPACK entries, or has a header list and a body to dispatch.
\<close>

datatype request_outcome =
    CloseConn u64 string
  | GiveUp
  | WaitQpack "byte list" u64
  | GotRequest headers "byte list"

definition has_key :: "headers \<Rightarrow> string \<Rightarrow> bool" where
  "has_key hdrs k = (map_of hdrs k \<noteq> None)"

lemma read_fully_rest: "read_fully io n = Inr (buf, r) \<Longrightarrow> length r \<le> length io"
  by (auto simp: read_fully_def split: if_splits)

lemma Frame_decode_shrinks: "Frame_decode huff t io = Inr (f, r) \<Longrightarrow> length r < length io"
  by (auto simp: Frame_decode_def rbind_Inr_iff split: if_splits sum.splits cr_error.splits
      dest!: VarInt_decode_shrinks read_fully_rest)

function read_body ::
    "(byte list \<Rightarrow> cr_error + string) \<Rightarrow> dyntab \<Rightarrow> byte list \<Rightarrow> headers \<Rightarrow> byte list \<Rightarrow> request_outcome" where
  "read_body huff t io hdrs body =
     (case Frame_decode huff t io of
        Inl e \<Rightarrow> GotRequest hdrs body
      | Inr (nxt, io') \<Rightarrow>
          (case nxt of
             DataFrame data \<Rightarrow> read_body huff t io' hdrs (body @ data)
           | BlockedHeadersFrame raw n \<Rightarrow> WaitQpack raw n
           | HeadersFrame _ \<Rightarrow> GotRequest hdrs body
           | SettingsFrame _ \<Rightarrow> CloseConn H3_FRAME_UNEXPECTED ''SETTINGS frame on request stream''
           | PushPromiseFrame _ \<Rightarrow> CloseConn H3_ID_ERROR ''client MUST NOT send PUSH_PROMISE''
           | _ \<Rightarrow> GotRequest hdrs body))"
  by pat_completeness auto
termination
  by (relation "measure (\<lambda>(huff, t, io, hdrs, body). length io)") (auto dest: Frame_decode_shrinks)

declare read_body.simps [simp del]

definition read_request ::
    "(byte list \<Rightarrow> cr_error + string) \<Rightarrow> dyntab \<Rightarrow> byte list \<Rightarrow> request_outcome" where
  "read_request huff t io =
     (case Frame_decode huff t io of
        Inl (ValidationError m) \<Rightarrow> CloseConn H3_MESSAGE_ERROR m
      | Inl e \<Rightarrow> GiveUp
      | Inr (req_frame, io) \<Rightarrow>
          (case req_frame of
             DataFrame _ \<Rightarrow>
               CloseConn H3_FRAME_UNEXPECTED ''DATA frame before HEADERS on request stream''
           | SettingsFrame _ \<Rightarrow> CloseConn H3_FRAME_UNEXPECTED ''SETTINGS frame on request stream''
           | PushPromiseFrame _ \<Rightarrow> CloseConn H3_ID_ERROR ''client MUST NOT send PUSH_PROMISE''
           | BlockedHeadersFrame raw n \<Rightarrow> WaitQpack raw n
           | HeadersFrame hdrs \<Rightarrow>
               if \<not> (has_key hdrs '':method'' \<and> has_key hdrs '':path'' \<and> has_key hdrs '':scheme'') then
                 CloseConn H3_MESSAGE_ERROR ''missing required request pseudo-header''
               else if has_key hdrs '':status'' then
                 CloseConn H3_MESSAGE_ERROR '':status pseudo-header in request''
               else read_body huff t io hdrs []
           | _ \<Rightarrow> GiveUp))"

section \<open>The server's control stream\<close>

text \<open>
  \<open>ConnectionActor#init_h3_control_streams\<close> opens the control stream (its type, then
  the SETTINGS frame) and the two QPACK streams; \<open>Connection#send_goaway\<close> appends to
  the control stream.
\<close>

definition server_settings :: "(u64 \<times> u64) list" where
  "server_settings = [(0x01, 4096), (0x07, 16), (0x06, 16384)]"

definition init_h3_control_streams :: "cr_error + byte list list" where
  "init_h3_control_streams =
     rbind (VarInt_write 0) (\<lambda>ctrl.
     rbind (SettingsFrame_encode server_settings) (\<lambda>sf.
     rbind (VarInt_write 0x02) (\<lambda>enc.
     rbind (VarInt_write 0x03) (\<lambda>dec. Inr [ctrl @ sf, enc, dec]))))"

definition send_goaway :: "u64 \<Rightarrow> byte list \<Rightarrow> cr_error + byte list" where
  "send_goaway last_stream_id ctrl =
     rbind (GoAwayFrame_encode last_stream_id) (\<lambda>f. Inr (ctrl @ f))"

end
