(* ===== verification/Go_Raw.thy ===== *)
theory Go_Raw
  imports Wire_Interop
begin

text \<open>
  The raw-QUIC tests of the Go clients: the HTTP/3 control-stream reader of
  \<open>testGoawayAndControlStream\<close> (bench/go_client/main.go, suite 26) and the header
  blocks of the rejection tests of bench/go_client/cross_test/main.go. quic-go is
  not part of the repository: what it delivers (the outcome of the dial, the bytes
  of the server's streams) is an argument.
\<close>

section \<open>Control stream\<close>

lemma readVarInt_None_shrinks: "readVarInt s = (v, None, r) \<Longrightarrow> length r < length s"
  using go.dec_shrinks [of s v r] by (simp add: go_dec_def)

lemma readVarInt_rest: "readVarInt s = (v, e, r) \<Longrightarrow> length r \<le> length s"
  by (auto simp: readVarInt_def Let_def split: prod.splits option.splits if_splits
      dest!: ReadFull_rest)

text \<open>The payload of a SETTINGS frame: identifier and value pairs until the first error.\<close>

function parse_settings :: "byte list \<Rightarrow> (u64 \<rightharpoonup> u64) \<Rightarrow> (u64 \<rightharpoonup> u64)" where
  "parse_settings pr settings =
     (if pr = [] then settings
      else
        (case readVarInt pr of (k, e1, pr1) \<Rightarrow>
         (case readVarInt pr1 of (v, e2, pr2) \<Rightarrow>
            if e1 \<noteq> None \<or> e2 \<noteq> None then settings
            else parse_settings pr2 (settings(k \<mapsto> v)))))"
  by pat_completeness auto
termination
  by (relation "measure (\<lambda>(pr, m). length pr)")
     (auto dest!: readVarInt_None_shrinks [OF sym])

declare parse_settings.simps [simp del]

text \<open>The two one-place channels the reader offers its values to; a full channel drops them.\<close>

record ctl =
  settingsCh :: "(u64 \<rightharpoonup> u64) option"
  goawayCh :: "u64 option"

definition offer :: "'a \<Rightarrow> 'a option \<Rightarrow> 'a option" where
  "offer x ch = (case ch of None \<Rightarrow> Some x | Some y \<Rightarrow> Some y)"

lemma readH3Frame_shrinks:
  "readH3Frame s = Ret (ft, p, None, r) \<Longrightarrow> length r < length s"
  by (auto simp: readH3Frame_def split: prod.splits option.splits if_splits
      dest!: readVarInt_None_shrinks ReadFull_rest)

function control_frames :: "byte list \<Rightarrow> ctl \<Rightarrow> ctl go_result" where
  "control_frames s c =
     (case readH3Frame s of
        Panic m \<Rightarrow> Panic m
      | Ret (ftype, payload, Some e, s') \<Rightarrow> Ret c
      | Ret (ftype, payload, None, s') \<Rightarrow>
          if ftype = 0x04 then
            control_frames s' (c\<lparr>settingsCh := offer (parse_settings payload Map.empty) (settingsCh c)\<rparr>)
          else if ftype = 0x07 then
            Ret (c\<lparr>goawayCh := offer (fst (readVarInt payload)) (goawayCh c)\<rparr>)
          else control_frames s' c)"
  by pat_completeness auto
termination
  by (relation "measure (\<lambda>(s, c). length s)") (auto dest: readH3Frame_shrinks)

declare control_frames.simps [simp del]

text \<open>One server-initiated unidirectional stream: only type 0 is read further.\<close>

definition uni_stream :: "byte list \<Rightarrow> ctl \<Rightarrow> ctl go_result" where
  "uni_stream s c =
     (case readVarInt s of
        (_, Some e, _) \<Rightarrow> Ret c
      | (streamType, None, s') \<Rightarrow> if streamType \<noteq> 0x00 then Ret c else control_frames s' c)"

fun uni_streams :: "byte list list \<Rightarrow> ctl \<Rightarrow> ctl go_result" where
  "uni_streams [] c = Ret c"
| "uni_streams (s # ss) c =
     (case uni_stream s c of Panic m \<Rightarrow> Panic m | Ret c' \<Rightarrow> uni_streams ss c')"

section \<open>Suite 26\<close>

text \<open>What quic-go delivers to the test, and what the server put on its streams in time.\<close>

record raw_env =
  dial_err :: "go_error option"
  uni_in :: "byte list list"
  open_err :: "go_error option"
  write_err :: "go_error option"
  resp_in :: "byte list"

definition settings_get :: "(u64 \<rightharpoonup> u64) \<Rightarrow> u64 \<Rightarrow> u64" where
  "settings_get m k = (case m k of None \<Rightarrow> 0 | Some v \<Rightarrow> v)"

definition checkSettings :: "(u64 \<rightharpoonup> u64) \<Rightarrow> go_error option" where
  "checkSettings settings =
     (if settings_get settings 0x01 \<noteq> 4096 then
        Some (Errorf ''SETTINGS[0x01] QPACK_MAX_TABLE_CAPACITY: want 4096, got %d''
                [VInt (uint (settings_get settings 0x01))])
      else if settings_get settings 0x06 \<noteq> 16384 then
        Some (Errorf ''SETTINGS[0x06] MAX_FIELD_SECTION_SIZE: want 16384, got %d''
                [VInt (uint (settings_get settings 0x06))])
      else if settings_get settings 0x07 \<noteq> 16 then
        Some (Errorf ''SETTINGS[0x07] QPACK_BLOCKED_STREAMS: want 16, got %d''
                [VInt (uint (settings_get settings 0x07))])
      else None)"

definition testGoawayAndControlStream :: "raw_env \<Rightarrow> go_error option go_result" where
  "testGoawayAndControlStream env =
     (case dial_err env of
        Some e \<Rightarrow> Ret (Some (Errorf ''dial: %w'' [VErr e]))
      | None \<Rightarrow>
     (case uni_streams (uni_in env) \<lparr>settingsCh = None, goawayCh = None\<rparr> of
        Panic m \<Rightarrow> Panic m
      | Ret c \<Rightarrow>
     (case settingsCh c of
        None \<Rightarrow> Ret (Some (Errorf ''timeout waiting for H3 SETTINGS frame'' []))
      | Some settings \<Rightarrow>
     (case checkSettings settings of
        Some e \<Rightarrow> Ret (Some e)
      | None \<Rightarrow>
     (case open_err env of
        Some e \<Rightarrow> Ret (Some (Errorf ''open bidi stream: %w'' [VErr e]))
      | None \<Rightarrow>
     (case write_err env of
        Some e \<Rightarrow> Ret (Some (Errorf ''write GET /send-goaway: %w'' [VErr e]))
      | None \<Rightarrow>
     (case readH3Frame (resp_in env) of
        Panic m \<Rightarrow> Panic m
      | Ret (_, _, Some e, _) \<Rightarrow> Ret (Some (Errorf ''read response frame: %w'' [VErr e]))
      | Ret (ftype, _, None, _) \<Rightarrow>
          if ftype \<noteq> 0x01 then
            Ret (Some (Errorf ''expected HEADERS(0x01) response, got type 0x%02x''
                         [VInt (uint ftype)]))
          else
            (case goawayCh c of
               Some goawayID \<Rightarrow> Ret None
             | None \<Rightarrow>
                 Ret (Some (Errorf ''timeout waiting for GOAWAY frame on control stream'' []))))))))))"

section \<open>Header blocks of the rejection tests\<close>

fun qpackExtra :: "nat \<Rightarrow> byte list" where
  "qpackExtra extra =
     (if 128 \<le> extra then (of_nat (extra mod 128) OR 0x80) # qpackExtra (extra div 128)
      else [of_nat extra])"

declare qpackExtra.simps [simp del]

definition minimalQPACKName :: "byte list \<Rightarrow> byte list \<Rightarrow> byte list" where
  "minimalQPACKName b name =
     (if length name < 7 then b @ [0x20 OR of_nat (length name)]
      else
        (let b = b @ [0x27];
             b = appendVarInt (take (length b - 1) b) (of_nat (length name - 7 + 1));
             b = b[length b - 1 := 0x27]
         in b @ qpackExtra (length name - 7))) @ name"

definition minimalQPACKValue :: "byte list \<Rightarrow> byte list \<Rightarrow> byte list" where
  "minimalQPACKValue b val =
     (if length val < 127 then b @ [of_nat (length val)]
      else b @ [0x7F] @ qpackExtra (length val - 127)) @ val"

definition minimalQPACKHeaders :: "(string \<times> string) list \<Rightarrow> byte list" where
  "minimalQPACKHeaders headers =
     foldl (\<lambda>b h. minimalQPACKValue (minimalQPACKName b (string_bytes (fst h)))
                    (string_bytes (snd h)))
       [0x00, 0x00] headers"

end
