(* ===== verification/Go_Cross.thy ===== *)
theory Go_Cross
  imports Go_Http Go_Raw
begin

text \<open>
  bench/go_client/cross_test/main.go: the cross-validation client. The functions
  that talk HTTP take the client (\<open>Go_Http.client\<close>, its calls numbered within the test);
  the raw injection tests take what quic-go reports of the connection
  (\<open>raw_conn\<close>). A call through a nil request, after an ignored error of
  \<open>http.NewRequest\<close>, is a panic.
\<close>

section \<open>Package strings and time\<close>

text \<open>\<open>Duration.Round(time.Millisecond)\<close>: half away from zero.\<close>

definition round_ms :: "int \<Rightarrow> int" where
  "round_ms d =
     (let r = \<bar>d\<bar> mod Millisecond;
          m = (if r + r < Millisecond then \<bar>d\<bar> - r else \<bar>d\<bar> + (Millisecond - r))
      in if d < 0 then - m else m)"

section \<open>Results\<close>

record result =
  res_name :: go_text
  res_passed :: bool
  res_reason :: go_text

definition pass_text :: "go_text \<Rightarrow> result go_result" where
  "pass_text nm = Ret \<lparr>res_name = nm, res_passed = True, res_reason = Errorf [] []\<rparr>"

definition pass :: "string \<Rightarrow> result go_result" where
  "pass nm = pass_text (Errorf nm [])"

definition fail :: "string \<Rightarrow> go_text \<Rightarrow> result go_result" where
  "fail nm reason = Ret \<lparr>res_name = Errorf nm [], res_passed = False, res_reason = reason\<rparr>"

section \<open>HTTP calls\<close>

definition crystalAddr :: string where
  "crystalAddr = ''127.0.0.1:4433''"

definition crystalURL :: "string \<Rightarrow> string" where
  "crystalURL path = ''https://'' @ crystalAddr @ path"

text \<open>
  \<open>http.NewRequest\<close> with its error ignored, header assignments, then \<open>c.Do\<close>; the
  timeout is that of \<open>newClient\<close>.
\<close>

definition client_Request ::
    "client \<Rightarrow> nat \<Rightarrow> string \<Rightarrow> string \<Rightarrow> string option \<Rightarrow> (string \<times> string) list
      \<Rightarrow> (go_error + http_response) go_result" where
  "client_Request c k method url body hdrs =
     (case NewRequestWithContext c (10 * Second) method url body of
        Inl err \<Rightarrow> Panic ''nil pointer dereference''
      | Inr req \<Rightarrow>
          Ret (cl_do c k (req\<lparr>rq_header := foldl (\<lambda>h (k, v). Header_Set h k v) (rq_header req) hdrs\<rparr>)))"

definition client_Get :: "client \<Rightarrow> nat \<Rightarrow> string \<Rightarrow> (go_error + http_response) go_result" where
  "client_Get c k url =
     (case NewRequestWithContext c (10 * Second) ''GET'' url None of
        Inl err \<Rightarrow> Ret (Inl err)
      | Inr req \<Rightarrow> Ret (cl_do c k req))"

definition client_Post ::
    "client \<Rightarrow> nat \<Rightarrow> string \<Rightarrow> string \<Rightarrow> string \<Rightarrow> (go_error + http_response) go_result" where
  "client_Post c k url contentType body =
     (case NewRequestWithContext c (10 * Second) ''POST'' url (if body = [] then None else Some body) of
        Inl err \<Rightarrow> Ret (Inl err)
      | Inr req \<Rightarrow>
          Ret (cl_do c k (req\<lparr>rq_header := Header_Set (rq_header req) ''Content-Type'' contentType\<rparr>)))"

text \<open>The error of the call fails the test; the response goes on.\<close>

definition with_response ::
    "(go_error + http_response) go_result \<Rightarrow> string \<Rightarrow> (http_response \<Rightarrow> result go_result) \<Rightarrow> result go_result" where
  "with_response r nm k =
     (case r of Panic m \<Rightarrow> Panic m | Ret (Inl err) \<Rightarrow> fail nm err | Ret (Inr resp) \<Rightarrow> k resp)"

section \<open>HTTP tests\<close>

definition testGetPing :: "client \<Rightarrow> result go_result" where
  "testGetPing c =
     with_response (client_Get c 0 (crystalURL ''/ping'')) ''GET /ping'' (\<lambda>resp.
       if StatusCode resp \<noteq> 200 \<or> TrimSpace (rs_body resp) \<noteq> ''pong'' then
         fail ''GET /ping'' (Errorf ''status=%d body=%q'' [VInt (StatusCode resp), VStr (rs_body resp)])
       else pass (''GET /ping '' @ arrow @ '' 200 pong''))"

definition testPostEcho :: "client \<Rightarrow> result go_result" where
  "testPostEcho c =
     with_response (client_Post c 0 (crystalURL ''/echo'') ''text/plain'' ''hello quic.cr'') ''POST /echo'' (\<lambda>resp.
       if StatusCode resp \<noteq> 200 \<or> \<not> contains (rs_body resp) ''hello quic.cr'' then
         fail ''POST /echo'' (Errorf ''status=%d body=%q'' [VInt (StatusCode resp), VStr (rs_body resp)])
       else pass (''POST /echo '' @ arrow @ '' echoes body''))"

definition testPutEcho :: "client \<Rightarrow> result go_result" where
  "testPutEcho c =
     with_response (client_Request c 0 ''PUT'' (crystalURL ''/echo'') (Some ''put-body'') [(''content-type'', ''text/plain'')]) ''PUT /echo'' (\<lambda>resp.
       if StatusCode resp \<noteq> 200 \<or> \<not> contains (rs_body resp) ''put-body'' then
         fail ''PUT /echo'' (Errorf ''status=%d body=%q'' [VInt (StatusCode resp), VStr (rs_body resp)])
       else pass (''PUT /echo '' @ arrow @ '' echoes body''))"

definition testPatchEcho :: "client \<Rightarrow> result go_result" where
  "testPatchEcho c =
     with_response (client_Request c 0 ''PATCH'' (crystalURL ''/echo'') (Some ''patch-body'') [(''content-type'', ''text/plain'')]) ''PATCH /echo'' (\<lambda>resp.
       if StatusCode resp \<noteq> 200 \<or> \<not> contains (rs_body resp) ''patch-body'' then
         fail ''PATCH /echo'' (Errorf ''status=%d body=%q'' [VInt (StatusCode resp), VStr (rs_body resp)])
       else pass (''PATCH /echo '' @ arrow @ '' echoes body''))"

definition testDeleteResource :: "client \<Rightarrow> result go_result" where
  "testDeleteResource c =
     with_response (client_Request c 0 ''DELETE'' (crystalURL ''/resource'') None []) ''DELETE /resource'' (\<lambda>resp.
       if StatusCode resp \<noteq> 204 then
         fail ''DELETE /resource'' (Errorf ''status=%d'' [VInt (StatusCode resp)])
       else pass (''DELETE /resource '' @ arrow @ '' 204''))"

definition testGetHealthz :: "client \<Rightarrow> result go_result" where
  "testGetHealthz c =
     with_response (client_Get c 0 (crystalURL ''/healthz'')) ''GET /healthz'' (\<lambda>resp.
       if StatusCode resp \<noteq> 200 \<or> \<not> contains (rs_body resp) ''ok'' then
         fail ''GET /healthz'' (Errorf ''status=%d body=%q'' [VInt (StatusCode resp), VStr (rs_body resp)])
       else pass (''GET /healthz '' @ arrow @ '' 200 {status:ok}''))"

definition testGetMethod :: "client \<Rightarrow> result go_result" where
  "testGetMethod c =
     with_response (client_Get c 0 (crystalURL ''/method'')) ''GET /method'' (\<lambda>resp.
       if StatusCode resp \<noteq> 200 \<or> \<not> contains (rs_body resp) ''GET'' then
         fail ''GET /method'' (Errorf ''status=%d body=%q'' [VInt (StatusCode resp), VStr (rs_body resp)])
       else pass (''GET /method '' @ arrow @ '' 200 GET''))"

definition testStatus200 :: "client \<Rightarrow> result go_result" where
  "testStatus200 c =
     with_response (client_Get c 0 (crystalURL ''/status/200'')) ''GET /status/200'' (\<lambda>resp.
       if StatusCode resp \<noteq> 200 then
         fail ''GET /status/200'' (Errorf ''got %d'' [VInt (StatusCode resp)])
       else pass (''GET /status/200 '' @ arrow @ '' 200''))"

definition testStatus404 :: "client \<Rightarrow> result go_result" where
  "testStatus404 c =
     with_response (client_Get c 0 (crystalURL ''/status/404'')) ''GET /status/404'' (\<lambda>resp.
       if StatusCode resp \<noteq> 404 then
         fail ''GET /status/404'' (Errorf ''got %d'' [VInt (StatusCode resp)])
       else pass (''GET /status/404 '' @ arrow @ '' 404''))"

definition testStatus201 :: "client \<Rightarrow> result go_result" where
  "testStatus201 c =
     with_response (client_Get c 0 (crystalURL ''/status/201'')) ''GET /status/201'' (\<lambda>resp.
       if StatusCode resp \<noteq> 201 then
         fail ''GET /status/201'' (Errorf ''got %d'' [VInt (StatusCode resp)])
       else pass (''GET /status/201 '' @ arrow @ '' 201''))"

definition testEchoHeaders :: "client \<Rightarrow> result go_result" where
  "testEchoHeaders c =
     with_response (client_Request c 0 ''GET'' (crystalURL ''/echo-headers'') None [(''x-test-id'', ''cross-validation'')]) ''GET /echo-headers'' (\<lambda>resp.
       if StatusCode resp \<noteq> 200 \<or> \<not> contains (rs_body resp) ''cross-validation'' then
         fail ''GET /echo-headers'' (Errorf ''status=%d body=%q'' [VInt (StatusCode resp), VStr (rs_body resp)])
       else pass (''GET /echo-headers '' @ arrow @ '' custom header echoed''))"

definition testGet100k :: "client \<Rightarrow> result go_result" where
  "testGet100k c =
     with_response (client_Get c 0 (crystalURL ''/100k'')) ''GET /100k'' (\<lambda>resp.
       if StatusCode resp \<noteq> 200 \<or> length (rs_body resp) \<noteq> 102400 then
         fail ''GET /100k'' (Errorf ''status=%d len=%d (want %d)'' [VInt (StatusCode resp), VInt (int (length (rs_body resp))), VInt 102400])
       else pass (''GET /100k '' @ arrow @ '' 102400 bytes''))"

definition testGetLarge :: "client \<Rightarrow> result go_result" where
  "testGetLarge c =
     with_response (client_Get c 0 (crystalURL ''/large?n=4096'')) ''GET /large?n=4096'' (\<lambda>resp.
       if StatusCode resp \<noteq> 200 \<or> length (rs_body resp) \<noteq> 4096 then
         fail ''GET /large?n=4096'' (Errorf ''status=%d len=%d'' [VInt (StatusCode resp), VInt (int (length (rs_body resp)))])
       else pass (''GET /large?n=4096 '' @ arrow @ '' 4096 bytes''))"

definition testPostEchoLarge :: "client \<Rightarrow> result go_result" where
  "testPostEchoLarge c =
     with_response (client_Post c 0 (crystalURL ''/echo'') ''application/octet-stream'' (Repeat ''A'' 1000000)) ''POST /echo 1MB'' (\<lambda>resp.
       if StatusCode resp \<noteq> 200 \<or> length (rs_body resp) \<noteq> 1000000 then
         fail ''POST /echo 1MB'' (Errorf ''status=%d body_len=%d'' [VInt (StatusCode resp), VInt (int (length (rs_body resp)))])
       else pass (''POST /echo 1MB '' @ arrow @ '' echoed back (1MB)''))"

definition testDigest :: "(byte list \<Rightarrow> byte list) \<Rightarrow> client \<Rightarrow> result go_result" where
  "testDigest Sum256 c =
     (let msg = ''cross-test-digest-payload'';
          want = EncodeToString (Sum256 (string_bytes msg))
      in with_response (client_Post c 0 (crystalURL ''/digest'') ''text/plain'' msg) ''POST /digest'' (\<lambda>resp.
           if StatusCode resp \<noteq> 200 \<or> \<not> contains (rs_body resp) want then
             fail ''POST /digest'' (Errorf ''status=%d body=%q want_sha256=%s''
               [VInt (StatusCode resp), VStr (rs_body resp), VStr want])
           else pass (''POST /digest '' @ arrow @ '' correct SHA256'')))"

definition testRepeat :: "client \<Rightarrow> result go_result" where
  "testRepeat c =
     with_response (client_Get c 0 (crystalURL ''/repeat?n=30&c=z'')) ''GET /repeat'' (\<lambda>resp.
       if StatusCode resp \<noteq> 200 \<or> TrimSpace (rs_body resp) \<noteq> Repeat ''z'' 30 then
         fail ''GET /repeat?n=30&c=z'' (Errorf ''status=%d body=%q'' [VInt (StatusCode resp), VStr (rs_body resp)])
       else pass (''GET /repeat?n=30&c=z '' @ arrow @ '' 30 z'' @ [CHR 0x27] @ ''s''))"

text \<open>
  The goroutines of \<open>testConcurrentPing\<close> and \<open>testMultipleConnections\<close> only add to an
  atomic counter: its final value is the number of calls that failed, in any order.
\<close>

definition ping_fails :: "client \<Rightarrow> nat \<Rightarrow> bool" where
  "ping_fails c i =
     (case client_Get c i (crystalURL ''/ping'') of
        Panic m \<Rightarrow> True
      | Ret (Inl err) \<Rightarrow> True
      | Ret (Inr resp) \<Rightarrow> StatusCode resp \<noteq> 200)"

definition testConcurrentPing :: "client \<Rightarrow> result go_result" where
  "testConcurrentPing c =
     (let errCount = length (filter (ping_fails c) [0 ..< 5])
      in if 0 < errCount then
           fail (''Concurrent GET /ping '' @ times_sign @ ''5'') (Errorf ''%d/%d failed'' [VInt (int errCount), VInt 5])
         else pass (''Concurrent GET /ping '' @ times_sign @ ''5 '' @ arrow @ '' all 200''))"

definition testSlowEndpoint :: "int \<Rightarrow> client \<Rightarrow> result go_result" where
  "testSlowEndpoint elapsed c =
     with_response (client_Get c 0 (crystalURL ''/slow?ms=80'')) ''GET /slow?ms=80'' (\<lambda>resp.
       if StatusCode resp \<noteq> 200 then fail ''GET /slow?ms=80'' (Errorf ''status=%d'' [VInt (StatusCode resp)])
       else if elapsed < 80 * Millisecond then
         fail ''GET /slow?ms=80'' (Errorf ''too fast: %v'' [VInt elapsed])
       else pass_text (Errorf (''GET /slow?ms=80 '' @ arrow @ '' ok in %v'') [VInt (round_ms elapsed)]))"

definition testUpload :: "client \<Rightarrow> result go_result" where
  "testUpload c =
     with_response (client_Post c 0 (crystalURL ''/upload'') ''application/octet-stream'' (Repeat ''X'' 5000)) ''POST /upload 5000B'' (\<lambda>resp.
       if StatusCode resp \<noteq> 200 \<or> \<not> contains (rs_body resp) ''5000'' then
         fail ''POST /upload 5000B'' (Errorf ''status=%d body=%q'' [VInt (StatusCode resp), VStr (rs_body resp)])
       else pass (''POST /upload 5000B '' @ arrow @ '' {received:5000}''))"

definition testGetLarge64k :: "client \<Rightarrow> result go_result" where
  "testGetLarge64k c =
     with_response (client_Get c 0 (crystalURL ''/large?n=65536'')) ''GET /large?n=65536'' (\<lambda>resp.
       if StatusCode resp \<noteq> 200 \<or> length (rs_body resp) \<noteq> 65536 then
         fail ''GET /large?n=65536'' (Errorf ''status=%d len=%d'' [VInt (StatusCode resp), VInt (int (length (rs_body resp)))])
       else pass (''GET /large?n=65536 '' @ arrow @ '' 65536 bytes''))"

definition testMultipleConnections :: "(nat \<Rightarrow> client) \<Rightarrow> result go_result" where
  "testMultipleConnections newClient =
     (let errCount = length (filter (\<lambda>i. ping_fails (newClient i) 0) [0 ..< 3])
      in if 0 < errCount then
           fail ''3 independent connections'' (Errorf ''%d/%d failed'' [VInt (int errCount), VInt 3])
         else pass (''3 independent QUIC connections '' @ arrow @ '' all succeed''))"

text \<open>A loop of \<open>/ping\<close> requests that stops at the first failure.\<close>

fun ping_loop :: "client \<Rightarrow> string \<Rightarrow> nat list \<Rightarrow> result go_result \<Rightarrow> result go_result" where
  "ping_loop c nm [] success = success"
| "ping_loop c nm (i # is) success =
     (case client_Get c i (crystalURL ''/ping'') of
        Panic m \<Rightarrow> Panic m
      | Ret (Inl err) \<Rightarrow> fail nm (Errorf ''req %d: %v'' [VInt (int i), VErr err])
      | Ret (Inr resp) \<Rightarrow>
          if StatusCode resp \<noteq> 200 \<or> TrimSpace (rs_body resp) \<noteq> ''pong'' then
            fail nm (Errorf ''req %d: status=%d'' [VInt (int i), VInt (StatusCode resp)])
          else ping_loop c nm is success)"

definition testSequentialRequests :: "client \<Rightarrow> result go_result" where
  "testSequentialRequests c =
     ping_loop c (''Sequential '' @ times_sign @ ''5 GET /ping'') [0 ..< 5]
       (pass (''Sequential '' @ times_sign @ ''5 GET /ping '' @ arrow @ '' all succeed''))"

definition testNotFound :: "client \<Rightarrow> result go_result" where
  "testNotFound c =
     with_response (client_Get c 0 (crystalURL ''/definitely_nonexistent_xyzzy'')) ''GET /nonexistent'' (\<lambda>resp.
       if StatusCode resp \<noteq> 404 then
         fail (''GET /nonexistent '' @ arrow @ '' 404'') (Errorf ''got %d'' [VInt (StatusCode resp)])
       else pass (''GET /nonexistent '' @ arrow @ '' 404''))"

definition testDynamicQPACK :: "client \<Rightarrow> result go_result" where
  "testDynamicQPACK c =
     ping_loop c (''Dynamic QPACK '' @ times_sign @ ''3'') [0 ..< 3]
       (pass (''Dynamic QPACK '' @ em_dash @ '' 3 sequential requests (persistent encoder)''))"

section \<open>Raw injection tests\<close>

text \<open>
  What quic-go reports of one raw connection: the errors of the dial and of the
  opening of streams, and how the connection ended before the timeout, given what was
  written on the client's unidirectional streams and on the request stream.
\<close>

datatype close_cause = ApplicationError u64 | OtherError

record raw_conn =
  rc_dial :: "go_error option"
  rc_uni :: "nat \<Rightarrow> go_error option"
  rc_bidi :: "go_error option"
  rc_end :: "byte list list \<Rightarrow> byte list \<Rightarrow> close_cause option"

definition sendRawH3 :: "raw_conn \<Rightarrow> byte list \<Rightarrow> bool \<times> u64" where
  "sendRawH3 conn payload =
     (case rc_dial conn of
        Some err \<Rightarrow> (False, 0)
      | None \<Rightarrow>
          (let uni = (if rc_uni conn 0 = None then [[0x00, 0x04, 0x00]] else []) @
                     (if rc_uni conn 1 = None then [[0x02]] else []) @
                     (if rc_uni conn 2 = None then [[0x03]] else [])
           in case rc_bidi conn of
                Some err \<Rightarrow> (False, 0)
              | None \<Rightarrow>
                  (case rc_end conn uni payload of
                     Some (ApplicationError code) \<Rightarrow> (True, code)
                   | Some OtherError \<Rightarrow> (True, 0)
                   | None \<Rightarrow> (False, 0))))"

definition h3ErrFrameUnexpected :: u64 where "h3ErrFrameUnexpected = 0x0105"
definition h3ErrMessageError :: u64 where "h3ErrMessageError = 0x010e"

definition raw_payload1 :: "byte list" where
  "raw_payload1 = h3Frame 0x00 (string_bytes ''orphan data frame'')"

definition testDataBeforeHeaders :: "raw_conn \<Rightarrow> result go_result" where
  "testDataBeforeHeaders conn =
     (case sendRawH3 conn raw_payload1 of (closed, code) \<Rightarrow>
        if \<not> closed then
          fail (''R1: DATA before HEADERS '' @ arrow @ '' H3_FRAME_UNEXPECTED'')
            (Errorf ''server did not close connection'' [])
        else if code \<noteq> h3ErrFrameUnexpected \<and> code \<noteq> 0 then
          fail ''R1: DATA before HEADERS''
            (Errorf ''expected 0x%04x got 0x%04x'' [VInt (uint h3ErrFrameUnexpected), VInt (uint code)])
        else pass (''R1: DATA before HEADERS '' @ arrow @ '' connection closed (H3_FRAME_UNEXPECTED)''))"

definition testSettingsOnRequestStream :: "raw_conn \<Rightarrow> result go_result" where
  "testSettingsOnRequestStream conn =
     (case sendRawH3 conn (h3Frame 0x04 []) of (closed, code) \<Rightarrow>
        if \<not> closed then
          fail (''R2: SETTINGS on request stream '' @ arrow @ '' H3_FRAME_UNEXPECTED'')
            (Errorf ''server did not close'' [])
        else if code \<noteq> h3ErrFrameUnexpected \<and> code \<noteq> 0 then
          fail ''R2: SETTINGS on request stream''
            (Errorf ''expected 0x%04x got 0x%04x'' [VInt (uint h3ErrFrameUnexpected), VInt (uint code)])
        else pass (''R2: SETTINGS on request stream '' @ arrow @ '' connection closed (H3_FRAME_UNEXPECTED)''))"

definition raw_headers3 :: "(string \<times> string) list" where
  "raw_headers3 = [('':path'', ''/''), ('':scheme'', ''https''), ('':authority'', ''127.0.0.1:4433'')]"

definition testMissingMethod :: "raw_conn \<Rightarrow> result go_result" where
  "testMissingMethod conn =
     (case sendRawH3 conn (h3Frame 0x01 (minimalQPACKHeaders raw_headers3)) of (closed, code) \<Rightarrow>
        if \<not> closed then
          fail (''R3: missing :method '' @ arrow @ '' H3_MESSAGE_ERROR'') (Errorf ''server did not close'' [])
        else if code \<noteq> h3ErrMessageError \<and> code \<noteq> 0 then
          fail ''R3: missing :method''
            (Errorf ''expected 0x%04x got 0x%04x'' [VInt (uint h3ErrMessageError), VInt (uint code)])
        else pass (''R3: HEADERS missing :method '' @ arrow @ '' connection closed (H3_MESSAGE_ERROR)''))"

definition raw_headers4 :: "(string \<times> string) list" where
  "raw_headers4 = [('':method'', ''GET''), ('':path'', ''/''), ('':scheme'', ''https''), ('':status'', ''200'')]"

definition testStatusInRequest :: "raw_conn \<Rightarrow> result go_result" where
  "testStatusInRequest conn =
     (case sendRawH3 conn (h3Frame 0x01 (minimalQPACKHeaders raw_headers4)) of (closed, code) \<Rightarrow>
        if \<not> closed then
          fail (''R4: :status in request '' @ arrow @ '' H3_MESSAGE_ERROR'') (Errorf ''server did not close'' [])
        else if code \<noteq> h3ErrMessageError \<and> code \<noteq> 0 then
          fail ''R4: :status in request''
            (Errorf ''expected 0x%04x got 0x%04x'' [VInt (uint h3ErrMessageError), VInt (uint code)])
        else pass (''R4: :status in request '' @ arrow @ '' connection closed (H3_MESSAGE_ERROR)''))"

definition testPushPromiseOnRequestStream :: "raw_conn \<Rightarrow> result go_result" where
  "testPushPromiseOnRequestStream conn =
     (let pp = appendVarInt [] 0 @ [0x00, 0x00]
      in case sendRawH3 conn (h3Frame 0x05 pp) of (closed, _) \<Rightarrow>
        if \<not> closed then fail ''R5: PUSH_PROMISE on request stream'' (Errorf ''server did not close'' [])
        else pass (''R5: PUSH_PROMISE on request stream '' @ arrow @ '' connection closed''))"

section \<open>Server lifecycle and main\<close>

text \<open>
  \<open>waitForServer\<close>: the clock read before each attempt and whether the dial of the
  attempt succeeded. The list ends with the attempts: the clock advances by at
  least the 100 ms sleep of every round.
\<close>

fun waitForServer :: "int \<Rightarrow> (int \<times> bool) list \<Rightarrow> bool" where
  "waitForServer deadline [] = False"
| "waitForServer deadline ((now, ok) # rest) =
     (if now < deadline then (if ok then True else waitForServer deadline rest) else False)"

record cross_env =
  ce_start :: bool
  ce_missing :: bool
  ce_startErr :: "go_error option"
  ce_now :: int
  ce_dials :: "(int \<times> bool) list"
  ce_client :: "nat \<Rightarrow> client"
  ce_conns :: "nat \<Rightarrow> client"
  ce_elapsed :: int
  ce_raw :: "nat \<Rightarrow> raw_conn"
  ce_sum256 :: "byte list \<Rightarrow> byte list"

definition phase1 :: "cross_env \<Rightarrow> (client \<Rightarrow> result go_result) list" where
  "phase1 e =
     [testGetPing, testPostEcho, testPutEcho, testPatchEcho, testDeleteResource, testGetHealthz,
      testGetMethod, testStatus200, testStatus404, testStatus201, testEchoHeaders, testGet100k,
      testGetLarge, testPostEchoLarge, testDigest (ce_sum256 e), testRepeat, testConcurrentPing,
      testSlowEndpoint (ce_elapsed e)]"

definition phase2 :: "cross_env \<Rightarrow> result go_result list" where
  "phase2 e =
     [testUpload (ce_client e 18), testGetLarge64k (ce_client e 19), testMultipleConnections (ce_conns e),
      testSequentialRequests (ce_client e 20), testNotFound (ce_client e 21), testDynamicQPACK (ce_client e 22)]"

definition phase3 :: "cross_env \<Rightarrow> result go_result list" where
  "phase3 e =
     [testDataBeforeHeaders (ce_raw e 0), testSettingsOnRequestStream (ce_raw e 1),
      testMissingMethod (ce_raw e 2), testStatusInRequest (ce_raw e 3), testPushPromiseOnRequestStream (ce_raw e 4)]"

fun collect :: "result go_result list \<Rightarrow> result list go_result" where
  "collect [] = Ret []"
| "collect (r # rs) =
     (case r of Panic m \<Rightarrow> Panic m
      | Ret x \<Rightarrow> (case collect rs of Panic m \<Rightarrow> Panic m | Ret xs \<Rightarrow> Ret (x # xs)))"

text \<open>The exit code of the program.\<close>

definition cross_main :: "cross_env \<Rightarrow> int go_result" where
  "cross_main e =
     (if ce_start e \<and> ce_missing e then Ret 1
      else if ce_start e \<and> ce_startErr e \<noteq> None then Ret 1
      else if \<not> waitForServer (ce_now e + (if ce_start e then 5 * Second else 2 * Second)) (ce_dials e) then Ret 1
      else
        (case collect (map (\<lambda>(i, fn). fn (ce_client e i)) (enumerate 0 (phase1 e)) @ phase2 e @ phase3 e) of
           Panic m \<Rightarrow> Panic m
         | Ret results \<Rightarrow>
             (let passed = length (filter res_passed results); total = length results
              in if passed \<noteq> total then Ret 1 else Ret 0)))"

end
