(* ===== verification/H3_Interop.thy ===== *)
theory H3_Interop
  imports Cr_H3 Go_Cross
begin

text \<open>
  The Go test clients against the Crystal server on HTTP/3 frames: header blocks
  built by \<open>minimalQPACKHeaders\<close> are read back by the QPACK decoder, frames built by
  \<open>h3Frame\<close> by \<open>Frame.decode\<close>, frames of the server by \<open>readH3Frame\<close>, the five
  malformed request streams of cross_test lead to the error codes the tests name, and the
  server's control stream satisfies suite 26.
\<close>

section \<open>Header blocks\<close>

lemma byte_of_group:
  assumes "m < 128"
  shows "(of_nat m OR 0x80 :: byte) = of_nat (m + 128)"
proof -
  have "(of_nat m :: byte) AND 0x80 = 0"
    using assms by (simp add: byte_and_128 unat_of_nat take_bit_nat_eq_self)
  then show ?thesis using disjunctive_add_eq_or [of "of_nat m :: byte" "0x80"] by simp
qed

lemma ucast_of_nat_byte: "ucast (of_nat k :: u64) = (of_nat k :: byte)"
  by (rule bit_word_eqI) (simp add: bit_simps)

lemma unat_of_nat_64: "n < 2 ^ 64 \<Longrightarrow> unat (of_nat n :: u64) = n"
  by (simp add: unat_of_nat take_bit_nat_eq_self)

lemma small_div:
  assumes "n < 2 ^ 64"
  shows "(of_nat n :: u64) div 128 = of_nat (n div 128)"
proof (rule word_unat_eq_iff [THEN iffD2])
  have "n div 128 < 2 ^ 64" using assms by (rule le_less_trans [OF div_le_dividend])
  then show "unat ((of_nat n :: u64) div 128) = unat (of_nat (n div 128) :: u64)"
    by (simp only: unat_div unat_of_nat_64 [OF assms] unat_of_nat_64 [of "n div 128"]) simp
qed

lemma small_mod:
  assumes "n < 2 ^ 64"
  shows "(of_nat n :: u64) mod 128 = of_nat (n mod 128)"
proof (rule word_unat_eq_iff [THEN iffD2])
  have "n mod 128 < 2 ^ 64" by (rule less_trans [OF mod_less_divisor]) simp_all
  then show "unat ((of_nat n :: u64) mod 128) = unat (of_nat (n mod 128) :: u64)"
    by (simp only: unat_mod unat_of_nat_64 [OF assms] unat_of_nat_64 [of "n mod 128"]) simp
qed

lemma ucast_group: "ucast (of_nat m + 128 :: u64) = (of_nat (m + 128) :: byte)"
proof -
  have "(of_nat m + 128 :: u64) = of_nat (m + 128)" by simp
  then show ?thesis by (metis ucast_of_nat_byte)
qed

lemma qpackExtra_eq:
  assumes "n < 2 ^ 64"
  shows "qpackExtra n = qint_tail (of_nat n)"
  using assms
proof (induction n rule: qpackExtra.induct)
  case (1 n)
  have u: "unat (of_nat n :: u64) = n" using "1.prems" by (simp add: unat_of_nat take_bit_nat_eq_self)
  show ?case
  proof (cases "128 \<le> n")
    case True
    have "128 \<le> (of_nat n :: u64)" using True u by (simp add: word_le_nat_alt)
    moreover have "(of_nat n :: u64) div 128 = of_nat (n div 128)" "(of_nat n :: u64) mod 128 = of_nat (n mod 128)"
      by (rule small_div [OF "1.prems"], rule small_mod [OF "1.prems"])
    moreover have "ucast (of_nat (n mod 128) + 128 :: u64) = (of_nat (n mod 128) OR 0x80 :: byte)"
      by (simp add: byte_of_group ucast_group)
    moreover have "n div 128 < 2 ^ 64" using "1.prems" by (rule le_less_trans [OF div_le_dividend])
    ultimately show ?thesis
      using True "1.IH" [OF True] by (subst qpackExtra.simps, subst qint_tail.simps) simp
  next
    case False
    then have "\<not> 128 \<le> (of_nat n :: u64)" using u by (simp add: word_le_nat_alt)
    then show ?thesis using False
      by (subst qpackExtra.simps, subst qint_tail.simps) (simp add: ucast_of_nat_byte)
  qed
qed

lemma minimalQPACKName_eq:
  assumes "length name < 70"
  shows "minimalQPACKName b name = b @ QInt_encode (of_nat (length name)) 3 0x20 @ name"
proof (cases "length name < 7")
  case True
  then have "(of_nat (length name) :: u64) < mask 3"
    by (simp add: word_less_nat_alt unat_of_nat_64 mask_eq_decr_exp)
  then show ?thesis using True by (simp add: minimalQPACKName_def QInt_encode_mask ucast_of_nat_byte)
next
  case False
  have u: "unat (of_nat (length name) :: u64) = length name" using assms by (intro unat_of_nat_64) simp
  then have m: "\<not> (of_nat (length name) :: u64) < mask 3"
    using False by (simp add: word_less_nat_alt mask_eq_decr_exp)
  have "of_nat (length name) - mask 3 = (of_nat (length name - 7) :: u64)"
    using False by (simp add: of_nat_diff mask_eq_decr_exp)
  moreover have "writeVarInt (of_nat (length name - 7 + 1)) = [ucast (of_nat (length name - 7 + 1) :: u64)]"
    using assms by (simp add: writeVarInt_def word_less_nat_alt unat_of_nat_64 del: of_nat_Suc of_nat_add)
  moreover have "qpackExtra (length name - 7) = qint_tail (of_nat (length name - 7))"
    using assms by (intro qpackExtra_eq) simp
  ultimately show ?thesis
    using False m by (simp add: minimalQPACKName_def QInt_encode_mask appendVarInt_eq mask_eq_decr_exp
        del: of_nat_Suc of_nat_add)
qed

lemma minimalQPACKValue_eq:
  assumes "length val < 2 ^ 64"
  shows "minimalQPACKValue b val = b @ QInt_encode (of_nat (length val)) 7 0 @ val"
proof (cases "length val < 127")
  case True
  then have "(of_nat (length val) :: u64) < mask 7"
    by (simp add: word_less_nat_alt unat_of_nat_64 mask_eq_decr_exp)
  then show ?thesis using True by (simp add: minimalQPACKValue_def QInt_encode_mask ucast_of_nat_byte)
next
  case False
  have u: "unat (of_nat (length val) :: u64) = length val" using assms by (rule unat_of_nat_64)
  then have m: "\<not> (of_nat (length val) :: u64) < mask 7"
    using False by (simp add: word_less_nat_alt mask_eq_decr_exp)
  have "of_nat (length val) - mask 7 = (of_nat (length val - 127) :: u64)"
    using False by (simp add: of_nat_diff mask_eq_decr_exp)
  moreover have "length val - 127 < 2 ^ 64" by (rule le_less_trans [OF diff_le_self assms])
  then have "qpackExtra (length val - 127) = qint_tail (of_nat (length val - 127))" by (rule qpackExtra_eq)
  ultimately show ?thesis
    using False m by (simp add: minimalQPACKValue_def QInt_encode_mask mask_eq_decr_exp)
qed

lemma minimalQPACKHeaders_eq:
  assumes "\<forall>h\<in>set hs. length (fst h) < 70 \<and> length (snd h) < 2 ^ 64"
  shows "minimalQPACKHeaders hs = [0x00, 0x00] @ concat (map literal_line hs)"
proof -
  have "foldl (\<lambda>b h. minimalQPACKValue (minimalQPACKName b (string_bytes (fst h))) (string_bytes (snd h))) acc hs
      = acc @ concat (map literal_line hs)" for acc
    using assms
    by (induction hs arbitrary: acc)
       (simp_all add: minimalQPACKName_eq minimalQPACKValue_eq literal_line_def encode_string_def del: power_numeral)
  then show ?thesis by (simp add: minimalQPACKHeaders_def)
qed

lemma length_qint_tail: "length (qint_tail v) \<le> unat v + 1"
proof (induction v rule: qint_tail.induct)
  case (1 v)
  have "unat (v div 128) < unat v" if "128 \<le> v" using that by (auto simp: word_le_nat_alt unat_div)
  then show ?case using 1 by (subst qint_tail.simps) auto
qed

lemma length_encode_string: "length s < 2 ^ 62 \<Longrightarrow> length (encode_string s n fl) \<le> 2 * length s + 2"
proof -
  assume "length s < 2 ^ 62"
  then have u: "unat (of_nat (length s) :: u64) = length s" by (intro unat_of_nat_64) simp
  define m :: u64 where "m = push_bit n 1 - 1"
  have "unat ((of_nat (length s) :: u64) - m) \<le> length s" if "\<not> (of_nat (length s) :: u64) < m"
    using that u by (simp add: unat_sub not_less)
  then show ?thesis using length_qint_tail [of "(of_nat (length s) :: u64) - m"]
    unfolding encode_string_def QInt_encode_def m_def [symmetric] Let_def by auto
qed

lemma length_literal_line:
  "length (fst kv) \<le> 1000 \<Longrightarrow> length (snd kv) \<le> 1000 \<Longrightarrow> length (literal_line kv) \<le> 4004"
  using length_encode_string [of "fst kv" 3 "0x20"] length_encode_string [of "snd kv" 7 0]
  by (simp add: literal_line_def)

lemma length_literal_lines:
  "list_all (\<lambda>(k, v). k \<noteq> [] \<and> length k \<le> 1000 \<and> length v \<le> 1000) hs \<Longrightarrow>
     length (concat (map literal_line hs)) \<le> 4004 * length hs"
proof (induction hs)
  case (Cons kv hs)
  then show ?case using length_literal_line [of kv] by auto
qed simp

section \<open>Frames\<close>

lemma h3Frame_tlv: "h3Frame typ p = tlv_enc writeVarInt typ p"
  by (simp add: h3Frame_def appendVarInt_eq tlv_enc_def)

lemma write_tlv_eq:
  assumes "t < 2 ^ 62" and "length p < 2 ^ 62"
  shows "write_tlv t p = Inr (h3Frame t p)"
  unfolding write_tlv_def h3Frame_tlv tlv_enc_def
  using VarInt_write_eq [OF assms(1)] VarInt_write_eq [OF of_nat_less_62 [OF assms(2)]] by simp

lemma readH3Frame_h3Frame:
  assumes "t < 2 ^ 62" and "length p \<le> makeslice_max"
  shows "readH3Frame (h3Frame t p @ r) = Ret (t, p, None, r)"
proof -
  have l: "length p < 2 ^ 62" using assms(2) by (simp add: makeslice_max_def)
  show ?thesis
    unfolding readH3Frame_def h3Frame_tlv tlv_enc_def append_assoc
    using readVarInt_writeVarInt [OF assms(1)] readVarInt_writeVarInt [OF of_nat_less_62 [OF l]]
      unat_of_nat_62 [OF l] assms(2) by simp
qed

text \<open>The frame \<open>Frame.decode\<close> makes of a type and a payload.\<close>

definition frame_of ::
    "(byte list \<Rightarrow> cr_error + string) \<Rightarrow> dyntab \<Rightarrow> u64 \<Rightarrow> byte list \<Rightarrow> cr_error + h3_frame" where
  "frame_of huff t typ p =
     (if typ = 0x00 then Inr (DataFrame p)
      else if typ = 0x01 then
        (case Decoder_decode huff t p of
           Inr hdrs \<Rightarrow> Inr (HeadersFrame hdrs)
         | Inl (QpackBlockedError n) \<Rightarrow> Inr (BlockedHeadersFrame p n)
         | Inl e \<Rightarrow> Inl e)
      else if typ = 0x04 then rbind (settings_decode p []) (\<lambda>s. Inr (SettingsFrame s))
      else if typ = 0x05 then Inr (PushPromiseFrame None)
      else if typ = 0x07 then rbind (VarInt_decode p) (\<lambda>(i, _). Inr (GoAwayFrame i))
      else if typ = 0x0d then rbind (VarInt_decode p) (\<lambda>(i, _). Inr (MaxPushIdFrame i))
      else if typ = 0xF0700 \<or> typ = 0xF0701 then
        rbind (VarInt_decode p) (\<lambda>(i, rest). Inr (PriorityUpdateFrame i (bytes_string rest) (typ = 0xF0700)))
      else Inr (UnknownFrame typ p))"

lemma Frame_decode_h3Frame:
  assumes "typ < 2 ^ 62" and "length p \<le> MAX_FRAME_PAYLOAD"
  shows "Frame_decode huff t (h3Frame typ p @ r) = rbind (frame_of huff t typ p) (\<lambda>f. Inr (f, r))"
proof -
  have l: "length p < 2 ^ 62" using assms(2) by (simp add: MAX_FRAME_PAYLOAD_def)
  show ?thesis
    unfolding Frame_decode_def h3Frame_tlv tlv_enc_def append_assoc
    using VarInt_decode_write [OF assms(1)] VarInt_decode_write [OF of_nat_less_62 [OF l]]
      unat_of_nat_62 [OF l] assms(2)
    by (auto simp: read_fully_def frame_of_def split: sum.splits cr_error.splits)
qed

lemma settings_decode_pairs:
  assumes "\<forall>kv\<in>set kvs. fst kv < 2 ^ 62 \<and> snd kv < 2 ^ 62"
  shows "settings_decode (pairs_enc writeVarInt kvs) acc = Inr (fold (\<lambda>(k, v). AList.update k v) kvs acc)"
  using assms
proof (induction kvs arbitrary: acc)
  case Nil
  then show ?case by (simp add: settings_decode.simps)
next
  case (Cons kv kvs)
  obtain k v where kv: "kv = (k, v)" by fastforce
  have "k < 2 ^ 62" "v < 2 ^ 62" using Cons.prems kv by auto
  note d = VarInt_decode_write [OF this(1)] VarInt_decode_write [OF this(2)] go.enc_nonempty [OF this(1)]
  show ?case using Cons by (subst settings_decode.simps) (simp add: kv d)
qed

lemma settings_payload_eq:
  assumes "\<forall>kv\<in>set kvs. fst kv < 2 ^ 62 \<and> snd kv < 2 ^ 62"
  shows "settings_payload kvs = Inr (pairs_enc writeVarInt kvs)"
  using assms by (induction kvs rule: settings_payload.induct) (simp_all add: VarInt_write_eq)

lemma parse_settings_pairs:
  assumes "\<forall>kv\<in>set kvs. fst kv < 2 ^ 62 \<and> snd kv < 2 ^ 62"
  shows "parse_settings (pairs_enc writeVarInt kvs) m = m ++ map_of (rev kvs)"
  using assms
proof (induction kvs arbitrary: m)
  case Nil
  then show ?case by (simp add: parse_settings.simps)
next
  case (Cons kv kvs)
  obtain k v where kv: "kv = (k, v)" by fastforce
  have b: "k < 2 ^ 62" "v < 2 ^ 62" using Cons.prems kv by auto
  have "parse_settings (pairs_enc writeVarInt (kv # kvs)) m = parse_settings (pairs_enc writeVarInt kvs) (m(k \<mapsto> v))"
    using readVarInt_writeVarInt [OF b(1)] readVarInt_writeVarInt [OF b(2)] go.enc_nonempty [OF b(1)]
    by (subst parse_settings.simps) (simp add: kv)
  also have "\<dots> = m ++ map_of (rev (kv # kvs))" using Cons by (simp add: kv)
  finally show ?case .
qed

section \<open>Malformed request streams\<close>

lemma length_raw_block:
  "length (minimalQPACKHeaders raw_headers3) \<le> MAX_FRAME_PAYLOAD"
  "length (minimalQPACKHeaders raw_headers4) \<le> MAX_FRAME_PAYLOAD"
  by (simp_all add: minimalQPACKHeaders_def minimalQPACKName_def minimalQPACKValue_def raw_headers3_def
      raw_headers4_def appendVarInt_def qpackExtra.simps MAX_FRAME_PAYLOAD_def)

lemma read_request_headers:
  assumes "length (minimalQPACKHeaders hs) \<le> MAX_FRAME_PAYLOAD"
    and "\<forall>h\<in>set hs. length (fst h) < 70 \<and> length (snd h) < 2 ^ 64"
    and "validate_fields hs [] False [] = Inr hdrs"
  shows "read_request huff t (h3Frame 0x01 (minimalQPACKHeaders hs)) =
    (if \<not> (has_key hdrs '':method'' \<and> has_key hdrs '':path'' \<and> has_key hdrs '':scheme'') then
       CloseConn H3_MESSAGE_ERROR ''missing required request pseudo-header''
     else if has_key hdrs '':status'' then CloseConn H3_MESSAGE_ERROR '':status pseudo-header in request''
     else read_body huff t [] hdrs [])"
proof -
  have "\<forall>kv\<in>set hs. length (fst kv) < 2 ^ 64 \<and> length (snd kv) < 2 ^ 64" using assms(2) by auto
  then have "Decoder_decode huff t (minimalQPACKHeaders hs) = Inr hdrs"
    using decode_literal_block [of hs huff t] assms(3) by (simp only: minimalQPACKHeaders_eq [OF assms(2)])
  then have "Frame_decode huff t (h3Frame 0x01 (minimalQPACKHeaders hs) @ []) = Inr (HeadersFrame hdrs, [])"
    by (subst Frame_decode_h3Frame [OF _ assms(1)]) (simp_all add: frame_of_def)
  then show ?thesis by (simp add: read_request_def)
qed

lemma read_request_R1:
  "read_request huff t raw_payload1 = CloseConn H3_FRAME_UNEXPECTED ''DATA frame before HEADERS on request stream''"
proof -
  have "Frame_decode huff t (raw_payload1 @ []) = Inr (DataFrame (string_bytes ''orphan data frame''), [])"
    unfolding raw_payload1_def
    by (subst Frame_decode_h3Frame) (simp_all add: frame_of_def MAX_FRAME_PAYLOAD_def)
  then show ?thesis by (simp add: read_request_def)
qed

lemma read_request_R2:
  "read_request huff t (h3Frame 0x04 []) = CloseConn H3_FRAME_UNEXPECTED ''SETTINGS frame on request stream''"
proof -
  have "Frame_decode huff t (h3Frame 0x04 [] @ []) = Inr (SettingsFrame [], [])"
    by (subst Frame_decode_h3Frame) (simp_all add: frame_of_def MAX_FRAME_PAYLOAD_def settings_decode.simps)
  then show ?thesis by (simp add: read_request_def)
qed

lemma read_request_R3:
  "read_request huff t (h3Frame 0x01 (minimalQPACKHeaders raw_headers3)) =
     CloseConn H3_MESSAGE_ERROR ''missing required request pseudo-header''"
  by (subst read_request_headers [where hdrs = raw_headers3], rule length_raw_block)
     (simp_all add: raw_headers3_def is_pseudo_def has_key_def)

lemma read_request_R4:
  "read_request huff t (h3Frame 0x01 (minimalQPACKHeaders raw_headers4)) =
     CloseConn H3_MESSAGE_ERROR '':status pseudo-header in request''"
  by (subst read_request_headers [where hdrs = raw_headers4], rule length_raw_block)
     (simp_all add: raw_headers4_def is_pseudo_def has_key_def)

lemma read_request_R5:
  "read_request huff t (h3Frame 0x05 (appendVarInt [] 0 @ [0x00, 0x00])) =
     CloseConn H3_ID_ERROR ''client MUST NOT send PUSH_PROMISE''"
proof -
  let ?p = "appendVarInt [] 0 @ [0x00, 0x00]"
  have "Frame_decode huff t (h3Frame 0x05 ?p @ []) = Inr (PushPromiseFrame None, [])"
    by (subst Frame_decode_h3Frame) (simp_all add: frame_of_def MAX_FRAME_PAYLOAD_def appendVarInt_def)
  then show ?thesis by (simp add: read_request_def)
qed

lemmas read_request_raw = read_request_R1 read_request_R2 read_request_R3 read_request_R4 read_request_R5

lemma sendRawH3_open:
  assumes "rc_dial conn = None" and "rc_bidi conn = None"
  shows "\<exists>uni. sendRawH3 conn p = (case rc_end conn uni p of
     Some (ApplicationError code) \<Rightarrow> (True, code) | Some OtherError \<Rightarrow> (True, 0) | None \<Rightarrow> (False, 0))"
  unfolding sendRawH3_def assms option.case Let_def by (rule exI, rule refl)

section \<open>Control stream\<close>

lemma server_settings_small: "\<forall>kv\<in>set server_settings. fst kv < 2 ^ 62 \<and> snd kv < (2 ^ 62 :: u64)"
  by (simp add: server_settings_def)

lemma length_server_settings: "length (pairs_enc writeVarInt server_settings) = 10"
  by (simp add: server_settings_def writeVarInt_def)

lemma writeVarInt_0: "writeVarInt 0 = [0]"
  by (simp add: writeVarInt_def)

lemma init_control_streams:
  "init_h3_control_streams =
     Inr [0 # h3Frame 0x04 (pairs_enc writeVarInt server_settings), [0x02], [0x03]]"
  unfolding init_h3_control_streams_def SettingsFrame_encode_def settings_payload_eq [OF server_settings_small]
  by (simp add: VarInt_write_eq write_tlv_eq length_server_settings) (simp add: writeVarInt_def)

lemma length_writeVarInt: "length (writeVarInt v) \<le> 8"
  by (simp add: writeVarInt_def)

lemma send_goaway_eq:
  assumes "last_id < 2 ^ 62"
  shows "send_goaway last_id ctrl = Inr (ctrl @ h3Frame 0x07 (writeVarInt last_id))"
proof -
  have "length (writeVarInt last_id) < 2 ^ 62" using length_writeVarInt [of last_id] by simp
  then have "write_tlv 0x07 (writeVarInt last_id) = Inr (h3Frame 0x07 (writeVarInt last_id))"
    by (intro write_tlv_eq) simp_all
  then show ?thesis
    unfolding send_goaway_def GoAwayFrame_encode_def VarInt_write_eq [OF assms] by simp
qed

lemma control_stream_read:
  assumes "last_id < 2 ^ 62"
  shows "uni_stream (0 # h3Frame 0x04 (pairs_enc writeVarInt server_settings) @ h3Frame 0x07 (writeVarInt last_id))
      \<lparr>settingsCh = None, goawayCh = None\<rparr> =
    Ret \<lparr>settingsCh = Some (map_of (rev server_settings)), goawayCh = Some last_id\<rparr>"
proof -
  let ?p = "pairs_enc writeVarInt server_settings" and ?g = "writeVarInt last_id"
  have t: "readVarInt (0 # x) = (0, None, x)" for x
    using readVarInt_writeVarInt [of 0 x] by (simp add: writeVarInt_0)
  have p: "length ?p \<le> makeslice_max" by (simp add: length_server_settings makeslice_max_def)
  have g: "length ?g \<le> makeslice_max" using length_writeVarInt [of last_id] by (simp add: makeslice_max_def)
  have 1: "readH3Frame (h3Frame 0x04 ?p @ h3Frame 0x07 ?g) = Ret (0x04, ?p, None, h3Frame 0x07 ?g)"
    by (rule readH3Frame_h3Frame [OF _ p]) simp
  have 2: "readH3Frame (h3Frame 0x07 ?g) = Ret (0x07, ?g, None, [])"
    using readH3Frame_h3Frame [OF _ g, of "0x07" "[]"] by simp
  have 3: "parse_settings ?p Map.empty = map_of (rev server_settings)"
    by (simp only: parse_settings_pairs [OF server_settings_small] empty_map_add)
  have 4: "fst (readVarInt ?g) = last_id" using readVarInt_writeVarInt [OF assms, of "[]"] by simp
  have "control_frames (h3Frame 0x04 ?p @ h3Frame 0x07 ?g) \<lparr>settingsCh = None, goawayCh = None\<rparr>
      = control_frames (h3Frame 0x07 ?g) \<lparr>settingsCh = Some (map_of (rev server_settings)), goawayCh = None\<rparr>"
    by (subst control_frames.simps) (simp add: 1 3 offer_def)
  also have "\<dots> = Ret \<lparr>settingsCh = Some (map_of (rev server_settings)), goawayCh = Some last_id\<rparr>"
    by (subst control_frames.simps) (simp add: 2 4 offer_def)
  finally show ?thesis by (simp add: uni_stream_def t)
qed

lemma qpack_stream_read:
  "uni_stream [0x02] c = Ret c" "uni_stream [0x03] c = Ret c"
  using readVarInt_writeVarInt [of 2 "[]"] readVarInt_writeVarInt [of 3 "[]"]
  by (simp_all add: uni_stream_def writeVarInt_def)

lemma checkSettings_server: "checkSettings (map_of (rev server_settings)) = None"
  by (simp add: checkSettings_def settings_get_def server_settings_def)

lemma suite26_streams:
  assumes "init_h3_control_streams = Inr [ctrl, enc, dec]" and "send_goaway last_id ctrl = Inr ctrl'"
    and "last_id < 2 ^ 62" and "length block \<le> makeslice_max"
  shows "testGoawayAndControlStream
      \<lparr>dial_err = None, uni_in = [ctrl', enc, dec], open_err = None, write_err = None,
       resp_in = h3Frame 0x01 block @ rest\<rparr> = Ret None"
proof -
  have "ctrl' = 0 # h3Frame 0x04 (pairs_enc writeVarInt server_settings) @ h3Frame 0x07 (writeVarInt last_id)"
    and "enc = [0x02]" and "dec = [0x03]"
    using assms(1,2) by (auto simp: init_control_streams send_goaway_eq [OF assms(3)])
  then have u: "uni_streams [ctrl', enc, dec] \<lparr>settingsCh = None, goawayCh = None\<rparr>
      = Ret \<lparr>settingsCh = Some (map_of (rev server_settings)), goawayCh = Some last_id\<rparr>"
    by (simp add: control_stream_read [OF assms(3)] qpack_stream_read)
  have r: "readH3Frame (h3Frame 0x01 block @ rest) = Ret (0x01, block, None, rest)"
    by (rule readH3Frame_h3Frame [OF _ assms(4)]) simp
  show ?thesis
    unfolding testGoawayAndControlStream_def raw_env.simps option.case u go_result.case ctl.simps
      checkSettings_server r prod.case by simp
qed

lemma raw_rejections:
  assumes "rc_dial conn = None" and "rc_bidi conn = None"
    and "\<And>uni p code m. read_request huff t p = CloseConn code m \<Longrightarrow>
           rc_end conn uni p = Some (ApplicationError code) \<or> rc_end conn uni p = Some OtherError"
  shows "list_all (\<lambda>tst. \<exists>r. tst conn = Ret r \<and> res_passed r)
           [testDataBeforeHeaders, testSettingsOnRequestStream, testMissingMethod,
            testStatusInRequest, testPushPromiseOnRequestStream]"
proof -
  have s: "sendRawH3 conn p = (True, code) \<or> sendRawH3 conn p = (True, 0)"
    if "read_request huff t p = CloseConn code m" for p code m
  proof -
    obtain uni where "sendRawH3 conn p = (case rc_end conn uni p of
        Some (ApplicationError code) \<Rightarrow> (True, code) | Some OtherError \<Rightarrow> (True, 0) | None \<Rightarrow> (False, 0))"
      using sendRawH3_open [OF assms(1,2)] by blast
    then show ?thesis using assms(3) [OF that, of uni] by auto
  qed
  have c: "h3ErrFrameUnexpected = H3_FRAME_UNEXPECTED" "h3ErrMessageError = H3_MESSAGE_ERROR"
    by (simp_all add: h3ErrFrameUnexpected_def h3ErrMessageError_def H3_FRAME_UNEXPECTED_def H3_MESSAGE_ERROR_def)
  note o = s [OF read_request_R1] s [OF read_request_R2] s [OF read_request_R3] s [OF read_request_R4]
    s [OF read_request_R5]
  have "\<exists>r. testDataBeforeHeaders conn = Ret r \<and> res_passed r"
    "\<exists>r. testSettingsOnRequestStream conn = Ret r \<and> res_passed r"
    using o(1,2) by (auto simp: testDataBeforeHeaders_def testSettingsOnRequestStream_def c pass_def pass_text_def)
  moreover have "\<exists>r. testMissingMethod conn = Ret r \<and> res_passed r"
    "\<exists>r. testStatusInRequest conn = Ret r \<and> res_passed r"
    using o(3,4) by (auto simp: testMissingMethod_def testStatusInRequest_def c pass_def pass_text_def)
  moreover have "\<exists>r. testPushPromiseOnRequestStream conn = Ret r \<and> res_passed r"
    using o(5) by (auto simp: testPushPromiseOnRequestStream_def c pass_def pass_text_def)
  ultimately show ?thesis by simp
qed

section \<open>Properties\<close>

text \<open>
  C17. Framing interoperates in both directions: for a type below \<open>2 ^ 62\<close> and a payload the server
  accepts, the bytes the Crystal frames write are those of \<open>h3Frame\<close>, \<open>readH3Frame\<close> reads
  them back with whatever follows untouched, and \<open>Frame.decode\<close> makes of them the frame of that
  type and payload, or the error of the payload.
\<close>

theorem h3_framing_interoperates:
  assumes "typ < 2 ^ 62" and "length p \<le> MAX_FRAME_PAYLOAD"
  shows "write_tlv typ p = Inr (h3Frame typ p) \<and>
    readH3Frame (h3Frame typ p @ r) = Ret (typ, p, None, r) \<and>
    Frame_decode huff t (h3Frame typ p @ r) = rbind (frame_of huff t typ p) (\<lambda>f. Inr (f, r))"
proof -
  have "length p < 2 ^ 62" and "length p \<le> makeslice_max"
    using assms(2) by (simp_all add: MAX_FRAME_PAYLOAD_def makeslice_max_def)
  then show ?thesis
    using write_tlv_eq [OF assms(1)] readH3Frame_h3Frame [OF assms(1)] Frame_decode_h3Frame [OF assms] by blast
qed

theorem h3_framing_interoperates_witness:
  "write_tlv 0x21 [1, 2, 3] = Inr (h3Frame 0x21 [1, 2, 3]) \<and>
   readH3Frame (h3Frame 0x21 [1, 2, 3] @ [9]) = Ret (0x21, [1, 2, 3], None, [9]) \<and>
   Frame_decode (\<lambda>_. Inl EOFError) dyntab_new (h3Frame 0x21 [1, 2, 3] @ [9])
     = rbind (frame_of (\<lambda>_. Inl EOFError) dyntab_new 0x21 [1, 2, 3]) (\<lambda>f. Inr (f, [9]))"
  by (rule h3_framing_interoperates) (simp_all add: MAX_FRAME_PAYLOAD_def)

text \<open>
  C18. A header block built by \<open>minimalQPACKHeaders\<close> of the injection tests (names
  shorter than 70 bytes) is read by the server's QPACK decoder, in any state of its
  dynamic table, to exactly the given fields, subject to the validation of the pseudo-headers.
\<close>

theorem minimalQPACKHeaders_decoded:
  assumes "\<forall>h\<in>set hs. length (fst h) < 70 \<and> length (snd h) < 2 ^ 64"
  shows "Decoder_decode huff t (minimalQPACKHeaders hs) = validate_fields hs [] False []"
proof -
  have "\<forall>kv\<in>set hs. length (fst kv) < 2 ^ 64 \<and> length (snd kv) < 2 ^ 64" using assms by auto
  then show ?thesis using decode_literal_block [of hs huff t] by (simp only: minimalQPACKHeaders_eq [OF assms])
qed

theorem minimalQPACKHeaders_decoded_witness:
  "Decoder_decode (\<lambda>_. Inl EOFError) dyntab_new
     (minimalQPACKHeaders [('':path'', ''/''), (''x-a'', ''b''), ('':method'', ''GET'')])
   = Inl (ValidationError ''pseudo-header appears after regular header'')"
  by (subst minimalQPACKHeaders_decoded) (simp_all add: is_pseudo_def)

text \<open>
  C19. The five rejection tests of phase 3 pass against the server: when the dial and the request
  stream succeed and the connection ends, whenever the request reader closes it, with that
  application error or with an error without application code, every one of the five tests passes.
\<close>

theorem cross_rejections_pass:
  assumes "rc_dial conn = None" and "rc_bidi conn = None"
    and "\<And>uni p code m. read_request huff t p = CloseConn code m \<Longrightarrow>
           rc_end conn uni p = Some (ApplicationError code) \<or> rc_end conn uni p = Some OtherError"
  shows "list_all (\<lambda>tst. \<exists>r. tst conn = Ret r \<and> res_passed r)
           [testDataBeforeHeaders, testSettingsOnRequestStream, testMissingMethod,
            testStatusInRequest, testPushPromiseOnRequestStream]"
  by (rule raw_rejections [OF assms])

definition demo_conn :: raw_conn where
  "demo_conn = \<lparr>rc_dial = None, rc_uni = \<lambda>_. None, rc_bidi = None,
     rc_end = \<lambda>uni p. case read_request (\<lambda>_. Inl EOFError) dyntab_new p of
                CloseConn code m \<Rightarrow> Some (ApplicationError code) | _ \<Rightarrow> None\<rparr>"

theorem cross_rejections_pass_witness:
  "list_all (\<lambda>tst. \<exists>r. tst demo_conn = Ret r \<and> res_passed r)
     [testDataBeforeHeaders, testSettingsOnRequestStream, testMissingMethod,
      testStatusInRequest, testPushPromiseOnRequestStream]"
  by (rule cross_rejections_pass [where huff = "\<lambda>_. Inl EOFError" and t = dyntab_new])
     (simp_all add: demo_conn_def)

text \<open>
  C20. Suite 26 passes against the server: with a connection that delivers the unidirectional
  streams the connection actor opens, the GOAWAY frame of \<open>send_goaway\<close> on the control stream
  and a HEADERS frame as the response, \<open>testGoawayAndControlStream\<close> returns no error.
\<close>

theorem suite26_passes:
  assumes "init_h3_control_streams = Inr [ctrl, enc, dec]" and "send_goaway last_id ctrl = Inr ctrl'"
    and "last_id < 2 ^ 62" and "length block \<le> makeslice_max"
  shows "testGoawayAndControlStream
      \<lparr>dial_err = None, uni_in = [ctrl', enc, dec], open_err = None, write_err = None,
       resp_in = h3Frame 0x01 block @ rest\<rparr> = Ret None"
  by (rule suite26_streams [OF assms])

theorem suite26_passes_witness:
  "testGoawayAndControlStream
     \<lparr>dial_err = None,
      uni_in = [0 # h3Frame 0x04 (pairs_enc writeVarInt server_settings) @ h3Frame 0x07 (writeVarInt 4), [0x02], [0x03]],
      open_err = None, write_err = None, resp_in = h3Frame 0x01 [0x00, 0x00, 0xD9] @ []\<rparr> = Ret None"
  by (rule suite26_passes [OF init_control_streams, where last_id = 4])
     (simp_all add: send_goaway_eq makeslice_max_def)

end
