(* ===== verification/Go_Suites.thy ===== *)
theory Go_Suites
  imports Go_Harness Go_Raw
begin

text \<open>
  The 28 suites of bench/go_client/main.go and its \<open>main\<close>. A list of test cases is a
  constant; a suite is a step on the three counters of \<open>main\<close>. What quic-go and the
  server answer is in the environment: for each run its client, the delivery order of
  its goroutines, the outcomes of the raw connections. Printing is left out; the
  lines collected in \<open>allFailures\<close> and the exit code are kept.
\<close>

section \<open>Test cases\<close>

text \<open>A struct literal: the fields not given are zero.\<close>

definition tcase ::
    "string \<Rightarrow> string \<Rightarrow> string \<Rightarrow> (int \<Rightarrow> string \<Rightarrow> http_header \<Rightarrow> go_error option) \<Rightarrow> testCase" where
  "tcase nm method path check =
     \<lparr>tc_name = nm, tc_method = method, tc_path = path, tc_body = [], tc_headers = [],
      tc_timeout = 0, tc_check = check\<rparr>"

text \<open>The test of the status that opens most checks, and the check of the ping suites.\<close>

definition want_status :: "int \<Rightarrow> int \<Rightarrow> go_error option \<Rightarrow> go_error option" where
  "want_status want status rest =
     (if status \<noteq> want then Some (Errorf (''expected '' @ show_int want @ '', got %d'') [VInt status]) else rest)"

definition check_pong :: "int \<Rightarrow> string \<Rightarrow> http_header \<Rightarrow> go_error option" where
  "check_pong status body headers =
     (if status \<noteq> 200 \<or> body \<noteq> ''pong'' then
        Some (Errorf ''expected 200/pong, got %d/%q'' [VInt status, VStr body])
      else None)"

definition suite1_tests :: "testCase list" where
  "suite1_tests =
     [tcase ''GET /'' ''GET'' ''/''
        (expectStatusBody 200 ''quic.cr''),
      tcase ''GET /healthz'' ''GET'' ''/healthz''
        (\<lambda>status body headers. want_status 200 status
          (if \<not> contains body ''status'' \<or> \<not> contains body ''ok'' then
            Some (Errorf ''unexpected body: %q'' [VStr body])
          else None)),
      tcase ''GET /ping'' ''GET'' ''/ping''
        (\<lambda>status body headers. want_status 200 status
          (if body \<noteq> ''pong'' then
            Some (Errorf (''expected '' @ [CHR 0x22] @ ''pong'' @ [CHR 0x22] @ '', got %q'') [VStr body])
          else None)),
      tcase ''GET /method'' ''GET'' ''/method''
        (\<lambda>status body headers. want_status 200 status
          (if body \<noteq> ''GET'' then
            Some (Errorf (''expected '' @ [CHR 0x22] @ ''GET'' @ [CHR 0x22] @ '', got %q'') [VStr body])
          else None)),
      (tcase ''POST /echo plain'' ''POST'' ''/echo''
        (expectStatusBody 200 ''hello from quic-go''))
        \<lparr>tc_body := ''hello from quic-go''\<rparr>,
      (tcase ''PUT /echo'' ''PUT'' ''/echo''
        (expectStatusBody 200 ''put-payload''))
        \<lparr>tc_body := ''put-payload''\<rparr>,
      (tcase ''PATCH /echo'' ''PATCH'' ''/echo''
        (expectStatusBody 200 ''patch-payload''))
        \<lparr>tc_body := ''patch-payload''\<rparr>,
      tcase ''DELETE /resource'' ''DELETE'' ''/resource''
        (expectStatus 204),
      tcase ''HEAD /'' ''HEAD'' ''/''
        (\<lambda>status body headers. want_status 200 status
          (if length body \<noteq> 0 then
            Some (Errorf ''HEAD must have empty body, got %d bytes'' [VInt (int (length body))])
          else if Header_Get headers ''x-server'' \<noteq> ''quic.cr'' then
            Some (Errorf ''expected x-server: quic.cr, got %q'' [VStr (Header_Get headers ''x-server'')])
          else None))]"

definition suite2_tests :: "testCase list" where
  "suite2_tests =
     [tcase ''GET /status/200'' ''GET'' ''/status/200''
        (expectStatus 200),
      tcase ''GET /status/201'' ''GET'' ''/status/201''
        (expectStatus 201),
      tcase ''GET /status/400'' ''GET'' ''/status/400''
        (expectStatus 400),
      tcase (''GET /not-found-xyz '' @ arrow @ '' 404'') ''GET'' ''/not-found-xyz''
        (expectStatus 404),
      tcase ''GET /status/500'' ''GET'' ''/status/500''
        (expectStatus 500)]"

definition suite3_tests :: "testCase list" where
  "suite3_tests =
     [tcase ''GET /large 1MB'' ''GET'' ''/large?n=1048576''
        (expectBodyLen 200 1048570),
      (tcase ''POST /echo 64KB'' ''POST'' ''/echo''
        (expectBodyLen 200 65530))
        \<lparr>tc_body := Repeat ''x'' 65536\<rparr>,
      (tcase ''POST /echo 256KB'' ''POST'' ''/echo''
        (expectBodyLen 200 262130))
        \<lparr>tc_body := Repeat ''y'' 262144\<rparr>,
      (tcase ''POST /upload 128KB'' ''POST'' ''/upload''
        (expectStatusBody 200 ([CHR 0x22] @ ''received'' @ [CHR 0x22] @ '':131072'')))
        \<lparr>tc_body := Repeat ''z'' 131072\<rparr>]"

definition suite4_tests :: "testCase list" where
  "suite4_tests =
     [tcase ''GET /echo-headers'' ''GET'' ''/echo-headers''
        (\<lambda>status body headers. want_status 200 status
          (if \<not> contains body '':'' then
            Some (Errorf (''expected JSON with '' @ [CHR 0x27] @ '':'' @ [CHR 0x27] @ '' in body, got %q'') [VStr (truncate_str body 80)])
          else None)),
      tcase ''Content-Type text'' ''GET'' ''/ping''
        (\<lambda>status body headers. want_status 200 status
          (if \<not> contains (Header_Get headers ''content-type'') ''text/plain'' then
            Some (Errorf ''expected content-type text/plain, got %q'' [VStr (Header_Get headers ''content-type'')])
          else None)),
      tcase ''Content-Type json'' ''GET'' ''/healthz''
        (\<lambda>status body headers. want_status 200 status
          (if \<not> contains (Header_Get headers ''content-type'') ''application/json'' then
            Some (Errorf ''expected content-type application/json, got %q'' [VStr (Header_Get headers ''content-type'')])
          else None))]"

definition suite5_tests :: "testCase list" where
  "suite5_tests =
     [tcase ''GET /ping'' ''GET'' ''/ping''
        (check_pong)]"

definition suite6_tests :: "testCase list" where
  "suite6_tests =
     [(tcase ''POST /echo 4KB'' ''POST'' ''/echo''
        (expectStatusBody 200 ''aaa''))
        \<lparr>tc_body := Repeat ''a'' 4096\<rparr>]"

definition suite7_tests :: "testCase list" where
  "suite7_tests =
     [tcase ''GET /large 64KB'' ''GET'' ''/large?n=65536''
        (expectBodyLen 200 65530)]"

definition suite8_tests :: "testCase list" where
  "suite8_tests =
     [tcase ''GET /ping'' ''GET'' ''/ping''
        (check_pong)]"

definition suite9_tests :: "testCase list" where
  "suite9_tests =
     [tcase ''GET /'' ''GET'' ''/''
        (expectStatusBody 200 ''quic.cr''),
      tcase ''GET /healthz'' ''GET'' ''/healthz''
        (expectStatus 200),
      (tcase ''POST /echo'' ''POST'' ''/echo''
        (expectStatusBody 200 ''conn-hello''))
        \<lparr>tc_body := ''conn-hello''\<rparr>,
      tcase ''GET /ping'' ''GET'' ''/ping''
        (expectStatusBody 200 ''pong''),
      tcase ''GET /healthz 2'' ''GET'' ''/healthz''
        (expectStatus 200)]"

definition suite10_tests :: "testCase list" where
  "suite10_tests =
     [tcase ''GET /'' ''GET'' ''/''
        (expectStatusBody 200 ''quic.cr''),
      tcase ''GET /healthz'' ''GET'' ''/healthz''
        (expectStatus 200),
      (tcase ''POST /echo quicv2'' ''POST'' ''/echo''
        (expectStatusBody 200 ''quicv2-test''))
        \<lparr>tc_body := ''quicv2-test''\<rparr>,
      tcase ''GET /ping'' ''GET'' ''/ping''
        (check_pong)]"

definition suite11_tests :: "(byte list \<Rightarrow> byte list) \<Rightarrow> testCase list" where
  "suite11_tests Sum256 =
     [(tcase ''POST /echo exact 1KB match'' ''POST'' ''/echo''
        (\<lambda>status body headers. want_status 200 status
          (if body \<noteq> Repeat ''abcdefghij'' 100 then
            Some (Errorf ''echo mismatch: sent %d bytes, got %d bytes'' [VInt (int (length (Repeat ''abcdefghij'' 100))), VInt (int (length body))])
          else None)))
        \<lparr>tc_body := Repeat ''abcdefghij'' 100\<rparr>,
      (tcase ''POST /digest SHA256 correctness'' ''POST'' ''/digest''
        (\<lambda>status body headers. want_status 200 status
          (if \<not> contains body (sha256hex Sum256 ''hello world'') then
            Some (Errorf ''sha256 mismatch: want %q in body %q'' [VStr (sha256hex Sum256 ''hello world''), VStr (truncate_str body 120)])
          else if \<not> contains body ([CHR 0x22] @ ''size'' @ [CHR 0x22] @ '':11'') then
            Some (Errorf ''expected size=11 in body %q'' [VStr (truncate_str body 120)])
          else None)))
        \<lparr>tc_body := ''hello world''\<rparr>,
      tcase (''GET /repeat 100'' @ times_sign @ ''A'') ''GET'' ''/repeat?n=100&c=A''
        (\<lambda>status body headers. want_status 200 status
          (if body \<noteq> Repeat ''A'' 100 then
            Some (Errorf (''repeat mismatch: want %d '' @ [CHR 0x27] @ ''A'' @ [CHR 0x27] @ ''s, got %q'') [VInt 100, VStr (truncate_str body 40)])
          else None))]"

definition suite12_tests :: "testCase list" where
  "suite12_tests =
     [(tcase ''GET /large 10MB'' ''GET'' ''/large?n=10485760''
        (expectBodyLen 200 10485750))
        \<lparr>tc_timeout := 60 * Second\<rparr>]"

definition suite13_tests :: "testCase list" where
  "suite13_tests =
     [(tcase ''custom x-request-id echoed'' ''GET'' ''/echo-headers''
        (\<lambda>status body headers. want_status 200 status
          (if \<not> contains body ''test-abc-123'' then
            Some (Errorf ''expected x-request-id value in body, got %q'' [VStr (truncate_str body 120)])
          else None)))
        \<lparr>tc_headers := [(''x-request-id'', ''test-abc-123'')]\<rparr>,
      (tcase ''custom x-trace-id echoed'' ''GET'' ''/echo-headers''
        (\<lambda>status body headers. want_status 200 status
          (if \<not> contains body ''trace-xyz-789'' then
            Some (Errorf ''expected x-trace-id value in body, got %q'' [VStr (truncate_str body 120)])
          else None)))
        \<lparr>tc_headers := [(''x-trace-id'', ''trace-xyz-789'')]\<rparr>,
      (tcase ''multiple custom headers echoed'' ''GET'' ''/echo-headers''
        (\<lambda>status body headers. want_status 200 status
          (if \<not> contains body ''v1.2.3'' then
            Some (Errorf ''expected x-client-version value in body, got %q'' [VStr (truncate_str body 120)])
          else if \<not> contains body ''eu-west-1'' then
            Some (Errorf ''expected x-region value in body, got %q'' [VStr (truncate_str body 120)])
          else None)))
        \<lparr>tc_headers := [(''x-client-version'', ''v1.2.3''), (''x-region'', ''eu-west-1'')]\<rparr>]"

definition suite14_tests :: "testCase list" where
  "suite14_tests =
     [(tcase ''POST /echo sequential'' ''POST'' ''/echo''
        (expectStatusBody 200 ''pipeline-test''))
        \<lparr>tc_body := ''pipeline-test''\<rparr>]"

definition suite15_tests :: "testCase list" where
  "suite15_tests =
     [tcase ''GET /large 64KB (mix)'' ''GET'' ''/large?n=65536''
        (expectBodyLen 200 65530),
      tcase ''GET /ping (mix)'' ''GET'' ''/ping''
        (check_pong)]"

definition suite18_tests :: "(byte list \<Rightarrow> byte list) \<Rightarrow> testCase list" where
  "suite18_tests Sum256 =
     [(tcase ''POST /digest 11 bytes'' ''POST'' ''/digest''
        (\<lambda>status body headers. want_status 200 status
          (if \<not> contains body (sha256hex Sum256 ''hello world'') then
            Some (Errorf ''sha256 mismatch: want %q, body=%q'' [VStr (sha256hex Sum256 ''hello world''), VStr (truncate_str body 120)])
          else None)))
        \<lparr>tc_body := ''hello world''\<rparr>,
      (tcase (''POST /digest 64 bytes of '' @ [CHR 0x27] @ ''a'' @ [CHR 0x27]) ''POST'' ''/digest''
        (\<lambda>status body headers. want_status 200 status
          (if \<not> contains body (sha256hex Sum256 (Repeat ''a'' 64)) then
            Some (Errorf ''sha256 mismatch: want %q, body=%q'' [VStr (sha256hex Sum256 (Repeat ''a'' 64)), VStr (truncate_str body 120)])
          else if \<not> contains body ([CHR 0x22] @ ''size'' @ [CHR 0x22] @ '':64'') then
            Some (Errorf ''expected size=64 in body %q'' [VStr (truncate_str body 120)])
          else None)))
        \<lparr>tc_body := Repeat ''a'' 64\<rparr>,
      (tcase (''POST /digest 1KB of '' @ [CHR 0x27] @ ''x'' @ [CHR 0x27]) ''POST'' ''/digest''
        (\<lambda>status body headers. want_status 200 status
          (if \<not> contains body (sha256hex Sum256 (Repeat ''x'' 1024)) then
            Some (Errorf ''sha256 mismatch: want %q, body=%q'' [VStr (sha256hex Sum256 (Repeat ''x'' 1024)), VStr (truncate_str body 120)])
          else if \<not> contains body ([CHR 0x22] @ ''size'' @ [CHR 0x22] @ '':1024'') then
            Some (Errorf ''expected size=1024 in body %q'' [VStr (truncate_str body 120)])
          else None)))
        \<lparr>tc_body := Repeat ''x'' 1024\<rparr>]"

definition suite19_tests :: "testCase list" where
  "suite19_tests =
     map (\<lambda>i. tcase (''concurrent GET /ping #'' @ show_nat (i + 1)) ''GET'' ''/ping''
            (\<lambda>status body headers. want_status 200 status
               (if \<not> contains body ''pong'' then
                  Some (Errorf (''expected '' @ [CHR 0x27] @ ''pong'' @ [CHR 0x27] @ '' in body, got %q'') [VStr (truncate_str body 60)])
                else None)))
       [0 ..< 100]"

definition suite20_tests :: "(byte list \<Rightarrow> byte list) \<Rightarrow> testCase list" where
  "suite20_tests Sum256 =
     [(tcase ''POST /digest 1 MB payload'' ''POST'' ''/digest''
        (\<lambda>status body headers. want_status 200 status
          (if \<not> contains body (sha256hex Sum256 (Repeat ''Z'' 1048576)) then
            Some (Errorf ''sha256 mismatch: want %s, body=%q'' [VStr (sha256hex Sum256 (Repeat ''Z'' 1048576)), VStr (truncate_str body 120)])
          else if \<not> contains body ([CHR 0x22] @ ''size'' @ [CHR 0x22] @ '':1048576'') then
            Some (Errorf ''expected size=1048576 in body %q'' [VStr (truncate_str body 120)])
          else None)))
        \<lparr>tc_body := Repeat ''Z'' 1048576, tc_timeout := 60 * Second\<rparr>,
      (tcase ''POST /digest empty body'' ''POST'' ''/digest''
        (\<lambda>status body headers. want_status 200 status
          (if \<not> contains body (sha256hex Sum256 []) then
            Some (Errorf ''sha256 mismatch for empty body: want %s, body=%q'' [VStr (sha256hex Sum256 []), VStr (truncate_str body 120)])
          else None)))
        \<lparr>tc_body := []\<rparr>]"

definition suite21_tests :: "testCase list" where
  "suite21_tests =
     [tcase (''GET /nonexistent '' @ arrow @ '' 404'') ''GET'' ''/nonexistent-path-xyz''
        (\<lambda>status body headers. want_status 404 status None),
      tcase (''GET /status/404 '' @ arrow @ '' 404'') ''GET'' ''/status/404''
        (\<lambda>status body headers. want_status 404 status None),
      tcase (''GET /status/500 '' @ arrow @ '' 500'') ''GET'' ''/status/500''
        (\<lambda>status body headers. want_status 500 status None),
      tcase (''GET /status/503 '' @ arrow @ '' 503'') ''GET'' ''/status/503''
        (\<lambda>status body headers. want_status 503 status None),
      tcase (''GET /status/201 '' @ arrow @ '' 201'') ''GET'' ''/status/201''
        (\<lambda>status body headers. want_status 201 status None),
      tcase (''GET /status/302 '' @ arrow @ '' 302'') ''GET'' ''/status/302''
        (\<lambda>status body headers. want_status 302 status None),
      (tcase ''POST /echo empty body'' ''POST'' ''/echo''
        (\<lambda>status body headers. want_status 200 status None))
        \<lparr>tc_body := []\<rparr>,
      tcase (''GET /repeat n=0 '' @ arrow @ '' empty body'') ''GET'' ''/repeat?n=0&c=x''
        (\<lambda>status body headers. want_status 200 status
          (if body \<noteq> [] then
            Some (Errorf ''expected empty body, got %q'' [VStr (truncate_str body 60)])
          else None)),
      tcase (''GET /repeat n=1 c=Z '' @ arrow @ '' single char'') ''GET'' ''/repeat?n=1&c=Z''
        (\<lambda>status body headers. want_status 200 status
          (if body \<noteq> ''Z'' then
            Some (Errorf (''expected '' @ [CHR 0x27] @ ''Z'' @ [CHR 0x27] @ '', got %q'') [VStr (truncate_str body 60)])
          else None)),
      tcase (''GET /slow?ms=0 '' @ arrow @ '' instant'') ''GET'' ''/slow?ms=0''
        (\<lambda>status body headers. want_status 200 status None)]"

definition suite22_tests :: "testCase list" where
  "suite22_tests =
     [tcase (''GET /push-demo '' @ em_dash @ '' no H3_ID_ERROR when push not authorised'') ''GET'' ''/push-demo''
        (\<lambda>status body headers. want_status 200 status
          (if \<not> contains body ''main response'' then
            Some (Errorf ''unexpected body: %q'' [VStr (truncate_str body 80)])
          else None)),
      tcase (''GET /push-demo '' @ times_sign @ '' 5 sequential '' @ em_dash @ '' stable without push'') ''GET'' ''/push-demo''
        (\<lambda>status body headers. want_status 200 status None),
      tcase (''GET /push-demo concurrent '' @ times_sign @ '' 10 '' @ em_dash @ '' no connection corruption'') ''GET'' ''/push-demo''
        (\<lambda>status body headers. want_status 200 status None)]"

definition suite24_sizes :: "nat list" where
  "suite24_sizes = [1000, 1200, 1300, 1400, 1450, 1472, 1500, 2048, 4096, 8192]"

definition suite24_tests :: "testCase list" where
  "suite24_tests =
     map (\<lambda>sz. (tcase (''POST /echo '' @ show_nat sz @ '' bytes (MTU probe)'') ''POST'' ''/echo''
            (\<lambda>status body headers. want_status 200 status
               (if length body \<noteq> sz then
                  Some (Errorf ''expected %d bytes, got %d'' [VInt (int sz), VInt (int (length body))])
                else None)))\<lparr>tc_body := Repeat ''M'' sz\<rparr>)
       suite24_sizes"

section \<open>The state and the environment of main\<close>

record main_state =
  totalPassed :: int
  totalTests :: int
  allFailures :: "go_text list"

record dgram_env =
  dg_dial :: "go_error option"
  dg_send :: "byte list \<Rightarrow> go_error option"
  dg_receive :: "byte list \<Rightarrow> go_error + byte list"

record zrtt_env =
  z_dial1 :: "go_error option"
  z_open1 :: "go_error option"
  z_dial2 :: "go_error option"
  z_open2 :: "go_error option"
  z_handshake :: bool
  z_used0RTT :: bool

record main_env =
  me_host :: string
  me_port :: int
  me_n :: int
  me_client :: "nat \<Rightarrow> client"
  me_conn :: "nat \<Rightarrow> nat \<Rightarrow> client"
  me_picks :: "nat \<Rightarrow> nat list"
  me_elapsed17 :: int
  me_dgram :: "nat \<Rightarrow> dgram_env"
  me_raw :: raw_env
  me_zrtt :: zrtt_env
  me_sum256 :: "byte list \<Rightarrow> byte list"

definition me_base :: "main_env \<Rightarrow> string" where
  "me_base e = ''https://'' @ me_host e @ '':'' @ show_int (me_port e)"

definition add :: "int \<Rightarrow> int \<Rightarrow> main_state \<Rightarrow> main_state" where
  "add p t s = s\<lparr>totalPassed := totalPassed s + p, totalTests := totalTests s + t\<rparr>"

text \<open>\<open>add(run...(..., &allFailures))\<close>\<close>

definition add_run :: "(int \<times> int \<times> go_text list) go_result \<Rightarrow> main_state \<Rightarrow> main_state go_result" where
  "add_run r s =
     (case r of Panic m \<Rightarrow> Panic m
      | Ret (p, t, fails) \<Rightarrow> Ret (add p t (s\<lparr>allFailures := fails\<rparr>)))"

section \<open>The suites\<close>

definition suite1 :: "main_env \<Rightarrow> main_state \<Rightarrow> main_state go_result" where
  "suite1 e s =
     add_run (runParallel ''HTTP Verbs'' (me_client e 1) (me_picks e 1) (me_base e) suite1_tests (me_n e) (allFailures s)) s"

definition suite2 :: "main_env \<Rightarrow> main_state \<Rightarrow> main_state go_result" where
  "suite2 e s =
     add_run (runParallel ''Status Codes'' (me_client e 2) (me_picks e 2) (me_base e) suite2_tests (me_n e) (allFailures s)) s"

definition suite3 :: "main_env \<Rightarrow> main_state \<Rightarrow> main_state go_result" where
  "suite3 e s =
     add_run (runParallel ''Large Data'' (me_client e 3) (me_picks e 3) (me_base e) suite3_tests (me_n e) (allFailures s)) s"

definition suite4 :: "main_env \<Rightarrow> main_state \<Rightarrow> main_state go_result" where
  "suite4 e s =
     add_run (runParallel ''Response Headers'' (me_client e 4) (me_picks e 4) (me_base e) suite4_tests (me_n e) (allFailures s)) s"

definition suite5 :: "main_env \<Rightarrow> main_state \<Rightarrow> main_state go_result" where
  "suite5 e s =
     add_run (runParallel (''Concurrent GET '' @ times_sign @ ''50'') (me_client e 5) (me_picks e 5) (me_base e) suite5_tests (wrap64 (50 * me_n e)) (allFailures s)) s"

definition suite6 :: "main_env \<Rightarrow> main_state \<Rightarrow> main_state go_result" where
  "suite6 e s =
     add_run (runParallel (''Concurrent POST '' @ times_sign @ ''20'') (me_client e 6) (me_picks e 6) (me_base e) suite6_tests (wrap64 (20 * me_n e)) (allFailures s)) s"

definition suite7 :: "main_env \<Rightarrow> main_state \<Rightarrow> main_state go_result" where
  "suite7 e s =
     add_run (runParallel (''Concurrent Large '' @ times_sign @ ''10'') (me_client e 7) (me_picks e 7) (me_base e) suite7_tests (wrap64 (10 * me_n e)) (allFailures s)) s"

definition suite8 :: "main_env \<Rightarrow> main_state \<Rightarrow> main_state go_result" where
  "suite8 e s =
     add_run (Ret (runSerial ''Sequential Load 200 reqs (Key Update)'' (me_client e 8) (me_base e) suite8_tests (wrap64 (200 * me_n e)) (allFailures s))) s"

text \<open>Suite 9: five connections in turn; the counters are \<open>int32\<close>.\<close>

record conn_count =
  connPassed :: int
  connTotal :: int
  connFails :: "go_text list"

definition suite9_conn :: "client \<Rightarrow> string \<Rightarrow> nat \<Rightarrow> conn_count \<Rightarrow> conn_count" where
  "suite9_conn c base i st =
     foldl (\<lambda>st (j, tc).
         let st = st\<lparr>connTotal := wrap32 (connTotal st + 1)\<rparr>
         in case doRequest c j base tc of
              None \<Rightarrow> st\<lparr>connPassed := wrap32 (connPassed st + 1)\<rparr>
            | Some err \<Rightarrow>
                st\<lparr>connFails := connFails st @
                     [Errorf ''MultiConn conn%d/%s: %v'' [VInt (int i), VStr (tc_name tc), VErr err]]\<rparr>)
       st (enumerate 0 suite9_tests)"

definition suite9 :: "main_env \<Rightarrow> main_state \<Rightarrow> main_state go_result" where
  "suite9 e s =
     (let st = foldl (\<lambda>st i. suite9_conn (me_conn e 9 i) (me_base e) i st)
                 \<lparr>connPassed = 0, connTotal = 0, connFails = allFailures s\<rparr> [0 ..< 5]
      in Ret (add (connPassed st) (connTotal st) (s\<lparr>allFailures := connFails st\<rparr>)))"

definition suite10 :: "main_env \<Rightarrow> main_state \<Rightarrow> main_state go_result" where
  "suite10 e s =
     add_run (runParallel ''QUIC v2 (RFC 9369)'' (me_client e 10) (me_picks e 10) (me_base e) suite10_tests (me_n e) (allFailures s)) s"

definition suite11 :: "main_env \<Rightarrow> main_state \<Rightarrow> main_state go_result" where
  "suite11 e s =
     add_run (runParallel ''Data Integrity'' (me_client e 11) (me_picks e 11) (me_base e) (suite11_tests (me_sum256 e)) (me_n e) (allFailures s)) s"

definition suite12 :: "main_env \<Rightarrow> main_state \<Rightarrow> main_state go_result" where
  "suite12 e s =
     add_run (runParallel ''10MB Large Transfer'' (me_client e 12) (me_picks e 12) (me_base e) suite12_tests (me_n e) (allFailures s)) s"

definition suite13 :: "main_env \<Rightarrow> main_state \<Rightarrow> main_state go_result" where
  "suite13 e s =
     add_run (runParallel ''Custom Request Headers'' (me_client e 13) (me_picks e 13) (me_base e) suite13_tests (me_n e) (allFailures s)) s"

definition suite14 :: "main_env \<Rightarrow> main_state \<Rightarrow> main_state go_result" where
  "suite14 e s =
     add_run (Ret (runSerial ''Sequential 100 Reqs (pipelining)'' (me_client e 14) (me_base e) suite14_tests (wrap64 (100 * me_n e)) (allFailures s))) s"

definition suite15 :: "main_env \<Rightarrow> main_state \<Rightarrow> main_state go_result" where
  "suite15 e s =
     add_run (runParallel ''Concurrent Mix (large+small)'' (me_client e 15) (me_picks e 15) (me_base e) suite15_tests (wrap64 (5 * me_n e)) (allFailures s)) s"

text \<open>Suite 16: one goroutine per connection; the failure lines come in the order of completion.\<close>

definition churn_case :: "nat \<Rightarrow> testCase" where
  "churn_case idx = tcase (''conn-'' @ show_nat idx @ '' GET /ping'') ''GET'' ''/ping'' check_pong"

definition suite16 :: "main_env \<Rightarrow> main_state \<Rightarrow> main_state go_result" where
  "suite16 e s =
     (let count = wrap64 (10 * me_n e);
          churnTotal = wrap32 count;
          order = arrange (me_picks e 16) [0 ..< nat count];
          outcome = (\<lambda>idx. doRequest (me_conn e 16 idx) 0 (me_base e) (churn_case idx));
          churnPassed = wrap32 (int (length (filter (\<lambda>idx. outcome idx = None) order)));
          lines = map (\<lambda>idx. Errorf ''Connection Churn / conn-%d: %v'' [VInt (int idx), VErr (the (outcome idx))])
                    (filter (\<lambda>idx. outcome idx \<noteq> None) order)
      in Ret (add churnPassed churnTotal (s\<lparr>allFailures := allFailures s @ lines\<rparr>)))"

definition suite17_case :: testCase where
  "suite17_case = tcase ''GET /slow?ms=200'' ''GET'' ''/slow?ms=200'' (expectStatusBody 200 ''ok'')"

definition suite17 :: "main_env \<Rightarrow> main_state \<Rightarrow> main_state go_result" where
  "suite17 e s =
     Ret (case doRequest (me_client e 17) 0 (me_base e) suite17_case of
            Some err17 \<Rightarrow> add 0 1 (s\<lparr>allFailures := allFailures s @ [Prefixed ''Slow Endpoint: '' err17]\<rparr>)
          | None \<Rightarrow>
              if me_elapsed17 e < 150 * Millisecond then
                add 0 1 (s\<lparr>allFailures := allFailures s @
                  [Prefixed ''Slow Endpoint: '' (Errorf ''expected >= 150ms latency, got %v'' [VInt (me_elapsed17 e)])]\<rparr>)
              else add 1 1 s)"

definition suite18 :: "main_env \<Rightarrow> main_state \<Rightarrow> main_state go_result" where
  "suite18 e s =
     add_run (runParallel ''Digest Upload Correctness'' (me_client e 18) (me_picks e 18) (me_base e) (suite18_tests (me_sum256 e)) (me_n e) (allFailures s)) s"

definition suite19 :: "main_env \<Rightarrow> main_state \<Rightarrow> main_state go_result" where
  "suite19 e s =
     add_run (runParallel (''High-Concurrency 100'' @ times_sign @ '' GET /ping'') (me_client e 19) (me_picks e 19) (me_base e) suite19_tests (me_n e) (allFailures s)) s"

definition suite20 :: "main_env \<Rightarrow> main_state \<Rightarrow> main_state go_result" where
  "suite20 e s =
     add_run (runParallel ''Upload Integrity (1 MB + empty)'' (me_client e 20) (me_picks e 20) (me_base e) (suite20_tests (me_sum256 e)) (me_n e) (allFailures s)) s"

definition suite21 :: "main_env \<Rightarrow> main_state \<Rightarrow> main_state go_result" where
  "suite21 e s =
     add_run (runParallel ''Error Handling & Edge Cases'' (me_client e 21) (me_picks e 21) (me_base e) suite21_tests (me_n e) (allFailures s)) s"

definition suite22 :: "main_env \<Rightarrow> main_state \<Rightarrow> main_state go_result" where
  "suite22 e s =
     (case add_run (Ret (runSerial (''Server Push (RFC 9114 '' @ section_sign @ ''4.6) sequential'') (me_client e 22) (me_base e)
                     (take 2 suite22_tests) 5 (allFailures s))) s of
        Panic m \<Rightarrow> Panic m
      | Ret s' \<Rightarrow>
          add_run (runParallel (''Server Push (RFC 9114 '' @ section_sign @ ''4.6) concurrent'') (me_client e 29) (me_picks e 22) (me_base e)
            (drop 2 suite22_tests) 10 (allFailures s')) s')"

text \<open>Suite 23: what quic-go reports of a datagram connection.\<close>

definition testDatagramEcho :: "dgram_env \<Rightarrow> byte list \<Rightarrow> go_error option" where
  "testDatagramEcho env payload =
     (case dg_dial env of
        Some err \<Rightarrow> Some (Errorf ''dial: %w'' [VErr err])
      | None \<Rightarrow>
          (case dg_send env payload of
             Some err \<Rightarrow> Some (Errorf ''SendDatagram: %w'' [VErr err])
           | None \<Rightarrow>
               (case dg_receive env payload of
                  Inl err \<Rightarrow> Some (Errorf ''ReceiveDatagram: %w'' [VErr err])
                | Inr got \<Rightarrow>
                    if bytes_string got \<noteq> bytes_string payload then
                      Some (Errorf ''echo mismatch: sent %q, got %q''
                        [VStr (truncate_str (bytes_string payload) 32), VStr (truncate_str (bytes_string got) 32)])
                    else None)))"

definition suite23_payloads :: "string list" where
  "suite23_payloads = [''ping'', ''hello datagram'', Repeat ''D'' 200, Repeat ''X'' 1024]"

definition suite23 :: "main_env \<Rightarrow> main_state \<Rightarrow> main_state go_result" where
  "suite23 e s =
     Ret (foldl (\<lambda>s (i, payload).
            case testDatagramEcho (me_dgram e i) (string_bytes payload) of
              None \<Rightarrow> add 1 1 s
            | Some err \<Rightarrow>
                add 0 1 (s\<lparr>allFailures := allFailures s @
                  [Errorf ''QUIC Datagram echo / %q: %v'' [VStr (truncate_str payload 20), VErr err]]\<rparr>))
          s (enumerate 0 suite23_payloads))"

definition suite24 :: "main_env \<Rightarrow> main_state \<Rightarrow> main_state go_result" where
  "suite24 e s =
     add_run (runParallel (''PMTUD '' @ em_dash @ '' MTU boundary payloads'') (me_client e 24) (me_picks e 24) (me_base e) suite24_tests (me_n e) (allFailures s)) s"

text \<open>Suites 25 and 27: loops of requests on one connection.\<close>

fun request_loop :: "client \<Rightarrow> string \<Rightarrow> (nat \<Rightarrow> testCase) \<Rightarrow> nat list \<Rightarrow> int \<times> go_text list \<Rightarrow> int \<times> go_text list" where
  "request_loop c base tc [] acc = acc"
| "request_loop c base tc (i # is) (p, fails) =
     request_loop c base tc is
       (case doRequest c i base (tc i) of
          Some err \<Rightarrow> (p, fails @ [Errorf ''req %d: %v'' [VInt (int i), VErr err]])
        | None \<Rightarrow> (p + 1, fails))"

definition streams_case :: "nat \<Rightarrow> testCase" where
  "streams_case i = tcase (''stream-replenish req '' @ show_nat i) ''GET'' ''/ping''
     (\<lambda>status body headers. want_status 200 status
        (if body \<noteq> ''pong'' then Some (Errorf ''expected pong, got %q'' [VStr (truncate_str body 40)]) else None))"

definition testStreamsBlockedFlow :: "client \<Rightarrow> string \<Rightarrow> int \<times> int \<times> go_text list" where
  "testStreamsBlockedFlow c base =
     (case request_loop c base streams_case [0 ..< 250] (0, []) of (p, fails) \<Rightarrow> (p, 250, fails))"

definition suite25 :: "main_env \<Rightarrow> main_state \<Rightarrow> main_state go_result" where
  "suite25 e s =
     (case testStreamsBlockedFlow (me_client e 25) (me_base e) of (p, t, fails) \<Rightarrow>
        Ret ((add p t s)\<lparr>allFailures := allFailures s @ map (Prefixed ''STREAMS_BLOCKED replenishment / '') fails\<rparr>))"

definition suite26 :: "main_env \<Rightarrow> main_state \<Rightarrow> main_state go_result" where
  "suite26 e s =
     (case testGoawayAndControlStream (me_raw e) of
        Panic m \<Rightarrow> Panic m
      | Ret (Some err) \<Rightarrow>
          Ret ((add 0 1 s)\<lparr>allFailures := allFailures s @ [Prefixed ''H3 control stream: SETTINGS + GOAWAY: '' err]\<rparr>)
      | Ret None \<Rightarrow> Ret (add 1 1 s))"

definition dyn_case :: "nat \<Rightarrow> testCase" where
  "dyn_case i = (tcase (''dyn-qpack req '' @ show_nat i) ''GET'' ''/echo-headers''
     (\<lambda>status body headers. want_status 200 status
        (if \<not> contains body ''dynamic-qpack-verifier-abc123'' then
           Some (Errorf ''custom header value missing from echo body (req %d): %q''
             [VInt (int i), VStr (truncate_str body 100)])
         else None)))
     \<lparr>tc_headers := [(''x-dyn-qpack-test'', ''dynamic-qpack-verifier-abc123''), (''x-seq'', show_nat i)]\<rparr>"

definition testDynamicQpack :: "client \<Rightarrow> string \<Rightarrow> int \<Rightarrow> int \<times> int \<times> go_text list" where
  "testDynamicQpack c base n =
     (case request_loop c base dyn_case [0 ..< nat n] (0, []) of (p, fails) \<Rightarrow> (p, n, fails))"

definition suite27 :: "main_env \<Rightarrow> main_state \<Rightarrow> main_state go_result" where
  "suite27 e s =
     (case testDynamicQpack (me_client e 27) (me_base e) 40 of (p, t, fails) \<Rightarrow>
        Ret ((add p t s)\<lparr>allFailures := allFailures s @ map (Prefixed ''Dynamic QPACK / '') fails\<rparr>))"

text \<open>Suite 28: what quic-go reports of the two connections; only dial, stream and handshake errors count.\<close>

definition testZeroRTT :: "zrtt_env \<Rightarrow> go_error option" where
  "testZeroRTT env =
     (case z_dial1 env of
        Some err \<Rightarrow> Some (Errorf ''first connection dial: %w'' [VErr err])
      | None \<Rightarrow>
     (case z_open1 env of
        Some err \<Rightarrow> Some (Errorf ''first connection open stream: %w'' [VErr err])
      | None \<Rightarrow>
     (case z_dial2 env of
        Some err \<Rightarrow> Some (Errorf ''second connection dial: %w'' [VErr err])
      | None \<Rightarrow>
     (case z_open2 env of
        Some err \<Rightarrow> Some (Errorf ''second connection open stream: %w'' [VErr err])
      | None \<Rightarrow>
          if \<not> z_handshake env then Some (Errorf ''timeout waiting for handshake on second connection'' [])
          else if \<not> z_used0RTT env then
            Some (Errorf (''0-RTT was NOT used on the second connection '' @
              ''(server NST did not enable early data, or session cache miss)'') [])
          else None))))"

definition suite28 :: "main_env \<Rightarrow> main_state \<Rightarrow> main_state go_result" where
  "suite28 e s =
     (case testZeroRTT (me_zrtt e) of
        Some err \<Rightarrow> Ret ((add 0 1 s)\<lparr>allFailures := allFailures s @ [Prefixed ''0-RTT early data: '' err]\<rparr>)
      | None \<Rightarrow> Ret (add 1 1 s))"

section \<open>main\<close>

definition main_suites :: "(main_env \<Rightarrow> main_state \<Rightarrow> main_state go_result) list" where
  "main_suites =
     [suite1, suite2, suite3, suite4, suite5, suite6, suite7, suite8, suite9, suite10, suite11, suite12, suite13, suite14,
      suite15, suite16, suite17, suite18, suite19, suite20, suite21, suite22, suite23, suite24, suite25, suite26, suite27, suite28]"

fun run_suites ::
    "(main_env \<Rightarrow> main_state \<Rightarrow> main_state go_result) list \<Rightarrow> main_env \<Rightarrow> main_state \<Rightarrow> main_state go_result" where
  "run_suites [] e s = Ret s"
| "run_suites (f # fs) e s = (case f e s of Panic m \<Rightarrow> Panic m | Ret s' \<Rightarrow> run_suites fs e s')"

definition main_init :: main_state where
  "main_init = \<lparr>totalPassed = 0, totalTests = 0, allFailures = []\<rparr>"

text \<open>The final counters and the exit code.\<close>

definition e2e_main :: "main_env \<Rightarrow> (main_state \<times> int) go_result" where
  "e2e_main e =
     (case run_suites main_suites e main_init of
        Panic m \<Rightarrow> Panic m
      | Ret s \<Rightarrow> Ret (s, if 0 < length (allFailures s) then 1 else 0))"


section \<open>Accounting\<close>

text \<open>
  What each suite does to the counters, as a contract: it adds a number of tests that
  depends on the repetition count only, and for each of them either a pass or one line of
  \<open>allFailures\<close>. The repetition count is bounded so that \<open>10 * n\<close> fits the \<open>int32\<close>
  of suite 16; the control-stream reader of suite 26 must not have panicked.
\<close>

definition max_reps :: int where
  "max_reps = 200000000"

definition e2e_ok :: "main_env \<Rightarrow> bool" where
  "e2e_ok e = (0 \<le> me_n e \<and> me_n e \<le> max_reps \<and> (\<forall>m. testGoawayAndControlStream (me_raw e) \<noteq> Panic m))"

definition suite_counts ::
    "(main_env \<Rightarrow> main_state \<Rightarrow> main_state go_result) \<Rightarrow> int \<Rightarrow> main_env \<Rightarrow> main_state \<Rightarrow> bool" where
  "suite_counts f sz e s =
     (\<exists>p new. f e s = Ret (add p sz (s\<lparr>allFailures := allFailures s @ new\<rparr>)) \<and> 0 \<le> p \<and> p + int (length new) = sz)"

locale e2e_suites =
  fixes steps :: "((main_env \<Rightarrow> main_state \<Rightarrow> main_state go_result) \<times> (int \<Rightarrow> int)) list"
  assumes counts: "(f, sz) \<in> set steps \<Longrightarrow> e2e_ok e \<Longrightarrow> suite_counts f (sz (me_n e)) e s"
begin

lemma run_prefix_counts:
  assumes "set fs \<subseteq> set steps" and "e2e_ok e"
  shows "suite_counts (run_suites (map fst fs)) (\<Sum>(f, sz)\<leftarrow>fs. sz (me_n e)) e s"
  using assms(1)
proof (induct fs arbitrary: s)
  case Nil
  show ?case by (auto simp: suite_counts_def add_def intro: exI [of _ 0] exI [of _ "[]"])
next
  case (Cons y fs s)
  obtain f sz where x: "y = (f, sz)" by fastforce
  obtain p new where 1: "f e s = Ret (add p (sz (me_n e)) (s\<lparr>allFailures := allFailures s @ new\<rparr>))"
    "0 \<le> p" "p + int (length new) = sz (me_n e)"
    using counts [OF _ assms(2), of f sz s] Cons.prems x by (auto simp: suite_counts_def)
  let ?s = "add p (sz (me_n e)) (s\<lparr>allFailures := allFailures s @ new\<rparr>)"
  obtain q new' where 2: "run_suites (map fst fs) e ?s =
      Ret (add q (\<Sum>(f, sz)\<leftarrow>fs. sz (me_n e)) (?s\<lparr>allFailures := allFailures ?s @ new'\<rparr>))"
    "0 \<le> q" "q + int (length new') = (\<Sum>(f, sz)\<leftarrow>fs. sz (me_n e))"
    using Cons.hyps [of ?s] Cons.prems by (auto simp: suite_counts_def)
  have "run_suites (map fst (y # fs)) e s =
      Ret (add (p + q) (sz (me_n e) + (\<Sum>(f, sz)\<leftarrow>fs. sz (me_n e))) (s\<lparr>allFailures := allFailures s @ (new @ new')\<rparr>))"
    by (simp add: x 1(1) 2(1)) (simp add: add_def)
  then show ?case
    unfolding suite_counts_def using 1 2 x by (intro exI [of _ "p + q"] exI [of _ "new @ new'"]) simp
qed

lemma run_all_counts:
  assumes "e2e_ok e"
  shows "suite_counts (run_suites (map fst steps)) (\<Sum>(f, sz)\<leftarrow>steps. sz (me_n e)) e s"
  by (rule run_prefix_counts [OF _ assms]) simp

end

lemma add_run_counts:
  assumes "\<exists>p new. r = Ret (p, t, allFailures s @ new) \<and> 0 \<le> p \<and> p + int (length new) = t" and "t = sz"
  shows "suite_counts (\<lambda>e s. add_run r s) sz e s"
  using assms by (fastforce simp: suite_counts_def add_run_def)

lemma counts_parallel:
  assumes "0 \<le> k" and "k * int (length tests) \<le> runner_limit"
  shows "\<exists>p new. add_run (runParallel sn c picks base tests k (allFailures s)) s =
      Ret (add p (k * int (length tests)) (s\<lparr>allFailures := allFailures s @ new\<rparr>)) \<and>
    0 \<le> p \<and> p + int (length new) = k * int (length tests)"
  using parallel.counts [OF assms, of sn c picks base "allFailures s"] by (fastforce simp: add_run_def)

lemma counts_serial:
  assumes "0 \<le> k" and "k * int (length tests) \<le> runner_limit"
  shows "\<exists>p new. add_run (Ret (runSerial sn c base tests k (allFailures s))) s =
      Ret (add p (k * int (length tests)) (s\<lparr>allFailures := allFailures s @ new\<rparr>)) \<and>
    0 \<le> p \<and> p + int (length new) = k * int (length tests)"
  using serial.counts [OF assms, of sn c base "allFailures s"] by (fastforce simp: add_run_def)

lemma reps_wrap:
  assumes "e2e_ok e" and "0 \<le> k" and "k \<le> 200"
  shows "wrap64 (k * me_n e) = k * me_n e"
proof (rule wrap64_id)
  have n: "0 \<le> me_n e" "me_n e \<le> 200000000" using assms(1) by (auto simp: e2e_ok_def max_reps_def)
  have "k * me_n e \<le> 200 * 200000000" using n assms by (intro mult_mono) auto
  then show "k * me_n e < 2 ^ 63" by simp
  show "- (2 ^ 63) \<le> k * me_n e" using n assms by (simp add: order_trans [of _ 0])
qed

lemma reps_limit:
  assumes "e2e_ok e" and "0 \<le> k" and "k \<le> 200" and "length tests \<le> 100"
  shows "0 \<le> k * me_n e" and "k * me_n e * int (length tests) \<le> runner_limit"
proof -
  have n: "0 \<le> me_n e" "me_n e \<le> 200000000" using assms(1) by (auto simp: e2e_ok_def max_reps_def)
  show 0: "0 \<le> k * me_n e" using n assms by simp
  have "k * me_n e \<le> 200 * 200000000" using n assms by (intro mult_mono) auto
  then have "k * me_n e * int (length tests) \<le> 200 * 200000000 * 100"
    using 0 assms(4) by - (rule mult_mono, auto)
  then show "k * me_n e * int (length tests) \<le> runner_limit" by (simp add: runner_limit_def)
qed

text \<open>One lemma for all suites of one parallel or serial run.\<close>

lemma suite_parallel:
  assumes "\<And>s. f e s = add_run (runParallel sn c picks (me_base e) tests (wrap64 (k * me_n e)) (allFailures s)) s"
    and "0 \<le> k" and "k \<le> 200" and "length tests \<le> 100" and "e2e_ok e" and "sz = k * int (length tests) * me_n e"
  shows "suite_counts f sz e s"
  using counts_parallel [OF reps_limit [OF assms(5,2,3,4)], of sn c picks "me_base e" s]
  unfolding suite_counts_def assms(1,6) reps_wrap [OF assms(5,2,3)] by (simp add: mult.commute mult.left_commute)

lemma suite_serial:
  assumes "\<And>s. f e s = add_run (Ret (runSerial sn c (me_base e) tests (wrap64 (k * me_n e)) (allFailures s))) s"
    and "0 \<le> k" and "k \<le> 200" and "length tests \<le> 100" and "e2e_ok e" and "sz = k * int (length tests) * me_n e"
  shows "suite_counts f sz e s"
  using counts_serial [OF reps_limit [OF assms(5,2,3,4)], of sn c "me_base e" s]
  unfolding suite_counts_def assms(1,6) reps_wrap [OF assms(5,2,3)] by (simp add: mult.commute mult.left_commute)

lemma wrap64_reps: "e2e_ok e \<Longrightarrow> me_n e = wrap64 (1 * me_n e)"
  using reps_wrap [of e 1] by simp

lemma suite_parallel1:
  assumes "\<And>s. f e s = add_run (runParallel sn c picks (me_base e) tests (me_n e) (allFailures s)) s"
    and "length tests \<le> 100" and "e2e_ok e" and "sz = int (length tests) * me_n e"
  shows "suite_counts f sz e s"
  by (rule suite_parallel [where k = 1 and tests = tests and sn = sn and c = c and picks = picks]) (use assms reps_wrap [OF assms(3), of 1] in simp_all)

lemma suite1_counts: "e2e_ok e \<Longrightarrow> suite_counts suite1 (9 * me_n e) e s"
  by (rule suite_parallel1 [OF suite1_def]) (simp_all add: suite1_tests_def)

lemma suite2_counts: "e2e_ok e \<Longrightarrow> suite_counts suite2 (5 * me_n e) e s"
  by (rule suite_parallel1 [OF suite2_def]) (simp_all add: suite2_tests_def)

lemma suite3_counts: "e2e_ok e \<Longrightarrow> suite_counts suite3 (4 * me_n e) e s"
  by (rule suite_parallel1 [OF suite3_def]) (simp_all add: suite3_tests_def)

lemma suite4_counts: "e2e_ok e \<Longrightarrow> suite_counts suite4 (3 * me_n e) e s"
  by (rule suite_parallel1 [OF suite4_def]) (simp_all add: suite4_tests_def)

lemma suite10_counts: "e2e_ok e \<Longrightarrow> suite_counts suite10 (4 * me_n e) e s"
  by (rule suite_parallel1 [OF suite10_def]) (simp_all add: suite10_tests_def)

lemma suite11_counts: "e2e_ok e \<Longrightarrow> suite_counts suite11 (3 * me_n e) e s"
  by (rule suite_parallel1 [OF suite11_def]) (simp_all add: suite11_tests_def)

lemma suite12_counts: "e2e_ok e \<Longrightarrow> suite_counts suite12 (me_n e) e s"
  by (rule suite_parallel1 [OF suite12_def]) (simp_all add: suite12_tests_def)

lemma suite13_counts: "e2e_ok e \<Longrightarrow> suite_counts suite13 (3 * me_n e) e s"
  by (rule suite_parallel1 [OF suite13_def]) (simp_all add: suite13_tests_def)

lemma suite18_counts: "e2e_ok e \<Longrightarrow> suite_counts suite18 (3 * me_n e) e s"
  by (rule suite_parallel1 [OF suite18_def]) (simp_all add: suite18_tests_def)

lemma suite19_counts: "e2e_ok e \<Longrightarrow> suite_counts suite19 (100 * me_n e) e s"
  by (rule suite_parallel1 [OF suite19_def]) (simp_all add: suite19_tests_def)

lemma suite20_counts: "e2e_ok e \<Longrightarrow> suite_counts suite20 (2 * me_n e) e s"
  by (rule suite_parallel1 [OF suite20_def]) (simp_all add: suite20_tests_def)

lemma suite21_counts: "e2e_ok e \<Longrightarrow> suite_counts suite21 (10 * me_n e) e s"
  by (rule suite_parallel1 [OF suite21_def]) (simp_all add: suite21_tests_def)

lemma suite24_counts: "e2e_ok e \<Longrightarrow> suite_counts suite24 (10 * me_n e) e s"
  by (rule suite_parallel1 [OF suite24_def]) (simp_all add: suite24_tests_def suite24_sizes_def)

lemma suite5_counts: "e2e_ok e \<Longrightarrow> suite_counts suite5 (50 * me_n e) e s"
  by (rule suite_parallel [OF suite5_def]) (simp_all add: suite5_tests_def)

lemma suite6_counts: "e2e_ok e \<Longrightarrow> suite_counts suite6 (20 * me_n e) e s"
  by (rule suite_parallel [OF suite6_def]) (simp_all add: suite6_tests_def)

lemma suite7_counts: "e2e_ok e \<Longrightarrow> suite_counts suite7 (10 * me_n e) e s"
  by (rule suite_parallel [OF suite7_def]) (simp_all add: suite7_tests_def)

lemma suite15_counts: "e2e_ok e \<Longrightarrow> suite_counts suite15 (10 * me_n e) e s"
  by (rule suite_parallel [OF suite15_def]) (simp_all add: suite15_tests_def)

lemma suite8_counts: "e2e_ok e \<Longrightarrow> suite_counts suite8 (200 * me_n e) e s"
  by (rule suite_serial [OF suite8_def]) (simp_all add: suite8_tests_def)

lemma suite14_counts: "e2e_ok e \<Longrightarrow> suite_counts suite14 (100 * me_n e) e s"
  by (rule suite_serial [OF suite14_def]) (simp_all add: suite14_tests_def)

text \<open>Suite 9.\<close>

lemma suite9_conn_counts:
  fixes st :: conn_count
  assumes "0 \<le> connTotal st" and "connTotal st \<le> 1000" and "0 \<le> connPassed st" and "connPassed st \<le> 1000"
    and "length tcs \<le> 100"
  shows "\<exists>p new. foldl (\<lambda>st (j, tc).
         let st = st\<lparr>connTotal := wrap32 (connTotal st + 1)\<rparr>
         in case doRequest c j base tc of
              None \<Rightarrow> st\<lparr>connPassed := wrap32 (connPassed st + 1)\<rparr>
            | Some err \<Rightarrow>
                st\<lparr>connFails := connFails st @
                     [Errorf ''MultiConn conn%d/%s: %v'' [VInt (int i), VStr (tc_name tc), VErr err]]\<rparr>) st tcs
      = \<lparr>connPassed = connPassed st + p, connTotal = connTotal st + int (length tcs), connFails = connFails st @ new\<rparr> \<and>
    0 \<le> p \<and> p + int (length new) = int (length tcs)"
  using assms(5)
proof (induct tcs rule: rev_induct)
  case Nil
  show ?case by (intro exI [of _ 0] exI [of _ "[]"]) simp
next
  case (snoc x tcs)
  obtain j tc where x: "x = (j, tc)" by fastforce
  obtain p new where IH: "foldl (\<lambda>st (j, tc).
         let st = st\<lparr>connTotal := wrap32 (connTotal st + 1)\<rparr>
         in case doRequest c j base tc of
              None \<Rightarrow> st\<lparr>connPassed := wrap32 (connPassed st + 1)\<rparr>
            | Some err \<Rightarrow>
                st\<lparr>connFails := connFails st @
                     [Errorf ''MultiConn conn%d/%s: %v'' [VInt (int i), VStr (tc_name tc), VErr err]]\<rparr>) st tcs
      = \<lparr>connPassed = connPassed st + p, connTotal = connTotal st + int (length tcs), connFails = connFails st @ new\<rparr>"
    "0 \<le> p" "p + int (length new) = int (length tcs)"
    using snoc by auto
  have w: "wrap32 (connTotal st + int (length tcs) + 1) = connTotal st + int (length tcs) + 1"
    "wrap32 (connPassed st + p + 1) = connPassed st + p + 1"
    using assms snoc.prems IH(2,3) by (auto intro!: wrap32_id)
  show ?case
  proof (cases "doRequest c j base tc")
    case None
    then show ?thesis using IH w x by (intro exI [of _ "p + 1"] exI [of _ new]) (simp add: Let_def)
  next
    case (Some err)
    then show ?thesis using IH w x
      by (intro exI [of _ p] exI [of _ "new @ [Errorf ''MultiConn conn%d/%s: %v'' [VInt (int i), VStr (tc_name tc), VErr err]]"])
         (simp add: Let_def)
  qed
qed

lemma suite9_fold:
  assumes "m \<le> 5"
  shows "\<exists>p new. foldl (\<lambda>st i. suite9_conn (cl i) base i st) \<lparr>connPassed = 0, connTotal = 0, connFails = fs\<rparr> [0 ..< m]
      = \<lparr>connPassed = p, connTotal = 5 * int m, connFails = fs @ new\<rparr> \<and> 0 \<le> p \<and> p + int (length new) = 5 * int m"
  using assms
proof (induct m)
  case 0
  show ?case by (intro exI [of _ 0] exI [of _ "[]"]) simp
next
  case (Suc m)
  obtain p new where IH: "foldl (\<lambda>st i. suite9_conn (cl i) base i st) \<lparr>connPassed = 0, connTotal = 0, connFails = fs\<rparr> [0 ..< m]
      = \<lparr>connPassed = p, connTotal = 5 * int m, connFails = fs @ new\<rparr>" "0 \<le> p" "p + int (length new) = 5 * int m"
    using Suc by auto
  have l: "length (enumerate 0 suite9_tests) = 5" by (simp add: suite9_tests_def)
  obtain q new' where q: "suite9_conn (cl m) base m \<lparr>connPassed = p, connTotal = 5 * int m, connFails = fs @ new\<rparr>
      = \<lparr>connPassed = p + q, connTotal = 5 * int m + 5, connFails = (fs @ new) @ new'\<rparr>" "0 \<le> q" "q + int (length new') = 5"
    unfolding suite9_conn_def
    using suite9_conn_counts [where st = "\<lparr>connPassed = p, connTotal = 5 * int m, connFails = fs @ new\<rparr>"
        and tcs = "enumerate 0 suite9_tests" and c = "cl m" and base = base and i = m] IH(2,3) Suc.prems l by auto
  show ?case using IH q by (intro exI [of _ "p + q"] exI [of _ "new @ new'"]) simp
qed

lemma suite9_counts: "e2e_ok e \<Longrightarrow> suite_counts suite9 25 e s"
proof -
  obtain p new where "foldl (\<lambda>st i. suite9_conn (me_conn e 9 i) (me_base e) i st)
      \<lparr>connPassed = 0, connTotal = 0, connFails = allFailures s\<rparr> [0 ..< 5]
    = \<lparr>connPassed = p, connTotal = 25, connFails = allFailures s @ new\<rparr>" "0 \<le> p" "p + int (length new) = 25"
    using suite9_fold [of 5 "me_conn e 9" "me_base e" "allFailures s"] by auto
  then show ?thesis unfolding suite_counts_def suite9_def Let_def by auto
qed

text \<open>The other suites with their own loops.\<close>

lemma suite16_counts:
  assumes "e2e_ok e"
  shows "suite_counts suite16 (10 * me_n e) e s"
proof -
  have n: "0 \<le> me_n e" "me_n e \<le> 200000000" using assms by (auto simp: e2e_ok_def max_reps_def)
  let ?order = "arrange (me_picks e 16) [0 ..< nat (10 * me_n e)]"
  define ok where "ok = (\<lambda>idx. doRequest (me_conn e 16 idx) 0 (me_base e) (churn_case idx) = None)"
  have l: "int (length (filter ok ?order)) + int (length (filter (\<lambda>i. \<not> ok i) ?order)) = 10 * me_n e"
    using sum_length_filter_compl [of ok ?order] n by simp
  have "wrap64 (10 * me_n e) = 10 * me_n e" using assms by (intro reps_wrap) simp_all
  moreover have "wrap32 (10 * me_n e) = 10 * me_n e" using n by (intro wrap32_id) auto
  moreover have "wrap32 (int (length (filter ok ?order))) = int (length (filter ok ?order))"
    using l n by (intro wrap32_id) auto
  ultimately show ?thesis
    unfolding suite_counts_def suite16_def Let_def using l
    by (auto simp: ok_def intro!: exI [of _ "int (length (filter ok ?order))"])
qed

lemma suite17_counts: "e2e_ok e \<Longrightarrow> suite_counts suite17 1 e s"
  by (cases "doRequest (me_client e 17) 0 (me_base e) suite17_case")
     (force simp: suite_counts_def suite17_def intro: exI [of _ 0] exI [of _ 1] exI [of _ "[]"])+

lemma suite22_counts: "e2e_ok e \<Longrightarrow> suite_counts suite22 20 e s"
proof -
  have l: "length (take 2 suite22_tests) = 2" "length (drop 2 suite22_tests) = 1"
    by (simp_all add: suite22_tests_def)
  let ?r = "runSerial (''Server Push (RFC 9114 '' @ section_sign @ ''4.6) sequential'') (me_client e 22) (me_base e)
     (take 2 suite22_tests) 5 (allFailures s)"
  obtain p new where 1: "add_run (Ret ?r) s = Ret (add p 10 (s\<lparr>allFailures := allFailures s @ new\<rparr>))"
    "0 \<le> p" "p + int (length new) = 10"
    using counts_serial [of 5 "take 2 suite22_tests" "''Server Push (RFC 9114 '' @ section_sign @ ''4.6) sequential''"
        "me_client e 22" "me_base e" s] by (simp only: l runner_limit_def) auto
  let ?s = "add p 10 (s\<lparr>allFailures := allFailures s @ new\<rparr>)"
  let ?r2 = "runParallel (''Server Push (RFC 9114 '' @ section_sign @ ''4.6) concurrent'') (me_client e 29) (me_picks e 22)
     (me_base e) (drop 2 suite22_tests) 10 (allFailures ?s)"
  obtain q new' where 2: "add_run ?r2 ?s = Ret (add q 10 (?s\<lparr>allFailures := allFailures ?s @ new'\<rparr>))"
    "0 \<le> q" "q + int (length new') = 10"
    using counts_parallel [of 10 "drop 2 suite22_tests" "''Server Push (RFC 9114 '' @ section_sign @ ''4.6) concurrent''"
        "me_client e 29" "me_picks e 22" "me_base e" ?s] by (simp only: l runner_limit_def) auto
  have "suite22 e s = Ret (add (p + q) 20 (s\<lparr>allFailures := allFailures s @ (new @ new')\<rparr>))"
    unfolding suite22_def 1(1) go_result.case 2(1) by (simp add: add_def)
  then show ?thesis
    unfolding suite_counts_def using 1(2,3) 2(2,3) by (intro exI [of _ "p + q"] exI [of _ "new @ new'"]) simp
qed

lemma suite23_fold:
  "suite_counts (\<lambda>e s. Ret (foldl (\<lambda>s (i, payload).
            case testDatagramEcho (me_dgram e i) (string_bytes payload) of
              None \<Rightarrow> add 1 1 s
            | Some err \<Rightarrow>
                add 0 1 (s\<lparr>allFailures := allFailures s @
                  [Errorf ''QUIC Datagram echo / %q: %v'' [VStr (truncate_str payload 20), VErr err]]\<rparr>))
          s xs)) (int (length xs)) e s"
  unfolding suite_counts_def
proof (induct xs rule: rev_induct)
  case Nil
  show ?case by (intro exI [of _ 0] exI [of _ "[]"]) (simp add: add_def)
next
  case (snoc x xs)
  obtain i payload where x: "x = (i, payload)" by fastforce
  from snoc obtain p new where IH: "foldl (\<lambda>s (i, payload).
            case testDatagramEcho (me_dgram e i) (string_bytes payload) of
              None \<Rightarrow> add 1 1 s
            | Some err \<Rightarrow>
                add 0 1 (s\<lparr>allFailures := allFailures s @
                  [Errorf ''QUIC Datagram echo / %q: %v'' [VStr (truncate_str payload 20), VErr err]]\<rparr>)) s xs
      = add p (int (length xs)) (s\<lparr>allFailures := allFailures s @ new\<rparr>)" "0 \<le> p" "p + int (length new) = int (length xs)"
    by auto
  show ?case
  proof (cases "testDatagramEcho (me_dgram e i) (string_bytes payload)")
    case None
    then show ?thesis using IH x by (intro exI [of _ "p + 1"] exI [of _ new]) (simp add: add_def)
  next
    case (Some err)
    then show ?thesis using IH x
      by (intro exI [of _ p] exI [of _ "new @ [Errorf ''QUIC Datagram echo / %q: %v'' [VStr (truncate_str payload 20), VErr err]]"])
         (simp add: add_def)
  qed
qed

lemma suite23_counts: "e2e_ok e \<Longrightarrow> suite_counts suite23 4 e s"
proof -
  have "length (enumerate 0 suite23_payloads) = 4" by (simp add: suite23_payloads_def)
  then show ?thesis
    using suite23_fold [of "enumerate 0 suite23_payloads" e s] unfolding suite_counts_def suite23_def by simp
qed

lemma request_loop_counts:
  "\<exists>q new. request_loop c base tc is (p, fails) = (p + q, fails @ new) \<and> 0 \<le> q \<and> q + int (length new) = int (length is)"
proof (induct "is" arbitrary: p fails)
  case Nil
  show ?case by (intro exI [of _ 0] exI [of _ "[]"]) simp
next
  case (Cons i "is" p fails)
  show ?case
  proof (cases "doRequest c i base (tc i)")
    case None
    obtain q new where "request_loop c base tc is (p + 1, fails) = (p + 1 + q, fails @ new)" "0 \<le> q"
      "q + int (length new) = int (length is)" using Cons by blast
    then show ?thesis using None by (intro exI [of _ "1 + q"] exI [of _ new]) simp
  next
    case (Some err)
    let ?f = "Errorf ''req %d: %v'' [VInt (int i), VErr err]"
    obtain q new where "request_loop c base tc is (p, fails @ [?f]) = (p + q, (fails @ [?f]) @ new)" "0 \<le> q"
      "q + int (length new) = int (length is)" using Cons by blast
    then show ?thesis using Some by (intro exI [of _ q] exI [of _ "?f # new"]) simp
  qed
qed

lemma suite25_counts: "e2e_ok e \<Longrightarrow> suite_counts suite25 250 e s"
proof -
  obtain q new where "request_loop (me_client e 25) (me_base e) streams_case [0 ..< 250] (0, []) = (0 + q, [] @ new)"
    "0 \<le> q" "q + int (length new) = int (length [0 ..< 250])"
    using request_loop_counts by blast
  then show ?thesis unfolding suite_counts_def suite25_def testStreamsBlockedFlow_def
    by (intro exI [of _ q] exI [of _ "map (Prefixed ''STREAMS_BLOCKED replenishment / '') new"]) (simp add: add_def)
qed

lemma suite26_counts: "e2e_ok e \<Longrightarrow> suite_counts suite26 1 e s"
proof -
  assume "e2e_ok e"
  then obtain r where r: "testGoawayAndControlStream (me_raw e) = Ret r"
    by (cases "testGoawayAndControlStream (me_raw e)") (auto simp: e2e_ok_def)
  show ?thesis
  proof (cases r)
    case None
    then show ?thesis unfolding suite_counts_def suite26_def
      by (intro exI [of _ 1] exI [of _ "[]"]) (simp add: r add_def)
  next
    case (Some err)
    then show ?thesis unfolding suite_counts_def suite26_def
      by (intro exI [of _ 0] exI [of _ "[Prefixed ''H3 control stream: SETTINGS + GOAWAY: '' err]"]) (simp add: r add_def)
  qed
qed

lemma suite27_counts: "e2e_ok e \<Longrightarrow> suite_counts suite27 40 e s"
proof -
  obtain q new where "request_loop (me_client e 27) (me_base e) dyn_case [0 ..< 40] (0, []) = (0 + q, [] @ new)"
    "0 \<le> q" "q + int (length new) = int (length [0 ..< 40])"
    using request_loop_counts by blast
  then show ?thesis unfolding suite_counts_def suite27_def testDynamicQpack_def
    by (intro exI [of _ q] exI [of _ "map (Prefixed ''Dynamic QPACK / '') new"]) (simp add: add_def)
qed

lemma suite28_counts: "e2e_ok e \<Longrightarrow> suite_counts suite28 1 e s"
proof (cases "testZeroRTT (me_zrtt e)")
  case None
  then show ?thesis unfolding suite_counts_def suite28_def
    by (intro exI [of _ 1] exI [of _ "[]"]) (simp add: add_def)
next
  case (Some err)
  then show ?thesis unfolding suite_counts_def suite28_def
    by (intro exI [of _ 0] exI [of _ "[Prefixed ''0-RTT early data: '' err]"]) (simp add: add_def)
qed

lemmas suite_count_facts =
  suite1_counts suite2_counts suite3_counts suite4_counts suite5_counts suite6_counts suite7_counts
  suite8_counts suite9_counts suite10_counts suite11_counts suite12_counts suite13_counts suite14_counts
  suite15_counts suite16_counts suite17_counts suite18_counts suite19_counts suite20_counts suite21_counts
  suite22_counts suite23_counts suite24_counts suite25_counts suite26_counts suite27_counts suite28_counts

text \<open>The number of tests of each suite for a repetition count.\<close>

definition suite_sizes :: "(int \<Rightarrow> int) list" where
  "suite_sizes =
     [(*) 9, (*) 5, (*) 4, (*) 3, (*) 50, (*) 20, (*) 10, (*) 200, \<lambda>n. 25, (*) 4, (*) 3, \<lambda>n. n, (*) 3, (*) 100,
      (*) 10, (*) 10, \<lambda>n. 1, (*) 3, (*) 100, (*) 2, (*) 10, \<lambda>n. 20, \<lambda>n. 4, (*) 10, \<lambda>n. 250, \<lambda>n. 1,
      \<lambda>n. 40, \<lambda>n. 1]"

interpretation e2e: e2e_suites "zip main_suites suite_sizes"
  by unfold_locales (auto simp: main_suites_def suite_sizes_def suite_count_facts)

lemma main_suites_sizes:
  "map fst (zip main_suites suite_sizes) = main_suites"
  "(\<Sum>(f, sz)\<leftarrow>zip main_suites suite_sizes. sz n) = 557 * n + 342"
  by (simp_all add: main_suites_def suite_sizes_def)

section \<open>Properties\<close>

text \<open>
  C25. The end-to-end client accounts for every test: for a repetition count within range and a
  control-stream reader that did not panic, \<open>main\<close> finishes, has run \<open>557 * n + 342\<close> tests whatever the
  servers answered and in whatever order the goroutines finished, every test that did not pass has
  left exactly one line in \<open>allFailures\<close>, and the exit code is 0 if and only if all tests passed.
\<close>

theorem e2e_main_accounts:
  assumes "e2e_ok e"
  shows "\<exists>s code. e2e_main e = Ret (s, code) \<and> totalTests s = 557 * me_n e + 342 \<and>
    0 \<le> totalPassed s \<and> totalPassed s + int (length (allFailures s)) = totalTests s \<and>
    (code = 0 \<longleftrightarrow> totalPassed s = totalTests s) \<and> (code = 0 \<or> code = 1)"
proof -
  obtain p new where "run_suites main_suites e main_init =
      Ret (add p (557 * me_n e + 342) (main_init\<lparr>allFailures := allFailures main_init @ new\<rparr>))"
    "0 \<le> p" "p + int (length new) = 557 * me_n e + 342"
    using e2e.run_all_counts [OF assms, of main_init] unfolding main_suites_sizes suite_counts_def by blast
  then show ?thesis by (auto simp: e2e_main_def add_def main_init_def)
qed

definition demo_env :: main_env where
  "demo_env = \<lparr>me_host = ''127.0.0.1'', me_port = 4433, me_n = 2, me_client = \<lambda>_. demo_client,
     me_conn = \<lambda>_ _. demo_client, me_picks = \<lambda>_. [1], me_elapsed17 = 0,
     me_dgram = \<lambda>_. \<lparr>dg_dial = None, dg_send = \<lambda>_. None, dg_receive = Inr\<rparr>,
     me_raw = \<lparr>dial_err = Some (ErrExt ''refused''), uni_in = [], open_err = None, write_err = None, resp_in = []\<rparr>,
     me_zrtt = \<lparr>z_dial1 = None, z_open1 = None, z_dial2 = None, z_open2 = None, z_handshake = True, z_used0RTT = True\<rparr>,
     me_sum256 = \<lambda>_. []\<rparr>"

theorem e2e_main_accounts_witness:
  "\<exists>s code. e2e_main demo_env = Ret (s, code) \<and> totalTests s = 557 * me_n demo_env + 342 \<and>
    0 \<le> totalPassed s \<and> totalPassed s + int (length (allFailures s)) = totalTests s \<and>
    (code = 0 \<longleftrightarrow> totalPassed s = totalTests s) \<and> (code = 0 \<or> code = 1)"
  by (rule e2e_main_accounts) (simp add: e2e_ok_def demo_env_def max_reps_def testGoawayAndControlStream_def)

end
