(* ===== verification/Cr_Router.thy ===== *)
theory Cr_Router
  imports Cr_H3 Go_Http
begin

text \<open>
  The routed HTTP/3 server: requests, responses and contexts (src/h3/request.cr, response.cr,
  context.cr), the router with its middleware (src/h3/router.cr), what \<open>handle_request\<close> of
  src/h3/server.cr does once a request is read, and the routes of examples/e2e_server.cr.
  Strings are byte strings; \<open>upcase\<close> and \<open>downcase\<close> are those of ASCII. A handler returns
  the context it has changed and the exception it ended with, if any; what it asks of the
  connection (a GOAWAY, a push, a sleep) is recorded in the context. What a handler sets
  through the getters of \<open>Context\<close> changes the request and the response of the context, as
  spec/h3_router_spec.cr and spec/h3_compliance_spec.cr rely on.
\<close>

section \<open>Requests\<close>

record cr_request =
  req_method :: string
  req_path :: string
  req_query :: string
  req_headers :: headers
  req_body :: string
  req_remote :: string

definition Request_new :: "headers \<Rightarrow> string \<Rightarrow> string \<Rightarrow> cr_request" where
  "Request_new raw body remote =
     (let full_path = (case map_of raw '':path'' of None \<Rightarrow> ''/'' | Some p \<Rightarrow> p)
      in \<lparr>req_method = (case map_of raw '':method'' of None \<Rightarrow> ''GET'' | Some m \<Rightarrow> m),
          req_path = takeWhile (\<lambda>c. c \<noteq> CHR ''?'') full_path,
          req_query = drop 1 (dropWhile (\<lambda>c. c \<noteq> CHR ''?'') full_path),
          req_headers = filter (\<lambda>(k, v). \<not> is_pseudo k) raw,
          req_body = body, req_remote = remote\<rparr>)"

text \<open>\<open>URI.decode\<close>: an escape that is not complete is copied.\<close>

fun URI_decode :: "string \<Rightarrow> string" where
  "URI_decode [] = []"
| "URI_decode (c # s) =
     (if c = CHR ''%'' then
        (case s of
           a # b # s' \<Rightarrow>
             (case hexval a of
                None \<Rightarrow> c # URI_decode s
              | Some x \<Rightarrow>
                  (case hexval b of
                     None \<Rightarrow> c # a # URI_decode (b # s')
                   | Some y \<Rightarrow> char_of (16 * x + y) # URI_decode s'))
         | _ \<Rightarrow> c # URI_decode s)
      else c # URI_decode s)"

definition query_params :: "cr_request \<Rightarrow> (string \<times> string) list" where
  "query_params r =
     foldl (\<lambda>result pair.
         let k = takeWhile (\<lambda>c. c \<noteq> CHR ''='') pair; v = drop 1 (dropWhile (\<lambda>c. c \<noteq> CHR ''='') pair)
         in if k = [] then result else AList.update (URI_decode k) (URI_decode v) result)
       [] (splitOn (CHR ''&'') (req_query r))"

text \<open>Header names hold no line break, so the pattern \<open>^_param_(.+)$\<close> is the prefix and a rest.\<close>

definition path_params :: "cr_request \<Rightarrow> (string \<times> string) list" where
  "path_params r =
     foldl (\<lambda>result (k, v).
         if take 7 k = ''_param_'' \<and> drop 7 k \<noteq> [] then AList.update (drop 7 k) v result else result)
       [] (req_headers r)"

definition content_type :: "cr_request \<Rightarrow> string" where
  "content_type r = (case map_of (req_headers r) ''content-type'' of None \<Rightarrow> [] | Some v \<Rightarrow> v)"

definition is_json :: "cr_request \<Rightarrow> bool" where
  "is_json r = contains (content_type r) ''application/json''"

section \<open>Responses\<close>

record cr_response =
  resp_status :: int
  resp_headers :: headers
  resp_body :: string

definition Response_new :: cr_response where
  "Response_new = \<lparr>resp_status = 200, resp_headers = [(''server'', ''quic.cr/h3'')], resp_body = []\<rparr>"

definition resp_typed :: "string \<Rightarrow> string \<Rightarrow> int \<Rightarrow> cr_response \<Rightarrow> cr_response" where
  "resp_typed ctype body status r =
     r\<lparr>resp_status := status, resp_headers := AList.update ''content-type'' ctype (resp_headers r), resp_body := body\<rparr>"

definition resp_text :: "string \<Rightarrow> int \<Rightarrow> cr_response \<Rightarrow> cr_response" where
  "resp_text = resp_typed ''text/plain; charset=utf-8''"

definition resp_json :: "string \<Rightarrow> int \<Rightarrow> cr_response \<Rightarrow> cr_response" where
  "resp_json = resp_typed ''application/json; charset=utf-8''"

definition resp_html :: "string \<Rightarrow> int \<Rightarrow> cr_response \<Rightarrow> cr_response" where
  "resp_html = resp_typed ''text/html; charset=utf-8''"

definition resp_redirect :: "string \<Rightarrow> int \<Rightarrow> cr_response \<Rightarrow> cr_response" where
  "resp_redirect location status r =
     r\<lparr>resp_status := status, resp_headers := AList.update ''location'' location (resp_headers r)\<rparr>"

definition resp_not_found :: "cr_response \<Rightarrow> cr_response" where
  "resp_not_found = resp_text ''Not Found'' 404"

definition resp_internal_error :: "cr_response \<Rightarrow> cr_response" where
  "resp_internal_error = resp_text ''Internal Server Error'' 500"

definition resp_set_header :: "string \<Rightarrow> string \<Rightarrow> cr_response \<Rightarrow> cr_response" where
  "resp_set_header name v r = r\<lparr>resp_headers := AList.update (map lower_byte name) v (resp_headers r)\<rparr>"

definition to_h3_headers :: "cr_response \<Rightarrow> headers" where
  "to_h3_headers r =
     (let h = foldl (\<lambda>h (k, v). AList.update k v h) [('':status'', show_int (resp_status r))] (resp_headers r)
      in if 0 < length (resp_body r) then AList.update ''content-length'' (show_nat (length (resp_body r))) h else h)"

section \<open>Contexts\<close>

datatype cr_effect = SendGoaway u64 | ServerPush u64 headers headers string | SleepMs int

record cr_context =
  cx_request :: cr_request
  cx_response :: cr_response
  cx_conn :: bool
  cx_stream :: "u64 option"
  cx_effects :: "cr_effect list"

definition on_response :: "(cr_response \<Rightarrow> cr_response) \<Rightarrow> cr_context \<Rightarrow> cr_context" where
  "on_response f cx = cx\<lparr>cx_response := f (cx_response cx)\<rparr>"

definition effect :: "cr_effect \<Rightarrow> cr_context \<Rightarrow> cr_context" where
  "effect a cx = cx\<lparr>cx_effects := cx_effects cx @ [a]\<rparr>"

definition push_resource :: "string \<Rightarrow> string \<Rightarrow> headers \<Rightarrow> cr_context \<Rightarrow> cr_context" where
  "push_resource path body hdrs cx =
     (case cx_stream cx of
        Some sid \<Rightarrow>
          if cx_conn cx then
            effect (ServerPush sid
              [('':method'', ''GET''), ('':path'', path), ('':scheme'', ''https''),
               ('':authority'', case map_of (req_headers (cx_request cx)) '':authority'' of None \<Rightarrow> ''localhost'' | Some a \<Rightarrow> a)]
              (foldl (\<lambda>h (k, v). AList.update k v h) [('':status'', ''200'')] hdrs) body) cx
          else cx
      | None \<Rightarrow> cx)"

section \<open>The router\<close>

type_synonym cr_handler = "cr_context \<Rightarrow> cr_context \<times> cr_error option"
type_synonym middleware = "cr_context \<Rightarrow> cr_handler \<Rightarrow> cr_context \<times> cr_error option"

record route =
  rt_method :: string
  rt_pattern :: string
  rt_segments :: "string list"
  rt_handler :: cr_handler

record router =
  routes :: "route list"
  middlewares :: "middleware list"

definition segments_of :: "string \<Rightarrow> string list" where
  "segments_of path = filter (\<lambda>s. s \<noteq> []) (splitOn (CHR ''/'') path)"

definition router_use :: "middleware \<Rightarrow> router \<Rightarrow> router" where
  "router_use mw r = r\<lparr>middlewares := middlewares r @ [mw]\<rparr>"

definition register :: "string \<Rightarrow> string \<Rightarrow> cr_handler \<Rightarrow> router \<Rightarrow> router" where
  "register method pattern handler r =
     r\<lparr>routes := routes r @ [\<lparr>rt_method = method, rt_pattern = pattern, rt_segments = segments_of pattern, rt_handler = handler\<rparr>]\<rparr>"

fun match_segs :: "string list \<Rightarrow> string list \<Rightarrow> (string \<times> string) list \<Rightarrow> (string \<times> string) list option" where
  "match_segs (seg # ps) (r # rs) params =
     (if take 1 seg = '':'' then match_segs ps rs (AList.update (drop 1 seg) r params)
      else if seg \<noteq> r then None else match_segs ps rs params)"
| "match_segs _ _ params = Some params"

definition match_route :: "string list \<Rightarrow> string list \<Rightarrow> (string \<times> string) list option" where
  "match_route pattern_segs req_segs =
     (if length pattern_segs \<noteq> length req_segs then None else match_segs pattern_segs req_segs [])"

definition build_chain :: "middleware list \<Rightarrow> cr_handler \<Rightarrow> cr_handler" where
  "build_chain mws inner = foldr (\<lambda>mw outer. \<lambda>cx. mw cx outer) mws inner"

definition attach_params :: "(string \<times> string) list \<Rightarrow> cr_context \<Rightarrow> cr_context" where
  "attach_params params cx =
     cx\<lparr>cx_request := (cx_request cx)\<lparr>req_headers :=
          foldl (\<lambda>h (k, v). AList.update (''_param_'' @ k) v h) (req_headers (cx_request cx)) params\<rparr>\<rparr>"

fun dispatch_routes :: "middleware list \<Rightarrow> string \<Rightarrow> string list \<Rightarrow> route list \<Rightarrow> cr_context \<Rightarrow> cr_context \<times> bool \<times> cr_error option" where
  "dispatch_routes mws method segs [] cx = (cx, False, None)"
| "dispatch_routes mws method segs (rt # rts) cx =
     (if \<not> (rt_method rt = method \<or> rt_method rt = ''ANY'') then dispatch_routes mws method segs rts cx
      else
        (case match_route (rt_segments rt) segs of
           None \<Rightarrow> dispatch_routes mws method segs rts cx
         | Some params \<Rightarrow>
             (case build_chain mws (rt_handler rt) (attach_params params cx) of (cx', err) \<Rightarrow> (cx', True, err))))"

definition dispatch :: "router \<Rightarrow> cr_context \<Rightarrow> cr_context \<times> bool \<times> cr_error option" where
  "dispatch r cx =
     dispatch_routes (middlewares r) (map upper_byte (req_method (cx_request cx)))
       (segments_of (req_path (cx_request cx))) (routes r) cx"

section \<open>handle_request\<close>

text \<open>
  From the header list and the body to the response that \<open>write_response\<close> sends: the metrics
  page (its text is an argument), or the routed handler, with 404 when no route matches and 500
  when the handler raised.
\<close>

definition routed_context :: "headers \<Rightarrow> string \<Rightarrow> u64 option \<Rightarrow> cr_context" where
  "routed_context hdrs body sid =
     \<lparr>cx_request = Request_new hdrs body [], cx_response = Response_new, cx_conn = True, cx_stream = sid, cx_effects = []\<rparr>"

definition finish_context :: "cr_context \<times> bool \<times> cr_error option \<Rightarrow> cr_context" where
  "finish_context d =
     (case d of (cx, matched, err) \<Rightarrow>
        if err \<noteq> None then on_response (resp_text ''Internal Server Error'' 500) cx
        else if \<not> matched then on_response resp_not_found cx
        else cx)"

definition respond ::
    "router \<Rightarrow> string \<Rightarrow> string \<Rightarrow> headers \<Rightarrow> string \<Rightarrow> u64 option \<Rightarrow> headers \<times> string \<times> cr_effect list" where
  "respond r metrics_path metrics_text hdrs body sid =
     (if metrics_path \<noteq> [] \<and> map_of hdrs '':path'' = Some metrics_path \<and> map_of hdrs '':method'' = Some ''GET'' then
        ([('':status'', ''200''), (''content-type'', ''text/plain; version=0.0.4'')], metrics_text, [])
      else
        (let cx = finish_context (dispatch r (routed_context hdrs body sid))
         in (to_h3_headers (cx_response cx), resp_body (cx_response cx), cx_effects cx)))"

datatype handled = Closed u64 string | NoResponse | Blocked "byte list" u64 | Responded headers string "cr_effect list"

definition handle_request ::
    "(byte list \<Rightarrow> cr_error + string) \<Rightarrow> dyntab \<Rightarrow> router \<Rightarrow> string \<Rightarrow> string \<Rightarrow> u64 option \<Rightarrow> byte list \<Rightarrow> handled" where
  "handle_request huff t r metrics_path metrics_text sid io =
     (case read_request huff t io of
        CloseConn code msg \<Rightarrow> Closed code msg
      | GiveUp \<Rightarrow> NoResponse
      | WaitQpack raw n \<Rightarrow> Blocked raw n
      | GotRequest hdrs body \<Rightarrow>
          (case respond r metrics_path metrics_text hdrs (bytes_string body) sid of
             (h, b, effs) \<Rightarrow> Responded h b effs))"

section \<open>Integers in strings\<close>

text \<open>\<open>String#to_i?\<close>: surrounding white space, a sign, decimal digits, the range of \<open>Int32\<close>.\<close>

definition ascii_space :: "char \<Rightarrow> bool" where
  "ascii_space c = (of_char c \<in> {9 :: nat, 10, 11, 12, 13, 32})"

definition is_digit :: "char \<Rightarrow> bool" where
  "is_digit c = (48 \<le> (of_char c :: nat) \<and> (of_char c :: nat) \<le> 57)"

definition digits_value :: "string \<Rightarrow> nat" where
  "digits_value s = foldl (\<lambda>v c. 10 * v + (of_char c - 48)) 0 s"

definition to_i32 :: "string \<Rightarrow> int option" where
  "to_i32 s =
     (let t = rev (dropWhile ascii_space (rev (dropWhile ascii_space s)));
          neg = (take 1 t = ''-'');
          ds = (if neg \<or> take 1 t = ''+'' then drop 1 t else t);
          v = (if neg then - int (digits_value ds) else int (digits_value ds))
      in if ds = [] \<or> \<not> list_all is_digit ds then None
         else if - (2 ^ 31) \<le> v \<and> v < 2 ^ 31 then Some v else None)"

definition clamp :: "int \<Rightarrow> int \<Rightarrow> int \<Rightarrow> int" where
  "clamp lo hi n = (if n < lo then lo else if hi < n then hi else n)"

text \<open>\<open>query_params[k]?.try(&.to_i?) || d\<close>\<close>

definition query_int :: "cr_context \<Rightarrow> string \<Rightarrow> int \<Rightarrow> int" where
  "query_int cx k d =
     (case Option.bind (map_of (query_params (cx_request cx)) k) to_i32 of None \<Rightarrow> d | Some n \<Rightarrow> n)"

section \<open>The end-to-end server\<close>

definition reply_text :: "string \<Rightarrow> int \<Rightarrow> cr_handler" where
  "reply_text body status cx = (on_response (resp_text body status) cx, None)"

definition reply_json :: "string \<Rightarrow> cr_handler" where
  "reply_json body cx = (on_response (resp_json body 200) cx, None)"

definition h_echo :: cr_handler where
  "h_echo cx = reply_text (req_body (cx_request cx)) 200 cx"

definition h_delete :: cr_handler where
  "h_delete cx = (on_response (\<lambda>r. r\<lparr>resp_status := 204\<rparr>) cx, None)"

definition h_head :: cr_handler where
  "h_head cx =
     (on_response (\<lambda>r. (resp_set_header ''content-length'' ''20'' (resp_set_header ''content-type'' ''text/plain; charset=utf-8''
        (resp_set_header ''x-server'' ''quic.cr'' r)))\<lparr>resp_status := 200\<rparr>) cx, None)"

definition h_status :: cr_handler where
  "h_status cx =
     (let code = (case Option.bind (map_of (path_params (cx_request cx)) ''code'') to_i32 of None \<Rightarrow> 200 | Some n \<Rightarrow> n)
      in reply_text (''Status '' @ show_int code) code cx)"

definition h_large :: cr_handler where
  "h_large cx = reply_text (replicate (nat (clamp 0 10485760 (query_int cx ''n'' 65536))) (CHR ''x'')) 200 cx"

text \<open>Each quotation mark gets a backslash, then each backslash is doubled.\<close>

definition gsub :: "char \<Rightarrow> string \<Rightarrow> string \<Rightarrow> string" where
  "gsub c t s = concat (map (\<lambda>x. if x = c then t else [x]) s)"

definition header_pair :: "string \<times> string \<Rightarrow> string" where
  "header_pair kv =
     [CHR 0x22] @ fst kv @ [CHR 0x22] @ '':'' @ [CHR 0x22] @
     gsub (CHR 0x5C) [CHR 0x5C, CHR 0x5C] (gsub (CHR 0x22) [CHR 0x5C, CHR 0x22] (snd kv)) @ [CHR 0x22]"

fun join :: "string \<Rightarrow> string list \<Rightarrow> string" where
  "join sep [] = []"
| "join sep [s] = s"
| "join sep (s # ss) = s @ sep @ join sep ss"

definition h_echo_headers :: cr_handler where
  "h_echo_headers cx =
     reply_json (''{'' @ join '','' (map header_pair (filter (\<lambda>(k, v). \<not> (take 7 k = ''_param_'' \<or> is_pseudo k))
       (req_headers (cx_request cx)))) @ ''}'') cx"

definition quoted :: "string \<Rightarrow> string" where
  "quoted s = [CHR 0x22] @ s @ [CHR 0x22]"

definition h_upload :: cr_handler where
  "h_upload cx = reply_json (''{'' @ quoted ''received'' @ '':'' @ show_nat (length (req_body (cx_request cx))) @ ''}'') cx"

definition h_slow :: cr_handler where
  "h_slow cx = reply_text ''ok'' 200 (effect (SleepMs (clamp 0 5000 (query_int cx ''ms'' 0))) cx)"

definition h_digest :: "(byte list \<Rightarrow> byte list) \<Rightarrow> cr_handler" where
  "h_digest sha cx =
     (let body = req_body (cx_request cx)
      in reply_json (''{'' @ quoted ''sha256'' @ '':'' @ quoted (sha256hex sha body) @ '','' @ quoted ''size'' @ '':'' @
           show_nat (length body) @ ''}'') cx)"

definition PAYLOAD_100K :: string where "PAYLOAD_100K = Repeat ''x'' 102400"

definition h_100k :: cr_handler where
  "h_100k cx =
     reply_text PAYLOAD_100K 200
       (on_response (\<lambda>r. r\<lparr>resp_headers := AList.update ''content-type'' ''application/octet-stream'' (resp_headers r)\<rparr>) cx)"

text \<open>The first character of the parameter: a byte, or what \<open>uni\<close> takes from a string that starts beyond ASCII.\<close>

definition first_char :: "(string \<Rightarrow> string) \<Rightarrow> string \<Rightarrow> string option" where
  "first_char uni s = (if s = [] then None else if (of_char (hd s) :: nat) < 128 then Some [hd s] else Some (uni s))"

definition h_repeat :: "(string \<Rightarrow> string) \<Rightarrow> cr_handler" where
  "h_repeat uni cx =
     (let n = clamp 0 10000000 (query_int cx ''n'' 0);
          c = (case Option.bind (map_of (query_params (cx_request cx)) ''c'') (first_char uni) of None \<Rightarrow> ''x'' | Some s \<Rightarrow> s)
      in reply_text (Repeat c (nat n)) 200 cx)"

definition h_goaway :: cr_handler where
  "h_goaway cx =
     reply_text ''ok'' 200
       (if cx_conn cx then effect (SendGoaway (case cx_stream cx of None \<Rightarrow> 0 | Some sid \<Rightarrow> sid)) cx else cx)"

definition h_push_demo :: cr_handler where
  "h_push_demo cx =
     reply_text ''main response'' 200 (push_resource ''/push-asset'' ''pushed content'' [(''content-type'', ''text/plain'')] cx)"

definition e2e_routes :: "(byte list \<Rightarrow> byte list) \<Rightarrow> (string \<Rightarrow> string) \<Rightarrow> (string \<times> string \<times> cr_handler) list" where
  "e2e_routes sha uni =
     [(''GET'', ''/'', reply_text ''Hello from quic.cr!'' 200),
      (''GET'', ''/healthz'', reply_json (''{'' @ quoted ''status'' @ '':'' @ quoted ''ok'' @ ''}'')),
      (''GET'', ''/ping'', reply_text ''pong'' 200),
      (''GET'', ''/method'', \<lambda>cx. reply_text (req_method (cx_request cx)) 200 cx),
      (''POST'', ''/echo'', h_echo), (''PUT'', ''/echo'', h_echo), (''PATCH'', ''/echo'', h_echo),
      (''DELETE'', ''/resource'', h_delete), (''HEAD'', ''/'', h_head), (''GET'', ''/status/:code'', h_status),
      (''GET'', ''/large'', h_large), (''GET'', ''/echo-headers'', h_echo_headers), (''POST'', ''/upload'', h_upload),
      (''GET'', ''/slow'', h_slow), (''POST'', ''/digest'', h_digest sha), (''GET'', ''/100k'', h_100k),
      (''GET'', ''/repeat'', h_repeat uni), (''GET'', ''/send-goaway'', h_goaway), (''GET'', ''/push-demo'', h_push_demo)]"

definition e2e_router :: "(byte list \<Rightarrow> byte list) \<Rightarrow> (string \<Rightarrow> string) \<Rightarrow> router" where
  "e2e_router sha uni =
     foldl (\<lambda>r (m, p, h). register m p h r) \<lparr>routes = [], middlewares = []\<rparr> (e2e_routes sha uni)"

definition e2e_respond ::
    "(byte list \<Rightarrow> byte list) \<Rightarrow> (string \<Rightarrow> string) \<Rightarrow> string \<Rightarrow> headers \<Rightarrow> string \<Rightarrow> u64 option \<Rightarrow> headers \<times> string \<times> cr_effect list" where
  "e2e_respond sha uni metrics_text = respond (e2e_router sha uni) ''/metrics'' metrics_text"

section \<open>Routing of the end-to-end server\<close>

lemma e2e_router_eq:
  "e2e_router sha uni = \<lparr>routes = map (\<lambda>(m, p, h). \<lparr>rt_method = m, rt_pattern = p, rt_segments = segments_of p, rt_handler = h\<rparr>)
     (e2e_routes sha uni), middlewares = []\<rparr>"
proof -
  have "foldl (\<lambda>r (m, p, h). register m p h r) r0 hs =
      r0\<lparr>routes := routes r0 @ map (\<lambda>(m, p, h). \<lparr>rt_method = m, rt_pattern = p, rt_segments = segments_of p, rt_handler = h\<rparr>) hs\<rparr>"
    for r0 :: router and hs
    by (induction hs arbitrary: r0) (auto simp: register_def)
  then show ?thesis by (simp add: e2e_router_def)
qed

text \<open>What \<open>write_response\<close> is given for a context without effects.\<close>

definition sends :: "cr_response \<Rightarrow> headers \<times> string \<times> cr_effect list" where
  "sends r = (to_h3_headers r, resp_body r, [])"

lemma e2e_respond_routed:
  assumes "map_of hdrs '':path'' \<noteq> Some ''/metrics''"
  shows "e2e_respond sha uni mt hdrs body sid =
    (let cx = finish_context (dispatch (e2e_router sha uni) (routed_context hdrs body sid))
     in (to_h3_headers (cx_response cx), resp_body (cx_response cx), cx_effects cx))"
  using assms by (simp add: e2e_respond_def respond_def)

lemmas dispatch_simps =
  e2e_respond_routed dispatch_def e2e_router_eq e2e_routes_def segments_of_def match_route_def upper_byte_def
  build_chain_def attach_params_def finish_context_def routed_context_def Request_new_def Let_def

lemmas reply_defs = reply_text_def reply_json_def on_response_def sends_def

lemma e2e_fixed_pages:
  assumes "map_of hdrs '':method'' = Some ''GET''"
  shows "map_of hdrs '':path'' = Some ''/'' \<Longrightarrow>
      e2e_respond sha uni mt hdrs body sid = sends (resp_text ''Hello from quic.cr!'' 200 Response_new)"
    and "map_of hdrs '':path'' = Some ''/healthz'' \<Longrightarrow>
      e2e_respond sha uni mt hdrs body sid = sends (resp_json (''{'' @ quoted ''status'' @ '':'' @ quoted ''ok'' @ ''}'') 200 Response_new)"
    and "map_of hdrs '':path'' = Some ''/ping'' \<Longrightarrow>
      e2e_respond sha uni mt hdrs body sid = sends (resp_text ''pong'' 200 Response_new)"
    and "map_of hdrs '':path'' = Some ''/method'' \<Longrightarrow>
      e2e_respond sha uni mt hdrs body sid = sends (resp_text ''GET'' 200 Response_new)"
  using assms by (simp_all add: dispatch_simps reply_defs)

lemma e2e_echo:
  assumes "map_of hdrs '':method'' = Some m" and "m \<in> {''POST'', ''PUT'', ''PATCH''}" and "map_of hdrs '':path'' = Some ''/echo''"
  shows "e2e_respond sha uni mt hdrs body sid = sends (resp_text body 200 Response_new)"
  using assms by (auto simp: dispatch_simps reply_defs h_echo_def)

lemma e2e_posts:
  assumes "map_of hdrs '':method'' = Some ''POST''"
  shows "map_of hdrs '':path'' = Some ''/upload'' \<Longrightarrow> e2e_respond sha uni mt hdrs body sid =
      sends (resp_json (''{'' @ quoted ''received'' @ '':'' @ show_nat (length body) @ ''}'') 200 Response_new)"
    and "map_of hdrs '':path'' = Some ''/digest'' \<Longrightarrow> e2e_respond sha uni mt hdrs body sid =
      sends (resp_json (''{'' @ quoted ''sha256'' @ '':'' @ quoted (sha256hex sha body) @ '','' @ quoted ''size'' @ '':'' @
        show_nat (length body) @ ''}'') 200 Response_new)"
  using assms by (simp_all add: dispatch_simps reply_defs h_upload_def h_digest_def)

lemma e2e_delete_head:
  shows "map_of hdrs '':method'' = Some ''DELETE'' \<Longrightarrow> map_of hdrs '':path'' = Some ''/resource'' \<Longrightarrow>
      e2e_respond sha uni mt hdrs body sid = sends (Response_new\<lparr>resp_status := 204\<rparr>)"
    and "map_of hdrs '':method'' = Some ''HEAD'' \<Longrightarrow> map_of hdrs '':path'' = Some ''/'' \<Longrightarrow>
      e2e_respond sha uni mt hdrs body sid =
        sends (resp_set_header ''content-length'' ''20'' (resp_set_header ''content-type'' ''text/plain; charset=utf-8''
          (resp_set_header ''x-server'' ''quic.cr'' Response_new)))"
  by (simp_all add: dispatch_simps reply_defs h_delete_def h_head_def resp_set_header_def Response_new_def)

lemma splitOn_nonempty: "splitOn d s \<noteq> []"
  by (induction s) (auto split: list.splits)

lemma e2e_not_found:
  assumes "map_of hdrs '':method'' = Some ''GET''" and "map_of hdrs '':path'' = Some p"
    and "p \<in> {''/not-found-xyz'', ''/nonexistent-path-xyz''}"
  shows "e2e_respond sha uni mt hdrs body sid = sends (resp_text ''Not Found'' 404 Response_new)"
  using assms by (auto simp: dispatch_simps reply_defs resp_not_found_def)

section \<open>Numbers and parameters\<close>

lemma digit_char: "d < 10 \<Longrightarrow> is_digit (char_of (48 + d)) \<and> of_char (char_of (48 + d)) = 48 + d" for d :: nat
  by (simp add: is_digit_def)

lemma show_nat_digits: "show_nat n \<noteq> [] \<and> list_all is_digit (show_nat n) \<and> digits_value (show_nat n) = n"
proof (induction n rule: less_induct)
  case (less n)
  show ?case
  proof (cases "n < 10")
    case True
    then show ?thesis using digit_char [of n] by (simp add: show_nat.simps digits_value_def)
  next
    case False
    then have "n div 10 < n" by simp
    from less [OF this] show ?thesis
      using False digit_char [of "n mod 10"] by (subst (1 2 3) show_nat.simps) (simp add: digits_value_def)
  qed
qed

lemma digit_other:
  assumes "is_digit c"
  shows "\<not> ascii_space c" and "c \<notin> set ''/?=&%-+''"
  using assms by (auto simp: is_digit_def ascii_space_def)

lemma digits_other:
  assumes "list_all is_digit s" and "c \<in> set ''/?=&%-+''"
  shows "c \<notin> set s"
  using assms digit_other(2) by (auto simp: list_all_iff)

lemma to_i32_digits:
  assumes "list_all is_digit s" and "s \<noteq> []" and "digits_value s < 2 ^ 31"
  shows "to_i32 s = Some (int (digits_value s))"
proof -
  have h: "\<not> ascii_space (hd s)" "\<not> ascii_space (hd (rev s))"
    using assms(1,2) digit_other(1) by (auto simp: list_all_iff hd_rev)
  have t: "rev (dropWhile ascii_space (rev (dropWhile ascii_space s))) = s"
    using h by (metis dropWhile_eq_self_iff rev_rev_ident)
  obtain c s' where s: "s = c # s'" using assms(2) by (cases s) auto
  then have "take 1 s \<noteq> ''-''" "take 1 s \<noteq> ''+''" using assms(1) digit_other(2) [of c] by auto
  moreover have "int (digits_value s) < 2 ^ 31" using assms(3) by (simp add: of_nat_less_numeral_power_cancel_iff)
  ultimately show ?thesis using assms(1,2) unfolding to_i32_def t Let_def by simp
qed

lemma to_i32_show_nat: "n < 2 ^ 31 \<Longrightarrow> to_i32 (show_nat n) = Some (int n)"
  using to_i32_digits [of "show_nat n"] show_nat_digits [of n] by simp

lemma URI_decode_plain: "CHR ''%'' \<notin> set s \<Longrightarrow> URI_decode s = s"
  by (induction s) auto

text \<open>A captured segment is what the handler reads: the parameters travel as headers of a reserved prefix.\<close>

lemma path_params_lookup:
  assumes "distinct (map fst hs)" and "k \<noteq> []" and "req_headers r = hs"
  shows "map_of (path_params r) k = map_of hs (''_param_'' @ k)"
proof -
  have split: "take 7 x = ''_param_'' \<and> drop 7 x = k \<longleftrightarrow> x = ''_param_'' @ k" for x
  proof
    assume "take 7 x = ''_param_'' \<and> drop 7 x = k"
    then show "x = ''_param_'' @ k" using append_take_drop_id [of 7 x] by simp
  qed simp
  have "map_of (foldl (\<lambda>result (x, v). if take 7 x = ''_param_'' \<and> drop 7 x \<noteq> [] then AList.update (drop 7 x) v result else result) acc hs) k =
      (case map_of hs (''_param_'' @ k) of None \<Rightarrow> map_of acc k | Some v \<Rightarrow> Some v)" for acc
    using assms(1)
  proof (induction hs arbitrary: acc)
    case (Cons y hs)
    obtain x v where y: "y = (x, v)" by fastforce
    show ?case
    proof (cases "x = ''_param_'' @ k")
      case True
      then have "map_of hs (''_param_'' @ k) = None" using Cons.prems y by (auto simp: map_of_eq_None_iff)
      then show ?thesis using Cons.IH [of "AList.update k v acc"] Cons.prems y True assms(2) by (simp add: update_conv')
    next
      case False
      then have "\<not> (take 7 x = ''_param_'' \<and> drop 7 x = k)" using split by blast
      then show ?thesis
        using Cons.IH Cons.prems y False by (auto simp: update_conv' split: option.splits)
    qed
  qed simp
  from this [of "[]"] show ?thesis by (simp add: path_params_def assms(3) split: option.splits)
qed


lemma takeWhile_none: "d \<notin> set s \<Longrightarrow> takeWhile (\<lambda>c. c \<noteq> d) s = s" "d \<notin> set s \<Longrightarrow> dropWhile (\<lambda>c. c \<noteq> d) s = []"
  by (induction s) auto

lemma e2e_status:
  assumes "map_of hdrs '':method'' = Some ''GET''" and "map_of hdrs '':path'' = Some (''/status/'' @ s)"
    and "list_all is_digit s" and "s \<noteq> []" and "digits_value s < 2 ^ 31" and "distinct (map fst hdrs)"
  shows "e2e_respond sha uni mt hdrs body sid =
    sends (resp_text (''Status '' @ show_nat (digits_value s)) (int (digits_value s)) Response_new)"
proof -
  have n: "CHR ''?'' \<notin> set s" "CHR ''/'' \<notin> set s" using digits_other [OF assms(3)] by auto
  have seg: "segments_of (''/status/'' @ s) = [''status'', s]"
    using splitOn_head [of "CHR ''/''" "[]"] splitOn_head [of "CHR ''/''" "''status''" s] splitOn_plain [OF n(2)] assms(4)
    by (simp add: segments_of_def)
  define r0 where "r0 = Request_new hdrs body []"
  have r0: "req_method r0 = ''GET''" "req_path r0 = ''/status/'' @ s" "distinct (map fst (req_headers r0))"
    using assms(1,2,6) takeWhile_none(1) [OF n(1)] by (auto simp: r0_def Request_new_def distinct_map_filter)
  let ?r = "r0\<lparr>req_headers := AList.update ''_param_code'' s (req_headers r0)\<rparr>"
  have "map_of (path_params ?r) ''code'' = map_of (req_headers ?r) (''_param_'' @ ''code'')"
    by (rule path_params_lookup) (simp_all add: distinct_update r0(3))
  then have p: "map_of (path_params ?r) ''code'' = Some s" by (simp add: update_conv')
  have "dispatch (e2e_router sha uni) (routed_context hdrs body sid) =
      (on_response (resp_text (''Status '' @ show_nat (digits_value s)) (int (digits_value s)))
        ((routed_context hdrs body sid)\<lparr>cx_request := ?r\<rparr>), True, None)"
    unfolding dispatch_def routed_context_def r0_def [symmetric]
    using seg r0(1,2) p to_i32_digits [OF assms(3,4,5)]
    by (simp add: e2e_router_eq e2e_routes_def segments_of_def [of "CHR ''/'' # x" for x] match_route_def upper_byte_def build_chain_def
        attach_params_def h_status_def reply_text_def Let_def show_int_def)
  then show ?thesis using assms(2) by (simp add: e2e_respond_routed finish_context_def Let_def on_response_def sends_def routed_context_def)
qed


text \<open>The query of the tests: one numeric parameter.\<close>

lemma query_params_one:
  assumes "req_query r = k @ ''='' @ v" and "list_all is_digit v" and "k \<noteq> []" and "set k \<inter> set ''=&%'' = {}"
  shows "query_params r = [(k, v)]"
proof -
  have v: "CHR ''&'' \<notin> set v" "CHR ''%'' \<notin> set v" using digits_other [OF assms(2)] by auto
  have k: "CHR ''='' \<notin> set k" "CHR ''&'' \<notin> set k" "CHR ''%'' \<notin> set k" using assms(4) by auto
  have "splitOn (CHR ''&'') (k @ ''='' @ v) = [k @ ''='' @ v]" by (rule splitOn_plain) (use v k in auto)
  moreover have "takeWhile (\<lambda>c. c \<noteq> CHR ''='') (k @ CHR ''='' # v) = k" "dropWhile (\<lambda>c. c \<noteq> CHR ''='') (k @ CHR ''='' # v) = CHR ''='' # v"
    using k(1) by (induction k) auto
  ultimately show ?thesis using assms(1,3) k v by (simp add: query_params_def URI_decode_plain)
qed

lemma e2e_large:
  assumes "map_of hdrs '':method'' = Some ''GET''" and "map_of hdrs '':path'' = Some (''/large?n='' @ s)"
    and "list_all is_digit s" and "s \<noteq> []" and "digits_value s \<le> 10485760"
  shows "e2e_respond sha uni mt hdrs body sid = sends (resp_text (replicate (digits_value s) (CHR ''x'')) 200 Response_new)"
proof -
  let ?r = "Request_new hdrs body []"
  have q: "req_query ?r = ''n'' @ ''='' @ s" "req_path ?r = ''/large''" "req_method ?r = ''GET''"
    using assms(1,2) by (simp_all add: Request_new_def Let_def)
  have "query_params ?r = [(''n'', s)]" by (rule query_params_one [OF q(1) assms(3)]) auto
  moreover have "to_i32 s = Some (int (digits_value s))" using assms(5) by (intro to_i32_digits [OF assms(3,4)]) simp
  ultimately have "dispatch (e2e_router sha uni) (routed_context hdrs body sid) =
      (on_response (resp_text (replicate (digits_value s) (CHR ''x'')) 200) (routed_context hdrs body sid), True, None)"
    using q(2,3) assms(5)
    by (simp add: dispatch_def routed_context_def e2e_router_eq e2e_routes_def segments_of_def match_route_def upper_byte_def build_chain_def
        attach_params_def h_large_def reply_text_def query_int_def clamp_def)
  then show ?thesis using assms(2) by (simp add: e2e_respond_routed finish_context_def Let_def on_response_def sends_def routed_context_def)
qed

lemma e2e_slow:
  assumes "map_of hdrs '':method'' = Some ''GET''" and "map_of hdrs '':path'' = Some (''/slow?ms='' @ s)"
    and "list_all is_digit s" and "s \<noteq> []" and "digits_value s \<le> 5000"
  shows "e2e_respond sha uni mt hdrs body sid =
    (to_h3_headers (resp_text ''ok'' 200 Response_new), ''ok'', [SleepMs (int (digits_value s))])"
proof -
  let ?r = "Request_new hdrs body []"
  have q: "req_query ?r = ''ms'' @ ''='' @ s" "req_path ?r = ''/slow''" "req_method ?r = ''GET''"
    using assms(1,2) by (simp_all add: Request_new_def Let_def)
  have "query_params ?r = [(''ms'', s)]" by (rule query_params_one [OF q(1) assms(3)]) auto
  moreover have "to_i32 s = Some (int (digits_value s))" using assms(5) by (intro to_i32_digits [OF assms(3,4)]) simp
  ultimately have "dispatch (e2e_router sha uni) (routed_context hdrs body sid) =
      (on_response (resp_text ''ok'' 200) (effect (SleepMs (int (digits_value s))) (routed_context hdrs body sid)), True, None)"
    using q(2,3) assms(5)
    by (simp add: dispatch_def routed_context_def e2e_router_eq e2e_routes_def segments_of_def match_route_def upper_byte_def build_chain_def
        attach_params_def h_slow_def reply_text_def query_int_def clamp_def)
  then show ?thesis using assms(2)
    by (simp add: e2e_respond_routed finish_context_def Let_def on_response_def effect_def routed_context_def resp_text_def resp_typed_def)
qed

lemma e2e_repeat:
  assumes "map_of hdrs '':method'' = Some ''GET''"
  shows "map_of hdrs '':path'' = Some ''/repeat?n=100&c=A'' \<Longrightarrow>
      e2e_respond sha uni mt hdrs body sid = sends (resp_text (Repeat ''A'' 100) 200 Response_new)"
    and "map_of hdrs '':path'' = Some ''/repeat?n=0&c=x'' \<Longrightarrow>
      e2e_respond sha uni mt hdrs body sid = sends (resp_text [] 200 Response_new)"
    and "map_of hdrs '':path'' = Some ''/repeat?n=1&c=Z'' \<Longrightarrow>
      e2e_respond sha uni mt hdrs body sid = sends (resp_text ''Z'' 200 Response_new)"
  using assms
  by (simp_all add: dispatch_simps reply_defs h_repeat_def query_int_def query_params_def to_i32_def is_digit_def digits_value_def ascii_space_def
      clamp_def first_char_def Repeat_def)

lemma e2e_push_demo:
  assumes "map_of hdrs '':method'' = Some ''GET''" and "map_of hdrs '':path'' = Some ''/push-demo''"
  shows "fst (e2e_respond sha uni mt hdrs body sid) = to_h3_headers (resp_text ''main response'' 200 Response_new)"
    and "fst (snd (e2e_respond sha uni mt hdrs body sid)) = ''main response''"
  using assms by (simp_all add: dispatch_simps reply_defs h_push_demo_def push_resource_def effect_def resp_text_def resp_typed_def split: option.splits)

lemma e2e_echo_headers:
  assumes "map_of hdrs '':method'' = Some ''GET''" and "map_of hdrs '':path'' = Some ''/echo-headers''"
  shows "e2e_respond sha uni mt hdrs body sid =
    sends (resp_json (''{'' @ join '','' (map header_pair (filter (\<lambda>(k, v). \<not> (take 7 k = ''_param_'' \<or> is_pseudo k)) hdrs)) @ ''}'') 200 Response_new)"
proof -
  have "filter (\<lambda>(k, v). \<not> (take 7 k = ''_param_'' \<or> is_pseudo k)) (filter (\<lambda>(k, v). \<not> is_pseudo k) hdrs) =
      filter (\<lambda>(k, v). \<not> (take 7 k = ''_param_'' \<or> is_pseudo k)) hdrs"
    by (induction hdrs) auto
  then show ?thesis using assms by (simp add: dispatch_simps reply_defs h_echo_headers_def)
qed

section \<open>Dispatch\<close>

definition is_param :: "string \<Rightarrow> bool" where
  "is_param seg = (take 1 seg = '':'')"

text \<open>The specification of a match, and the first route that matches.\<close>

definition route_matches :: "string \<Rightarrow> string list \<Rightarrow> route \<Rightarrow> bool" where
  "route_matches method segs rt =
     ((rt_method rt = method \<or> rt_method rt = ''ANY'') \<and>
      list_all2 (\<lambda>p s. is_param p \<or> p = s) (rt_segments rt) segs)"

lemma match_segs_iff:
  "length ps = length rs \<Longrightarrow> match_segs ps rs acc \<noteq> None \<longleftrightarrow> list_all2 (\<lambda>p s. is_param p \<or> p = s) ps rs"
  by (induction ps rs acc rule: match_segs.induct) (auto simp: is_param_def)

lemma match_route_iff: "match_route ps rs \<noteq> None \<longleftrightarrow> list_all2 (\<lambda>p s. is_param p \<or> p = s) ps rs"
  using match_segs_iff [of ps rs "[]"] by (auto simp: match_route_def list_all2_lengthD)

lemma match_segs_keep:
  assumes "match_segs ps rs acc = Some out" and "length ps = length rs" and "'':'' @ k \<notin> set ps"
  shows "map_of out k = map_of acc k"
  using assms
proof (induction ps rs acc rule: match_segs.induct)
  case (1 seg ps r rs params)
  then show ?case
  proof (cases "take 1 seg = '':''")
    case True
    then have "seg = '':'' @ drop 1 seg" by (metis append_take_drop_id)
    then have "drop 1 seg \<noteq> k" using 1(5) by (metis list.set_intros(1))
    then show ?thesis using 1 True by (simp add: update_conv')
  qed (auto split: if_splits)
qed auto

lemma match_segs_param:
  assumes "match_segs ps rs acc = Some out" and "length ps = length rs" and "distinct (filter is_param ps)"
    and "i < length ps" and "ps ! i = '':'' @ k"
  shows "map_of out k = Some (rs ! i)"
  using assms
proof (induction ps rs acc arbitrary: i rule: match_segs.induct)
  case (1 seg ps r rs params)
  show ?case
  proof (cases i)
    case 0
    then have s: "seg = '':'' @ k" using 1(7) by simp
    then have "'':'' @ k \<notin> set ps" using 1(5) by (auto simp: is_param_def)
    then have "map_of out k = map_of (AList.update k r params) k"
      using match_segs_keep [of ps rs "AList.update k r params" out k] 1(3,4) s by simp
    then show ?thesis using 0 by (simp add: update_conv')
  next
    case (Suc j)
    then show ?thesis using 1 by (auto split: if_splits)
  qed
qed auto

lemma match_segs_distinct: "match_segs ps rs acc = Some out \<Longrightarrow> distinct (map fst acc) \<Longrightarrow> distinct (map fst out)"
  by (induction ps rs acc rule: match_segs.induct) (auto simp: distinct_update split: if_splits)

lemma attach_lookup:
  assumes "distinct (map fst params)" and "map_of params k = Some v"
  shows "map_of (foldl (\<lambda>h (k, v). AList.update (''_param_'' @ k) v h) hs params) (''_param_'' @ k) = Some v"
proof -
  have keep: "map_of (foldl (\<lambda>h (k, v). AList.update (''_param_'' @ k) v h) hs ps) (''_param_'' @ k) = map_of hs (''_param_'' @ k)"
    if "k \<notin> fst ` set ps" for ps hs using that by (induction ps arbitrary: hs) (auto simp: update_conv')
  show ?thesis using assms
  proof (induction params arbitrary: hs)
    case (Cons x xs)
    obtain a b where x: "x = (a, b)" by fastforce
    show ?case
    proof (cases "a = k")
      case True
      then show ?thesis using Cons.prems x keep [of xs "AList.update (''_param_'' @ k) b hs"] by (simp add: update_conv')
    next
      case False
      then show ?thesis using Cons x by simp
    qed
  qed simp
qed

lemma attach_distinct: "distinct (map fst hs) \<Longrightarrow> distinct (map fst (foldl (\<lambda>h (k, v). AList.update (''_param_'' @ k) v h) hs params))"
  by (induction params arbitrary: hs) (auto simp: distinct_update)

lemma captured_segment:
  assumes "match_route ps segs = Some params" and "distinct (filter is_param ps)" and "i < length ps" and "ps ! i = '':'' @ k" and "k \<noteq> []"
    and "distinct (map fst (req_headers (cx_request cx)))"
  shows "map_of (path_params (cx_request (attach_params params cx))) k = Some (segs ! i)"
proof -
  have l: "length ps = length segs" and m: "match_segs ps segs [] = Some params"
    using assms(1) by (auto simp: match_route_def split: if_splits)
  have p: "map_of params k = Some (segs ! i)" by (rule match_segs_param [OF m l assms(2-4)])
  have "distinct (map fst params)" using match_segs_distinct [OF m] by simp
  note a = attach_lookup [OF this p, of "req_headers (cx_request cx)"]
  have "req_headers (cx_request (attach_params params cx)) =
      foldl (\<lambda>h (k, v). AList.update (''_param_'' @ k) v h) (req_headers (cx_request cx)) params" by (simp add: attach_params_def)
  from path_params_lookup [OF attach_distinct [OF assms(6), of params] assms(5) this] a show ?thesis by (simp only:)
qed

lemma dispatch_routes_find:
  "dispatch_routes mws method segs rts cx =
    (case find (route_matches method segs) rts of
       None \<Rightarrow> (cx, False, None)
     | Some rt \<Rightarrow>
         (case build_chain mws (rt_handler rt) (attach_params (the (match_route (rt_segments rt) segs)) cx) of
            (cx', err) \<Rightarrow> (cx', True, err)))"
proof (induction rts)
  case (Cons rt rts)
  have "match_route (rt_segments rt) segs = None \<longleftrightarrow> \<not> list_all2 (\<lambda>p s. is_param p \<or> p = s) (rt_segments rt) segs"
    using match_route_iff by blast
  then show ?case using Cons by (auto simp: route_matches_def split: option.splits)
qed simp

text \<open>
  C40. The router serves a request with the first registered route whose method is the request's (or
  ANY) and whose pattern matches the path segment by segment, runs the middleware around its handler
  with the first registered outermost, and leaves the request alone when there is no such route. In the
  handler a path parameter has the value of the segment it stands for.
\<close>

theorem router_dispatch:
  assumes "distinct (map fst (req_headers (cx_request cx)))"
  shows "case find (route_matches (map upper_byte (req_method (cx_request cx))) (segments_of (req_path (cx_request cx)))) (routes r) of
      None \<Rightarrow> dispatch r cx = (cx, False, None)
    | Some rt \<Rightarrow> \<exists>cx1. dispatch r cx =
          (fst (build_chain (middlewares r) (rt_handler rt) cx1), True, snd (build_chain (middlewares r) (rt_handler rt) cx1)) \<and>
        cx_response cx1 = cx_response cx \<and> req_body (cx_request cx1) = req_body (cx_request cx) \<and>
        (distinct (filter is_param (rt_segments rt)) \<longrightarrow>
          (\<forall>i<length (rt_segments rt). \<forall>k. rt_segments rt ! i = '':'' @ k \<and> k \<noteq> [] \<longrightarrow>
             map_of (path_params (cx_request cx1)) k = Some (segments_of (req_path (cx_request cx)) ! i)))"
proof (cases "find (route_matches (map upper_byte (req_method (cx_request cx))) (segments_of (req_path (cx_request cx)))) (routes r)")
  case None
  then show ?thesis by (simp add: dispatch_def dispatch_routes_find)
next
  case (Some rt)
  let ?segs = "segments_of (req_path (cx_request cx))"
  have "list_all2 (\<lambda>p s. is_param p \<or> p = s) (rt_segments rt) ?segs"
    using Some by (auto simp: find_Some_iff route_matches_def)
  then obtain params where p: "match_route (rt_segments rt) ?segs = Some params" using match_route_iff by blast
  let ?cx = "attach_params params cx"
  have d: "dispatch r cx = (fst (build_chain (middlewares r) (rt_handler rt) ?cx), True, snd (build_chain (middlewares r) (rt_handler rt) ?cx))"
    using Some p by (simp add: dispatch_def dispatch_routes_find case_prod_beta)
  have u: "cx_response ?cx = cx_response cx" "req_body (cx_request ?cx) = req_body (cx_request cx)" by (simp_all add: attach_params_def)
  show ?thesis unfolding Some option.case using d u captured_segment [OF p _ _ _ _ assms] by blast
qed

theorem router_dispatch_witness:
  "dispatch (e2e_router (\<lambda>b. b) (\<lambda>s. s)) (routed_context [('':method'', ''GET''), ('':path'', ''/status'')] [] None) =
     (routed_context [('':method'', ''GET''), ('':path'', ''/status'')] [] None, False, None) \<and>
   fst (snd (dispatch (e2e_router (\<lambda>b. b) (\<lambda>s. s)) (routed_context [('':method'', ''get''), ('':path'', ''/status/404'')] [] None)))"
proof -
  have d: "distinct (map fst (req_headers (cx_request (routed_context [('':method'', m), ('':path'', p)] [] None))))" for m p
    by (simp add: routed_context_def Request_new_def is_pseudo_def)
  have f: "find (route_matches (map upper_byte ''GET'') [''status'']) (routes (e2e_router (\<lambda>b. b) (\<lambda>s. s))) = None"
    "find (route_matches (map upper_byte ''get'') [''status'', ''404'']) (routes (e2e_router (\<lambda>b. b) (\<lambda>s. s))) \<noteq> None"
    by (simp_all add: e2e_router_eq e2e_routes_def segments_of_def upper_byte_def route_matches_def is_param_def char_of_def bit_0)
  have r: "req_method (cx_request (routed_context [('':method'', m), ('':path'', p)] [] None)) = m"
    "segments_of (req_path (cx_request (routed_context [('':method'', m), ('':path'', p)] [] None))) = segments_of (takeWhile (\<lambda>c. c \<noteq> CHR ''?'') p)" for m p
    by (simp_all add: routed_context_def Request_new_def)
  have s: "segments_of (takeWhile (\<lambda>c. c \<noteq> CHR ''?'') ''/status'') = [''status'']"
    "segments_of (takeWhile (\<lambda>c. c \<noteq> CHR ''?'') ''/status/404'') = [''status'', ''404'']" by (simp_all add: segments_of_def)
  show ?thesis
    using router_dispatch [OF d [of "''GET''" "''/status''"], of "e2e_router (\<lambda>b. b) (\<lambda>s. s)", unfolded r s f(1) option.case]
      router_dispatch [OF d [of "''get''" "''/status/404''"], of "e2e_router (\<lambda>b. b) (\<lambda>s. s)", unfolded r s] f(2)
    by (auto split: option.splits)
qed

end
