(* ===== verification/E2E_Interop.thy ===== *)
theory E2E_Interop
  imports Go_Suites H3_Interop Cr_Router "HOL-Library.List_Lexorder" "HOL-Library.Char_ord"
begin

text \<open>
  The end-to-end client of bench/go_client/main.go against the server of
  examples/e2e_server.cr. What lies between them is foreign (quic-go, TLS, UDP); it enters as
  \<open>h3_client\<close>: a request arrives as a HEADERS frame whose block the server's QPACK decoder reads to
  the fields of the request, followed by DATA frames with the body, and a well-formed response is
  delivered with its status, fields and body. Every test of the HTTP suites is then shown to pass,
  and with the control streams of suite 26 served the whole run reports nothing but what fails of the
  datagram exchanges and the 0-RTT connection, of which nothing is assumed.
\<close>


section \<open>A request on its stream\<close>

definition request_stream :: "byte list \<Rightarrow> byte list list \<Rightarrow> byte list" where
  "request_stream block chunks = h3Frame 0x01 block @ concat (map (h3Frame 0x00) chunks)"

lemma read_body_chunks:
  assumes "\<forall>c\<in>set chunks. length c \<le> MAX_FRAME_PAYLOAD"
  shows "read_body huff t (concat (map (h3Frame 0x00) chunks)) hdrs body = GotRequest hdrs (body @ concat chunks)"
  using assms
proof (induction chunks arbitrary: body)
  case Nil
  then show ?case by (simp add: read_body.simps Frame_decode_def VarInt_decode_def)
next
  case (Cons c cs)
  have "Frame_decode huff t (h3Frame 0x00 c @ concat (map (h3Frame 0x00) cs)) = Inr (DataFrame c, concat (map (h3Frame 0x00) cs))"
    using Cons.prems by (subst Frame_decode_h3Frame) (simp_all add: frame_of_def)
  then show ?case using Cons by (subst read_body.simps) simp
qed

lemma read_request_stream:
  assumes "Decoder_decode huff t block = Inr hdrs" and "length block \<le> MAX_FRAME_PAYLOAD"
    and "\<forall>c\<in>set chunks. length c \<le> MAX_FRAME_PAYLOAD"
    and "has_key hdrs '':method''" and "has_key hdrs '':path''" and "has_key hdrs '':scheme''" and "\<not> has_key hdrs '':status''"
  shows "read_request huff t (request_stream block chunks) = GotRequest hdrs (concat chunks)"
proof -
  have "Frame_decode huff t (request_stream block chunks) = Inr (HeadersFrame hdrs, concat (map (h3Frame 0x00) chunks))"
    unfolding request_stream_def using assms(1,2) by (subst Frame_decode_h3Frame) (simp_all add: frame_of_def)
  then show ?thesis using assms(4-7) read_body_chunks [OF assms(3), of huff t hdrs "[]"] by (simp add: read_request_def)
qed

section \<open>What quic-go promises\<close>

text \<open>
  A request within the bounds of the suites: a target below the base URL, single-valued
  extension headers in canonical form.
\<close>

definition sent_body :: "http_request \<Rightarrow> string" where
  "sent_body q = (case rq_body q of None \<Rightarrow> [] | Some b \<Rightarrow> b)"

definition sent_name :: "string \<Rightarrow> bool" where
  "sent_name k = (take 2 k = ''X-'' \<or> k = ''Content-Type'')"

definition small_request :: "string \<Rightarrow> http_request \<Rightarrow> string \<Rightarrow> bool" where
  "small_request base q p =
     (rq_url q = base @ p \<and> take 1 p = ''/'' \<and> length p \<le> 1000 \<and> valid_method (rq_method q) \<and> length (rq_method q) \<le> 100 \<and>
      length (sent_body q) \<le> MAX_FRAME_PAYLOAD \<and> finite (dom (rq_header q)) \<and> card (dom (rq_header q)) \<le> 10 \<and>
      (\<forall>k vs. rq_header q k = Some vs \<longrightarrow>
         sent_name k \<and> length k < 70 \<and> list_all token_byte k \<and> CanonicalMIMEHeaderKey k = k \<and> (\<exists>v. vs = [v] \<and> length v \<le> 1000)))"

text \<open>
  The field section of a request: the pseudo-headers, the user agent that quic-go adds, the
  headers of the request in lower case, no name twice.
\<close>

definition request_fields :: "http_request \<Rightarrow> string \<Rightarrow> headers \<Rightarrow> bool" where
  "request_fields q p hdrs =
     (distinct (map fst hdrs) \<and> map_of hdrs '':method'' = Some (rq_method q) \<and> map_of hdrs '':path'' = Some p \<and>
      map_of hdrs '':scheme'' = Some ''https'' \<and> map_of hdrs '':status'' = None \<and> map_of hdrs ''user-agent'' \<noteq> None \<and>
      (\<forall>k v. rq_header q k = Some [v] \<longrightarrow> map_of hdrs (map lower_byte k) = Some v))"

text \<open>What the client makes of a response; a response to HEAD has no body.\<close>

definition response_received :: "string \<Rightarrow> headers \<Rightarrow> string \<Rightarrow> http_response \<Rightarrow> bool" where
  "response_received m h b r =
     ((\<forall>n. map_of h '':status'' = Some (show_int n) \<longrightarrow> StatusCode r = n) \<and> rs_readErr r = None \<and>
      rs_body r = (if m = ''HEAD'' then [] else b) \<and>
      (\<forall>k v. map_of h k = Some v \<longrightarrow> \<not> is_pseudo k \<longrightarrow> Header_Get (rs_header r) k = v))"

text \<open>
  A response \<open>http.Client\<close> hands out as it is: a final status, field names in lower case, no
  redirect to follow, a content length that is that of the body.
\<close>

definition final_response :: "string \<Rightarrow> headers \<Rightarrow> string \<Rightarrow> bool" where
  "final_response m h b =
     (distinct (map fst h) \<and> list_all (\<lambda>k. is_pseudo k \<or> k \<noteq> [] \<and> list_all token_byte k \<and> map lower_byte k = k) (map fst h) \<and>
      (\<exists>n. map_of h '':status'' = Some (show_int n) \<and> 200 \<le> n \<and> n \<le> 599) \<and> map_of h ''location'' = None \<and>
      (m = ''HEAD'' \<or> map_of h ''content-length'' \<in> {None, Some (show_nat (length b))}))"

definition h3_client :: "(byte list \<Rightarrow> cr_error + string) \<Rightarrow> router \<Rightarrow> string \<Rightarrow> string \<Rightarrow> client \<Rightarrow> bool" where
  "h3_client huff router mt base c =
     (\<forall>q p. small_request base q p \<longrightarrow>
        cl_parse c (rq_url q) = None \<and>
        (\<forall>k. \<exists>t block chunks hdrs sid.
           Decoder_decode huff t block = Inr hdrs \<and> length block \<le> MAX_FRAME_PAYLOAD \<and>
           (\<forall>ch\<in>set chunks. length ch \<le> MAX_FRAME_PAYLOAD) \<and> concat chunks = string_bytes (sent_body q) \<and>
           request_fields q p hdrs \<and>
           (\<forall>h b effs. handle_request huff t router ''/metrics'' mt sid (request_stream block chunks) = Responded h b effs \<longrightarrow>
              final_response (rq_method q) h b \<longrightarrow>
              (\<exists>r. cl_do c k q = Inr r \<and> response_received (rq_method q) h b r))))"

lemma h3_client_response:
  assumes "h3_client huff (e2e_router sha uni) mt base c" and "small_request base q p"
    and "\<And>hdrs sid. request_fields q p hdrs \<Longrightarrow> final_response (rq_method q) (fst (e2e_respond sha uni mt hdrs (sent_body q) sid))
      (fst (snd (e2e_respond sha uni mt hdrs (sent_body q) sid)))"
  shows "\<exists>r hdrs sid. cl_do c k q = Inr r \<and> request_fields q p hdrs \<and>
    response_received (rq_method q) (fst (e2e_respond sha uni mt hdrs (sent_body q) sid))
      (fst (snd (e2e_respond sha uni mt hdrs (sent_body q) sid))) r"
proof -
  obtain t block chunks hdrs sid where d: "Decoder_decode huff t block = Inr hdrs" "length block \<le> MAX_FRAME_PAYLOAD"
    "\<forall>ch\<in>set chunks. length ch \<le> MAX_FRAME_PAYLOAD" "concat chunks = string_bytes (sent_body q)"
    and f: "request_fields q p hdrs"
    and c: "\<And>h b effs. handle_request huff t (e2e_router sha uni) ''/metrics'' mt sid (request_stream block chunks) = Responded h b effs \<Longrightarrow>
        final_response (rq_method q) h b \<Longrightarrow> \<exists>r. cl_do c k q = Inr r \<and> response_received (rq_method q) h b r"
    using assms(1,2) unfolding h3_client_def by blast
  have "read_request huff t (request_stream block chunks) = GotRequest hdrs (concat chunks)"
    by (rule read_request_stream [OF d(1-3)]) (use f in \<open>auto simp: request_fields_def has_key_def\<close>)
  then have "handle_request huff t (e2e_router sha uni) ''/metrics'' mt sid (request_stream block chunks) =
      (case e2e_respond sha uni mt hdrs (sent_body q) sid of (h, b, effs) \<Rightarrow> Responded h b effs)"
    by (simp add: handle_request_def d(4) e2e_respond_def)
  from c [OF this [unfolded case_prod_beta] assms(3) [OF f]] show ?thesis using f by blast
qed

section \<open>Test cases as requests\<close>

definition case_request :: "string \<Rightarrow> testCase \<Rightarrow> http_request" where
  "case_request base tc =
     \<lparr>rq_method = tc_method tc, rq_url = base @ tc_path tc, rq_body = (if tc_body tc \<noteq> [] then Some (tc_body tc) else None),
      rq_header = foldl (\<lambda>h (k, v). Header_Set h k v) Map.empty (tc_headers tc),
      rq_timeout = (if tc_timeout tc = 0 then 20 * Second else tc_timeout tc)\<rparr>"

definition plain_case :: "testCase \<Rightarrow> bool" where
  "plain_case tc =
     (take 1 (tc_path tc) = ''/'' \<and> length (tc_path tc) \<le> 1000 \<and> valid_method (tc_method tc) \<and> length (tc_method tc) \<le> 100 \<and>
      length (tc_body tc) \<le> MAX_FRAME_PAYLOAD \<and> length (tc_headers tc) \<le> 10 \<and>
      list_all (\<lambda>(k, v). sent_name (CanonicalMIMEHeaderKey k) \<and> length (CanonicalMIMEHeaderKey k) < 70 \<and>
        list_all token_byte (CanonicalMIMEHeaderKey k) \<and> length v \<le> 1000 \<and>
        CanonicalMIMEHeaderKey (CanonicalMIMEHeaderKey k) = CanonicalMIMEHeaderKey k) (tc_headers tc))"

lemma sent_body_case [simp]: "sent_body (case_request base tc) = tc_body tc"
  by (simp add: sent_body_def case_request_def)

lemma case_header:
  "foldl (\<lambda>h (k, v). Header_Set h k v) h0 hs K = Some vs \<Longrightarrow>
     h0 K = Some vs \<or> (\<exists>(k, v)\<in>set hs. K = CanonicalMIMEHeaderKey k \<and> vs = [v])"
proof (induction hs rule: rev_induct)
  case (snoc x xs)
  then show ?case by (cases x) (auto simp: Header_Set_def split: if_splits)
qed simp

lemma small_case: "plain_case tc \<Longrightarrow> small_request base (case_request base tc) (tc_path tc)"
proof -
  assume p: "plain_case tc"
  let ?h = "foldl (\<lambda>h (k, v). Header_Set h k v) Map.empty (tc_headers tc)"
  let ?ks = "(\<lambda>(k, v). CanonicalMIMEHeaderKey k) ` set (tc_headers tc)"
  have sub: "dom ?h \<subseteq> ?ks" using case_header [of Map.empty "tc_headers tc"] by fastforce
  have "card (dom ?h) \<le> card ?ks" by (rule card_mono [OF _ sub]) simp
  also have "\<dots> \<le> length (tc_headers tc)" using card_image_le [of "set (tc_headers tc)"] card_length le_trans by blast
  finally have "card (dom ?h) \<le> 10" using p by (simp add: plain_case_def)
  moreover have "finite (dom ?h)" by (rule finite_subset [OF sub]) simp
  moreover have "sent_name k \<and> length k < 70 \<and> list_all token_byte k \<and> CanonicalMIMEHeaderKey k = k \<and> (\<exists>v. vs = [v] \<and> length v \<le> 1000)" if "?h k = Some vs" for k vs
    using case_header [OF that] p by (auto simp: plain_case_def list_all_iff)
  ultimately show ?thesis using p unfolding small_request_def sent_body_case by (simp add: plain_case_def case_request_def)
qed

lemma case_passes:
  assumes "h3_client huff (e2e_router sha uni) mt base c" and "plain_case tc"
    and "\<And>hdrs sid. request_fields (case_request base tc) (tc_path tc) hdrs \<Longrightarrow>
      final_response (tc_method tc) (fst (e2e_respond sha uni mt hdrs (tc_body tc) sid)) (fst (snd (e2e_respond sha uni mt hdrs (tc_body tc) sid)))"
    and "\<And>hdrs sid r. request_fields (case_request base tc) (tc_path tc) hdrs \<Longrightarrow>
      response_received (tc_method tc) (fst (e2e_respond sha uni mt hdrs (tc_body tc) sid)) (fst (snd (e2e_respond sha uni mt hdrs (tc_body tc) sid))) r \<Longrightarrow>
      tc_check tc (StatusCode r) (rs_body r) (rs_header r) = None"
  shows "doRequest c k base tc = None"
proof -
  let ?q = "case_request base tc"
  have m: "rq_method ?q = tc_method tc" by (simp add: case_request_def)
  note s = small_case [OF assms(2), of base]
  obtain r hdrs sid where r: "cl_do c k ?q = Inr r" "request_fields ?q (tc_path tc) hdrs"
    "response_received (tc_method tc) (fst (e2e_respond sha uni mt hdrs (tc_body tc) sid)) (fst (snd (e2e_respond sha uni mt hdrs (tc_body tc) sid))) r"
    using h3_client_response [OF assms(1) s, of k] assms(3) unfolding m sent_body_case by blast
  have "cl_parse c (rq_url ?q) = None" using assms(1) s unfolding h3_client_def by blast
  then have u: "cl_parse c (base @ tc_path tc) = None" by (simp add: case_request_def)
  have v: "valid_method (tc_method tc)" using assms(2) by (simp add: plain_case_def)
  have "rs_readErr r = None" using r(3) by (simp add: response_received_def)
  then show ?thesis unfolding doRequest_None_iff [OF v u] case_request_def [symmetric] using r assms(4) by blast
qed

section \<open>Pages\<close>

definition typed_headers :: "string \<Rightarrow> int \<Rightarrow> string \<Rightarrow> headers" where
  "typed_headers ctype status b =
     [('':status'', show_int status), (''server'', ''quic.cr/h3''), (''content-type'', ctype)] @
     (if b = [] then [] else [(''content-length'', show_nat (length b))])"

lemma to_h3_headers_typed:
  "to_h3_headers (resp_typed ctype b status Response_new) = typed_headers ctype status b"
  by (simp add: to_h3_headers_def resp_typed_def Response_new_def typed_headers_def)

lemma final_typed:
  assumes "200 \<le> status" and "status \<le> 599"
  shows "final_response m (typed_headers ctype status b) b"
  using assms unfolding final_response_def typed_headers_def
  by (auto simp: is_pseudo_def token_byte_def lower_byte_def)

text \<open>The response of a handler that wrote one body with its type: whatever else the request holds.\<close>

definition serves :: "(byte list \<Rightarrow> byte list) \<Rightarrow> (string \<Rightarrow> string) \<Rightarrow> string \<Rightarrow> string \<Rightarrow> string \<Rightarrow> string \<Rightarrow> string \<Rightarrow> int \<Rightarrow> string \<Rightarrow> bool" where
  "serves sha uni mt m p body ctype status b =
     (m \<noteq> ''HEAD'' \<and> 200 \<le> status \<and> status \<le> 599 \<and>
      (\<forall>hdrs sid. map_of hdrs '':method'' = Some m \<longrightarrow> map_of hdrs '':path'' = Some p \<longrightarrow> distinct (map fst hdrs) \<longrightarrow>
         fst (e2e_respond sha uni mt hdrs body sid) = typed_headers ctype status b \<and>
         fst (snd (e2e_respond sha uni mt hdrs body sid)) = b))"

lemma serves_passes:
  assumes "h3_client huff (e2e_router sha uni) mt base c" and "plain_case tc"
    and "serves sha uni mt (tc_method tc) (tc_path tc) (tc_body tc) ctype status b"
    and "\<And>hd. Header_Get hd ''content-type'' = ctype \<Longrightarrow> tc_check tc status b hd = None"
  shows "doRequest c k base tc = None"
proof (rule case_passes [OF assms(1,2)], goal_cases)
  case (1 hdrs sid)
  then show ?case using assms(3) final_typed unfolding serves_def request_fields_def by (simp add: case_request_def)
next
  case (2 hdrs sid r)
  then have "response_received (tc_method tc) (typed_headers ctype status b) b r"
    using assms(3) unfolding serves_def request_fields_def by (simp add: case_request_def)
  then have "StatusCode r = status" "rs_body r = b" "Header_Get (rs_header r) ''content-type'' = ctype"
    using assms(3) by (auto simp: response_received_def typed_headers_def serves_def is_pseudo_def)
  then show ?case using assms(4) by simp
qed

abbreviation text_plain :: string where "text_plain \<equiv> ''text/plain; charset=utf-8''"
abbreviation app_json :: string where "app_json \<equiv> ''application/json; charset=utf-8''"

lemma sends_fst: "fst (sends r) = to_h3_headers r" "fst (snd (sends r)) = resp_body r"
  by (simp_all add: sends_def)

lemma resp_body_typed: "resp_body (resp_typed ctype b status r) = b"
  by (simp add: resp_typed_def)

lemmas serves_simps = sends_fst resp_text_def resp_json_def to_h3_headers_typed resp_body_typed

named_theorems pages

lemma serves_fixed [pages]:
  "serves sha uni mt ''GET'' ''/'' [] text_plain 200 ''Hello from quic.cr!''"
  "serves sha uni mt ''GET'' ''/healthz'' [] app_json 200 (''{'' @ quoted ''status'' @ '':'' @ quoted ''ok'' @ ''}'')"
  "serves sha uni mt ''GET'' ''/ping'' [] text_plain 200 ''pong''"
  "serves sha uni mt ''GET'' ''/method'' [] text_plain 200 ''GET''"
  unfolding serves_def by (simp_all add: e2e_fixed_pages serves_simps)

lemma serves_echo [pages]:
  "serves sha uni mt ''POST'' ''/echo'' body text_plain 200 body"
  "serves sha uni mt ''PUT'' ''/echo'' body text_plain 200 body"
  "serves sha uni mt ''PATCH'' ''/echo'' body text_plain 200 body"
  unfolding serves_def by (simp_all add: e2e_echo serves_simps)

lemma serves_posts [pages]:
  "serves sha uni mt ''POST'' ''/upload'' body app_json 200 (''{'' @ quoted ''received'' @ '':'' @ show_nat (length body) @ ''}'')"
  "serves sha uni mt ''POST'' ''/digest'' body app_json 200 (''{'' @ quoted ''sha256'' @ '':'' @ quoted (sha256hex sha body) @ '','' @ quoted ''size'' @ '':'' @
        show_nat (length body) @ ''}'')"
  unfolding serves_def by (simp_all add: e2e_posts serves_simps)

lemma serves_missing [pages]:
  "serves sha uni mt ''GET'' ''/not-found-xyz'' [] text_plain 404 ''Not Found''"
  "serves sha uni mt ''GET'' ''/nonexistent-path-xyz'' [] text_plain 404 ''Not Found''"
  unfolding serves_def by (simp_all add: e2e_not_found serves_simps)

lemma serves_status:
  assumes "list_all is_digit s" and "s \<noteq> []" and "200 \<le> digits_value s" and "digits_value s \<le> 599" and "p = ''/status/'' @ s"
  shows "serves sha uni mt ''GET'' p [] text_plain (int (digits_value s)) (''Status '' @ show_nat (digits_value s))"
  unfolding serves_def assms(5) using assms(1-4) by (simp add: e2e_status [of _ s] serves_simps)

lemma serves_large:
  assumes "list_all is_digit s" and "s \<noteq> []" and "digits_value s \<le> 10485760" and "p = ''/large?n='' @ s"
  shows "serves sha uni mt ''GET'' p [] text_plain 200 (replicate (digits_value s) (CHR ''x''))"
  unfolding serves_def assms(4) using assms(1-3) by (simp add: e2e_large [of _ s] serves_simps)

lemma serves_slow:
  assumes "list_all is_digit s" and "s \<noteq> []" and "digits_value s \<le> 5000" and "p = ''/slow?ms='' @ s"
  shows "serves sha uni mt ''GET'' p [] text_plain 200 ''ok''"
  unfolding serves_def assms(4) using assms(1-3) by (simp add: e2e_slow [of _ s] serves_simps)

lemma serves_repeat [pages]:
  "serves sha uni mt ''GET'' ''/repeat?n=100&c=A'' [] text_plain 200 (Repeat ''A'' 100)"
  "serves sha uni mt ''GET'' ''/repeat?n=0&c=x'' [] text_plain 200 []"
  "serves sha uni mt ''GET'' ''/repeat?n=1&c=Z'' [] text_plain 200 ''Z''"
  unfolding serves_def by (simp_all add: e2e_repeat serves_simps)

lemma serves_push [pages]: "serves sha uni mt ''GET'' ''/push-demo'' [] text_plain 200 ''main response''"
  unfolding serves_def by (simp add: e2e_push_demo serves_simps)

lemmas digit_eval = is_digit_def digits_value_def

lemma serves_numbers [pages]:
  "serves sha uni mt ''GET'' ''/status/200'' [] text_plain 200 (''Status '' @ show_nat 200)"
  "serves sha uni mt ''GET'' ''/status/201'' [] text_plain 201 (''Status '' @ show_nat 201)"
  "serves sha uni mt ''GET'' ''/status/302'' [] text_plain 302 (''Status '' @ show_nat 302)"
  "serves sha uni mt ''GET'' ''/status/400'' [] text_plain 400 (''Status '' @ show_nat 400)"
  "serves sha uni mt ''GET'' ''/status/404'' [] text_plain 404 (''Status '' @ show_nat 404)"
  "serves sha uni mt ''GET'' ''/status/500'' [] text_plain 500 (''Status '' @ show_nat 500)"
  "serves sha uni mt ''GET'' ''/status/503'' [] text_plain 503 (''Status '' @ show_nat 503)"
  using serves_status [of "''200''"] serves_status [of "''201''"] serves_status [of "''302''"] serves_status [of "''400''"]
    serves_status [of "''404''"] serves_status [of "''500''"] serves_status [of "''503''"]
  by (simp_all add: digit_eval)

lemma serves_sizes [pages]:
  "serves sha uni mt ''GET'' ''/large?n=1048576'' [] text_plain 200 (replicate 1048576 (CHR ''x''))"
  "serves sha uni mt ''GET'' ''/large?n=65536'' [] text_plain 200 (replicate 65536 (CHR ''x''))"
  "serves sha uni mt ''GET'' ''/large?n=10485760'' [] text_plain 200 (replicate 10485760 (CHR ''x''))"
  "serves sha uni mt ''GET'' ''/slow?ms=200'' [] text_plain 200 ''ok''"
  "serves sha uni mt ''GET'' ''/slow?ms=0'' [] text_plain 200 ''ok''"
  using serves_large [of "''1048576''"] serves_large [of "''65536''"] serves_large [of "''10485760''"]
    serves_slow [of "''200''"] serves_slow [of "''0''"]
  by (simp_all add: digit_eval)


lemmas case_simps = tcase_def sent_name_def plain_case_def valid_method_def token_byte_def MAX_FRAME_PAYLOAD_def

lemmas check_simps = want_status_def check_pong_def expectStatus_def expectStatusBody_def expectBodyLen_def


lemma list_all_intros: "list_all P []" "P x \<Longrightarrow> list_all P xs \<Longrightarrow> list_all P (x # xs)"
  by simp_all

definition passes :: "client \<Rightarrow> string \<Rightarrow> testCase \<Rightarrow> bool" where
  "passes c base tc = (\<forall>k. doRequest c k base tc = None)"

lemma page_test:
  assumes "h3_client huff (e2e_router sha uni) mt base c"
    and "tc_method tc = m" and "tc_path tc = p" and "tc_body tc = body"
    and "serves sha uni mt m p body ctype status b"
    and "plain_case tc"
    and "\<And>hd. Header_Get hd ''content-type'' = ctype \<Longrightarrow> tc_check tc status b hd = None"
  shows "passes c base tc"
  using serves_passes assms unfolding passes_def by blast

lemmas small_suites = suite2_tests_def suite5_tests_def suite7_tests_def suite8_tests_def suite12_tests_def suite15_tests_def suite17_case_def
  suite21_tests_def suite22_tests_def

lemma contains_Repeat: "n \<le> m \<Longrightarrow> contains (Repeat [ch] m) (replicate n ch)"
  unfolding Repeat_single contains_iff by (rule exI [of _ "[]"], rule exI [of _ "replicate (m - n) ch"]) (simp add: replicate_add [symmetric])

lemma small_suites_pass:
  assumes "h3_client huff (e2e_router sha uni) mt base c"
  shows "list_all (passes c base) (suite2_tests @ suite5_tests @ suite7_tests @ suite8_tests @ suite12_tests @ suite15_tests @
    suite17_case # suite21_tests @ suite22_tests)"
  unfolding small_suites append.simps
  by (intro list_all_intros; rule page_test [OF assms], (simp add: tcase_def; fail)+, rule pages, simp add: case_simps, simp add: tcase_def check_simps)


lemma contains_mid: "contains (p @ s @ q) s"
  using contains_iff by blast

lemma fixed_contents:
  "contains ''Hello from quic.cr!'' ''quic.cr''"
  "contains (''{'' @ quoted ''status'' @ '':'' @ quoted ''ok'' @ ''}'') ''status''"
  "contains (''{'' @ quoted ''status'' @ '':'' @ quoted ''ok'' @ ''}'') ''ok''"
  "contains text_plain ''text/plain''" "contains app_json ''application/json''"
  by code_simp+

lemma aaa_contents: "contains (Repeat ''a'' 4096) ''aaa''"
  using contains_Repeat [of 3 4096 "CHR ''a''"] by (simp add: numeral_3_eq_3)

lemma received_contents: "contains (''{'' @ quoted ''received'' @ '':'' @ n @ ''}'') ([CHR 0x22] @ ''received'' @ [CHR 0x22] @ '':'' @ n)"
  using contains_mid [of "''{''" "quoted ''received'' @ '':'' @ n" "''}''"] by (simp add: quoted_def)

lemma digest_contents:
  "contains (''{'' @ quoted ''sha256'' @ '':'' @ quoted h @ rest) h"
  "contains (''{'' @ quoted ''sha256'' @ '':'' @ quoted h @ '','' @ quoted ''size'' @ '':'' @ n @ ''}'') ([CHR 0x22] @ ''size'' @ [CHR 0x22] @ '':'' @ n)"
  using contains_mid [of "''{'' @ quoted ''sha256'' @ '':'' @ [CHR 0x22]" h "[CHR 0x22] @ rest"]
    contains_mid [of "''{'' @ quoted ''sha256'' @ '':'' @ quoted h @ '',''" "quoted ''size'' @ '':'' @ n" "''}''"]
  by (simp_all add: quoted_def)

lemma shown_sizes: "show_nat 11 = ''11''" "show_nat 64 = ''64''" "show_nat 1024 = ''1024''" "show_nat 131072 = ''131072''" "show_nat 1048576 = ''1048576''"
  by (simp_all add: show_nat.simps char_of_def bit_0)

lemma shown_hello: "show_nat (length ''hello world'') = ''11''"
  using shown_sizes(1) by (simp add: eval_nat_numeral)

lemmas size_contents =
  received_contents [of "show_nat 131072", unfolded shown_sizes append.simps]
  digest_contents(2) [of _ "show_nat 11", unfolded shown_sizes append.simps]
  digest_contents(2) [of _ "show_nat 64", unfolded shown_sizes append.simps]
  digest_contents(2) [of _ "show_nat 1024", unfolded shown_sizes append.simps]
  digest_contents(2) [of _ "show_nat 1048576", unfolded shown_sizes append.simps]

lemmas contents = contains_refl fixed_contents aaa_contents digest_contents(1) size_contents

lemmas body_suites = suite3_tests_def suite6_tests_def suite9_tests_def suite10_tests_def suite11_tests_def suite14_tests_def suite18_tests_def suite20_tests_def

lemma body_suites_pass:
  assumes "h3_client huff (e2e_router sha uni) mt base c"
  shows "list_all (passes c base) (suite3_tests @ suite6_tests @ suite9_tests @ suite10_tests @ suite11_tests sha @ suite14_tests @
    suite18_tests sha @ suite20_tests sha)"
  unfolding body_suites append.simps
  by (intro list_all_intros; rule page_test [OF assms], (simp add: tcase_def; fail)+, rule pages, simp add: case_simps,
      insert contents, simp add: tcase_def check_simps shown_sizes shown_hello [simplified])


text \<open>The responses without a body.\<close>

lemma delete_answer:
  assumes "map_of hdrs '':method'' = Some ''DELETE''" and "map_of hdrs '':path'' = Some ''/resource''"
  shows "fst (e2e_respond sha uni mt hdrs body sid) = [('':status'', ''204''), (''server'', ''quic.cr/h3'')]"
    and "fst (snd (e2e_respond sha uni mt hdrs body sid)) = []"
  using assms by (simp_all add: e2e_delete_head sends_def to_h3_headers_def Response_new_def show_int_def show_nat.simps char_of_def bit_0)

lemma delete_final:
  "final_response ''DELETE'' [('':status'', ''204''), (''server'', ''quic.cr/h3'')] []"
  "response_received m [('':status'', ''204''), (''server'', ''quic.cr/h3'')] b r \<Longrightarrow> StatusCode r = 204"
proof -
  have n: "show_int 204 = ''204''" by (simp add: show_int_def show_nat.simps char_of_def bit_0)
  show "final_response ''DELETE'' [('':status'', ''204''), (''server'', ''quic.cr/h3'')] []"
    using n by (auto simp: final_response_def is_pseudo_def token_byte_def lower_byte_def intro!: exI [of _ 204])
  assume "response_received m [('':status'', ''204''), (''server'', ''quic.cr/h3'')] b r"
  then show "StatusCode r = 204" using n by (simp add: response_received_def)
qed

lemma delete_passes:
  assumes "h3_client huff (e2e_router sha uni) mt base c"
  shows "passes c base (tcase nm ''DELETE'' ''/resource'' (expectStatus 204))"
proof -
  let ?tc = "tcase nm ''DELETE'' ''/resource'' (expectStatus 204)"
  have f: "map_of hdrs '':method'' = Some ''DELETE'' \<and> map_of hdrs '':path'' = Some ''/resource''"
    if "request_fields (case_request base ?tc) (tc_path ?tc) hdrs" for hdrs
    using that by (simp add: request_fields_def case_request_def tcase_def)
  have "doRequest c k base ?tc = None" for k
  proof (rule case_passes [OF assms], goal_cases)
    case 1
    show ?case by (simp add: case_simps)
  next
    case (2 hdrs sid)
    then show ?case using f [OF 2] delete_answer delete_final(1) by (simp add: tcase_def)
  next
    case (3 hdrs sid r)
    then have "StatusCode r = 204" using f [OF 3(1)] delete_answer delete_final(2) by (simp add: tcase_def)
    then show ?case by (simp add: tcase_def expectStatus_def)
  qed
  then show ?thesis by (simp add: passes_def)
qed

lemma head_passes:
  assumes "h3_client huff (e2e_router sha uni) mt base c" and "tc_check tc = check"
    and "tc = tcase nm ''HEAD'' ''/'' check"
    and "\<And>hd. Header_Get hd ''x-server'' = ''quic.cr'' \<Longrightarrow> check 200 [] hd = None"
  shows "passes c base tc"
proof -
  let ?h = "[('':status'', ''200''), (''server'', ''quic.cr/h3''), (''x-server'', ''quic.cr''), (''content-type'', text_plain), (''content-length'', ''20'')]"
  have h: "fst (e2e_respond sha uni mt hdrs [] sid) = ?h"
    "fst (snd (e2e_respond sha uni mt hdrs [] sid)) = []" if "request_fields (case_request base tc) ''/'' hdrs" for hdrs sid
    using that assms(3) by (simp_all add: request_fields_def case_request_def tcase_def e2e_delete_head sends_def to_h3_headers_def Response_new_def show_int_def
        resp_set_header_def lower_byte_def show_nat.simps char_of_def bit_0)
  have n: "show_int 200 = ''200''" by (simp add: show_int_def show_nat.simps char_of_def bit_0)
  have f: "final_response ''HEAD'' ?h []"
    using n by (auto simp: final_response_def is_pseudo_def token_byte_def lower_byte_def intro!: exI [of _ 200])
  have "doRequest c k base tc = None" for k
  proof (rule case_passes [OF assms(1)], goal_cases)
    case 1
    show ?case by (simp add: case_simps assms(3))
  next
    case (2 hdrs sid)
    then show ?case using h f assms(3) by (simp add: tcase_def)
  next
    case (3 hdrs sid r)
    then have "StatusCode r = 200" "rs_body r = []" "Header_Get (rs_header r) ''x-server'' = ''quic.cr''"
      using h [of hdrs sid] n assms(3) by (auto simp: tcase_def response_received_def is_pseudo_def)
    then show ?case using assms(2,4) by simp
  qed
  then show ?thesis by (simp add: passes_def)
qed


lemma gsub_plain: "ch \<notin> set s \<Longrightarrow> gsub ch r s = s"
  by (induction s) (auto simp: gsub_def)

lemma contains_join: "x \<in> set xs \<Longrightarrow> contains x s \<Longrightarrow> contains (join sep xs) s"
  by (induction sep xs rule: join.induct) (auto intro: contains_append1 contains_append2)

lemma contains_header_pair:
  assumes "(k, v) \<in> set fs"
  shows "contains (''{'' @ join '','' (map header_pair fs) @ ''}'') '':''"
    and "set v \<inter> {CHR 0x22, CHR 0x5C} = {} \<Longrightarrow> contains (''{'' @ join '','' (map header_pair fs) @ ''}'') v"
proof -
  have i: "header_pair (k, v) \<in> set (map header_pair fs)" using assms by force
  have "contains (header_pair (k, v)) '':''"
    using contains_mid [of "[CHR 0x22] @ k @ [CHR 0x22]" "'':''"] by (simp add: header_pair_def)
  then show "contains (''{'' @ join '','' (map header_pair fs) @ ''}'') '':''"
    by (intro contains_append2 contains_append1 contains_join [OF i])
  assume "set v \<inter> {CHR 0x22, CHR 0x5C} = {}"
  then have "contains (header_pair (k, v)) v"
    using contains_mid [of "[CHR 0x22] @ k @ [CHR 0x22] @ '':'' @ [CHR 0x22]" v "[CHR 0x22]"] by (simp add: header_pair_def gsub_plain)
  then show "contains (''{'' @ join '','' (map header_pair fs) @ ''}'') v"
    by (intro contains_append2 contains_append1 contains_join [OF i])
qed

lemma lower_sent:
  assumes "sent_name K"
  shows "(\<exists>k'. map lower_byte K = CHR ''x'' # CHR ''-'' # k') \<or> map lower_byte K = ''content-type''"
proof (cases "take 2 K = ''X-''")
  case True
  then have "K = CHR ''X'' # CHR ''-'' # drop 2 K" using append_take_drop_id [of 2 K] by simp
  then obtain k' where "K = CHR ''X'' # CHR ''-'' # k'" by blast
  then show ?thesis by (simp add: lower_byte_def char_of_def bit_0)
next
  case False
  then have "K = ''Content-Type''" using assms by (simp add: sent_name_def)
  moreover have "map lower_byte ''Content-Type'' = ''content-type''" by code_simp
  ultimately show ?thesis by simp
qed

lemma lower_sent_regular: "sent_name K \<Longrightarrow> \<not> (take 7 (map lower_byte K) = ''_param_'' \<or> is_pseudo (map lower_byte K))"
  using lower_sent [of K] by (auto simp: is_pseudo_def)

definition echoed_body :: "headers \<Rightarrow> string" where
  "echoed_body hdrs =
     ''{'' @ join '','' (map header_pair (filter (\<lambda>(k, v). \<not> (take 7 k = ''_param_'' \<or> is_pseudo k)) hdrs)) @ ''}''"

lemma echo_headers_answer:
  assumes "request_fields q ''/echo-headers'' hdrs" and "rq_method q = ''GET''"
  shows "fst (e2e_respond sha uni mt hdrs body sid) = typed_headers app_json 200 (echoed_body hdrs)"
    and "fst (snd (e2e_respond sha uni mt hdrs body sid)) = echoed_body hdrs"
  using assms unfolding request_fields_def by (simp_all add: e2e_echo_headers serves_simps echoed_body_def)

lemma echoed_contents:
  assumes "request_fields q p hdrs" and "small_request base q p"
  shows "contains (echoed_body hdrs) '':''"
    and "rq_header q K = Some [v] \<Longrightarrow> set v \<inter> {CHR 0x22, CHR 0x5C} = {} \<Longrightarrow> contains (echoed_body hdrs) v"
proof -
  let ?fs = "filter (\<lambda>(k, v). \<not> (take 7 k = ''_param_'' \<or> is_pseudo k)) hdrs"
  obtain ua where "map_of hdrs ''user-agent'' = Some ua" using assms(1) by (auto simp: request_fields_def)
  then have "(''user-agent'', ua) \<in> set ?fs" by (auto dest: map_of_SomeD simp: is_pseudo_def)
  then show "contains (echoed_body hdrs) '':''" unfolding echoed_body_def by (rule contains_header_pair)
  assume k: "rq_header q K = Some [v]" and v: "set v \<inter> {CHR 0x22, CHR 0x5C} = {}"
  have "sent_name K" using assms(2) k unfolding small_request_def by blast
  then have "(map lower_byte K, v) \<in> set ?fs"
    using assms(1) k lower_sent_regular [of K] unfolding request_fields_def by (auto dest: map_of_SomeD)
  then show "contains (echoed_body hdrs) v" using v unfolding echoed_body_def by (rule contains_header_pair)
qed

lemma echo_headers_test:
  assumes "h3_client huff (e2e_router sha uni) mt base c"
    and "tc_method tc = ''GET''" and "tc_path tc = ''/echo-headers''" and "tc_body tc = []" and "plain_case tc"
    and "\<And>b hd. contains b '':'' \<Longrightarrow>
      (\<And>K v. rq_header (case_request base tc) K = Some [v] \<Longrightarrow> set v \<inter> {CHR 0x22, CHR 0x5C} = {} \<Longrightarrow> contains b v) \<Longrightarrow> tc_check tc 200 b hd = None"
  shows "passes c base tc"
proof -
  have m: "rq_method (case_request base tc) = ''GET''" using assms(2) by (simp add: case_request_def)
  note s = small_case [OF assms(5), of base, unfolded assms(3)]
  have "doRequest c k base tc = None" for k
  proof (rule case_passes [OF assms(1,5)], goal_cases)
    case (1 hdrs sid)
    then show ?case using echo_headers_answer [OF 1 [unfolded assms(3)] m] assms(2) final_typed by simp
  next
    case (2 hdrs sid r)
    note f = 2(1) [unfolded assms(3)]
    have "response_received ''GET'' (typed_headers app_json 200 (echoed_body hdrs)) (echoed_body hdrs) r"
      using 2(2) echo_headers_answer [OF f m] by (simp only: assms(2))
    then have "StatusCode r = 200" "rs_body r = echoed_body hdrs" by (auto simp: response_received_def typed_headers_def)
    then show ?case using assms(6) echoed_contents [OF f s] by simp
  qed
  then show ?thesis by (simp add: passes_def)
qed

lemma suite1_pass:
  assumes "h3_client huff (e2e_router sha uni) mt base c"
  shows "list_all (passes c base) suite1_tests"
  unfolding suite1_tests_def
  by (intro list_all_intros;
      (rule delete_passes [OF assms] | (rule head_passes [OF assms _ refl], simp add: tcase_def, simp add: want_status_def) |
       (rule page_test [OF assms], (simp add: tcase_def; fail)+, rule pages, simp add: case_simps, insert contents, simp add: tcase_def check_simps)))

lemma canonical_names:
  "CanonicalMIMEHeaderKey ''x-request-id'' = ''X-Request-Id''" "CanonicalMIMEHeaderKey ''X-Request-Id'' = ''X-Request-Id''"
  "CanonicalMIMEHeaderKey ''x-trace-id'' = ''X-Trace-Id''" "CanonicalMIMEHeaderKey ''X-Trace-Id'' = ''X-Trace-Id''"
  "CanonicalMIMEHeaderKey ''x-client-version'' = ''X-Client-Version''" "CanonicalMIMEHeaderKey ''X-Client-Version'' = ''X-Client-Version''"
  "CanonicalMIMEHeaderKey ''x-region'' = ''X-Region''" "CanonicalMIMEHeaderKey ''X-Region'' = ''X-Region''"
  "CanonicalMIMEHeaderKey ''x-dyn-qpack-test'' = ''X-Dyn-Qpack-Test''" "CanonicalMIMEHeaderKey ''X-Dyn-Qpack-Test'' = ''X-Dyn-Qpack-Test''"
  "CanonicalMIMEHeaderKey ''x-seq'' = ''X-Seq''" "CanonicalMIMEHeaderKey ''X-Seq'' = ''X-Seq''"
  by code_simp+

lemmas header_case_simps = tcase_def case_request_def Header_Set_def canonical_names

lemma suite4_pass:
  assumes "h3_client huff (e2e_router sha uni) mt base c"
  shows "list_all (passes c base) suite4_tests"
  unfolding suite4_tests_def
  by (intro list_all_intros;
      ((rule page_test [OF assms], (simp add: tcase_def; fail)+, rule pages, simp add: case_simps, insert contents, simp add: tcase_def check_simps; fail) |
       (rule echo_headers_test [OF assms], (simp add: tcase_def; fail)+, simp add: case_simps, simp add: tcase_def check_simps)))

lemma suite13_pass:
  assumes "h3_client huff (e2e_router sha uni) mt base c"
  shows "list_all (passes c base) suite13_tests"
  unfolding suite13_tests_def
proof (intro list_all_intros, goal_cases)
  case 1
  show ?case
  proof (rule echo_headers_test [OF assms], goal_cases)
    case (5 b hd)
    show ?case using 5(2) [of "''X-Request-Id''" "''test-abc-123''"] by (simp add: header_case_simps want_status_def)
  qed (simp_all add: case_simps canonical_names)
next
  case 2
  show ?case
  proof (rule echo_headers_test [OF assms], goal_cases)
    case (5 b hd)
    show ?case using 5(2) [of "''X-Trace-Id''" "''trace-xyz-789''"] by (simp add: header_case_simps want_status_def)
  qed (simp_all add: case_simps canonical_names)
next
  case 3
  show ?case
  proof (rule echo_headers_test [OF assms], goal_cases)
    case (5 b hd)
    show ?case using 5(2) [of "''X-Client-Version''" "''v1.2.3''"] 5(2) [of "''X-Region''" "''eu-west-1''"]
      by (simp add: header_case_simps want_status_def)
  qed (simp_all add: case_simps canonical_names)
qed

lemma length_show_nat: "length (show_nat n) \<le> n + 1"
proof (induction n rule: show_nat.induct)
  case (1 n)
  then show ?case by (subst show_nat.simps) (auto intro: order_trans)
qed

lemma dyn_case_passes:
  assumes "h3_client huff (e2e_router sha uni) mt base c" and "i < 999"
  shows "passes c base (dyn_case i)"
proof (rule echo_headers_test [OF assms(1)], goal_cases)
  case 4
  have "length (show_nat i) \<le> 1000" using length_show_nat [of i] assms(2) by simp
  then show ?case by (simp add: dyn_case_def case_simps canonical_names)
next
  case (5 b hd)
  show ?case using 5(2) [of "''X-Dyn-Qpack-Test''" "''dynamic-qpack-verifier-abc123''"]
    by (simp add: dyn_case_def header_case_simps want_status_def)
qed (simp_all add: dyn_case_def tcase_def)

lemma ping_tests:
  assumes "h3_client huff (e2e_router sha uni) mt base c"
  shows "passes c base (streams_case i)" and "passes c base (churn_case i)" and "list_all (passes c base) suite19_tests"
proof -
  show "passes c base (streams_case i)" unfolding streams_case_def
    by (rule page_test [OF assms], (simp add: tcase_def; fail)+, rule pages, simp add: case_simps, simp add: tcase_def check_simps)
  show "passes c base (churn_case i)" unfolding churn_case_def
    by (rule page_test [OF assms], (simp add: tcase_def; fail)+, rule pages, simp add: case_simps, simp add: tcase_def check_simps)
  show "list_all (passes c base) suite19_tests" unfolding suite19_tests_def list_all_iff set_map ball_simps
    by (intro ballI, rule page_test [OF assms], (simp add: tcase_def; fail)+, rule pages, simp add: case_simps, simp add: tcase_def check_simps)
qed

lemma suite24_pass:
  assumes "h3_client huff (e2e_router sha uni) mt base c"
  shows "list_all (passes c base) suite24_tests"
  unfolding suite24_tests_def suite24_sizes_def list.map
  by (intro list_all_intros; rule page_test [OF assms], (simp add: tcase_def; fail)+, rule pages, simp add: case_simps, simp add: tcase_def check_simps)

section \<open>The suites leave no failure\<close>

text \<open>With the counts of every suite it is enough that no failure line is added.\<close>

definition suite_silent :: "(main_env \<Rightarrow> main_state \<Rightarrow> main_state go_result) \<Rightarrow> main_env \<Rightarrow> bool" where
  "suite_silent f e = (\<forall>s s'. f e s = Ret s' \<longrightarrow> allFailures s' = allFailures s)"

lemma run_suites_silent: "list_all (\<lambda>f. suite_silent f e) fs \<Longrightarrow> suite_silent (run_suites fs) e"
proof (induction fs)
  case Nil
  then show ?case by (simp add: suite_silent_def)
next
  case (Cons f fs)
  then have "suite_silent f e" "suite_silent (run_suites fs) e" by simp_all
  then show ?case unfolding suite_silent_def by (simp split: go_result.splits)
qed

lemma jobs_mem: "i < length (jobs tests n) \<Longrightarrow> jobs tests n ! i \<in> set tests"
proof -
  assume "i < length (jobs tests n)"
  then have "jobs tests n ! i \<in> set (jobs tests n)" by simp
  then show ?thesis by (auto simp: jobs_def)
qed

lemma no_failures:
  assumes "list_all (passes c base) tests" and "\<forall>i\<in>set xs. i < length (jobs tests n)"
  shows "new_failures sn (map (chan_result c base (jobs tests n)) xs) = []"
  using assms jobs_mem [of _ tests n]
  by (auto simp: new_failures_def filter_empty_conv chan_result_def passes_def list_all_iff)

lemma parallel_silent:
  assumes "list_all (passes c base) tests"
    and "add_run (runParallel sn c picks base tests n (allFailures s)) s = Ret s'"
  shows "allFailures s' = allFailures s"
proof -
  have "set (arrange picks [0 ..< length (jobs tests n)]) = set [0 ..< length (jobs tests n)]" by (metis mset_arrange set_mset_mset)
  then have "new_failures sn (map (chan_result c base (jobs tests n)) (arrange picks [0 ..< length (jobs tests n)])) = []"
    by (intro no_failures [OF assms(1)]) auto
  then show ?thesis
    using assms(2) by (auto simp: add_run_def runParallel_def failures_drain add_def Let_def split: if_splits)
qed

lemma serial_silent:
  assumes "list_all (passes c base) tests"
    and "add_run (Ret (runSerial sn c base tests n (allFailures s))) s = Ret s'"
  shows "allFailures s' = allFailures s"
  using assms(2) no_failures [OF assms(1), of "[0 ..< length (jobs tests n)]" n sn]
  by (auto simp: add_run_def runSerial_eq add_def Let_def)

text \<open>Every client and every connection of the run speaks to the server; both sides compute the same digest.\<close>

definition served :: "(byte list \<Rightarrow> cr_error + string) \<Rightarrow> (string \<Rightarrow> string) \<Rightarrow> string \<Rightarrow> main_env \<Rightarrow> bool" where
  "served huff uni mt e =
     ((\<forall>i. h3_client huff (e2e_router (me_sum256 e) uni) mt (me_base e) (me_client e i)) \<and>
      (\<forall>i j. h3_client huff (e2e_router (me_sum256 e) uni) mt (me_base e) (me_conn e i j)))"

lemma served_clients:
  assumes "served huff uni mt e"
  shows "h3_client huff (e2e_router (me_sum256 e) uni) mt (me_base e) (me_client e i)"
    and "h3_client huff (e2e_router (me_sum256 e) uni) mt (me_base e) (me_conn e i j)"
  using assms by (auto simp: served_def)

lemma tests_pass:
  assumes "served huff uni mt e"
  shows "list_all (passes (me_client e i) (me_base e)) (suite1_tests @ (suite2_tests @ suite5_tests @ suite7_tests @ suite8_tests @ suite12_tests @ suite15_tests @
      suite17_case # suite21_tests @ suite22_tests) @ (suite3_tests @ suite6_tests @ suite9_tests @ suite10_tests @ suite11_tests (me_sum256 e) @ suite14_tests @
      suite18_tests (me_sum256 e) @ suite20_tests (me_sum256 e)) @ suite4_tests @ suite13_tests @ suite19_tests @ suite24_tests)"
proof -
  note h = served_clients(1) [OF assms, of i]
  show ?thesis
    using suite1_pass [OF h] small_suites_pass [OF h] body_suites_pass [OF h] suite4_pass [OF h] suite13_pass [OF h] ping_tests(3) [OF h] suite24_pass [OF h]
    by (simp only: list_all_append)
qed

lemmas passed_lists = tests_pass [unfolded list_all_append list.pred_inject]

lemma parallel_suite:
  assumes "\<And>s. f e s = add_run (runParallel sn c picks base tests n (allFailures s)) s" and "list_all (passes c base) tests"
  shows "suite_silent f e"
  unfolding suite_silent_def assms(1) using parallel_silent [OF assms(2)] by blast

lemma serial_suite:
  assumes "\<And>s. f e s = add_run (Ret (runSerial sn c base tests n (allFailures s))) s" and "list_all (passes c base) tests"
  shows "suite_silent f e"
  unfolding suite_silent_def assms(1) using serial_silent [OF assms(2)] by blast

lemma parallel_suites_silent:
  assumes "served huff uni mt e"
  shows "list_all (\<lambda>f. suite_silent f e) [suite1, suite2, suite3, suite4, suite5, suite6, suite7, suite10, suite11, suite12, suite13, suite15, suite18, suite19,
    suite20, suite21, suite24]"
  by (intro list_all_intros; (rule parallel_suite [OF suite1_def] | rule parallel_suite [OF suite2_def]
    | rule parallel_suite [OF suite3_def] | rule parallel_suite [OF suite4_def] | rule parallel_suite [OF suite5_def]
    | rule parallel_suite [OF suite6_def] | rule parallel_suite [OF suite7_def] | rule parallel_suite [OF suite10_def]
    | rule parallel_suite [OF suite11_def] | rule parallel_suite [OF suite12_def] | rule parallel_suite [OF suite13_def]
    | rule parallel_suite [OF suite15_def] | rule parallel_suite [OF suite18_def] | rule parallel_suite [OF suite19_def]
    | rule parallel_suite [OF suite20_def] | rule parallel_suite [OF suite21_def] | rule parallel_suite [OF suite24_def]), insert passed_lists [OF assms], blast)

lemma serial_suites_silent:
  assumes "served huff uni mt e"
  shows "suite_silent suite8 e" and "suite_silent suite14 e"
  using passed_lists [OF assms] by (auto intro: serial_suite [OF suite8_def] serial_suite [OF suite14_def])

lemma churn_silent:
  assumes "served huff uni mt e"
  shows "suite_silent suite16 e"
  using ping_tests(2) [OF served_clients(2) [OF assms]]
  unfolding suite_silent_def suite16_def Let_def passes_def by (simp add: add_def)

lemma slow_silent:
  assumes "served huff uni mt e" and "150 * Millisecond \<le> me_elapsed17 e"
  shows "suite_silent suite17 e"
  using passed_lists [OF assms(1), of 17] assms(2) unfolding suite_silent_def suite17_def passes_def by (simp add: add_def)

lemma multi_conn_silent:
  assumes "served huff uni mt e"
  shows "suite_silent suite9 e"
proof -
  have p: "list_all (passes (me_conn e 9 i) (me_base e)) suite9_tests" for i
    using body_suites_pass [OF served_clients(2) [OF assms, of 9 i]] by (simp only: list_all_append)
  have "connFails (foldl (\<lambda>st (j, tc).
         let st = st\<lparr>connTotal := wrap32 (connTotal st + 1)\<rparr>
         in case doRequest (me_conn e 9 i) j (me_base e) tc of
              None \<Rightarrow> st\<lparr>connPassed := wrap32 (connPassed st + 1)\<rparr>
            | Some err \<Rightarrow>
                st\<lparr>connFails := connFails st @
                     [Errorf ''MultiConn conn%d/%s: %v'' [VInt (int i), VStr (tc_name tc), VErr err]]\<rparr>) st (enumerate m tcs)) = connFails st"
    if "list_all (passes (me_conn e 9 i) (me_base e)) tcs" for i m tcs and st :: conn_count
    using that by (induction tcs arbitrary: m st) (auto simp: passes_def Let_def)
  then have c: "connFails (suite9_conn (me_conn e 9 i) (me_base e) i st) = connFails st" for i st
    unfolding suite9_conn_def using p by blast
  have "connFails (foldl (\<lambda>st i. suite9_conn (me_conn e 9 i) (me_base e) i st) st is) = connFails st" for st "is"
    by (induction "is" arbitrary: st) (simp_all add: c)
  then show ?thesis unfolding suite_silent_def suite9_def Let_def by (auto simp: add_def)
qed

lemma push_silent:
  assumes "served huff uni mt e"
  shows "suite_silent suite22 e"
proof -
  have "list_all (passes (me_client e i) (me_base e)) (take 2 suite22_tests)" "list_all (passes (me_client e i) (me_base e)) (drop 2 suite22_tests)" for i
    using passed_lists [OF assms, of i] by (auto simp: list_all_iff dest: in_set_takeD in_set_dropD)
  note s = serial_silent [OF this(1)] and p = parallel_silent [OF this(2)]
  show ?thesis unfolding suite_silent_def
  proof (intro allI impI)
    fix s0 s2
    let ?r = "add_run (Ret (runSerial (''Server Push (RFC 9114 '' @ section_sign @ ''4.6) sequential'') (me_client e 22) (me_base e)
      (take 2 suite22_tests) 5 (allFailures s0))) s0"
    assume a: "suite22 e s0 = Ret s2"
    obtain s1 where 1: "?r = Ret s1" using a by (cases ?r) (simp_all add: suite22_def)
    show "allFailures s2 = allFailures s0" using p [OF a [unfolded suite22_def 1 go_result.case]] s [OF 1] by simp
  qed
qed

lemma request_loop_silent:
  assumes "\<forall>i\<in>set is. passes c base (tc i)"
  shows "snd (request_loop c base tc is (p, fails)) = fails"
  using assms by (induction "is" arbitrary: p) (auto simp: passes_def)

lemma loops_silent:
  assumes "served huff uni mt e"
  shows "suite_silent suite25 e" and "suite_silent suite27 e"
proof -
  have "snd (request_loop (me_client e 25) (me_base e) streams_case [0 ..< 250] (0, [])) = []"
    using ping_tests(1) [OF served_clients(1) [OF assms]] by (intro request_loop_silent) blast
  then show "suite_silent suite25 e"
    unfolding suite_silent_def suite25_def testStreamsBlockedFlow_def by (auto simp: add_def split: prod.splits)
  have "snd (request_loop (me_client e 27) (me_base e) dyn_case [0 ..< 40] (0, [])) = []"
    using dyn_case_passes [OF served_clients(1) [OF assms]] by (intro request_loop_silent) simp
  then show "suite_silent suite27 e"
    unfolding suite_silent_def suite27_def testDynamicQpack_def by (auto simp: add_def split: prod.splits)
qed

text \<open>
  The suites that do not speak HTTP through the client. The echo of datagrams and the resumption with
  early data are left open: \<open>datagram_failures\<close> and \<open>zero_rtt_failures\<close> are the lines their tests report.
\<close>

definition datagram_failures :: "main_env \<Rightarrow> go_error list" where
  "datagram_failures e =
     concat (map (\<lambda>(i, payload).
         case testDatagramEcho (me_dgram e i) (string_bytes payload) of
           None \<Rightarrow> []
         | Some err \<Rightarrow> [Errorf ''QUIC Datagram echo / %q: %v'' [VStr (truncate_str payload 20), VErr err]])
       (enumerate 0 suite23_payloads))"

definition zero_rtt_failures :: "main_env \<Rightarrow> go_error list" where
  "zero_rtt_failures e =
     (case testZeroRTT (me_zrtt e) of None \<Rightarrow> [] | Some err \<Rightarrow> [Prefixed ''0-RTT early data: '' err])"

definition suite_reports :: "(main_env \<Rightarrow> main_state \<Rightarrow> main_state go_result) \<Rightarrow> main_env \<Rightarrow> go_error list \<Rightarrow> bool" where
  "suite_reports f e new = (\<forall>s s'. f e s = Ret s' \<longrightarrow> allFailures s' = allFailures s @ new)"

lemma suite_silent_reports: "suite_silent f e \<longleftrightarrow> suite_reports f e []"
  by (simp add: suite_silent_def suite_reports_def)

lemma run_suites_append:
  "run_suites (fs @ gs) e s = (case run_suites fs e s of Panic m \<Rightarrow> Panic m | Ret s' \<Rightarrow> run_suites gs e s')"
  by (induction fs arbitrary: s) (simp_all split: go_result.splits)

lemma run_suites_reports:
  "suite_reports (run_suites fs) e new \<Longrightarrow> suite_reports (run_suites gs) e new' \<Longrightarrow>
     suite_reports (run_suites (fs @ gs)) e (new @ new')"
  by (auto simp: suite_reports_def run_suites_append split: go_result.splits)

lemma run_suite_reports: "suite_reports f e new \<Longrightarrow> suite_reports (run_suites [f]) e new"
  by (auto simp: suite_reports_def split: go_result.splits)

lemma other_reports:
  shows "suite_reports suite23 e (datagram_failures e)"
    and "testGoawayAndControlStream (me_raw e) = Ret None \<Longrightarrow> suite_silent suite26 e"
    and "suite_reports suite28 e (zero_rtt_failures e)"
proof -
  let ?line = "\<lambda>(i, payload). case testDatagramEcho (me_dgram e i) (string_bytes payload) of
        None \<Rightarrow> []
      | Some err \<Rightarrow> [Errorf ''QUIC Datagram echo / %q: %v'' [VStr (truncate_str payload 20), VErr err]]"
  have "allFailures (foldl (\<lambda>s (i, payload).
            case testDatagramEcho (me_dgram e i) (string_bytes payload) of
              None \<Rightarrow> add 1 1 s
            | Some err \<Rightarrow>
                add 0 1 (s\<lparr>allFailures := allFailures s @
                  [Errorf ''QUIC Datagram echo / %q: %v'' [VStr (truncate_str payload 20), VErr err]]\<rparr>)) s xs) =
      allFailures s @ concat (map ?line xs)" for s xs
    by (induction xs arbitrary: s) (auto simp: add_def split: option.splits)
  then show "suite_reports suite23 e (datagram_failures e)"
    unfolding suite_reports_def suite23_def datagram_failures_def by auto
  show "suite_reports suite28 e (zero_rtt_failures e)"
    unfolding suite_reports_def suite28_def zero_rtt_failures_def by (auto simp: add_def split: option.splits)
  assume "testGoawayAndControlStream (me_raw e) = Ret None"
  then show "suite_silent suite26 e" unfolding suite_silent_def suite26_def by (simp add: add_def)
qed

lemma lower_upper: "lower_byte (upper_byte ch) = lower_byte ch"
  by (auto simp: lower_byte_def upper_byte_def Let_def)
lemma lower_lower: "lower_byte (lower_byte ch) = lower_byte ch"
  by (auto simp: lower_byte_def Let_def)
lemma upper_lower: "upper_byte (lower_byte ch) = upper_byte ch"
  by (auto simp: lower_byte_def upper_byte_def Let_def)
lemma lower_dash: "lower_byte ch = CHR ''-'' \<longleftrightarrow> ch = CHR ''-''"
proof
  assume a: "lower_byte ch = CHR ''-''"
  have "\<not> (65 \<le> (of_char ch :: nat) \<and> (of_char ch :: nat) \<le> 90)"
  proof
    assume r: "65 \<le> (of_char ch :: nat) \<and> (of_char ch :: nat) \<le> 90"
    then have "of_char (lower_byte ch) = (of_char ch :: nat) + 32" by (simp add: lower_byte_def Let_def)
    then show False using r unfolding a by simp
  qed
  then show "ch = CHR ''-''" using a by (auto simp: lower_byte_def Let_def split: if_splits)
qed (simp add: lower_byte_def)
lemma lower_canonical: "map lower_byte (canonical_bytes u s) = map lower_byte s"
  by (induction s arbitrary: u) (simp_all add: lower_upper lower_lower)
lemma canonical_lower: "canonical_bytes u (map lower_byte s) = canonical_bytes u s"
  by (induction s arbitrary: u) (simp_all add: upper_lower lower_lower lower_dash)
section \<open>A transport\<close>

text \<open>A transport that keeps the promise: literal field lines, one DATA frame, no dynamic table.\<close>

definition wire_fields :: "http_request \<Rightarrow> string \<Rightarrow> headers" where
  "wire_fields q p =
     [('':method'', rq_method q), ('':scheme'', ''https''), ('':path'', p), ('':authority'', ''localhost''), (''user-agent'', ''quic-go HTTP/3'')] @
     map (\<lambda>k. (map lower_byte k, hd (the (rq_header q k)))) (sorted_list_of_set (dom (rq_header q)))"

definition received_response :: "string \<Rightarrow> headers \<Rightarrow> string \<Rightarrow> http_response" where
  "received_response m h b =
     \<lparr>StatusCode = (case map_of h '':status'' of None \<Rightarrow> 0 | Some s \<Rightarrow> int (digits_value s)),
      rs_body = (if m = ''HEAD'' then [] else b), rs_readErr = None,
      rs_header = map_of (map (\<lambda>(k, v). (CanonicalMIMEHeaderKey k, [v])) (filter (\<lambda>(k, v). \<not> is_pseudo k) h))\<rparr>"

definition direct_client :: "(byte list \<Rightarrow> byte list) \<Rightarrow> (string \<Rightarrow> string) \<Rightarrow> string \<Rightarrow> client" where
  "direct_client sha uni base =
     \<lparr>cl_parse = \<lambda>_. None,
      cl_do = \<lambda>k q.
        let p = drop (length base) (rq_url q)
        in case e2e_respond sha uni [] (wire_fields q p) (sent_body q) None of
             (h, b, _) \<Rightarrow> Inr (received_response (rq_method q) h b)\<rparr>"

lemma wire_names:
  assumes "small_request base q p"
  shows "distinct (map fst (wire_fields q p))"
    and "k \<in> dom (rq_header q) \<Longrightarrow> map_of (wire_fields q p) (map lower_byte k) = Some (hd (the (rq_header q k)))"
    and "list_all (\<lambda>(k, v). k \<noteq> [] \<and> length k \<le> 1000 \<and> length v \<le> 1000) (wire_fields q p)"
    and "list_all (\<lambda>(k, v). k \<noteq> [] \<and> \<not> is_pseudo k) (drop 4 (wire_fields q p))"
proof -
  let ?ks = "sorted_list_of_set (dom (rq_header q))"
  have fin: "finite (dom (rq_header q))" using assms by (simp add: small_request_def)
  have x: "sent_name k \<and> length k < 70 \<and> list_all token_byte k \<and> CanonicalMIMEHeaderKey k = k \<and>
      length (hd (the (rq_header q k))) \<le> 1000" if "k \<in> dom (rq_header q)" for k
    using assms that unfolding small_request_def by fastforce
  have X: "(\<exists>k'. map lower_byte k = CHR ''x'' # CHR ''-'' # k') \<or> map lower_byte k = ''content-type''" if "k \<in> dom (rq_header q)" for k
    using x [OF that] lower_sent by blast
  have inj: "inj_on (map lower_byte) (dom (rq_header q))"
  proof (rule inj_onI)
    fix j k assume jk: "j \<in> dom (rq_header q)" "k \<in> dom (rq_header q)" "map lower_byte j = map lower_byte k"
    have "canonical_bytes True j = j" "canonical_bytes True k = k"
      using x [OF jk(1)] x [OF jk(2)] by (auto simp: CanonicalMIMEHeaderKey_def)
    then show "j = k" using canonical_lower [of True j] canonical_lower [of True k] jk(3) by metis
  qed
  have d: "distinct (map (map lower_byte) ?ks)" using inj fin by (simp add: distinct_map)
  have n: "map lower_byte k \<notin> set ['':method'', '':scheme'', '':path'', '':authority'', ''user-agent'']" "\<not> is_pseudo (map lower_byte k)"
    if "k \<in> dom (rq_header q)" for k using X [OF that] by (auto simp: is_pseudo_def)
  have fst: "map fst (wire_fields q p) = ['':method'', '':scheme'', '':path'', '':authority'', ''user-agent''] @ map (map lower_byte) ?ks"
    by (simp add: wire_fields_def o_def)
  show D: "distinct (map fst (wire_fields q p))"
    unfolding fst distinct_append set_map using d n(1) fin by (intro conjI) (simp, assumption, fastforce simp del: map_eq_Cons_conv)
  show "map_of (wire_fields q p) (map lower_byte k) = Some (hd (the (rq_header q k)))" if "k \<in> dom (rq_header q)"
    using D that fin by (intro map_of_is_SomeI) (auto simp: wire_fields_def)
  show "list_all (\<lambda>(k, v). k \<noteq> [] \<and> length k \<le> 1000 \<and> length v \<le> 1000) (wire_fields q p)"
    using assms x X fin by (fastforce simp: wire_fields_def list_all_iff small_request_def)
  show "list_all (\<lambda>(k, v). k \<noteq> [] \<and> \<not> is_pseudo k) (drop 4 (wire_fields q p))"
    using n(2) X fin by (fastforce simp: wire_fields_def list_all_iff is_pseudo_def)
qed

lemma received_ok: "final_response m h b \<Longrightarrow> response_received m h b (received_response m h b)"
proof -
  assume f: "final_response m h b"
  have st: "StatusCode (received_response m h b) = n" if "map_of h '':status'' = Some (show_int n)" for n
  proof -
    obtain n0 where n0: "map_of h '':status'' = Some (show_int n0)" "200 \<le> n0" using f by (auto simp: final_response_def)
    have eq: "show_int n = show_nat (nat n0)" using n0 that by (simp add: show_int_def)
    have "\<not> n < 0"
    proof
      assume "n < 0"
      then have "show_nat (nat n0) = CHR ''-'' # show_nat (nat (- n))" using eq by (simp add: show_int_def)
      then have "CHR ''-'' \<in> set (show_nat (nat n0))" by simp
      then show False using digits_other [of "show_nat (nat n0)" "CHR ''-''"] show_nat_digits [of "nat n0"] by simp
    qed
    then show ?thesis using that show_nat_digits [of "nat n"] by (simp add: received_response_def show_int_def)
  qed
  have hd: "Header_Get (rs_header (received_response m h b)) k = v" if "map_of h k = Some v" "\<not> is_pseudo k" for k v
  proof -
    let ?r = "filter (\<lambda>(k, v). \<not> is_pseudo k) h"
    have names: "list_all token_byte j \<and> map lower_byte j = j" if "(j, w) \<in> set ?r" for j w
      using f that unfolding final_response_def list_all_iff by fastforce
    have inj: "inj_on CanonicalMIMEHeaderKey (fst ` set ?r)"
    proof (rule inj_onI)
      fix i j assume ij: "i \<in> fst ` set ?r" "j \<in> fst ` set ?r" "CanonicalMIMEHeaderKey i = CanonicalMIMEHeaderKey j"
      then have "canonical_bytes True i = canonical_bytes True j" "map lower_byte i = i" "map lower_byte j = j"
        using names by (auto simp: CanonicalMIMEHeaderKey_def)
      then show "i = j" using lower_canonical by metis
    qed
    have "distinct (map fst ?r)" using f by (simp add: final_response_def distinct_map_filter)
    then have "distinct (map CanonicalMIMEHeaderKey (map fst ?r))" using inj by (simp only: distinct_map set_map)
    then have "distinct (map fst (map (\<lambda>(k, v). (CanonicalMIMEHeaderKey k, [v])) ?r))"
      by (simp add: o_def case_prod_beta)
    moreover have "(k, v) \<in> set ?r" using that by (auto dest: map_of_SomeD)
    ultimately have "map_of (map (\<lambda>(k, v). (CanonicalMIMEHeaderKey k, [v])) ?r) (CanonicalMIMEHeaderKey k) = Some [v]"
      by (intro map_of_is_SomeI) force+
    then show ?thesis by (simp add: received_response_def Header_Get_def)
  qed
  show ?thesis using st hd by (simp add: response_received_def) (simp add: received_response_def)
qed

lemma direct_client_ok: "h3_client huff (e2e_router sha uni) [] base (direct_client sha uni base)"
  unfolding h3_client_def
proof (intro allI impI conjI, goal_cases)
  case (1 q p)
  then show ?case by (simp add: direct_client_def)
next
  case (2 q p k)
  let ?hs = "wire_fields q p"
  let ?block = "[0x00, 0x00] @ concat (map literal_line ?hs)"
  have d: "Decoder_decode huff dyntab_new ?block = Inr ?hs"
  proof -
    have "\<forall>kv\<in>set ?hs. length (fst kv) < 2 ^ 64 \<and> length (snd kv) < 2 ^ 64"
      using wire_names(3) [OF 2] by (fastforce simp: list_all_iff)
    then have "Decoder_decode huff dyntab_new ?block = validate_fields ?hs [] False []" by (rule decode_literal_block)
    also have "\<dots> = validate_fields (drop 4 ?hs) ['':authority'', '':path'', '':scheme'', '':method''] False (take 4 ?hs)"
      by (simp add: wire_fields_def is_pseudo_def)
    also have "\<dots> = Inr (take 4 ?hs @ drop 4 ?hs)"
      by (rule validate_regular [OF wire_names(4) [OF 2]]) (use wire_names(1) [OF 2] in simp)
    finally show ?thesis by simp
  qed
  have l: "length ?block \<le> MAX_FRAME_PAYLOAD"
  proof -
    have "length (concat (map literal_line ?hs)) \<le> 4004 * length ?hs"
      by (rule length_literal_lines [OF wire_names(3) [OF 2]])
    moreover have "length ?hs \<le> 15" using 2 by (simp add: wire_fields_def small_request_def)
    ultimately show ?thesis by (simp add: MAX_FRAME_PAYLOAD_def)
  qed
  have f: "request_fields q p ?hs"
    unfolding request_fields_def
  proof (intro conjI allI impI)
    show "distinct (map fst ?hs)" by (rule wire_names(1) [OF 2])
    have "'':status'' \<notin> fst ` set (take 4 ?hs)" by (simp add: wire_fields_def)
    moreover have "'':status'' \<notin> fst ` set (drop 4 ?hs)" using wire_names(4) [OF 2] by (fastforce simp: list_all_iff is_pseudo_def)
    ultimately show "map_of ?hs '':status'' = None"
      unfolding map_of_eq_None_iff by (metis UnE append_take_drop_id image_Un set_append)
    fix k v assume "rq_header q k = Some [v]"
    then show "map_of ?hs (map lower_byte k) = Some v" using wire_names(2) [OF 2, of k] by auto
  qed (simp_all add: wire_fields_def)
  have u: "drop (length base) (rq_url q) = p" using 2 by (simp add: small_request_def)
  let ?chunks = "if sent_body q = [] then [] else [string_bytes (sent_body q)]"
  have c: "concat ?chunks = string_bytes (sent_body q)" "\<forall>ch\<in>set ?chunks. length ch \<le> MAX_FRAME_PAYLOAD"
    using 2 by (auto simp: small_request_def string_bytes_def)
  have r: "read_request huff dyntab_new (request_stream ?block ?chunks) = GotRequest ?hs (concat ?chunks)"
    by (rule read_request_stream [OF d l c(2)]) (use f in \<open>auto simp: request_fields_def has_key_def\<close>)
  have "\<exists>r. cl_do (direct_client sha uni base) k q = Inr r \<and> response_received (rq_method q) h b r"
    if "handle_request huff dyntab_new (e2e_router sha uni) ''/metrics'' [] None (request_stream ?block ?chunks) = Responded h b effs"
      and "final_response (rq_method q) h b" for h b effs
    using that received_ok [OF that(2)] r u c(1)
    by (auto simp: handle_request_def direct_client_def e2e_respond_def Let_def split: prod.splits)
  then show ?case using d l c f by blast
qed

section \<open>The whole run\<close>

text \<open>The raw connection of suite 26: the streams of the server, and any HEADERS frame in answer to the request.\<close>

definition raw_served :: "raw_env \<Rightarrow> bool" where
  "raw_served r =
     (\<exists>ctrl enc dec last_id ctrl' block rest.
        init_h3_control_streams = Inr [ctrl, enc, dec] \<and> send_goaway last_id ctrl = Inr ctrl' \<and> last_id < 2 ^ 62 \<and>
        length block \<le> makeslice_max \<and>
        r = \<lparr>dial_err = None, uni_in = [ctrl', enc, dec], open_err = None, write_err = None, resp_in = h3Frame 0x01 block @ rest\<rparr>)"

lemma main_suites_split:
  "main_suites = take 22 main_suites @ [suite23] @ [suite24, suite25, suite26, suite27] @ [suite28]"
  by (simp add: main_suites_def)

lemma few_failures: "length (datagram_failures e @ zero_rtt_failures e) \<le> 5"
proof -
  have "length (datagram_failures e) \<le> 4"
    by (simp add: datagram_failures_def suite23_payloads_def split: option.splits)
  moreover have "length (zero_rtt_failures e) \<le> 1" by (simp add: zero_rtt_failures_def split: option.splits)
  ultimately show ?thesis by simp
qed

lemma main_suites_report:
  assumes "served huff uni mt e" and "testGoawayAndControlStream (me_raw e) = Ret None" and "150 * Millisecond \<le> me_elapsed17 e"
  shows "suite_reports (run_suites main_suites) e (datagram_failures e @ zero_rtt_failures e)"
proof -
  have "list_all (\<lambda>f. suite_silent f e) (take 22 main_suites)" "list_all (\<lambda>f. suite_silent f e) [suite24, suite25, suite26, suite27]"
    using parallel_suites_silent [OF assms(1)] serial_suites_silent [OF assms(1)] multi_conn_silent [OF assms(1)]
      churn_silent [OF assms(1)] slow_silent [OF assms(1,3)] push_silent [OF assms(1)] loops_silent [OF assms(1)]
      other_reports(2) [OF assms(2)]
    unfolding main_suites_def by (simp_all only: take_Suc_Cons numeral_nat take_0 list.pred_inject)
  note silent = this [THEN run_suites_silent, unfolded suite_silent_reports]
  have "suite_reports (run_suites (take 22 main_suites @ [suite23] @ [suite24, suite25, suite26, suite27] @ [suite28])) e
      ([] @ datagram_failures e @ [] @ zero_rtt_failures e)"
    by (intro run_suites_reports silent run_suite_reports other_reports(1,3))
  then show ?thesis using main_suites_split by simp
qed

text \<open>
  C1. The end-to-end run against the end-to-end server: when every client of the suites
  speaks HTTP/3 to the server (\<open>h3_client\<close>), the control streams are those
  the server opens and the slow endpoint took its time, then
  for every repetition count within range \<open>main\<close> finishes and every test of the HTTP and control stream
  suites passes. Nothing is assumed of the four datagram exchanges and the 0-RTT connection: the
  run reports exactly those of them that fail, in order, every other one of the \<open>557 * n + 342\<close> tests
  has passed, and the exit code is 0 if none of them fails and 1 otherwise.
\<close>

theorem e2e_all_pass:
  assumes "served huff uni mt e" and "raw_served (me_raw e)"
    and "150 * Millisecond \<le> me_elapsed17 e" and "0 \<le> me_n e" and "me_n e \<le> max_reps"
  shows "let fails = datagram_failures e @ zero_rtt_failures e in
    length fails \<le> 5 \<and>
    e2e_main e = Ret (\<lparr>totalPassed = 557 * me_n e + 342 - int (length fails), totalTests = 557 * me_n e + 342,
      allFailures = fails\<rparr>, if fails = [] then 0 else 1)"
proof -
  have raw: "testGoawayAndControlStream (me_raw e) = Ret None"
    using assms(2) unfolding raw_served_def by (elim exE conjE) (simp only: suite26_streams)
  then have ok: "e2e_ok e" using assms(4,5) by (simp add: e2e_ok_def)
  note reports = main_suites_report [OF assms(1) raw assms(3)]
  obtain p new where r: "run_suites main_suites e main_init =
      Ret (add p (557 * me_n e + 342) (main_init\<lparr>allFailures := allFailures main_init @ new\<rparr>))"
    "p + int (length new) = 557 * me_n e + 342"
    using e2e.run_all_counts [OF ok, of main_init] unfolding main_suites_sizes suite_counts_def by blast
  then have "new = datagram_failures e @ zero_rtt_failures e"
    using reports unfolding suite_reports_def by (fastforce simp: add_def)
  moreover have "length (datagram_failures e @ zero_rtt_failures e) \<le> 5" by (rule few_failures)
  ultimately show ?thesis using r by (auto simp: e2e_main_def add_def main_init_def Let_def)
qed

definition direct_env :: main_env where
  "direct_env = (demo_env
     \<lparr>me_client := \<lambda>_. direct_client (\<lambda>b. b) (\<lambda>s. s) (me_base demo_env), me_conn := \<lambda>_ _. direct_client (\<lambda>b. b) (\<lambda>s. s) (me_base demo_env),
      me_elapsed17 := 200 * Millisecond, me_sum256 := \<lambda>b. b,
      me_raw := \<lparr>dial_err = None,
        uni_in = [0 # h3Frame 0x04 (pairs_enc writeVarInt server_settings) @ h3Frame 0x07 (writeVarInt 4), [0x02], [0x03]],
        open_err = None, write_err = None, resp_in = h3Frame 0x01 [0x00, 0x00, 0xD9] @ []\<rparr>\<rparr>)"

text \<open>Two rounds with an early-data attempt that is refused: one line, all other tests pass.\<close>

theorem e2e_all_pass_witness:
  "e2e_main (direct_env\<lparr>me_zrtt := (me_zrtt direct_env)\<lparr>z_used0RTT := False\<rparr>\<rparr>) =
     Ret (\<lparr>totalPassed = 1455, totalTests = 1456, allFailures =
       [Prefixed ''0-RTT early data: '' (Errorf (''0-RTT was NOT used on the second connection '' @
              ''(server NST did not enable early data, or session cache miss)'') [])]\<rparr>, 1)"
proof -
  let ?e = "direct_env\<lparr>me_zrtt := (me_zrtt direct_env)\<lparr>z_used0RTT := False\<rparr>\<rparr>"
  have b: "me_base ?e = me_base demo_env" by (simp add: direct_env_def me_base_def)
  have s: "served (\<lambda>_. Inl EOFError) (\<lambda>s. s) [] ?e"
    unfolding served_def b using direct_client_ok by (auto simp: direct_env_def)
  have w: "raw_served (me_raw ?e)"
    unfolding raw_served_def using init_control_streams send_goaway_eq [of 4]
    by (intro exI conjI) (auto simp: direct_env_def makeslice_max_def)
  have n: "150 * Millisecond \<le> me_elapsed17 ?e" "me_n ?e = 2"
    by (simp_all add: direct_env_def demo_env_def Millisecond_def)
  have d: "datagram_failures ?e = []"
    by (simp add: datagram_failures_def suite23_payloads_def testDatagramEcho_def direct_env_def demo_env_def)
  have z: "zero_rtt_failures ?e = [Prefixed ''0-RTT early data: '' (Errorf (''0-RTT was NOT used on the second connection '' @
              ''(server NST did not enable early data, or session cache miss)'') [])]"
    by (simp add: zero_rtt_failures_def testZeroRTT_def direct_env_def demo_env_def)
  show ?thesis using e2e_all_pass [OF s w n(1)] unfolding n(2) d z by (simp add: max_reps_def Let_def)
qed

section \<open>Answers\<close>

lemma map_of_updates:
  "map_of (foldl (\<lambda>h (k, v). AList.update k v h) h0 hs) k = (case map_of (rev hs) k of None \<Rightarrow> map_of h0 k | Some v \<Rightarrow> Some v)"
proof (induction hs rule: rev_induct)
  case (snoc x xs)
  then show ?case by (cases x) (simp add: update_conv')
qed simp

lemma to_h3_headers_lookup:
  shows "'':status'' \<notin> fst ` set (resp_headers r) \<Longrightarrow> map_of (to_h3_headers r) '':status'' = Some (show_int (resp_status r))"
    and "resp_body r \<noteq> [] \<Longrightarrow> map_of (to_h3_headers r) ''content-length'' = Some (show_nat (length (resp_body r)))"
    and "distinct (map fst (to_h3_headers r))"
proof -
  have "distinct (map fst (foldl (\<lambda>h (k, v). AList.update k v h) h0 hs))" if "distinct (map fst h0)" for h0 :: headers and hs
    using that by (induction hs arbitrary: h0) (auto simp: distinct_update)
  then show "distinct (map fst (to_h3_headers r))" by (simp add: to_h3_headers_def Let_def distinct_update)
  show "resp_body r \<noteq> [] \<Longrightarrow> map_of (to_h3_headers r) ''content-length'' = Some (show_nat (length (resp_body r)))"
    by (simp add: to_h3_headers_def Let_def update_conv')
  assume "'':status'' \<notin> fst ` set (resp_headers r)"
  then have "map_of (rev (resp_headers r)) '':status'' = None" by (simp add: map_of_eq_None_iff)
  then show "map_of (to_h3_headers r) '':status'' = Some (show_int (resp_status r))"
    by (simp add: to_h3_headers_def Let_def map_of_updates update_conv')
qed

text \<open>
  C36. A request stream with a decodable header block, the required pseudo-headers and any sequence of
  DATA frames is always answered in router mode: with the page of the handler when one ran to its end,
  with 404 when no route matched, with 500 when the handler raised; no field name appears twice, and
  a response with a body declares exactly its length.
\<close>

theorem request_answered:
  assumes "Decoder_decode huff t block = Inr hdrs" and "length block \<le> MAX_FRAME_PAYLOAD"
    and "\<forall>ch\<in>set chunks. length ch \<le> MAX_FRAME_PAYLOAD"
    and "has_key hdrs '':method''" and "has_key hdrs '':path''" and "has_key hdrs '':scheme''" and "\<not> has_key hdrs '':status''"
    and "dispatch r (routed_context hdrs (bytes_string (concat chunks)) sid) = (cx, matched, err)"
    and "'':status'' \<notin> fst ` set (resp_headers (cx_response cx))"
    and "\<not> (mp \<noteq> [] \<and> map_of hdrs '':path'' = Some mp \<and> map_of hdrs '':method'' = Some ''GET'')"
  shows "\<exists>h b. handle_request huff t r mp mt sid (request_stream block chunks) = Responded h b (cx_effects cx) \<and>
    map_of h '':status'' = Some (show_int (if err \<noteq> None then 500 else if matched then resp_status (cx_response cx) else 404)) \<and>
    b = (if err \<noteq> None then ''Internal Server Error'' else if matched then resp_body (cx_response cx) else ''Not Found'') \<and>
    distinct (map fst h) \<and> (b \<noteq> [] \<longrightarrow> map_of h ''content-length'' = Some (show_nat (length b)))"
proof -
  let ?cx = "finish_context (cx, matched, err)"
  let ?r = "cx_response ?cx"
  have c: "resp_status ?r = (if err \<noteq> None then 500 else if matched then resp_status (cx_response cx) else 404)"
    "resp_body ?r = (if err \<noteq> None then ''Internal Server Error'' else if matched then resp_body (cx_response cx) else ''Not Found'')"
    "cx_effects ?cx = cx_effects cx"
    by (simp_all add: finish_context_def on_response_def resp_not_found_def resp_text_def resp_typed_def)
  have "'':status'' \<notin> fst ` set (resp_headers ?r)"
    using assms(9) by (auto simp: finish_context_def on_response_def resp_not_found_def resp_text_def resp_typed_def update_conv' simp flip: dom_map_of_conv_image_fst)
  note l = to_h3_headers_lookup(1) [OF this] to_h3_headers_lookup(2,3) [of ?r]
  have "handle_request huff t r mp mt sid (request_stream block chunks) = Responded (to_h3_headers ?r) (resp_body ?r) (cx_effects ?cx)"
    by (simp add: handle_request_def read_request_stream [OF assms(1-7)] respond_def assms(8) Let_def assms(10) [THEN if_not_P])
  then show ?thesis using l unfolding c by blast
qed

theorem request_answered_witness:
  "\<exists>h b. handle_request (\<lambda>_. Inl EOFError) dyntab_new (e2e_router (\<lambda>b. b) (\<lambda>s. s)) ''/metrics'' [] None
      (request_stream ([0x00, 0x00] @ concat (map literal_line [('':method'', ''POST''), ('':path'', ''/nowhere''), ('':scheme'', ''https'')])) [[1, 2], [3]])
      = Responded h b [] \<and> map_of h '':status'' = Some (show_int 404) \<and> b = ''Not Found'' \<and> distinct (map fst h) \<and>
    map_of h ''content-length'' = Some (show_nat (length b))"
proof -
  let ?hs = "[('':method'', ''POST''), ('':path'', ''/nowhere''), ('':scheme'', ''https'')]"
  let ?block = "[0x00, 0x00] @ concat (map literal_line ?hs)"
  let ?cx = "routed_context ?hs (bytes_string (concat [[1, 2], [3]])) None"
  have d: "Decoder_decode (\<lambda>_. Inl EOFError) dyntab_new ?block = Inr ?hs"
    by (subst decode_literal_block) (simp_all add: is_pseudo_def)
  have "length (concat (map literal_line ?hs)) \<le> 4004 * length ?hs" by (rule length_literal_lines) simp
  then have l: "length ?block \<le> MAX_FRAME_PAYLOAD" by (simp add: MAX_FRAME_PAYLOAD_def)
  have r: "dispatch (e2e_router (\<lambda>b. b) (\<lambda>s. s)) ?cx = (?cx, False, None)"
    by (simp add: dispatch_simps)
  show ?thesis
    using request_answered [OF d l _ _ _ _ _ r, of "''/metrics''" "[]"]
    by (auto simp: MAX_FRAME_PAYLOAD_def has_key_def routed_context_def Response_new_def)
qed

end
