(* ===== verification/Cross_Interop.thy ===== *)
theory Cross_Interop
  imports E2E_Interop
begin

text \<open>
  The cross-validation client (bench/go_client/cross_test/main.go) against the Crystal server: its
  HTTP tests of phases 1 and 2 against the routes of the end-to-end server under the same promise
  of the transport as in \<open>E2E_Interop\<close>, its injections of phase 3 against the request reader.
\<close>


section \<open>One call\<close>

definition crystalBase :: string where
  "crystalBase = ''https://'' @ crystalAddr"

lemma crystalURL_eq: "crystalURL p = crystalBase @ p"
  by (simp add: crystalURL_def crystalBase_def)

definition call_request :: "string \<Rightarrow> string \<Rightarrow> string option \<Rightarrow> http_header \<Rightarrow> http_request" where
  "call_request m p body h =
     \<lparr>rq_method = m, rq_url = crystalBase @ p, rq_body = body, rq_header = h, rq_timeout = 10 * Second\<rparr>"

lemma served_call:
  assumes "h3_client huff (e2e_router sha uni) mt crystalBase c" and "small_request crystalBase (call_request m p body h) p"
    and "serves sha uni mt m p (case body of None \<Rightarrow> [] | Some b \<Rightarrow> b) ctype status b"
  shows "cl_parse c (crystalBase @ p) = None"
    and "\<exists>r. cl_do c k (call_request m p body h) = Inr r \<and> StatusCode r = status \<and> rs_body r = b"
proof -
  let ?q = "call_request m p body h"
  have q: "rq_method ?q = m" "sent_body ?q = (case body of None \<Rightarrow> [] | Some b \<Rightarrow> b)" "rq_url ?q = crystalBase @ p"
    by (simp_all add: call_request_def sent_body_def)
  show "cl_parse c (crystalBase @ p) = None" using assms(1,2) q(3) unfolding h3_client_def by metis
  have s: "fst (e2e_respond sha uni mt hdrs (sent_body ?q) sid) = typed_headers ctype status b"
    "fst (snd (e2e_respond sha uni mt hdrs (sent_body ?q) sid)) = b" if "request_fields ?q p hdrs" for hdrs sid
    using that assms(3) unfolding request_fields_def q serves_def by auto
  have st: "200 \<le> status" "status \<le> 599" "m \<noteq> ''HEAD''" using assms(3) by (auto simp: serves_def)
  obtain r hdrs sid where r: "cl_do c k ?q = Inr r" "request_fields ?q p hdrs"
    "response_received m (fst (e2e_respond sha uni mt hdrs (sent_body ?q) sid)) (fst (snd (e2e_respond sha uni mt hdrs (sent_body ?q) sid))) r"
    using h3_client_response [OF assms(1,2), of k] s final_typed [OF st(1,2)] unfolding q(1) by metis
  then have "response_received m (typed_headers ctype status b) b r" using s by simp
  then have "StatusCode r = status" "rs_body r = b" using st(3) by (auto simp: response_received_def typed_headers_def)
  then show "\<exists>r. cl_do c k ?q = Inr r \<and> StatusCode r = status \<and> rs_body r = b" using r(1) by blast
qed

lemma small_call:
  assumes "take 1 p = ''/''" and "length p \<le> 1000" and "valid_method m" and "length m \<le> 100"
    and "length (case body of None \<Rightarrow> [] | Some b \<Rightarrow> b) \<le> MAX_FRAME_PAYLOAD"
    and "h = Map.empty \<or> h = [''Content-Type'' \<mapsto> [ct]] \<and> length ct \<le> 1000 \<or> h = [''X-Test-Id'' \<mapsto> [ct]] \<and> length ct \<le> 1000"
  shows "small_request crystalBase (call_request m p body h) p"
proof -
  have n: "CanonicalMIMEHeaderKey ''Content-Type'' = ''Content-Type''" "CanonicalMIMEHeaderKey ''X-Test-Id'' = ''X-Test-Id''"
    by code_simp+
  show ?thesis using assms n unfolding small_request_def call_request_def sent_body_def
    by (auto simp: sent_name_def token_byte_def split: if_splits)
qed

lemma client_Get_page:
  assumes "h3_client huff (e2e_router sha uni) mt crystalBase c" and "serves sha uni mt ''GET'' p [] ctype status b"
    and "take 1 p = ''/''" and "length p \<le> 1000"
  shows "\<exists>r. client_Get c k (crystalURL p) = Ret (Inr r) \<and> StatusCode r = status \<and> rs_body r = b"
proof -
  have m: "valid_method ''GET''" by code_simp
  have s: "small_request crystalBase (call_request ''GET'' p None Map.empty) p"
    by (rule small_call) (use assms m in \<open>simp_all\<close>)
  have v: "serves sha uni mt ''GET'' p (case None of None \<Rightarrow> [] | Some b \<Rightarrow> b) ctype status b" using assms(2) by simp
  show ?thesis
    using served_call(1) [OF assms(1) s v] served_call(2) [OF assms(1) s v, of k] m
    by (simp add: client_Get_def NewRequestWithContext_def Let_def crystalURL_eq call_request_def)
qed

lemma client_Post_page:
  assumes "h3_client huff (e2e_router sha uni) mt crystalBase c" and "serves sha uni mt ''POST'' p body ctype status b"
    and "take 1 p = ''/''" and "length p \<le> 1000" and "body \<noteq> []" and "length body \<le> MAX_FRAME_PAYLOAD" and "length ct \<le> 1000"
  shows "\<exists>r. client_Post c k (crystalURL p) ct body = Ret (Inr r) \<and> StatusCode r = status \<and> rs_body r = b"
proof -
  have m: "valid_method ''POST''" "CanonicalMIMEHeaderKey ''Content-Type'' = ''Content-Type''" by code_simp+
  have s: "small_request crystalBase (call_request ''POST'' p (Some body) [''Content-Type'' \<mapsto> [ct]]) p"
    by (rule small_call [where ct = ct]) (use assms m in \<open>simp_all\<close>)
  have v: "serves sha uni mt ''POST'' p (case Some body of None \<Rightarrow> [] | Some b \<Rightarrow> b) ctype status b" using assms(2) by simp
  show ?thesis
    using served_call(1) [OF assms(1) s v] served_call(2) [OF assms(1) s v, of k] assms(5) m
    by (simp add: client_Post_def NewRequestWithContext_def Let_def crystalURL_eq call_request_def Header_Set_def)
qed

lemma client_Request_echo:
  assumes "h3_client huff (e2e_router sha uni) mt crystalBase c" and "m = ''PUT'' \<or> m = ''PATCH''"
    and "length body \<le> MAX_FRAME_PAYLOAD"
  shows "\<exists>r. client_Request c k m (crystalURL ''/echo'') (Some body) [(''content-type'', ''text/plain'')] = Ret (Inr r) \<and> StatusCode r = 200 \<and> rs_body r = body"
proof -
  have m: "valid_method ''PUT''" "valid_method ''PATCH''" "CanonicalMIMEHeaderKey ''content-type'' = ''Content-Type''" by code_simp+
  have v: "serves sha uni mt m ''/echo'' (case Some body of None \<Rightarrow> [] | Some b \<Rightarrow> b) text_plain 200 body"
    using assms(2) serves_echo by auto
  have s: "small_request crystalBase (call_request m ''/echo'' (Some body) [''Content-Type'' \<mapsto> [''text/plain'']]) ''/echo''"
    by (rule small_call [where ct = "''text/plain''"]) (use assms m in auto)
  show ?thesis
    using served_call(1) [OF assms(1) s v] served_call(2) [OF assms(1) s v, of k] m assms(2)
    by (auto simp: client_Request_def NewRequestWithContext_def Let_def crystalURL_eq call_request_def Header_Set_def)
qed

section \<open>Further pages\<close>

lemma e2e_100k:
  assumes "map_of hdrs '':method'' = Some ''GET''" and "map_of hdrs '':path'' = Some ''/100k''"
  shows "e2e_respond sha uni mt hdrs body sid = sends (resp_text PAYLOAD_100K 200 Response_new)"
  using assms by (simp add: dispatch_simps reply_defs h_100k_def resp_text_def resp_typed_def Response_new_def)

lemma cross_pages:
  "serves sha uni mt ''GET'' ''/100k'' [] text_plain 200 PAYLOAD_100K"
  "serves sha uni mt ''GET'' ''/large?n=4096'' [] text_plain 200 (replicate 4096 (CHR ''x''))"
  "serves sha uni mt ''GET'' ''/slow?ms=80'' [] text_plain 200 ''ok''"
  "serves sha uni mt ''GET'' ''/repeat?n=30&c=z'' [] text_plain 200 (Repeat ''z'' 30)"
  "serves sha uni mt ''GET'' ''/definitely_nonexistent_xyzzy'' [] text_plain 404 ''Not Found''"
proof -
  show "serves sha uni mt ''GET'' ''/100k'' [] text_plain 200 PAYLOAD_100K"
    unfolding serves_def by (simp add: e2e_100k serves_simps)
  show "serves sha uni mt ''GET'' ''/large?n=4096'' [] text_plain 200 (replicate 4096 (CHR ''x''))"
    "serves sha uni mt ''GET'' ''/slow?ms=80'' [] text_plain 200 ''ok''"
    using serves_large [of "''4096''"] serves_slow [of "''80''"] by (simp_all add: digit_eval)
  show "serves sha uni mt ''GET'' ''/repeat?n=30&c=z'' [] text_plain 200 (Repeat ''z'' 30)"
    unfolding serves_def
    by (simp add: dispatch_simps reply_defs h_repeat_def query_int_def query_params_def to_i32_def is_digit_def digits_value_def ascii_space_def
      clamp_def first_char_def Repeat_def serves_simps)
  show "serves sha uni mt ''GET'' ''/definitely_nonexistent_xyzzy'' [] text_plain 404 ''Not Found''"
    unfolding serves_def by (simp add: dispatch_simps reply_defs resp_not_found_def serves_simps)
qed

lemma trimmed: "TrimSpace ''pong'' = ''pong''" "TrimSpace (Repeat ''z'' 30) = Repeat ''z'' 30"
  by code_simp+

section \<open>Phase 1 and 2\<close>

definition test_ok :: "result go_result \<Rightarrow> bool" where
  "test_ok t = (\<exists>r. t = Ret r \<and> res_passed r)"

lemma test_ok_pass: "test_ok (pass nm)" "test_ok (pass_text t)"
  by (simp_all add: test_ok_def pass_def pass_text_def)

lemma get_test:
  assumes "h3_client huff (e2e_router sha uni) mt crystalBase c" and "serves sha uni mt ''GET'' p [] ctype status b"
    and "take 1 p = ''/''" and "length p \<le> 1000" and "\<And>r. StatusCode r = status \<Longrightarrow> rs_body r = b \<Longrightarrow> test_ok (f r)"
  shows "test_ok (with_response (client_Get c k (crystalURL p)) nm f)"
  using client_Get_page [OF assms(1-4), of k] assms(5) by (auto simp: with_response_def)

lemma post_test:
  assumes "h3_client huff (e2e_router sha uni) mt crystalBase c" and "serves sha uni mt ''POST'' p body ctype status b"
    and "take 1 p = ''/''" and "length p \<le> 1000" and "body \<noteq> []" and "length body \<le> MAX_FRAME_PAYLOAD" and "length ct \<le> 1000"
    and "\<And>r. StatusCode r = status \<Longrightarrow> rs_body r = b \<Longrightarrow> test_ok (f r)"
  shows "test_ok (with_response (client_Post c k (crystalURL p) ct body) nm f)"
  using client_Post_page [OF assms(1-7), of k] assms(8) by (auto simp: with_response_def)

lemma get_tests:
  assumes "h3_client huff (e2e_router sha uni) mt crystalBase c"
  shows "test_ok (testGetPing c)" and "test_ok (testGetHealthz c)" and "test_ok (testGetMethod c)" and "test_ok (testStatus200 c)"
    and "test_ok (testStatus404 c)" and "test_ok (testStatus201 c)" and "test_ok (testGet100k c)" and "test_ok (testGetLarge c)"
    and "test_ok (testRepeat c)" and "test_ok (testGetLarge64k c)" and "test_ok (testNotFound c)"
    and "80 * Millisecond \<le> el \<Longrightarrow> test_ok (testSlowEndpoint el c)"
  unfolding testGetPing_def testGetHealthz_def testGetMethod_def testStatus200_def testStatus404_def testStatus201_def testGet100k_def
    testGetLarge_def testRepeat_def testGetLarge64k_def testNotFound_def testSlowEndpoint_def
  by (rule get_test [OF assms], (rule pages | rule cross_pages), simp, simp, insert fixed_contents,
      simp add: trimmed test_ok_pass PAYLOAD_100K_def)+

lemma upload_contents: "contains (''{'' @ quoted ''received'' @ '':'' @ show_nat 5000 @ ''}'') ''5000''"
proof -
  have "show_nat 5000 = ''5000''" by (simp add: show_nat.simps char_of_def bit_0)
  then show ?thesis using contains_mid [of "''{'' @ quoted ''received'' @ '':''" "''5000''" "''}''"] by simp
qed

lemma post_tests:
  assumes "h3_client huff (e2e_router sha uni) mt crystalBase c"
  shows "test_ok (testPostEcho c)" and "test_ok (testPostEchoLarge c)" and "test_ok (testUpload c)" and "test_ok (testDigest sha c)"
proof -
  show "test_ok (testPostEcho c)" "test_ok (testPostEchoLarge c)"
    unfolding testPostEcho_def testPostEchoLarge_def
    by (rule post_test [OF assms], rule pages, simp, simp, simp add: Repeat_def, simp add: MAX_FRAME_PAYLOAD_def, simp, simp add: test_ok_pass)+
  show "test_ok (testUpload c)"
    unfolding testUpload_def
    by (rule post_test [OF assms], rule pages, simp, simp, simp add: Repeat_def, simp add: MAX_FRAME_PAYLOAD_def, simp, insert upload_contents, simp add: test_ok_pass)
  show "test_ok (testDigest sha c)"
    unfolding testDigest_def Let_def
    by (rule post_test [OF assms], rule pages, simp, simp, simp, simp add: MAX_FRAME_PAYLOAD_def, simp,
        insert digest_contents(1), simp add: test_ok_pass sha256hex_def)
qed

lemma request_tests:
  assumes "h3_client huff (e2e_router sha uni) mt crystalBase c"
  shows "test_ok (testPutEcho c)" and "test_ok (testPatchEcho c)"
  using client_Request_echo [OF assms, of "''PUT''" "''put-body''" 0] client_Request_echo [OF assms, of "''PATCH''" "''patch-body''" 0]
  by (auto simp: testPutEcho_def testPatchEcho_def with_response_def test_ok_pass MAX_FRAME_PAYLOAD_def)

lemma delete_test:
  assumes "h3_client huff (e2e_router sha uni) mt crystalBase c"
  shows "test_ok (testDeleteResource c)"
proof -
  let ?q = "call_request ''DELETE'' ''/resource'' None Map.empty"
  have m: "valid_method ''DELETE''" by code_simp
  have s: "small_request crystalBase ?q ''/resource''" by (rule small_call) (use m in simp_all)
  have q: "rq_method ?q = ''DELETE''" by (simp add: call_request_def)
  have f: "map_of hdrs '':method'' = Some ''DELETE'' \<and> map_of hdrs '':path'' = Some ''/resource''"
    if "request_fields ?q ''/resource'' hdrs" for hdrs using that by (simp add: request_fields_def call_request_def)
  obtain r hdrs sid where r: "cl_do c 0 ?q = Inr r" "request_fields ?q ''/resource'' hdrs"
    "response_received ''DELETE'' (fst (e2e_respond sha uni mt hdrs (sent_body ?q) sid)) (fst (snd (e2e_respond sha uni mt hdrs (sent_body ?q) sid))) r"
    using h3_client_response [OF assms s, of 0] f delete_answer delete_final(1) unfolding q by metis
  then have "StatusCode r = 204" using f [OF r(2)] delete_answer delete_final(2) by metis
  moreover have "cl_parse c (crystalBase @ ''/resource'') = None"
    using assms s unfolding h3_client_def by (metis call_request_def http_request.select_convs(2))
  ultimately show ?thesis using r(1) m
    by (simp add: testDeleteResource_def client_Request_def NewRequestWithContext_def crystalURL_eq call_request_def Let_def
        with_response_def test_ok_pass)
qed

lemma echo_test:
  assumes "h3_client huff (e2e_router sha uni) mt crystalBase c"
  shows "test_ok (testEchoHeaders c)"
proof -
  let ?q = "call_request ''GET'' ''/echo-headers'' None [''X-Test-Id'' \<mapsto> [''cross-validation'']]"
  have m: "valid_method ''GET''" "CanonicalMIMEHeaderKey ''x-test-id'' = ''X-Test-Id''" by code_simp+
  have s: "small_request crystalBase ?q ''/echo-headers''" by (rule small_call [where ct = "''cross-validation''"]) (use m in simp_all)
  have q: "rq_method ?q = ''GET''" by (simp add: call_request_def)
  have fin: "final_response ''GET'' (typed_headers app_json 200 b) b" for b by (rule final_typed) simp_all
  obtain r hdrs sid where r: "cl_do c 0 ?q = Inr r" "request_fields ?q ''/echo-headers'' hdrs"
    "response_received ''GET'' (fst (e2e_respond sha uni mt hdrs (sent_body ?q) sid)) (fst (snd (e2e_respond sha uni mt hdrs (sent_body ?q) sid))) r"
    using h3_client_response [OF assms s, of 0] echo_headers_answer [OF _ q] fin unfolding q by metis
  have b: "contains (echoed_body hdrs) ''cross-validation''"
    by (rule echoed_contents(2) [OF r(2) s, of "''X-Test-Id''"]) (simp_all add: call_request_def)
  have "StatusCode r = 200" "rs_body r = echoed_body hdrs"
    using r(3) echo_headers_answer [OF r(2) q] by (auto simp: response_received_def typed_headers_def)
  moreover have "cl_parse c (crystalBase @ ''/echo-headers'') = None"
    using assms s unfolding h3_client_def by (metis call_request_def http_request.select_convs(2))
  ultimately show ?thesis using r(1) m b
    by (simp add: testEchoHeaders_def client_Request_def NewRequestWithContext_def crystalURL_eq call_request_def Let_def
        Header_Set_def with_response_def test_ok_pass)
qed

lemma ping_calls:
  assumes "h3_client huff (e2e_router sha uni) mt crystalBase c"
  shows "\<not> ping_fails c i" and "ping_loop c nm is success = success"
proof -
  have p: "\<exists>r. client_Get c i (crystalURL ''/ping'') = Ret (Inr r) \<and> StatusCode r = 200 \<and> rs_body r = ''pong''" for i
    by (rule client_Get_page [OF assms], rule pages) simp_all
  show "\<not> ping_fails c i" using p [of i] by (auto simp: ping_fails_def)
  show "ping_loop c nm is success = success"
  proof (induction "is")
    case (Cons i "is")
    then show ?case using p [of i] trimmed(1) by auto
  qed simp
qed

lemma ping_based_tests:
  assumes "h3_client huff (e2e_router sha uni) mt crystalBase c"
    and "\<And>i. h3_client huff (e2e_router sha uni) mt crystalBase (conns i)"
  shows "test_ok (testConcurrentPing c)" and "test_ok (testMultipleConnections conns)" and "test_ok (testSequentialRequests c)"
    and "test_ok (testDynamicQPACK c)"
  using ping_calls [OF assms(1)] ping_calls(1) [OF assms(2)]
  by (simp_all add: testConcurrentPing_def testMultipleConnections_def testSequentialRequests_def testDynamicQPACK_def test_ok_pass)

section \<open>The whole run\<close>

text \<open>A raw connection to the server: whenever the request reader closes it, the test sees it end.\<close>

definition rejects :: "raw_conn \<Rightarrow> bool" where
  "rejects conn =
     (rc_dial conn = None \<and> rc_bidi conn = None \<and>
      (\<exists>huff t. \<forall>uni p code m. read_request huff t p = CloseConn code m \<longrightarrow>
         rc_end conn uni p = Some (ApplicationError code) \<or> rc_end conn uni p = Some OtherError))"

text \<open>Every client and raw connection of the run speaks to the server.\<close>

definition cross_served :: "(byte list \<Rightarrow> cr_error + string) \<Rightarrow> (string \<Rightarrow> string) \<Rightarrow> string \<Rightarrow> cross_env \<Rightarrow> bool" where
  "cross_served huff uni mt e =
     ((\<forall>i. h3_client huff (e2e_router (ce_sum256 e) uni) mt crystalBase (ce_client e i)) \<and>
      (\<forall>i. h3_client huff (e2e_router (ce_sum256 e) uni) mt crystalBase (ce_conns e i)) \<and>
      (\<forall>i. rejects (ce_raw e i)))"

lemma collect_ok: "list_all test_ok ts \<Longrightarrow> \<exists>rs. collect ts = Ret rs \<and> length (filter res_passed rs) = length rs"
  by (induction ts) (auto simp: test_ok_def)

lemma phases_pass:
  assumes "cross_served huff uni mt e" and "80 * Millisecond \<le> ce_elapsed e"
  shows "list_all (\<lambda>fn. \<forall>i. test_ok (fn (ce_client e i))) (phase1 e)" and "list_all test_ok (phase2 e)" and "list_all test_ok (phase3 e)"
proof -
  have c: "h3_client huff (e2e_router (ce_sum256 e) uni) mt crystalBase (ce_client e i)"
    "h3_client huff (e2e_router (ce_sum256 e) uni) mt crystalBase (ce_conns e i)" and r: "rejects (ce_raw e i)" for i
    using assms(1) by (auto simp: cross_served_def)
  note t = get_tests [OF c(1)] post_tests [OF c(1)] request_tests [OF c(1)] delete_test [OF c(1)] echo_test [OF c(1)] ping_based_tests [OF c]
  show "list_all (\<lambda>fn. \<forall>i. test_ok (fn (ce_client e i))) (phase1 e)" unfolding phase1_def using t assms(2) by simp
  show "list_all test_ok (phase2 e)" unfolding phase2_def using t by simp
  have "list_all (\<lambda>tst. test_ok (tst (ce_raw e i))) [testDataBeforeHeaders, testSettingsOnRequestStream, testMissingMethod,
            testStatusInRequest, testPushPromiseOnRequestStream]" for i
    using r [of i] raw_rejections [of "ce_raw e i"] unfolding rejects_def test_ok_def by blast
  then show "list_all test_ok (phase3 e)" unfolding phase3_def by simp
qed

section \<open>Property\<close>

text \<open>
  C2. The cross-validation client passes against the Crystal server: when its clients speak
  HTTP/3 to the routes of the end-to-end server, its raw connections report how the request reader
  ends them, the server is reachable in time and the slow endpoint takes its 80 ms, then no
  call panics, all 29 tests of the three phases pass and \<open>main\<close> exits with code 0.
\<close>

theorem cross_main_passes:
  assumes "cross_served huff uni mt e" and "80 * Millisecond \<le> ce_elapsed e"
    and "ce_start e \<Longrightarrow> \<not> ce_missing e \<and> ce_startErr e = None"
    and "waitForServer (ce_now e + (if ce_start e then 5 * Second else 2 * Second)) (ce_dials e)"
  shows "cross_main e = Ret 0"
proof -
  note p = phases_pass [OF assms(1,2)]
  have "list_all test_ok (map (\<lambda>(i, fn). fn (ce_client e i)) (enumerate 0 (phase1 e)))"
    using p(1) by (auto simp: list_all_iff in_set_enumerate_eq)
  then obtain rs where "collect (map (\<lambda>(i, fn). fn (ce_client e i)) (enumerate 0 (phase1 e)) @ phase2 e @ phase3 e) = Ret rs"
    "length (filter res_passed rs) = length rs"
    using collect_ok [of "map (\<lambda>(i, fn). fn (ce_client e i)) (enumerate 0 (phase1 e)) @ phase2 e @ phase3 e"] p(2,3) by auto
  then show ?thesis using assms(3,4) by (auto simp: cross_main_def Let_def)
qed

definition cross_direct :: cross_env where
  "cross_direct = \<lparr>ce_start = True, ce_missing = False, ce_startErr = None, ce_now = 0, ce_dials = [(0, False), (100 * Millisecond, True)],
     ce_client = \<lambda>_. direct_client (\<lambda>b. b) (\<lambda>s. s) crystalBase, ce_conns = \<lambda>_. direct_client (\<lambda>b. b) (\<lambda>s. s) crystalBase,
     ce_elapsed = 81 * Millisecond, ce_raw = \<lambda>_. demo_conn, ce_sum256 = \<lambda>b. b\<rparr>"

theorem cross_main_passes_witness: "cross_main cross_direct = Ret 0"
proof (rule cross_main_passes)
  have "rejects demo_conn"
    unfolding rejects_def by (intro conjI exI [of _ "\<lambda>_. Inl EOFError"] exI [of _ dyntab_new]) (simp_all add: demo_conn_def)
  then show "cross_served (\<lambda>_. Inl EOFError) (\<lambda>s. s) [] cross_direct"
    unfolding cross_served_def using direct_client_ok by (auto simp: cross_direct_def)
qed (simp_all add: cross_direct_def Millisecond_def Second_def)

end
