(* ===== verification/Cr_Encoder.thy ===== *)
theory Cr_Encoder
  imports H3_Interop
begin

text \<open>
  The dynamic side of QPACK in src/h3/qpack.cr: the instruction decoder that follows the peer's encoder
  stream, the encoder with its two passes over a header list, and \<open>Connection#write_response\<close>
  (src/h3/connection.cr), which puts an encoded response on the request stream. The counters of the
  table are natural numbers: the subtractions of the code stay above zero in the tables that
  satisfy \<open>table_ok\<close>.
\<close>


section \<open>The instruction decoder\<close>

text \<open>An exception leaves the table as it is at that point.\<close>

lemma instruction_step_rest: "instruction_step huff b io t = Inr (Some (t', r)) \<Longrightarrow> length r \<le> length io"
  by (auto simp: instruction_step_def rbind_Inr_iff Let_def split: if_splits
      dest!: QInt_decode_rest decode_index_rest decode_string_rest)

function instructions ::
    "(byte list \<Rightarrow> cr_error + string) \<Rightarrow> byte list \<Rightarrow> dyntab \<Rightarrow> dyntab \<times> cr_error option" where
  "instructions huff [] t = (t, None)"
| "instructions huff (b # io) t =
     (case instruction_step huff b io t of
        Inl e \<Rightarrow> (t, Some e)
      | Inr None \<Rightarrow> (t, None)
      | Inr (Some (t', io')) \<Rightarrow> instructions huff io' t')"
  by pat_completeness auto
termination
  by (relation "measure (\<lambda>(huff, io, t). length io)") (auto dest: instruction_step_rest)

section \<open>The encoder\<close>

fun index_where :: "('a \<Rightarrow> bool) \<Rightarrow> 'a list \<Rightarrow> nat option" where
  "index_where P [] = None"
| "index_where P (x # xs) = (if P x then Some 0 else map_option Suc (index_where P xs))"

definition find_static_exact :: "string \<Rightarrow> string \<Rightarrow> nat option" where
  "find_static_exact k v = index_where (\<lambda>e. fst e = k \<and> snd e = v) STATIC_TABLE"

definition find_static_name_only :: "string \<Rightarrow> nat option" where
  "find_static_name_only k = index_where (\<lambda>e. fst e = k) STATIC_TABLE"

definition find_dynamic_exact :: "dyntab \<Rightarrow> string \<Rightarrow> string \<Rightarrow> nat option" where
  "find_dynamic_exact t k v = index_where (\<lambda>e. e_name e = k \<and> e_value e = v) (entries t)"

definition find_name_match :: "dyntab \<Rightarrow> string \<Rightarrow> nat option \<times> nat option" where
  "find_name_match t k = (find_static_name_only k, index_where (\<lambda>e. e_name e = k) (entries t))"

record encoder =
  enc_table :: dyntab
  enc_stream :: "byte list"

definition encoder_new :: encoder where
  "encoder_new = \<lparr>enc_table = dyntab_new, enc_stream = []\<rparr>"

definition Encoder_set_capacity :: "u64 \<Rightarrow> encoder \<Rightarrow> encoder" where
  "Encoder_set_capacity c enc =
     \<lparr>enc_table = set_capacity (unat c) (enc_table enc), enc_stream = enc_stream enc @ QInt_encode c 5 0x20\<rparr>"

text \<open>Pass 1: a header that is in neither table is inserted, its name by reference where it can be.\<close>

definition insert_instruction :: "dyntab \<Rightarrow> string \<Rightarrow> string \<Rightarrow> byte list" where
  "insert_instruction t k v =
     (case find_name_match t k of
        (Some s_idx, _) \<Rightarrow> QInt_encode (of_nat s_idx) 6 0xC0 @ encode_string v 7 0
      | (None, Some d_idx) \<Rightarrow>
          (let abs_idx = dropped_count t + d_idx; rel_idx = insert_count t - 1 - abs_idx
           in QInt_encode (of_nat rel_idx) 6 0x80 @ encode_string v 7 0)
      | (None, None) \<Rightarrow> encode_string k 5 0x40 @ encode_string v 7 0)"

definition insert_header :: "encoder \<Rightarrow> string \<times> string \<Rightarrow> encoder" where
  "insert_header enc kv =
     (case kv of (k, v) \<Rightarrow>
        if find_static_exact k v \<noteq> None then enc
        else if list_ex (\<lambda>e. e_name e = k \<and> e_value e = v) (entries (enc_table enc)) then enc
        else if capacity (enc_table enc) = 0 then enc
        else \<lparr>enc_table = dyntab_add k v (enc_table enc), enc_stream = enc_stream enc @ insert_instruction (enc_table enc) k v\<rparr>)"

text \<open>Pass 2: one field line, relative to the final insert count.\<close>

definition field_line :: "dyntab \<Rightarrow> string \<times> string \<Rightarrow> byte list" where
  "field_line t kv =
     (case kv of (k, v) \<Rightarrow>
        (case find_static_exact k v of
           Some s_idx \<Rightarrow> QInt_encode (of_nat s_idx) 6 0xC0
         | None \<Rightarrow>
             (case find_dynamic_exact t k v of
                Some d_idx \<Rightarrow>
                  (let abs_idx = dropped_count t + d_idx; rel_idx = insert_count t - 1 - abs_idx
                   in QInt_encode (of_nat rel_idx) 6 0x80)
              | None \<Rightarrow>
                  (case find_static_name_only k of
                     Some s_idx \<Rightarrow> QInt_encode (of_nat s_idx) 4 0x50 @ encode_string v 7 0
                   | None \<Rightarrow> encode_string k 3 0x20 @ encode_string v 7 0))))"

definition Encoder_encode :: "headers \<Rightarrow> encoder \<Rightarrow> byte list \<times> encoder" where
  "Encoder_encode headers enc =
     (let enc' = foldl insert_header enc headers;
          final_ic = insert_count (enc_table enc');
          ric = (if final_ic = 0 then 0 else final_ic mod 256 + 1)
      in (QInt_encode (of_nat ric) 8 0 @ [0x00] @ concat (map (field_line (enc_table enc')) headers), enc'))"

section \<open>The table invariant\<close>

definition table_ok :: "dyntab \<Rightarrow> bool" where
  "table_ok t =
     (tsize t = sum_list (map e_size (entries t)) \<and> tsize t \<le> capacity t \<and>
      insert_count t = dropped_count t + length (entries t) \<and>
      (\<forall>e\<in>set (entries t). e_size e = length (e_name e) + length (e_value e) + 32))"

text \<open>Before an eviction the size may exceed the capacity.\<close>

definition table_pre :: "dyntab \<Rightarrow> bool" where
  "table_pre t =
     (tsize t = sum_list (map e_size (entries t)) \<and>
      insert_count t = dropped_count t + length (entries t) \<and>
      (\<forall>e\<in>set (entries t). e_size e = length (e_name e) + length (e_value e) + 32))"

lemma evict_ok: "table_pre t \<Longrightarrow> table_ok (evict_if_needed t)"
proof (induction t rule: evict_if_needed.induct)
  case (1 t)
  show ?case
  proof (cases "capacity t < tsize t \<and> entries t \<noteq> []")
    case True
    then obtain e es where e: "entries t = e # es" by (cases "entries t") auto
    have "table_pre (t\<lparr>entries := es, tsize := tsize t - e_size e, dropped_count := dropped_count t + 1\<rparr>)"
      using "1.prems" e by (simp add: table_pre_def)
    then show ?thesis using "1.IH" True e by (subst evict_if_needed.simps) simp
  next
    case False
    then show ?thesis using "1.prems" by (subst evict_if_needed.simps) (auto simp: table_ok_def table_pre_def)
  qed
qed

lemma evict_counts:
  "capacity (evict_if_needed t) = capacity t" "insert_count (evict_if_needed t) = insert_count t"
  by (induction t rule: evict_if_needed.induct) (subst evict_if_needed.simps, simp)+

lemma table_ok_new: "table_ok dyntab_new"
  by (simp add: table_ok_def dyntab_new_def)

lemma table_ok_pre: "table_ok t \<Longrightarrow> table_pre t"
  by (simp add: table_ok_def table_pre_def)

lemma table_ok_set_capacity: "table_ok t \<Longrightarrow> table_ok (set_capacity c t)"
  unfolding set_capacity_def by (rule evict_ok) (simp add: table_ok_def table_pre_def)

lemma table_ok_add: "table_ok t \<Longrightarrow> table_ok (dyntab_add k v t)"
  unfolding dyntab_add_def Let_def by (rule evict_ok) (auto simp: table_ok_def table_pre_def)

lemma table_ok_step: "instruction_step huff b io t = Inr (Some (t', r)) \<Longrightarrow> table_ok t \<Longrightarrow> table_ok t'"
  by (auto simp: instruction_step_def rbind_Inr_iff Let_def table_ok_add table_ok_set_capacity split: if_splits option.splits)

lemma table_ok_instructions: "table_ok t \<Longrightarrow> table_ok (fst (instructions huff io t))"
proof (induction huff io t rule: instructions.induct)
  case (2 huff b io t)
  show ?case
  proof (cases "\<exists>t' r. instruction_step huff b io t = Inr (Some (t', r))")
    case True
    then obtain t' r where s: "instruction_step huff b io t = Inr (Some (t', r))" by blast
    show ?thesis using "2.IH" [OF s refl refl] table_ok_step [OF s "2.prems"] s by simp
  next
    case False
    then show ?thesis using "2.prems" by (auto split: sum.splits option.splits)
  qed
qed simp

lemma add_counts: "capacity (dyntab_add k v t) = capacity t" "insert_count (dyntab_add k v t) = insert_count t + 1"
  by (simp_all add: dyntab_add_def evict_counts Let_def)

lemma table_entries_bound: "table_ok t \<Longrightarrow> 32 * length (entries t) \<le> capacity t"
proof -
  assume t: "table_ok t"
  have "32 * length es \<le> sum_list (map e_size es)" if "\<forall>e\<in>set es. e_size e = length (e_name e) + length (e_value e) + 32" for es
    using that by (induction es) auto
  from this [of "entries t"] show ?thesis using t by (simp add: table_ok_def)
qed

lemma evict_drops:
  "\<exists>d\<le>length (entries t). entries (evict_if_needed t) = drop d (entries t) \<and> dropped_count (evict_if_needed t) = dropped_count t + d"
proof (induction t rule: evict_if_needed.induct)
  case (1 t)
  show ?case
  proof (cases "capacity t < tsize t \<and> entries t \<noteq> []")
    case True
    then obtain e es where e: "entries t = e # es" by (cases "entries t") auto
    let ?t = "t\<lparr>entries := tl (entries t), tsize := tsize t - e_size (hd (entries t)), dropped_count := dropped_count t + 1\<rparr>"
    obtain d where "d \<le> length (entries ?t)" "entries (evict_if_needed ?t) = drop d (entries ?t)"
      "dropped_count (evict_if_needed ?t) = dropped_count ?t + d" using "1.IH" [OF True] by blast
    moreover have "evict_if_needed t = evict_if_needed ?t" using True by (subst evict_if_needed.simps) simp
    ultimately show ?thesis using e by (intro exI [of _ "Suc d"]) simp
  next
    case False
    then have "evict_if_needed t = t" by (subst evict_if_needed.simps) (rule if_not_P)
    then show ?thesis by (intro exI [of _ 0]) simp
  qed
qed

lemma table_get: "table_ok t \<Longrightarrow> dropped_count t \<le> i \<Longrightarrow> i < insert_count t \<Longrightarrow>
    get_by_absolute t i = Some (e_name (entries t ! (i - dropped_count t)), e_value (entries t ! (i - dropped_count t)))"
  by (auto simp: get_by_absolute_def table_ok_def Let_def)

lemma table_get_None: "i < dropped_count t \<or> insert_count t \<le> i \<Longrightarrow> get_by_absolute t i = None"
  by (auto simp: get_by_absolute_def)

lemma add_get:
  assumes "table_ok t" and "dropped_count (dyntab_add k v t) \<le> i"
  shows "get_by_absolute (dyntab_add k v t) i = (if i = insert_count t then Some (k, v) else get_by_absolute t i)"
proof -
  define u where "u = t\<lparr>entries := entries t @ [\<lparr>e_name = k, e_value = v, e_size = length k + length v + 32\<rparr>],
           tsize := tsize t + (length k + length v + 32), insert_count := insert_count t + 1\<rparr>"
  have a: "dyntab_add k v t = evict_if_needed u" by (simp add: dyntab_add_def u_def Let_def)
  obtain d where d: "entries (evict_if_needed u) = drop d (entries u)" "dropped_count (evict_if_needed u) = dropped_count u + d"
    "d \<le> length (entries u)" using evict_drops by blast
  have ic: "insert_count t = dropped_count t + length (entries t)" using assms(1) by (simp add: table_ok_def)
  show ?thesis
  proof (cases "i < insert_count t + 1")
    case False
    then show ?thesis using table_get_None [of i "dyntab_add k v t"] table_get_None [of i t] by (simp add: add_counts)
  next
    case True
    have j: "i - dropped_count t = (i - dropped_count (dyntab_add k v t)) + d" "d + (i - dropped_count (dyntab_add k v t)) < length (entries u)"
      using assms(2) d(2) True ic by (auto simp: a u_def)
    have "i < insert_count (dyntab_add k v t)" using True by (simp add: add_counts)
    from table_get [OF table_ok_add [OF assms(1)] assms(2) this]
    have "get_by_absolute (dyntab_add k v t) i = Some (e_name (entries u ! (i - dropped_count t)), e_value (entries u ! (i - dropped_count t)))"
      using j d by (simp add: a add.commute)
    moreover have "dropped_count t \<le> i" using assms(2) d(2) by (simp add: a u_def)
    ultimately show ?thesis using True ic table_get [OF assms(1), of i] by (auto simp: u_def nth_append)
  qed
qed

section \<open>Instructions and field lines are read back\<close>

lemma index_where_Some: "index_where P xs = Some i \<Longrightarrow> i < length xs \<and> P (xs ! i)"
  by (induction xs arbitrary: i) (auto split: if_splits)

lemma static_index: "find_static_exact k v = Some i \<Longrightarrow> static_get i = Some (k, v) \<and> i < 99"
  "find_static_name_only k = Some i \<Longrightarrow> (\<exists>w. static_get i = Some (k, w)) \<and> i < 99"
proof -
  have l: "length STATIC_TABLE = 99" by (simp add: STATIC_TABLE_def)
  show "static_get i = Some (k, v) \<and> i < 99" if a: "find_static_exact k v = Some i"
    using index_where_Some [OF a [unfolded find_static_exact_def]] l by (simp add: static_get_def prod_eq_iff)
  show "(\<exists>w. static_get i = Some (k, w)) \<and> i < 99" if a: "find_static_name_only k = Some i"
    using index_where_Some [OF a [unfolded find_static_name_only_def]] l
    by (intro conjI exI [of _ "snd (STATIC_TABLE ! i)"]) (simp_all add: static_get_def prod_eq_iff)
qed

text \<open>A small index behind flags: the first byte, and the index that is read.\<close>

lemma index_Cons:
  assumes "1 \<le> n" "n \<le> 8" "take_bit n fb = (0 :: byte)" and "i < 2 ^ 31"
  obtains b u where "QInt_encode (of_nat i) n fb = b # u" and "drop_bit n b = drop_bit n fb"
    and "\<And>r. decode_index (u @ r) b n = Inr (i, r)"
proof -
  obtain b u where bu: "QInt_encode (of_nat i) n fb = b # u" "drop_bit n b = drop_bit n fb"
      "\<And>r. QInt_decode (u @ r) b n = Inr (of_nat i, r)"
    using QInt_encode_Cons [OF assms(1-3), of "of_nat i"] by metis
  have "unat (of_nat i :: u64) = i" using assms(4) by (intro unat_of_nat_64) simp
  then have "decode_index (u @ r) b n = Inr (i, r)" for r using bu(3) [of r] assms(4) by (simp add: decode_index_def)
  then show ?thesis using that bu(1,2) by blast
qed

lemma dynamic_reference:
  assumes "table_ok t" and "i < length (entries t)"
  shows "get_by_relative t (insert_count t) (insert_count t - 1 - (dropped_count t + i)) = Some (e_name (entries t ! i), e_value (entries t ! i))"
    and "insert_count t - 1 - (dropped_count t + i) < length (entries t)"
proof -
  have ic: "insert_count t = dropped_count t + length (entries t)" using assms(1) by (simp add: table_ok_def)
  then have "insert_count t - 1 - (insert_count t - 1 - (dropped_count t + i)) = dropped_count t + i" using assms(2) by linarith
  then show "get_by_relative t (insert_count t) (insert_count t - 1 - (dropped_count t + i)) = Some (e_name (entries t ! i), e_value (entries t ! i))"
    using table_get [OF assms(1), of "dropped_count t + i"] ic assms(2) by (simp add: get_by_relative_def)
  show "insert_count t - 1 - (dropped_count t + i) < length (entries t)" using ic assms(2) by linarith
qed

lemma field_line_ok:
  assumes "table_ok t" and "length (entries t) < 2 ^ 31" and "length (fst kv) < 2 ^ 31" and "length (snd kv) < 2 ^ 31"
  shows "line_ok huff t (insert_count t) (field_line t kv) kv"
proof -
  obtain k v where kv: "kv = (k, v)" by fastforce
  have len: "length k < 2 ^ 64" "length v < 2 ^ 64" using assms(3,4) kv by simp_all
  have vs: "decode_string huff (encode_string v 7 0 @ r) 7 None = Inr (v, r)" for r
    by (rule decode_encode_string) (use len in auto)
  consider (se) i where "find_static_exact k v = Some i"
    | (de) i where "find_static_exact k v = None" "find_dynamic_exact t k v = Some i"
    | (sn) i where "find_static_exact k v = None" "find_dynamic_exact t k v = None" "find_static_name_only k = Some i"
    | (lit) "find_static_exact k v = None" "find_dynamic_exact t k v = None" "find_static_name_only k = None"
    by (metis option.exhaust)
  then show ?thesis
  proof cases
    case se
    have i: "static_get i = Some (k, v)" "i < 2 ^ 31" using static_index(1) [OF se] by auto
    obtain b u where bu: "QInt_encode (of_nat i) 6 0xC0 = b # u" "drop_bit 6 b = drop_bit 6 (0xC0 :: byte)"
      "\<And>r. decode_index (u @ r) b 6 = Inr (i, r)" by (rule index_Cons [of 6 "0xC0 :: byte" i]) (use i in auto)
    have f: "b AND 0x80 = 0x80" "b AND 0x40 = 0x40" using flag_bits [OF bu(2), of "0x80"] flag_bits [OF bu(2), of "0x40"] by simp_all
    show ?thesis unfolding line_ok_def using se bu f i by (auto simp: kv field_line_def decode_field_def lookup_entry_def)
  next
    case de
    have e: "i < length (entries t)" "e_name (entries t ! i) = k" "e_value (entries t ! i) = v"
      using index_where_Some [OF de(2) [unfolded find_dynamic_exact_def]] by auto
    note d = dynamic_reference [OF assms(1) e(1)]
    let ?rel = "insert_count t - 1 - (dropped_count t + i)"
    obtain b u where bu: "QInt_encode (of_nat ?rel) 6 0x80 = b # u" "drop_bit 6 b = drop_bit 6 (0x80 :: byte)"
      "\<And>r. decode_index (u @ r) b 6 = Inr (?rel, r)" by (rule index_Cons [of 6 "0x80 :: byte" ?rel]) (use d(2) assms(2) in auto)
    have f: "b AND 0x80 = 0x80" "b AND 0x40 = 0" using flag_bits [OF bu(2), of "0x80"] flag_bits [OF bu(2), of "0x40"] by simp_all
    show ?thesis unfolding line_ok_def using de bu f d e
      by (auto simp: kv field_line_def decode_field_def lookup_entry_def Let_def)
  next
    case sn
    obtain w where i: "static_get i = Some (k, w)" "i < 2 ^ 31" using static_index(2) [OF sn(3)] by auto
    obtain b u where bu: "QInt_encode (of_nat i) 4 0x50 = b # u" "drop_bit 4 b = drop_bit 4 (0x50 :: byte)"
      "\<And>r. decode_index (u @ r) b 4 = Inr (i, r)" by (rule index_Cons [of 4 "0x50 :: byte" i]) (use i in auto)
    have f: "b AND 0x80 = 0" "b AND 0xC0 = 0x40" "b AND 0x10 = 0x10"
      using flag_bits [OF bu(2), of "0x80"] flag_bits [OF bu(2), of "0xC0"] flag_bits [OF bu(2), of "0x10"] by simp_all
    show ?thesis unfolding line_ok_def using sn bu f i vs
      by (auto simp: kv field_line_def decode_field_def lookup_entry_def Let_def)
  next
    case lit
    then have "field_line t kv = literal_line kv" by (simp add: kv field_line_def literal_line_def)
    then show ?thesis using literal_line_ok [of kv huff t "insert_count t"] len kv by simp
  qed
qed

lemma not_capacity: "b AND 0x80 = 0x80 \<Longrightarrow> b AND 0xE0 \<noteq> (0x20 :: byte)"
proof
  assume a: "b AND 0x80 = 0x80" "b AND 0xE0 = 0x20"
  have "(b AND 0xE0) AND 0x80 = b AND 0x80" by (simp add: and.assoc)
  then show False using a by simp
qed

lemma insert_instruction_step:
  assumes "table_ok t" and "length (entries t) < 2 ^ 31" and "length k < 2 ^ 31" and "length v < 2 ^ 31"
  shows "\<exists>b u. insert_instruction t k v = b # u \<and> (\<forall>r. instruction_step huff b (u @ r) t = Inr (Some (dyntab_add k v t, r)))"
proof -
  have len: "length k < 2 ^ 64" "length v < 2 ^ 64" using assms(3,4) by simp_all
  have vs: "decode_string huff (encode_string v 7 0 @ r) 7 None = Inr (v, r)" for r
    by (rule decode_encode_string) (use len in auto)
  consider (sn) i d where "find_name_match t k = (Some i, d)"
    | (dn) i where "find_name_match t k = (None, Some i)" | (no) "find_name_match t k = (None, None)"
    by (metis option.exhaust surj_pair)
  then show ?thesis
  proof cases
    case sn
    obtain w where i: "static_get i = Some (k, w)" "i < 2 ^ 31" using static_index(2) [of k i] sn by (auto simp: find_name_match_def)
    obtain b u where bu: "QInt_encode (of_nat i) 6 0xC0 = b # u" "drop_bit 6 b = drop_bit 6 (0xC0 :: byte)"
      "\<And>r. decode_index (u @ r) b 6 = Inr (i, r)" by (rule index_Cons [of 6 "0xC0 :: byte" i]) (use i in auto)
    have f: "b AND 0x80 = 0x80" "b AND 0x40 = 0x40" using flag_bits [OF bu(2), of "0x80"] flag_bits [OF bu(2), of "0x40"] by simp_all
    show ?thesis using sn bu(1,3) f not_capacity [OF f(1)] i vs
      by (auto simp: insert_instruction_def instruction_step_def Let_def)
  next
    case dn
    have e: "i < length (entries t)" "e_name (entries t ! i) = k"
      using index_where_Some [of "\<lambda>e. e_name e = k" "entries t" i] dn by (auto simp: find_name_match_def)
    note d = dynamic_reference [OF assms(1) e(1)]
    let ?rel = "insert_count t - 1 - (dropped_count t + i)"
    obtain b u where bu: "QInt_encode (of_nat ?rel) 6 0x80 = b # u" "drop_bit 6 b = drop_bit 6 (0x80 :: byte)"
      "\<And>r. decode_index (u @ r) b 6 = Inr (?rel, r)" by (rule index_Cons [of 6 "0x80 :: byte" ?rel]) (use d(2) assms(2) in auto)
    have f: "b AND 0x80 = 0x80" "b AND 0x40 = 0" using flag_bits [OF bu(2), of "0x80"] flag_bits [OF bu(2), of "0x40"] by simp_all
    show ?thesis using dn bu(1,3) f not_capacity [OF f(1)] d e vs
      by (auto simp: insert_instruction_def instruction_step_def Let_def)
  next
    case no
    obtain b u where bu: "encode_string k 5 0x40 = b # u" "drop_bit 5 b = drop_bit 5 (0x40 :: byte)"
      "\<And>r. decode_string huff (u @ r) 5 (Some b) = Inr (k, r)"
      by (rule encode_string_Cons [of 5 "0x40 :: byte" k huff]) (use len in \<open>auto simp: bit_numeral_rec\<close>)
    have f: "b AND 0x80 = 0" "b AND 0xC0 = 0x40" "b AND 0xE0 = 0x40"
      using flag_bits [OF bu(2), of "0x80"] flag_bits [OF bu(2), of "0xC0"] flag_bits [OF bu(2), of "0xE0"] by simp_all
    show ?thesis using no bu(1) f bu(3) vs
      by (auto simp: insert_instruction_def instruction_step_def)
  qed
qed

lemma insert_header_sync:
  assumes "table_ok (enc_table enc)" and "capacity (enc_table enc) < 2 ^ 36" and "length (fst kv) < 2 ^ 31" and "length (snd kv) < 2 ^ 31"
  shows "\<exists>insts. enc_stream (insert_header enc kv) = enc_stream enc @ insts \<and>
      (\<forall>r. instructions huff (insts @ r) (enc_table enc) = instructions huff r (enc_table (insert_header enc kv))) \<and>
      table_ok (enc_table (insert_header enc kv)) \<and> capacity (enc_table (insert_header enc kv)) = capacity (enc_table enc) \<and>
      insert_count (enc_table (insert_header enc kv)) \<le> insert_count (enc_table enc) + 1"
proof -
  obtain k v where kv: "kv = (k, v)" by fastforce
  have l: "length (entries (enc_table enc)) < 2 ^ 31" using table_entries_bound [OF assms(1)] assms(2) by simp
  obtain b u where bu: "insert_instruction (enc_table enc) k v = b # u"
    "\<And>r. instruction_step huff b (u @ r) (enc_table enc) = Inr (Some (dyntab_add k v (enc_table enc), r))"
    using insert_instruction_step [OF assms(1) l, of k v huff] assms(3,4) unfolding kv fst_conv snd_conv by blast
  show ?thesis
  proof (cases "insert_header enc kv = enc")
    case True
    then show ?thesis using assms(1) by (intro exI [of _ "[]"]) simp
  next
    case False
    then have "insert_header enc kv = \<lparr>enc_table = dyntab_add k v (enc_table enc), enc_stream = enc_stream enc @ b # u\<rparr>"
      by (auto simp: insert_header_def kv bu(1) split: if_splits)
    then show ?thesis using bu(2) assms(1) by (intro exI [of _ "b # u"]) (simp add: add_counts table_ok_add)
  qed
qed

lemma insert_headers_sync:
  assumes "table_ok (enc_table enc)" and "capacity (enc_table enc) < 2 ^ 36" and "\<forall>kv\<in>set hs. length (fst kv) < 2 ^ 31 \<and> length (snd kv) < 2 ^ 31"
  shows "\<exists>insts. enc_stream (foldl insert_header enc hs) = enc_stream enc @ insts \<and>
      (\<forall>r. instructions huff (insts @ r) (enc_table enc) = instructions huff r (enc_table (foldl insert_header enc hs))) \<and>
      table_ok (enc_table (foldl insert_header enc hs)) \<and> capacity (enc_table (foldl insert_header enc hs)) = capacity (enc_table enc) \<and>
      insert_count (enc_table (foldl insert_header enc hs)) \<le> insert_count (enc_table enc) + length hs"
  using assms
proof (induction hs arbitrary: enc)
  case Nil
  then show ?case by (intro exI [of _ "[]"]) simp
next
  case (Cons kv hs)
  let ?e = "insert_header enc kv"
  obtain i1 where 1: "enc_stream ?e = enc_stream enc @ i1" "\<And>r. instructions huff (i1 @ r) (enc_table enc) = instructions huff r (enc_table ?e)"
    "table_ok (enc_table ?e)" "capacity (enc_table ?e) = capacity (enc_table enc)" "insert_count (enc_table ?e) \<le> insert_count (enc_table enc) + 1"
    using insert_header_sync [OF Cons.prems(1,2), of kv huff] Cons.prems(3) by auto
  obtain i2 where 2: "enc_stream (foldl insert_header ?e hs) = enc_stream ?e @ i2"
    "\<And>r. instructions huff (i2 @ r) (enc_table ?e) = instructions huff r (enc_table (foldl insert_header ?e hs))"
    "table_ok (enc_table (foldl insert_header ?e hs))" "capacity (enc_table (foldl insert_header ?e hs)) = capacity (enc_table ?e)"
    "insert_count (enc_table (foldl insert_header ?e hs)) \<le> insert_count (enc_table ?e) + length hs"
    using Cons.IH [OF 1(3)] 1(4) Cons.prems(2,3) by auto
  show ?case using 1 2 by (intro exI [of _ "i1 @ i2"]) simp
qed

lemma required_insert_count_final:
  assumes "capacity t = 0 \<or> capacity t div 32 = 128" and "insert_count t < 2 ^ 63" and "ic = insert_count t"
  shows "required_insert_count t (if ic = 0 then 0 else ic mod 256 + 1) = Inr ic"
proof (cases "ic = 0")
  case False
  have m: "(if 0 < capacity t then capacity t div 32 else 128) = 128" using assms(1) by auto
  obtain q m' where ic: "insert_count t = 256 * q + m'" "m' < 256"
    using div_mod_decomp [of "insert_count t" 256] mod_less_divisor [of 256 "insert_count t"] by (metis mult.commute zero_less_numeral)
  have w: "(256 * q + m' + 128) div 256 = (if m' < 128 then q else q + 1)" using ic(2) by auto
  show ?thesis
    using False assms(2,3) ic w unfolding required_insert_count_def m Let_def by (auto split: if_splits)
qed (simp add: required_insert_count_def)

lemma decode_prefix:
  assumes "capacity t = 0 \<or> capacity t div 32 = 128" and "insert_count t < 2 ^ 63"
  shows "Decoder_decode huff t (QInt_encode (of_nat (if insert_count t = 0 then 0 else insert_count t mod 256 + 1)) 8 0 @ [0x00] @ flines) =
    decode_fields huff t (insert_count t) flines [] False []"
proof -
  let ?ric = "if insert_count t = 0 then 0 else insert_count t mod 256 + 1"
  obtain b u where bu: "QInt_encode (of_nat ?ric) 8 0 = b # u" "\<And>r. QInt_decode (u @ r) b 8 = Inr (of_nat ?ric, r)"
    using QInt_encode_Cons [of 8 "0 :: byte" "of_nat ?ric"] by auto
  have "unat (of_nat ?ric :: u64) = ?ric"
    using mod_less_divisor [of 256 "insert_count t"] by (intro unat_of_nat_64) (auto simp del: mod_less_divisor intro: order.strict_trans)
  then show ?thesis
    using bu(2) [of "0 # flines"] required_insert_count_final [OF assms refl] assms(2)
    unfolding Decoder_decode_def bu(1)
    by (simp add: QInt_decode_def [of flines] mask_eq_decr_exp header_base_def Let_def)
qed

lemma Encoder_encode_sync:
  assumes "table_ok (enc_table enc)" and "capacity (enc_table enc) = 0 \<or> capacity (enc_table enc) div 32 = 128"
    and "insert_count (enc_table enc) + length hs < 2 ^ 63" and "\<forall>kv\<in>set hs. length (fst kv) < 2 ^ 31 \<and> length (snd kv) < 2 ^ 31"
    and "Encoder_encode hs enc = (block, enc')"
  shows "\<exists>insts. enc_stream enc' = enc_stream enc @ insts \<and> instructions huff insts (enc_table enc) = (enc_table enc', None)"
    and "Decoder_decode huff (enc_table enc') block = validate_fields hs [] False []"
    and "table_ok (enc_table enc')" and "capacity (enc_table enc') = capacity (enc_table enc)"
proof -
  have c: "capacity (enc_table enc) < 2 ^ 36" using assms(2) by auto
  have e: "enc' = foldl insert_header enc hs" using assms(5) by (simp add: Encoder_encode_def Let_def)
  obtain insts where i: "enc_stream enc' = enc_stream enc @ insts"
      "\<And>r. instructions huff (insts @ r) (enc_table enc) = instructions huff r (enc_table enc')"
    and t: "table_ok (enc_table enc')" "capacity (enc_table enc') = capacity (enc_table enc)"
      "insert_count (enc_table enc') \<le> insert_count (enc_table enc) + length hs"
    using insert_headers_sync [OF assms(1) c assms(4), of huff] unfolding e [symmetric] by blast
  from i(2) [of "[]"] show "\<exists>insts. enc_stream enc' = enc_stream enc @ insts \<and> instructions huff insts (enc_table enc) = (enc_table enc', None)"
    using i(1) by auto
  show "table_ok (enc_table enc')" "capacity (enc_table enc') = capacity (enc_table enc)" by (rule t)+
  let ?t = "enc_table enc'"
  have l: "length (entries ?t) < 2 ^ 31" using table_entries_bound [OF t(1)] t(2) c by simp
  have lines: "list_all2 (line_ok huff ?t (insert_count ?t)) (map (field_line ?t) hs) hs"
    using assms(4) field_line_ok [OF t(1) l] by (auto simp: list_all2_conv_all_nth)
  have b: "block = QInt_encode (of_nat (if insert_count ?t = 0 then 0 else insert_count ?t mod 256 + 1)) 8 0 @ [0x00] @
      concat (map (field_line ?t) hs)"
    using assms(5) by (auto simp: Encoder_encode_def Let_def)
  show "Decoder_decode huff ?t block = validate_fields hs [] False []"
    unfolding b using decode_prefix [of ?t huff "concat (map (field_line ?t) hs)"] decode_fields_lines [OF lines] assms(2,3) t(2,3) by simp
qed

section \<open>Writing a response\<close>

text \<open>
  \<open>Connection#write_response\<close>: the bytes on the request stream, and what \<open>flush_encoder_stream\<close> puts
  on the encoder stream, which is open.
\<close>

definition write_response :: "encoder \<Rightarrow> headers \<Rightarrow> byte list \<Rightarrow> cr_error + (byte list \<times> byte list \<times> encoder)" where
  "write_response enc hdrs body =
     (case Encoder_encode hdrs enc of (payload, enc') \<Rightarrow>
        rbind (VarInt_write 0x01) (\<lambda>typ.
        rbind (VarInt_write (of_nat (length payload))) (\<lambda>len.
        rbind (if body = [] then Inr []
               else rbind (VarInt_write 0x00) (\<lambda>typ.
                    rbind (VarInt_write (of_nat (length body))) (\<lambda>len. Inr (typ @ len @ body)))) (\<lambda>data.
          Inr (typ @ len @ payload @ data, enc_stream enc', enc'\<lparr>enc_stream := []\<rparr>)))))"

lemma write_response_eq:
  assumes "Encoder_encode hdrs enc = (payload, enc')" and "length payload < 2 ^ 62" and "length body < 2 ^ 62"
  shows "write_response enc hdrs body =
    Inr (h3Frame 0x01 payload @ (if body = [] then [] else h3Frame 0x00 body), enc_stream enc', enc'\<lparr>enc_stream := []\<rparr>)"
proof -
  have v: "VarInt_write (of_nat (length p)) = Inr (writeVarInt (of_nat (length p)))" if "length p < 2 ^ 62" for p :: "byte list"
    by (rule VarInt_write_eq) (rule of_nat_less_62 [OF that])
  have s: "VarInt_write 0x01 = Inr (writeVarInt 0x01)" "VarInt_write 0x00 = Inr (writeVarInt 0x00)" by (rule VarInt_write_eq, simp)+
  show ?thesis
    unfolding write_response_def assms(1) prod.case h3Frame_tlv tlv_enc_def
    using v [OF assms(2)] v [OF assms(3)] s by simp
qed

lemma capacity_instruction: "instructions huff (QInt_encode c 5 0x20) t = (set_capacity (unat c) t, None)"
proof -
  obtain b u where bu: "QInt_encode c 5 0x20 = b # u" "drop_bit 5 b = drop_bit 5 (0x20 :: byte)" "\<And>r. QInt_decode (u @ r) b 5 = Inr (c, r)"
    using QInt_encode_Cons [of 5 "0x20 :: byte" c] by auto
  have "b AND 0xE0 = 0x20" using flag_bits [OF bu(2), of "0xE0"] by simp
  then show ?thesis using bu(1) bu(3) [of "[]"] by (simp add: instruction_step_def)
qed

section \<open>Properties\<close>

text \<open>
  C39. The dynamic table of QPACK stays within its capacity and keeps its addresses: every sequence of
  bytes on the encoder stream, whether it is well formed or ends in an exception, leads from a table whose size is
  the sum of its entries and at most the capacity, and whose counters span its entries, to another such
  table, with at most one entry per 32 bytes of capacity; an absolute index is found exactly when it is between the
  counters, and an insertion changes no entry that stays, and is found under the next index.
\<close>

theorem dynamic_table_stable:
  assumes "table_ok t"
  shows "table_ok (fst (instructions huff io t)) \<and>
    32 * length (entries (fst (instructions huff io t))) \<le> capacity (fst (instructions huff io t)) \<and>
    (\<forall>i. get_by_absolute t i \<noteq> None \<longleftrightarrow> dropped_count t \<le> i \<and> i < insert_count t) \<and>
    (\<forall>i k v. dropped_count (dyntab_add k v t) \<le> i \<longrightarrow>
       get_by_absolute (dyntab_add k v t) i = (if i = insert_count t then Some (k, v) else get_by_absolute t i))"
proof -
  note t = table_ok_instructions [OF assms, of huff io]
  have "get_by_absolute t i \<noteq> None \<longleftrightarrow> dropped_count t \<le> i \<and> i < insert_count t" for i
    using table_get [OF assms, of i] table_get_None [of i t] by (cases "dropped_count t \<le> i \<and> i < insert_count t") auto
  then show ?thesis using t table_entries_bound [OF t] add_get [OF assms] by blast
qed

theorem dynamic_table_stable_witness:
  "table_ok (fst (instructions (\<lambda>_. Inl EOFError) [0x3F, 0x45, 0xC0, 0x01, 0x61, 0x80] dyntab_new))"
  using dynamic_table_stable [OF table_ok_new, of "\<lambda>_. Inl EOFError"] by blast

text \<open>
  C37. QPACK encoder and decoder stay in step: with a table of the default size (or none), a header
  list that the encoder turns into instructions and a block is read back by a decoder with the same table, which
  after the instructions has the encoder's table and decodes the block to the header list, subject to the
  validation of pseudo-headers; a change of capacity is followed as well.
\<close>

theorem qpack_encode_decode:
  assumes "table_ok (enc_table enc)" and "capacity (enc_table enc) = 0 \<or> capacity (enc_table enc) div 32 = 128"
    and "insert_count (enc_table enc) + length hs < 2 ^ 63" and "\<forall>kv\<in>set hs. length (fst kv) < 2 ^ 31 \<and> length (snd kv) < 2 ^ 31"
    and "enc_stream enc = []" and "Encoder_encode hs enc = (block, enc')"
  shows "instructions huff (enc_stream enc') (enc_table enc) = (enc_table enc', None) \<and>
    Decoder_decode huff (enc_table enc') block = validate_fields hs [] False [] \<and> table_ok (enc_table enc') \<and>
    instructions huff (enc_stream (Encoder_set_capacity c enc)) (enc_table enc) = (enc_table (Encoder_set_capacity c enc), None)"
proof -
  note e = Encoder_encode_sync [OF assms(1-4,6)]
  show ?thesis using e(1) [of huff] e(2,3) assms(5) by (simp add: Encoder_set_capacity_def capacity_instruction)
qed

definition demo_encoder :: encoder where
  "demo_encoder = \<lparr>enc_table = set_capacity 4096 dyntab_new, enc_stream = []\<rparr>"

theorem qpack_encode_decode_witness:
  "Decoder_decode (\<lambda>_. Inl EOFError) (enc_table (snd (Encoder_encode [('':status'', ''200''), (''x-a'', ''b''), (''x-a-c'', ''d'')] demo_encoder)))
     (fst (Encoder_encode [('':status'', ''200''), (''x-a'', ''b''), (''x-a-c'', ''d'')] demo_encoder))
   = Inr [('':status'', ''200''), (''x-a'', ''b''), (''x-a-c'', ''d'')]"
proof -
  let ?hs = "[('':status'', ''200''), (''x-a'', ''b''), (''x-a-c'', ''d'')]"
  have c: "capacity (enc_table demo_encoder) = 4096" "insert_count (enc_table demo_encoder) = 0" "enc_stream demo_encoder = []"
    by (simp_all add: demo_encoder_def set_capacity_def evict_counts dyntab_new_def)
  have t: "table_ok (enc_table demo_encoder)" by (simp add: demo_encoder_def table_ok_set_capacity table_ok_new)
  have e: "Encoder_encode ?hs demo_encoder = (fst (Encoder_encode ?hs demo_encoder), snd (Encoder_encode ?hs demo_encoder))" by simp
  have "validate_fields ?hs [] False [] = Inr ?hs" by (simp add: is_pseudo_def)
  then show ?thesis
    using qpack_encode_decode [OF t _ _ _ c(3) e, of "\<lambda>_. Inl EOFError"] c by simp
qed

end
