(* ===== verification/Response_Interop.thy ===== *)
theory Response_Interop
  imports Cr_Encoder E2E_Interop
begin

text \<open>
  From the response of a handler to the peer: \<open>Response#to_h3_headers\<close> through the QPACK encoder and
  \<open>write_response\<close>, read back by the Crystal frame decoder and by the frame reader of the Go tests.
\<close>


text \<open>Field names a handler may set: lower-case regular names, each once (the headers are a \<open>Hash\<close>).\<close>

definition plain_response :: "cr_response \<Rightarrow> bool" where
  "plain_response r =
     (distinct (map fst (resp_headers r)) \<and> list_all (\<lambda>(k, v). k \<noteq> [] \<and> \<not> is_pseudo k) (resp_headers r))"

lemma updates_fresh:
  "distinct (map fst (acc @ hs)) \<Longrightarrow> foldl (\<lambda>h (k, v). AList.update k v h) acc hs = acc @ hs"
proof (induction hs arbitrary: acc)
  case (Cons x hs)
  then show ?case using Cons.IH [of "acc @ [x]"] by (cases x) (simp add: update_new)
qed simp

lemma update_keys: "list_all (\<lambda>(k, v). P k) hs \<Longrightarrow> P k \<Longrightarrow> list_all (\<lambda>(k, v). P k) (AList.update k v hs)"
  by (induction hs) auto

lemma response_fields_valid:
  assumes "plain_response r"
  shows "validate_fields (to_h3_headers r) [] False [] = Inr (to_h3_headers r)"
proof -
  let ?s = "('':status'', show_int (resp_status r))"
  define rest where "rest = (if 0 < length (resp_body r)
      then AList.update ''content-length'' (show_nat (length (resp_body r))) (resp_headers r) else resp_headers r)"
  have n: "'':status'' \<notin> fst ` set (resp_headers r)"
    using assms by (fastforce simp: plain_response_def list_all_iff is_pseudo_def)
  have f: "foldl (\<lambda>h (k, v). AList.update k v h) [?s] (resp_headers r) = ?s # resp_headers r"
    using updates_fresh [of "[?s]" "resp_headers r"] assms n by (simp add: plain_response_def)
  have h: "to_h3_headers r = ?s # rest" unfolding to_h3_headers_def Let_def f rest_def by simp
  have rest: "list_all (\<lambda>(k, v). k \<noteq> [] \<and> \<not> is_pseudo k) rest"
    using assms update_keys [of "\<lambda>k. k \<noteq> [] \<and> \<not> is_pseudo k" "resp_headers r"]
    by (simp add: plain_response_def rest_def is_pseudo_def)
  have "distinct (map fst ([?s] @ rest))" using to_h3_headers_lookup(3) [of r] h by simp
  from validate_regular [OF rest this] show ?thesis by (simp add: h is_pseudo_def)
qed

lemma length_qint_tail_bits: "unat v < 128 ^ Suc n \<Longrightarrow> length (qint_tail v) \<le> Suc n"
proof (induction n arbitrary: v)
  case 0
  then have "\<not> 128 \<le> v" by (simp add: word_le_nat_alt)
  then show ?case by (subst qint_tail.simps) simp
next
  case (Suc n)
  have "unat (v div 128) < 128 ^ Suc n" using Suc.prems by (simp add: unat_div div_less_iff_less_mult)
  then show ?case using Suc.IH [of "v div 128"] by (subst qint_tail.simps) simp
qed

lemma length_QInt: "length (QInt_encode v n fl) \<le> 11"
proof -
  have "length (qint_tail w) \<le> Suc 9" for w :: u64
    by (rule length_qint_tail_bits) (rule less_le_trans [OF unsigned_less], simp)
  then show ?thesis by (simp add: QInt_encode_mask)
qed

lemma length_field_line: "length (field_line t (k, v)) \<le> 22 + length k + length v"
proof -
  have s: "length (encode_string x n fl) \<le> 11 + length x" for x n fl using length_QInt by (simp add: encode_string_def)
  have q: "length (QInt_encode x n fl) \<le> 22 + length k + length v"
    "length (QInt_encode x n fl) + length (encode_string v 7 0) \<le> 22 + length k + length v"
    "length (encode_string k 3 0x20) + length (encode_string v 7 0) \<le> 22 + length k + length v" for x n fl
    using length_QInt [of x n fl] s [of k 3 "0x20"] s [of v 7 0] by linarith+
  show ?thesis by (auto simp: field_line_def Let_def q split: option.splits)
qed

definition fields_size :: "headers \<Rightarrow> nat" where
  "fields_size hs = sum_list (map (\<lambda>(k, v). 22 + length k + length v) hs)"

lemma length_block: "Encoder_encode hs enc = (payload, enc') \<Longrightarrow> length payload \<le> 12 + fields_size hs"
proof -
  assume a: "Encoder_encode hs enc = (payload, enc')"
  have c: "length (concat (map (field_line t) hs)) \<le> fields_size hs" for t
  proof (induction hs)
    case (Cons x hs)
    then show ?case using length_field_line [of t "fst x" "snd x"] by (simp add: fields_size_def case_prod_beta)
  qed (simp add: fields_size_def)
  obtain x t where "payload = QInt_encode x 8 0 @ [0x00] @ concat (map (field_line t) hs)"
    using a by (auto simp: Encoder_encode_def Let_def)
  then have "length payload = length (QInt_encode x 8 0) + 1 + length (concat (map (field_line t) hs))"
    by (simp del: length_concat)
  then show ?thesis using c [of t] length_QInt [of x 8 0] by linarith
qed

lemma fields_size_bound: "kv \<in> set hs \<Longrightarrow> length (fst kv) + length (snd kv) \<le> fields_size hs"
  by (induction hs) (auto simp: fields_size_def)

lemma no_capacity: "capacity (enc_table enc) = 0 \<Longrightarrow> foldl insert_header enc hs = enc"
  by (induction hs) (auto simp: insert_header_def)

section \<open>Where a response is not read back\<close>

text \<open>
  \<open>write_response\<close> puts a body of any length into one DATA frame, and the reader of the library itself
  refuses it beyond 16 MiB.
\<close>

lemma large_body_rejected:
  assumes "MAX_FRAME_PAYLOAD < length body" and "length body < 2 ^ 62"
  shows "Frame_decode huff t (h3Frame 0x00 body @ r) =
     Inl (IOError (''H3 frame payload too large ('' @ show_nat (length body) @ '' bytes)''))"
  unfolding Frame_decode_def h3Frame_tlv tlv_enc_def append_assoc
  using VarInt_decode_write [OF of_nat_less_62 [OF assms(2)]] unat_of_nat_62 [OF assms(2)] assms(1)
  by (simp add: VarInt_decode_write)

section \<open>Property\<close>

text \<open>
  C38. What the server answers is what arrives, as long as the dynamic table is unused or of the default
  size and the fields and the body stay within a frame. For an encoder whose table has capacity 0 or
  one that makes 128 entries (4096 to 4127 bytes), and a response with regular field names whose fields
  and whose body take no more than the 16 MiB of \<open>MAX_FRAME_PAYLOAD\<close> each, the HEADERS and DATA frames that
  \<open>write_response\<close> puts on the request stream are read back to exactly its status, fields and body by a
  decoder in step with the encoder, and by the Go frame reader to the same two payloads. Neither
  bound can be dropped: see \<open>large_body_rejected\<close> for the second; for the first, the encoder computes
  the insert count of a block with 128 entries whatever its capacity is.
\<close>

theorem response_delivered:
  assumes "plain_response r" and "table_ok (enc_table enc)" and "capacity (enc_table enc) = 0 \<or> capacity (enc_table enc) div 32 = 128"
    and "insert_count (enc_table enc) + length (to_h3_headers r) < 2 ^ 63"
    and "12 + fields_size (to_h3_headers r) \<le> MAX_FRAME_PAYLOAD" and "length (resp_body r) \<le> MAX_FRAME_PAYLOAD"
    and "enc_stream enc = []" and "Encoder_encode (to_h3_headers r) enc = (payload, enc')"
  shows "\<exists>out. write_response enc (to_h3_headers r) (string_bytes (resp_body r)) = Inr (out, enc_stream enc', enc'\<lparr>enc_stream := []\<rparr>) \<and>
    fst (instructions huff (enc_stream enc') (enc_table enc)) = enc_table enc' \<and>
    (\<exists>io. Frame_decode huff (enc_table enc') out = Inr (HeadersFrame (to_h3_headers r), io) \<and>
      readH3Frame out = Ret (0x01, payload, None, io) \<and>
      (if resp_body r = [] then io = []
       else Frame_decode huff (enc_table enc') io = Inr (DataFrame (string_bytes (resp_body r)), []) \<and>
            readH3Frame io = Ret (0x00, string_bytes (resp_body r), None, [])))"
proof -
  let ?body = "string_bytes (resp_body r)"
  have pl: "length payload \<le> MAX_FRAME_PAYLOAD" using length_block [OF assms(8)] assms(5) by linarith
  have sz: "\<forall>kv\<in>set (to_h3_headers r). length (fst kv) < 2 ^ 31 \<and> length (snd kv) < 2 ^ 31"
  proof
    fix kv assume "kv \<in> set (to_h3_headers r)"
    then show "length (fst kv) < 2 ^ 31 \<and> length (snd kv) < 2 ^ 31"
      using fields_size_bound [of kv "to_h3_headers r"] assms(5) by (simp add: MAX_FRAME_PAYLOAD_def)
  qed
  have lb: "length ?body \<le> MAX_FRAME_PAYLOAD" "?body = [] \<longleftrightarrow> resp_body r = []" using assms(6) by (auto simp: string_bytes_def)
  have l: "length payload < 2 ^ 62" "length ?body < 2 ^ 62" "length payload \<le> makeslice_max" "length ?body \<le> makeslice_max"
    using pl lb(1) by (simp_all add: MAX_FRAME_PAYLOAD_def makeslice_max_def)
  let ?rest = "if resp_body r = [] then [] else h3Frame 0x00 ?body"
  have w: "write_response enc (to_h3_headers r) ?body = Inr (h3Frame 0x01 payload @ ?rest, enc_stream enc', enc'\<lparr>enc_stream := []\<rparr>)"
    using write_response_eq [OF assms(8) l(1,2)] lb(2) by simp
  note e = Encoder_encode_sync [OF assms(2-4) sz assms(8)]
  have c: "Decoder_decode huff (enc_table enc') payload = Inr (to_h3_headers r)"
    using e(2) response_fields_valid [OF assms(1)] by simp
  have i: "fst (instructions huff (enc_stream enc') (enc_table enc)) = enc_table enc'" using e(1) [of huff] assms(7) by auto
  have h: "Frame_decode huff (enc_table enc') (h3Frame 0x01 payload @ ?rest) = Inr (HeadersFrame (to_h3_headers r), ?rest)"
    by (subst Frame_decode_h3Frame [OF _ pl]) (simp_all add: frame_of_def c)
  have g: "readH3Frame (h3Frame 0x01 payload @ ?rest) = Ret (0x01, payload, None, ?rest)"
    by (rule readH3Frame_h3Frame [OF _ l(3)]) simp
  have d: "Frame_decode huff (enc_table enc') (h3Frame 0x00 ?body @ []) = Inr (DataFrame ?body, [])"
    by (subst Frame_decode_h3Frame [OF _ lb(1)]) (simp_all add: frame_of_def)
  have b: "readH3Frame (h3Frame 0x00 ?body @ []) = Ret (0x00, ?body, None, [])" by (rule readH3Frame_h3Frame [OF _ l(4)]) simp
  show ?thesis
    by (intro exI [of _ "h3Frame 0x01 payload @ ?rest"] conjI exI [of _ ?rest] w i h g) (use d b in auto)
qed

definition pong_response :: cr_response where
  "pong_response = resp_text ''pong'' 200 Response_new"

theorem response_delivered_witness:
  "\<exists>out io. write_response encoder_new (to_h3_headers pong_response) (string_bytes ''pong'') =
      Inr (out, [], encoder_new) \<and> readH3Frame io = Ret (0x00, string_bytes ''pong'', None, []) \<and>
    Frame_decode (\<lambda>_. Inl EOFError) dyntab_new out = Inr (HeadersFrame (to_h3_headers pong_response), io)"
proof -
  have hs: "to_h3_headers pong_response = typed_headers ''text/plain; charset=utf-8'' 200 ''pong''"
    by (simp add: pong_response_def resp_text_def to_h3_headers_typed)
  have p: "plain_response pong_response"
    by (simp add: plain_response_def pong_response_def resp_text_def resp_typed_def Response_new_def is_pseudo_def)
  have b: "resp_body pong_response = ''pong''" by (simp add: pong_response_def resp_text_def resp_typed_def)
  have k: "capacity (enc_table encoder_new) = 0" "insert_count (enc_table encoder_new) = 0" "enc_stream encoder_new = []"
    "enc_table encoder_new = dyntab_new" "encoder_new\<lparr>enc_stream := []\<rparr> = encoder_new" by (simp_all add: encoder_new_def dyntab_new_def)
  have t: "table_ok (enc_table encoder_new)" by (simp add: k table_ok_new)
  have e: "Encoder_encode (to_h3_headers pong_response) encoder_new = (fst (Encoder_encode (to_h3_headers pong_response) encoder_new), encoder_new)"
    using no_capacity [OF k(1)] by (simp add: Encoder_encode_def Let_def)
  have s: "12 + fields_size (to_h3_headers pong_response) \<le> MAX_FRAME_PAYLOAD" "insert_count (enc_table encoder_new) + length (to_h3_headers pong_response) < 2 ^ 63"
    "length (resp_body pong_response) \<le> MAX_FRAME_PAYLOAD"
    using length_show_nat [of "length ''pong''"] length_show_nat [of 200]
    by (simp_all add: hs typed_headers_def fields_size_def show_int_def MAX_FRAME_PAYLOAD_def encoder_new_def dyntab_new_def b)
  show ?thesis
    using response_delivered [OF p t disjI1 [OF k(1)] s(2,1,3) k(3) e, of "\<lambda>_. Inl EOFError"]
    unfolding b k by auto
qed

end
