(* ===== verification/Cr_Stream.thy ===== *)
theory Cr_Stream
  imports Cr_VarInt
begin

text \<open>
  A QUIC stream of the Crystal stack (src/quic/stream.cr): its two byte buffers, the
  reassembly of received segments, the flow control of both directions and the closing
  handshake. Arithmetic of Crystal is checked, so an operation ends either with a value
  or with an exception, and keeps in both cases what it has changed before: it maps a stream
  to the outcome and the stream after it. An \<open>IO::Memory\<close> holds less than 2 GiB; a write
  that would take it further raises \<open>OverflowError\<close>.
\<close>

section \<open>State\<close>

datatype StreamState = Idle | Open | HalfClosedLocal | HalfClosedRemote | Closed | Reset

record stream =
  stream_id :: u64
  state :: StreamState
  send_buffer :: "byte list"
  recv_buffer :: "byte list"
  send_read_pos :: nat
  recv_read_pos :: nat
  max_stream_data_remote :: u64
  max_stream_data_local :: u64
  rx_offset :: u64
  tx_offset :: u64
  fin_offset :: "u64 option"
  reset_error_code :: "u64 option"
  ooo_buffer :: "(u64 \<times> byte list) list"
  fin_sent :: bool

definition Stream_new :: "u64 \<Rightarrow> u64 \<Rightarrow> u64 \<Rightarrow> stream" where
  "Stream_new i max_remote max_local =
     \<lparr>stream_id = i, state = Idle, send_buffer = [], recv_buffer = [], send_read_pos = 0,
      recv_read_pos = 0, max_stream_data_remote = max_remote, max_stream_data_local = max_local,
      rx_offset = 0, tx_offset = 0, fin_offset = None, reset_error_code = None,
      ooo_buffer = [], fin_sent = False\<rparr>"

section \<open>Operations\<close>

text \<open>\<open>IO::Memory#write\<close> at the end of a buffer\<close>

definition MemoryLimit :: nat where
  "MemoryLimit = 2 ^ 31"

definition memory_append :: "byte list \<Rightarrow> byte list \<Rightarrow> cr_error + byte list" where
  "memory_append buf data =
     (if length buf + length data < MemoryLimit then Inr (buf @ data) else Inl OverflowError)"

text \<open>\<open>UInt64 + Int32\<close> with its overflow check\<close>

definition u64_add :: "u64 \<Rightarrow> nat \<Rightarrow> cr_error + u64" where
  "u64_add x n = (if unat x + n < 2 ^ 64 then Inr (x + of_nat n) else Inl OverflowError)"

text \<open>\<open>@state = StreamState::Open if @state == StreamState::Idle\<close>\<close>

definition opened :: "stream \<Rightarrow> stream" where
  "opened s = (if state s = Idle then s\<lparr>state := Open\<rparr> else s)"

definition Stream_write :: "byte list \<Rightarrow> stream \<Rightarrow> (cr_error + nat) \<times> stream" where
  "Stream_write data s =
     (if state s = Closed \<or> state s = HalfClosedLocal then (Inr 0, s)
      else
        (let s = opened s
         in case memory_append (send_buffer s) data of
              Inl e \<Rightarrow> (Inl e, s)
            | Inr buf \<Rightarrow> (Inr (length data), s\<lparr>send_buffer := buf\<rparr>)))"

definition Stream_reset :: "u64 \<Rightarrow> stream \<Rightarrow> stream" where
  "Stream_reset error_code s = s\<lparr>state := Reset, reset_error_code := Some error_code\<rparr>"

definition reset_received :: "stream \<Rightarrow> bool" where
  "reset_received s \<longleftrightarrow> state s = Reset"

text \<open>\<open>read\<close> into a slice of \<open>n\<close> bytes: the bytes copied; their number is what the code returns.\<close>

definition Stream_read :: "nat \<Rightarrow> stream \<Rightarrow> byte list \<times> stream" where
  "Stream_read n s =
     (if state s = Reset then ([], s)
      else if length (recv_buffer s) \<le> recv_read_pos s then ([], s)
      else
        (let remaining = length (recv_buffer s) - recv_read_pos s; len = min n remaining
         in (take len (drop (recv_read_pos s) (recv_buffer s)),
             s\<lparr>recv_read_pos := recv_read_pos s + len\<rparr>)))"

definition close_local :: "stream \<Rightarrow> stream" where
  "close_local s =
     (if state s = Open then s\<lparr>state := HalfClosedLocal\<rparr>
      else if state s = HalfClosedRemote then s\<lparr>state := Closed\<rparr>
      else s)"

definition close_remote :: "stream \<Rightarrow> stream" where
  "close_remote s =
     (if state s = Open then s\<lparr>state := HalfClosedRemote\<rparr>
      else if state s = HalfClosedLocal then s\<lparr>state := Closed\<rparr>
      else s)"

definition check_fin_ready :: "stream \<Rightarrow> stream" where
  "check_fin_ready s =
     (case fin_offset s of
        None \<Rightarrow> s
      | Some fin \<Rightarrow> if fin \<le> rx_offset s then (close_remote s)\<lparr>fin_offset := None\<rparr> else s)"

definition set_fin_offset :: "u64 \<Rightarrow> stream \<Rightarrow> stream" where
  "set_fin_offset off s =
     check_fin_ready
       (case fin_offset s of
          None \<Rightarrow> s\<lparr>fin_offset := Some off\<rparr>
        | Some fin \<Rightarrow> if off < fin then s\<lparr>fin_offset := Some off\<rparr> else s)"

text \<open>Appending a segment to \<open>@recv_buffer\<close> and moving \<open>@rx_offset\<close> over it\<close>

definition deliver :: "byte list \<Rightarrow> stream \<Rightarrow> (cr_error + unit) \<times> stream" where
  "deliver d s =
     (case memory_append (recv_buffer s) d of
        Inl e \<Rightarrow> (Inl e, s)
      | Inr buf \<Rightarrow>
          (case u64_add (rx_offset s) (length d) of
             Inl e \<Rightarrow> (Inl e, s\<lparr>recv_buffer := buf\<rparr>)
           | Inr rx \<Rightarrow> (Inr (), s\<lparr>recv_buffer := buf, rx_offset := rx\<rparr>)))"

lemma deliver_ooo: "deliver d s = (r, s') \<Longrightarrow> ooo_buffer s' = ooo_buffer s"
  by (auto simp: deliver_def split: sum.splits)

text \<open>
  One round of the loop of \<open>flush_ooo_buffer\<close>: \<open>True\<close> goes round again. Every such round has
  taken the first segment off the buffer, so the loop ends.
\<close>

definition flush_round :: "stream \<Rightarrow> (cr_error + bool) \<times> stream" where
  "flush_round s =
     (case ooo_buffer s of
        [] \<Rightarrow> (Inr False, s)
      | (off, d) # rest \<Rightarrow>
          if off = rx_offset s then
            (case deliver d (s\<lparr>ooo_buffer := rest\<rparr>) of
               (Inl e, s') \<Rightarrow> (Inl e, s')
             | (Inr _, s') \<Rightarrow> (Inr True, s'))
          else if off < rx_offset s then
            (case u64_add off (length d) of
               Inl e \<Rightarrow> (Inl e, s)
             | Inr end_off \<Rightarrow>
                 if rx_offset s < end_off then
                   (let skip = unat (rx_offset s - off)
                    in if 2 ^ 31 \<le> skip then (Inl OverflowError, s)
                       else
                         (case deliver (drop skip d) (s\<lparr>ooo_buffer := rest\<rparr>) of
                            (Inl e, s') \<Rightarrow> (Inl e, s')
                          | (Inr _, s') \<Rightarrow> (Inr True, s')))
                 else (Inr True, s\<lparr>ooo_buffer := rest\<rparr>))
          else (Inr False, s))"

lemma flush_round_pops:
  "flush_round s = (Inr True, s') \<Longrightarrow> length (ooo_buffer s') < length (ooo_buffer s)"
  by (auto simp: flush_round_def Let_def dest!: deliver_ooo split: list.splits if_splits sum.splits prod.splits)

function flush_ooo_buffer :: "stream \<Rightarrow> (cr_error + unit) \<times> stream" where
  "flush_ooo_buffer s =
     (case flush_round s of
        (Inl e, s') \<Rightarrow> (Inl e, s')
      | (Inr again, s') \<Rightarrow> if again then flush_ooo_buffer s' else (Inr (), s'))"
  by pat_completeness auto
termination
  by (relation "measure (\<lambda>s. length (ooo_buffer s))") (auto dest!: sym [of _ "flush_round _"] flush_round_pops)

declare flush_ooo_buffer.simps [simp del]

definition receive_data :: "u64 \<Rightarrow> byte list \<Rightarrow> stream \<Rightarrow> (cr_error + unit) \<times> stream" where
  "receive_data off data s0 =
     (let s = opened s0
      in if state s = Closed \<or> state s = HalfClosedRemote then (Inr (), s)
         else
           (case u64_add off (length data) of
              Inl e \<Rightarrow> (Inl e, s)
            | Inr end_off \<Rightarrow>
                if max_stream_data_local s < end_off then
                  (Inl (ProtocolViolation ''Flow control limit exceeded''), s)
                else if off = rx_offset s then
                  (case deliver data s of
                     (Inl e, s1) \<Rightarrow> (Inl e, s1)
                   | (Inr _, s1) \<Rightarrow>
                       (case flush_ooo_buffer s1 of
                          (Inl e, s2) \<Rightarrow> (Inl e, s2)
                        | (Inr _, s2) \<Rightarrow> (Inr (), check_fin_ready s2)))
                else if rx_offset s < off then
                  (if list_ex (\<lambda>(o', _). o' = off) (ooo_buffer s) then (Inr (), s)
                   else (Inr (), s\<lparr>ooo_buffer := sort_key fst (ooo_buffer s @ [(off, data)])\<rparr>))
                else (Inr (), s)))"

definition update_max_stream_data :: "u64 \<Rightarrow> stream \<Rightarrow> stream" where
  "update_max_stream_data m s =
     (if max_stream_data_remote s < m then s\<lparr>max_stream_data_remote := m\<rparr> else s)"

definition update_max_stream_data_local :: "u64 \<Rightarrow> stream \<Rightarrow> stream" where
  "update_max_stream_data_local m s =
     (if max_stream_data_local s < m then s\<lparr>max_stream_data_local := m\<rparr> else s)"

definition should_send_fin :: "stream \<Rightarrow> bool" where
  "should_send_fin s \<longleftrightarrow> state s = HalfClosedLocal \<or> state s = Closed"

definition has_send_data :: "stream \<Rightarrow> bool" where
  "has_send_data s \<longleftrightarrow>
     send_read_pos s < length (send_buffer s) \<or> (should_send_fin s \<and> \<not> fin_sent s)"

definition fully_done :: "stream \<Rightarrow> bool" where
  "fully_done s \<longleftrightarrow>
     (if state s = Reset then True
      else state s = Closed \<and> fin_sent s \<and> length (send_buffer s) \<le> send_read_pos s)"

datatype blocked = BlockedStream | BlockedConnection

definition stream_available :: "stream \<Rightarrow> u64" where
  "stream_available s =
     (if tx_offset s < max_stream_data_remote s then max_stream_data_remote s - tx_offset s else 0)"

text \<open>
  \<open>poll_send_data\<close>: the offset, the data, whether the FIN goes with it, and which limit held
  data back. A negative length raises in \<open>Slice#[]\<close>; \<open>to_i64\<close> of the allowance is checked.
\<close>

definition poll_send_data ::
    "int \<Rightarrow> u64 \<Rightarrow> stream \<Rightarrow> (cr_error + (u64 \<times> byte list \<times> bool \<times> blocked option)) \<times> stream" where
  "poll_send_data max_len conn_available s =
     (if length (send_buffer s) \<le> send_read_pos s \<and> (\<not> should_send_fin s \<or> fin_sent s)
      then (Inr (0, [], False, None), s)
      else
        (let off = tx_offset s; start_pos = send_read_pos s;
             remaining = length (send_buffer s) - start_pos;
             allowed = min (stream_available s) conn_available
         in if 2 ^ 63 \<le> unat allowed then (Inl OverflowError, s)
            else
              (let len = min (min max_len (int remaining)) (int (unat allowed));
                   blocked_reason =
                     (if 0 < remaining \<and> len < int remaining
                      then Some (if stream_available s \<le> conn_available then BlockedStream else BlockedConnection)
                      else None)
               in if len < 0 then (Inl (ArgumentError ''Negative count''), s)
                  else
                    (let data = take (nat len) (drop start_pos (send_buffer s));
                         s1 = s\<lparr>send_read_pos := start_pos + nat len\<rparr>
                     in case u64_add (tx_offset s1) (nat len) of
                          Inl e \<Rightarrow> (Inl e, s1)
                        | Inr tx \<Rightarrow>
                            (let s2 = s1\<lparr>tx_offset := tx\<rparr>;
                                 send_fin = (should_send_fin s2 \<and> length (send_buffer s2) \<le> send_read_pos s2
                                             \<and> \<not> fin_sent s2);
                                 s3 = (if send_fin then s2\<lparr>fin_sent := True\<rparr> else s2)
                             in (Inr (off, data, send_fin, blocked_reason), s3))))))"


section \<open>Runs of a stream\<close>

text \<open>
  The connection and the application call the operations in any order; a run keeps each call
  with what it returned. An exception leaves the state the operation had reached.
\<close>

datatype stream_op =
    OpWrite "byte list"
  | OpReset u64
  | OpRead nat
  | OpFin u64
  | OpReceive u64 "byte list"
  | OpMaxRemote u64
  | OpMaxLocal u64
  | OpCloseLocal
  | OpCloseRemote
  | OpPoll int u64

datatype stream_out =
    OutDone
  | OutRaised cr_error
  | OutWritten nat
  | OutRead "byte list"
  | OutSent u64 "byte list" bool "blocked option"

fun stream_step :: "stream_op \<Rightarrow> stream \<Rightarrow> stream_out \<times> stream" where
  "stream_step (OpWrite d) s =
     (case Stream_write d s of (Inl e, s') \<Rightarrow> (OutRaised e, s') | (Inr n, s') \<Rightarrow> (OutWritten n, s'))"
| "stream_step (OpReset e) s = (OutDone, Stream_reset e s)"
| "stream_step (OpRead n) s = (case Stream_read n s of (d, s') \<Rightarrow> (OutRead d, s'))"
| "stream_step (OpFin off) s = (OutDone, set_fin_offset off s)"
| "stream_step (OpReceive off d) s =
     (case receive_data off d s of (Inl e, s') \<Rightarrow> (OutRaised e, s') | (Inr _, s') \<Rightarrow> (OutDone, s'))"
| "stream_step (OpMaxRemote m) s = (OutDone, update_max_stream_data m s)"
| "stream_step (OpMaxLocal m) s = (OutDone, update_max_stream_data_local m s)"
| "stream_step OpCloseLocal s = (OutDone, close_local s)"
| "stream_step OpCloseRemote s = (OutDone, close_remote s)"
| "stream_step (OpPoll max_len avail) s =
     (case poll_send_data max_len avail s of
        (Inl e, s') \<Rightarrow> (OutRaised e, s')
      | (Inr (off, d, f, b), s') \<Rightarrow> (OutSent off d f b, s'))"

fun stream_run :: "stream_op list \<Rightarrow> stream \<Rightarrow> (stream_op \<times> stream_out) list \<times> stream" where
  "stream_run [] s = ([], s)"
| "stream_run (c # cs) s =
     (case stream_step c s of (r, s') \<Rightarrow>
        (case stream_run cs s' of (tr, s'') \<Rightarrow> ((c, r) # tr, s'')))"

lemma stream_run_induct [consumes 1, case_names start step]:
  assumes "stream_run cs s = (tr, s')"
    and "P [] s"
    and "\<And>c r t t' tr. P tr t \<Longrightarrow> stream_step c t = (r, t') \<Longrightarrow> c \<in> set cs \<Longrightarrow> P (tr @ [(c, r)]) t'"
  shows "P tr s'"
proof -
  have "\<And>pre. P pre s \<Longrightarrow> stream_run cs s = (tr, s') \<Longrightarrow>
          (\<And>c r t t' tr. P tr t \<Longrightarrow> stream_step c t = (r, t') \<Longrightarrow> c \<in> set cs \<Longrightarrow> P (tr @ [(c, r)]) t') \<Longrightarrow>
          P (pre @ tr) s'"
  proof (induction cs arbitrary: s tr)
    case Nil then show ?case by simp
  next
    case (Cons c cs)
    obtain r s1 where s1: "stream_step c s = (r, s1)" by fastforce
    obtain tr1 s2 where s2: "stream_run cs s1 = (tr1, s2)" by fastforce
    have "P ((pre @ [(c, r)]) @ tr1) s'"
      using Cons.prems s1 s2 by (intro Cons.IH [of "pre @ [(c, r)]" s1]) auto
    then show ?case using Cons.prems(2) s1 s2 by simp
  qed
  from this [of "[]"] show ?thesis using assms by simp
qed

section \<open>Well-formed streams\<close>

definition seg_end :: "u64 \<times> byte list \<Rightarrow> nat" where
  "seg_end x = unat (fst x) + length (snd x)"

definition send_wf :: "stream \<Rightarrow> bool" where
  "send_wf s \<longleftrightarrow>
     unat (tx_offset s) = send_read_pos s \<and> send_read_pos s \<le> length (send_buffer s) \<and>
     length (send_buffer s) < MemoryLimit \<and> tx_offset s \<le> max_stream_data_remote s \<and>
     (fin_sent s \<longrightarrow> state s \<in> {HalfClosedLocal, Closed, Reset})"

definition recv_wf :: "stream \<Rightarrow> bool" where
  "recv_wf s \<longleftrightarrow>
     unat (rx_offset s) = length (recv_buffer s) \<and> recv_read_pos s \<le> length (recv_buffer s) \<and>
     length (recv_buffer s) < MemoryLimit \<and> rx_offset s \<le> max_stream_data_local s \<and>
     sorted_wrt (<) (map fst (ooo_buffer s)) \<and>
     (\<forall>x\<in>set (ooo_buffer s). seg_end x \<le> unat (max_stream_data_local s))"

definition stream_wf :: "stream \<Rightarrow> bool" where
  "stream_wf s \<longleftrightarrow> send_wf s \<and> recv_wf s"

lemma Stream_new_fields:
  "recv_read_pos (Stream_new i mr ml) = 0" "send_read_pos (Stream_new i mr ml) = 0"
  "send_buffer (Stream_new i mr ml) = []" "recv_buffer (Stream_new i mr ml) = []"
  "rx_offset (Stream_new i mr ml) = 0" "tx_offset (Stream_new i mr ml) = 0"
  "ooo_buffer (Stream_new i mr ml) = []" "fin_offset (Stream_new i mr ml) = None"
  "state (Stream_new i mr ml) = Idle" "fin_sent (Stream_new i mr ml) = False"
  "max_stream_data_local (Stream_new i mr ml) = ml" "max_stream_data_remote (Stream_new i mr ml) = mr"
  by (simp_all add: Stream_new_def)

lemma stream_wf_new: "stream_wf (Stream_new i mr ml)"
  by (simp add: stream_wf_def send_wf_def recv_wf_def Stream_new_def MemoryLimit_def)

lemma MemoryLimit_u64: "n < MemoryLimit \<Longrightarrow> n < 2 ^ 64"
  by (simp add: MemoryLimit_def)

lemma u64_add_cases:
  "(u64_add x n = Inr y) = (unat x + n < 2 ^ 64 \<and> y = x + of_nat n)"
  "(u64_add x n = Inl e) = (2 ^ 64 \<le> unat x + n \<and> e = OverflowError)"
  by (auto simp: u64_add_def)

text \<open>\<open>deliver\<close> in a well-formed stream: all or nothing\<close>

lemma deliver_eq:
  assumes "unat (rx_offset s) = length (recv_buffer s)"
  shows "deliver d s =
     (if length (recv_buffer s) + length d < MemoryLimit
      then (Inr (), s\<lparr>recv_buffer := recv_buffer s @ d, rx_offset := rx_offset s + of_nat (length d)\<rparr>)
      else (Inl OverflowError, s))"
  using assms by (simp add: deliver_def memory_append_def u64_add_def MemoryLimit_def)

lemma sorted_wrt_fst_sort_key:
  assumes "sorted_wrt (<) (map fst xs)" and "o' \<notin> fst ` set xs"
  shows "sorted_wrt (<) (map fst (sort_key fst (xs @ [(o' :: 'a::linorder, d)])))"
proof -
  have "distinct (map fst (sort_key fst (xs @ [(o', d)])))"
    using assms strict_sorted_iff [of "map fst xs"] by (force simp: distinct_map inj_on_def)
  then show ?thesis by (simp add: strict_sorted_iff)
qed


text \<open>The fields \<open>deliver\<close> and \<open>flush_ooo_buffer\<close> leave alone\<close>

definition recv_only :: "stream \<Rightarrow> stream \<Rightarrow> bool" where
  "recv_only s s' \<longleftrightarrow>
     stream_id s' = stream_id s \<and> state s' = state s \<and> send_buffer s' = send_buffer s \<and>
     send_read_pos s' = send_read_pos s \<and> recv_read_pos s' = recv_read_pos s \<and>
     max_stream_data_remote s' = max_stream_data_remote s \<and>
     max_stream_data_local s' = max_stream_data_local s \<and> tx_offset s' = tx_offset s \<and>
     fin_offset s' = fin_offset s \<and> reset_error_code s' = reset_error_code s \<and>
     fin_sent s' = fin_sent s"

lemma recv_only_refl [simp]: "recv_only s s"
  by (simp add: recv_only_def)

lemma recv_only_trans: "recv_only s s' \<Longrightarrow> recv_only s' s'' \<Longrightarrow> recv_only s s''"
  by (simp add: recv_only_def)

lemma recv_only_deliver: "deliver d s = (r, s') \<Longrightarrow> recv_only s s'"
  by (auto simp: deliver_def recv_only_def split: sum.splits)

lemma flush_invariant:
  assumes "flush_ooo_buffer s = (r, s')" and "P s"
    and "\<And>s q s'. P s \<Longrightarrow> flush_round s = (q, s') \<Longrightarrow> P s'"
  shows "P s'"
  using assms
proof (induction s arbitrary: r s' rule: flush_ooo_buffer.induct)
  case (1 s)
  obtain q s1 where q: "flush_round s = (q, s1)" by fastforce
  have s1: "P s1" using "1.prems"(3) [OF "1.prems"(2) q] .
  show ?case
  proof (cases q)
    case (Inl e)
    then show ?thesis using "1.prems"(1) q s1 by (simp add: flush_ooo_buffer.simps [of s])
  next
    case (Inr again)
    show ?thesis
    proof (cases again)
      case True
      then have "flush_ooo_buffer s1 = (r, s')"
        using "1.prems"(1) q Inr by (simp add: flush_ooo_buffer.simps [of s])
      then show ?thesis using "1.IH" [OF q [symmetric] Inr True] s1 "1.prems"(3) by blast
    next
      case False
      then show ?thesis using "1.prems"(1) q Inr s1 by (simp add: flush_ooo_buffer.simps [of s])
    qed
  qed
qed

lemma recv_only_flush_round: "flush_round s = (q, s') \<Longrightarrow> recv_only s s'"
  by (auto simp: flush_round_def deliver_def recv_only_def Let_def split: list.splits if_splits sum.splits prod.splits)

lemma recv_only_flush: "flush_ooo_buffer s = (r, s') \<Longrightarrow> recv_only s s'"
  by (erule flush_invariant [where P = "recv_only s"]) (auto intro: recv_only_trans recv_only_flush_round)


lemma recv_wf_deliver:
  assumes "recv_wf s" and "deliver d s = (q, s')" and "unat (rx_offset s) + length d \<le> unat (max_stream_data_local s)"
  shows "recv_wf s'"
  using assms
  by (auto simp: recv_wf_def deliver_eq unat_add_of_nat MemoryLimit_def word_le_nat_alt split: if_splits)

lemma recv_wf_pop:
  "recv_wf s \<Longrightarrow> ooo_buffer s = x # rest \<Longrightarrow>
     recv_wf (s\<lparr>ooo_buffer := rest\<rparr>) \<and> seg_end x \<le> unat (max_stream_data_local s)"
  by (auto simp: recv_wf_def)

lemma recv_wf_round:
  assumes wf: "recv_wf s" and "flush_round s = (q, s')"
  shows "recv_wf s'"
proof (cases "ooo_buffer s")
  case Nil then show ?thesis using assms by (simp add: flush_round_def)
next
  case (Cons x rest)
  obtain off d where x: "x = (off, d)" by fastforce
  let ?s = "s\<lparr>ooo_buffer := rest\<rparr>"
  have wf': "recv_wf ?s" and e: "unat off + length d \<le> unat (max_stream_data_local s)"
    using recv_wf_pop [OF wf Cons] by (simp_all add: x seg_end_def)
  have dl: "recv_wf t" if "deliver d' ?s = (r, t)" and "unat (rx_offset s) + length d' \<le> unat off + length d" for d' r t
    using recv_wf_deliver [OF wf' that(1)] that(2) e by simp
  have sk: "unat (rx_offset s) + (length d - unat (rx_offset s - off)) \<le> unat off + length d"
    if "off < rx_offset s" "rx_offset s < off + of_nat (length d)" "unat off + length d < 2 ^ 64"
  proof -
    have "unat (rx_offset s - off) = unat (rx_offset s) - unat off"
      using that(1) by (simp add: unat_sub)
    moreover have "unat (rx_offset s) < unat off + length d"
      using that(2) unat_add_of_nat [OF that(3)] by (simp add: word_less_nat_alt)
    ultimately show ?thesis using that(1) by (simp add: word_less_nat_alt)
  qed
  show ?thesis
    using assms(2) Cons wf wf' sk
    by (auto simp: flush_round_def x Let_def u64_add_cases dest!: dl split: if_splits sum.splits prod.splits)
qed

lemma recv_wf_flush: "recv_wf s \<Longrightarrow> flush_ooo_buffer s = (r, s') \<Longrightarrow> recv_wf s'"
  by (erule flush_invariant [where P = recv_wf]) (auto intro: recv_wf_round)

lemma recv_wf_frame:
  "recv_wf s \<Longrightarrow> rx_offset s' = rx_offset s \<Longrightarrow> recv_buffer s' = recv_buffer s \<Longrightarrow>
     recv_read_pos s' = recv_read_pos s \<Longrightarrow> max_stream_data_local s' = max_stream_data_local s \<Longrightarrow>
     ooo_buffer s' = ooo_buffer s \<Longrightarrow> recv_wf s'"
  by (simp add: recv_wf_def)

lemma send_wf_recv_only: "send_wf s \<Longrightarrow> recv_only s s' \<Longrightarrow> send_wf s'"
  by (simp add: send_wf_def recv_only_def)

lemma close_remote_fields:
  "send_buffer (close_remote s) = send_buffer s" "recv_buffer (close_remote s) = recv_buffer s"
  "send_read_pos (close_remote s) = send_read_pos s" "recv_read_pos (close_remote s) = recv_read_pos s"
  "max_stream_data_remote (close_remote s) = max_stream_data_remote s"
  "max_stream_data_local (close_remote s) = max_stream_data_local s"
  "rx_offset (close_remote s) = rx_offset s" "tx_offset (close_remote s) = tx_offset s"
  "fin_offset (close_remote s) = fin_offset s" "ooo_buffer (close_remote s) = ooo_buffer s"
  "fin_sent (close_remote s) = fin_sent s"
  by (simp_all add: close_remote_def)

lemma close_local_fields:
  "send_buffer (close_local s) = send_buffer s" "recv_buffer (close_local s) = recv_buffer s"
  "send_read_pos (close_local s) = send_read_pos s" "recv_read_pos (close_local s) = recv_read_pos s"
  "max_stream_data_remote (close_local s) = max_stream_data_remote s"
  "max_stream_data_local (close_local s) = max_stream_data_local s"
  "rx_offset (close_local s) = rx_offset s" "tx_offset (close_local s) = tx_offset s"
  "fin_offset (close_local s) = fin_offset s" "ooo_buffer (close_local s) = ooo_buffer s"
  "fin_sent (close_local s) = fin_sent s"
  by (simp_all add: close_local_def)

lemma check_fin_ready_fields:
  "send_buffer (check_fin_ready s) = send_buffer s" "recv_buffer (check_fin_ready s) = recv_buffer s"
  "send_read_pos (check_fin_ready s) = send_read_pos s" "recv_read_pos (check_fin_ready s) = recv_read_pos s"
  "max_stream_data_remote (check_fin_ready s) = max_stream_data_remote s"
  "max_stream_data_local (check_fin_ready s) = max_stream_data_local s"
  "rx_offset (check_fin_ready s) = rx_offset s" "tx_offset (check_fin_ready s) = tx_offset s"
  "ooo_buffer (check_fin_ready s) = ooo_buffer s" "fin_sent (check_fin_ready s) = fin_sent s"
  by (simp_all add: check_fin_ready_def close_remote_fields split: option.split)

lemma set_fin_offset_fields:
  "send_buffer (set_fin_offset off s) = send_buffer s" "recv_buffer (set_fin_offset off s) = recv_buffer s"
  "send_read_pos (set_fin_offset off s) = send_read_pos s" "recv_read_pos (set_fin_offset off s) = recv_read_pos s"
  "max_stream_data_remote (set_fin_offset off s) = max_stream_data_remote s"
  "max_stream_data_local (set_fin_offset off s) = max_stream_data_local s"
  "rx_offset (set_fin_offset off s) = rx_offset s" "tx_offset (set_fin_offset off s) = tx_offset s"
  "ooo_buffer (set_fin_offset off s) = ooo_buffer s" "fin_sent (set_fin_offset off s) = fin_sent s"
  by (simp_all add: set_fin_offset_def check_fin_ready_fields split: option.split)

lemmas stream_fields = close_local_fields close_remote_fields check_fin_ready_fields set_fin_offset_fields


lemma opened_fields:
  "send_buffer (opened s) = send_buffer s" "recv_buffer (opened s) = recv_buffer s"
  "send_read_pos (opened s) = send_read_pos s" "recv_read_pos (opened s) = recv_read_pos s"
  "max_stream_data_remote (opened s) = max_stream_data_remote s"
  "max_stream_data_local (opened s) = max_stream_data_local s"
  "rx_offset (opened s) = rx_offset s" "tx_offset (opened s) = tx_offset s"
  "fin_offset (opened s) = fin_offset s" "ooo_buffer (opened s) = ooo_buffer s"
  "fin_sent (opened s) = fin_sent s"
  by (simp_all add: opened_def)

text \<open>The ways a call of \<open>receive_data\<close> may go\<close>

lemma receive_data_cases [consumes 1, case_names closed refused failed in_order buffered ignored]:
  assumes "receive_data off d s = (r, s')"
  obtains
    "state s = Closed \<or> state s = HalfClosedRemote" "r = Inr ()" "s' = s"
  | e where "r = Inl e" "s' = opened s"
      "2 ^ 64 \<le> unat off + length d \<or> unat (max_stream_data_local s) < unat off + length d"
  | e t where "r = Inl e" "off = rx_offset s"
      "unat off + length d \<le> unat (max_stream_data_local s)"
      "deliver d (opened s) = (Inl e, s') \<or> (deliver d (opened s) = (Inr (), t) \<and> flush_ooo_buffer t = (Inl e, s'))"
  | t u where "r = Inr ()" "off = rx_offset s" "state s \<noteq> Closed" "state s \<noteq> HalfClosedRemote"
      "unat off + length d \<le> unat (max_stream_data_local s)"
      "deliver d (opened s) = (Inr (), t)" "flush_ooo_buffer t = (Inr (), u)" "s' = check_fin_ready u"
  | "r = Inr ()" "rx_offset s < off" "off \<notin> fst ` set (ooo_buffer s)"
      "unat off + length d \<le> unat (max_stream_data_local s)"
      "s' = (opened s)\<lparr>ooo_buffer := sort_key fst (ooo_buffer s @ [(off, d)])\<rparr>"
  | "r = Inr ()" "off < rx_offset s \<or> off \<in> fst ` set (ooo_buffer s)" "s' = opened s"
proof -
  consider (cl) "state s = Closed \<or> state s = HalfClosedRemote" | (op) "state s \<noteq> Closed" "state s \<noteq> HalfClosedRemote"
    by blast
  then show ?thesis
  proof cases
    case cl
    then show ?thesis using assms that(1) by (auto simp: receive_data_def opened_def Let_def)
  next
    case op
    have st: "state (opened s) \<noteq> Closed" "state (opened s) \<noteq> HalfClosedRemote"
      using op by (auto simp: opened_def)
    have lst: "list_ex (\<lambda>(o', _). o' = off) (ooo_buffer s) = (off \<in> fst ` set (ooo_buffer s))"
      by (force simp: list_ex_iff image_iff)
    have body: "receive_data off d s =
       (case u64_add off (length d) of
          Inl e \<Rightarrow> (Inl e, opened s)
        | Inr end_off \<Rightarrow>
            if max_stream_data_local s < end_off then
              (Inl (ProtocolViolation ''Flow control limit exceeded''), opened s)
            else if off = rx_offset s then
              (case deliver d (opened s) of
                 (Inl e, s1) \<Rightarrow> (Inl e, s1)
               | (Inr _, s1) \<Rightarrow>
                   (case flush_ooo_buffer s1 of
                      (Inl e, s2) \<Rightarrow> (Inl e, s2)
                    | (Inr _, s2) \<Rightarrow> (Inr (), check_fin_ready s2)))
            else if rx_offset s < off then
              (if off \<in> fst ` set (ooo_buffer s) then (Inr (), opened s)
               else (Inr (), (opened s)\<lparr>ooo_buffer := sort_key fst (ooo_buffer s @ [(off, d)])\<rparr>))
            else (Inr (), opened s))"
      using st unfolding receive_data_def Let_def opened_fields lst by simp
    show ?thesis
    proof (cases "u64_add off (length d)")
      case (Inl e)
      then have "r = Inl e" "s' = opened s" "2 ^ 64 \<le> unat off + length d"
        using assms [unfolded body Inl] Inl by (auto simp: u64_add_cases)
      then show ?thesis using that(2) by blast
    next
      case (Inr en)
      then have en: "unat en = unat off + length d" by (auto simp: u64_add_cases unat_add_of_nat)
      consider (a) "max_stream_data_local s < en" | (b) "en \<le> max_stream_data_local s" "off = rx_offset s"
        | (c) "en \<le> max_stream_data_local s" "rx_offset s < off" | (d) "en \<le> max_stream_data_local s" "off < rx_offset s"
        by fastforce
      then show ?thesis
      proof cases
        case a
        then show ?thesis using that(2) assms [unfolded body Inr] en by (auto simp: word_less_nat_alt)
      next
        case b
        obtain q t where q: "deliver d (opened s) = (q, t)" by fastforce
        obtain v u where v: "flush_ooo_buffer t = (v, u)" by fastforce
        have le: "unat off + length d \<le> unat (max_stream_data_local s)"
          using b(1) en by (simp add: word_le_nat_alt)
        have res: "(r, s') = (case q of Inl e \<Rightarrow> (Inl e, t) | Inr _ \<Rightarrow>
            (case v of Inl e \<Rightarrow> (Inl e, u) | Inr _ \<Rightarrow> (Inr (), check_fin_ready u)))"
          unfolding assms [symmetric] body Inr using leD [OF b(1)] by (cases q; cases v) (simp_all add: b(2) q [unfolded b(2)] v)
        show ?thesis
        proof (cases q)
          case (Inl e)
          then show ?thesis using that(3) [OF _ b(2) le, of e] res q by simp
        next
          case q': (Inr x)
          show ?thesis
          proof (cases v)
            case (Inl e)
            then show ?thesis using that(3) [OF _ b(2) le, of e t] res q v q' by simp
          next
            case (Inr y)
            then show ?thesis using that(4) [OF _ b(2) op le, of t u] res q v q' by simp
          qed
        qed
      next
        case c
        have le: "unat off + length d \<le> unat (max_stream_data_local s)"
          using c(1) en by (simp add: word_le_nat_alt)
        have ne: "off \<noteq> rx_offset s" using c(2) by auto
        have "(r, s') = (if off \<in> fst ` set (ooo_buffer s) then (Inr (), opened s)
               else (Inr (), (opened s)\<lparr>ooo_buffer := sort_key fst (ooo_buffer s @ [(off, d)])\<rparr>))"
          unfolding assms [symmetric] body Inr using leD [OF c(1)] c(2) ne by simp
        then show ?thesis using that(5) [OF _ c(2) _ le] that(6) by (auto split: if_splits)
      next
        case d
        have "(r, s') = (Inr (), opened s)"
          unfolding assms [symmetric] body Inr using leD [OF d(1)] d(2) by auto
        then show ?thesis using that(6) d(2) by simp
      qed
    qed
  qed
qed


section \<open>Every operation keeps a stream well-formed\<close>

lemma send_wf_opened: "send_wf s \<Longrightarrow> send_wf (opened s)"
  by (auto simp: send_wf_def opened_def)

lemma recv_wf_opened: "recv_wf s \<Longrightarrow> recv_wf (opened s)"
  by (erule recv_wf_frame) (simp_all add: opened_fields)

lemma send_wf_check_fin: "send_wf s \<Longrightarrow> send_wf (check_fin_ready s)"
  by (auto simp: send_wf_def check_fin_ready_def close_remote_def split: option.split)

lemma recv_wf_check_fin: "recv_wf s \<Longrightarrow> recv_wf (check_fin_ready s)"
  by (erule recv_wf_frame) (simp_all add: stream_fields)

lemma recv_wf_buffered:
  assumes "recv_wf s" and "off \<notin> fst ` set (ooo_buffer s)"
    and "unat off + length d \<le> unat (max_stream_data_local s)"
  shows "recv_wf (s\<lparr>ooo_buffer := sort_key fst (ooo_buffer s @ [(off, d)])\<rparr>)"
  using assms sorted_wrt_fst_sort_key [of "ooo_buffer s" off d] by (auto simp: recv_wf_def seg_end_def)

lemma receive_data_wf:
  assumes "stream_wf s" and "receive_data off d s = (r, s')"
  shows "stream_wf s'"
proof -
  have wf: "send_wf (opened s)" "recv_wf (opened s)"
    using assms(1) by (simp_all add: stream_wf_def send_wf_opened recv_wf_opened)
  have dl: "send_wf t \<and> recv_wf t"
    if "deliver d (opened s) = (q, t)" "off = rx_offset s" "unat off + length d \<le> unat (max_stream_data_local s)" for q t
    using that wf recv_wf_deliver [OF wf(2) that(1)] send_wf_recv_only [OF wf(1) recv_only_deliver [OF that(1)]]
    by (simp add: opened_fields)
  have fl: "send_wf u \<and> recv_wf u" if "send_wf t \<and> recv_wf t" "flush_ooo_buffer t = (q, u)" for q t u
    using that recv_wf_flush [of t q u] send_wf_recv_only [of t u] recv_only_flush [of t q u] by blast
  from assms(2) show ?thesis
  proof (cases rule: receive_data_cases)
    case closed
    then show ?thesis using assms(1) by simp
  next
    case (refused e)
    then show ?thesis using wf by (simp add: stream_wf_def)
  next
    case (failed e t)
    then show ?thesis using dl fl unfolding stream_wf_def by blast
  next
    case (in_order t u)
    then have "send_wf u \<and> recv_wf u" using dl fl by blast
    then show ?thesis using in_order by (simp add: stream_wf_def send_wf_check_fin recv_wf_check_fin)
  next
    case buffered
    then show ?thesis using wf recv_wf_buffered [OF wf(2), of off d]
      by (simp add: stream_wf_def opened_fields send_wf_def)
  next
    case ignored
    then show ?thesis using wf by (simp add: stream_wf_def)
  qed
qed

lemma mark_fin_sent: "(if f then t\<lparr>fin_sent := True\<rparr> else t) = t\<lparr>fin_sent := fin_sent t \<or> f\<rparr>"
  by (cases t) simp

lemma poll_send_data_cases [consumes 2, case_names idle failed sent]:
  assumes "poll_send_data m a s = (r, s')" and "send_wf s"
  obtains "length (send_buffer s) \<le> send_read_pos s" "\<not> should_send_fin s \<or> fin_sent s"
      "r = Inr (0, [], False, None)" "s' = s"
  | e where "r = Inl e" "s' = s" "m < 0 \<or> 2 ^ 63 \<le> unat a"
  | n f b where "r = Inr (tx_offset s, take n (drop (send_read_pos s) (send_buffer s)), f, b)"
      "send_read_pos s + n \<le> length (send_buffer s)" "n \<le> unat a" "int n \<le> m"
      "unat (tx_offset s) + n \<le> unat (max_stream_data_remote s)"
      "f \<longleftrightarrow> should_send_fin s \<and> send_read_pos s + n = length (send_buffer s) \<and> \<not> fin_sent s"
      "s' = s\<lparr>send_read_pos := send_read_pos s + n, tx_offset := tx_offset s + of_nat n,
              fin_sent := fin_sent s \<or> f\<rparr>"
proof (cases "length (send_buffer s) \<le> send_read_pos s \<and> (\<not> should_send_fin s \<or> fin_sent s)")
  case True
  have "(r, s') = (Inr (0, [], False, None), s)"
    unfolding assms(1) [symmetric] poll_send_data_def if_P [OF True] ..
  then show ?thesis using True that(1) by blast
next
  case busy: False
  define al where "al = unat (min (stream_available s) a)"
  define len where "len = min (min m (int (length (send_buffer s) - send_read_pos s))) (int al)"
  define n where "n = nat len"
  define f where "f \<longleftrightarrow> should_send_fin s \<and> length (send_buffer s) \<le> send_read_pos s + n \<and> \<not> fin_sent s"
  have al: "al \<le> unat a" "al + unat (tx_offset s) \<le> unat (max_stream_data_remote s)"
    using assms(2)
    by (auto simp: al_def min_def stream_available_def send_wf_def unat_sub word_le_nat_alt word_less_nat_alt)
  note poll = poll_send_data_def [of m a s, unfolded Let_def if_not_P [OF busy], folded al_def, folded len_def, folded n_def]
  show ?thesis
  proof (cases "2 ^ 63 \<le> al \<or> len < 0")
    case True
    then have "m < 0 \<or> 2 ^ 63 \<le> unat a" using al(1) by (auto simp: len_def)
    moreover obtain e where "r = Inl e" "s' = s"
      using assms(1) True unfolding poll by (cases "2 ^ 63 \<le> al") auto
    ultimately show ?thesis using that(2) by blast
  next
    case ok: False
    have n: "send_read_pos s + n \<le> length (send_buffer s)" "int n \<le> m" "n \<le> al"
      using ok assms(2) by (auto simp: n_def len_def send_wf_def)
    have tx: "unat (tx_offset s) + n \<le> unat (max_stream_data_remote s)"
      using n(3) al(2) by linarith
    then have add: "u64_add (tx_offset s) n = Inr (tx_offset s + of_nat n)"
      using unsigned_less [of "max_stream_data_remote s", where ?'a = nat] by (simp add: u64_add_cases)
    let ?s1 = "s\<lparr>send_read_pos := send_read_pos s + n, tx_offset := tx_offset s + of_nat n\<rparr>"
    obtain b where r: "r = Inr (tx_offset s, take n (drop (send_read_pos s) (send_buffer s)), f, b)"
        and s1: "s' = (if f then ?s1\<lparr>fin_sent := True\<rparr> else ?s1)"
      using assms(1) ok unfolding poll by (auto simp: add f_def should_send_fin_def)
    have s': "s' = s\<lparr>send_read_pos := send_read_pos s + n, tx_offset := tx_offset s + of_nat n,
                fin_sent := fin_sent s \<or> f\<rparr>"
      unfolding s1 mark_fin_sent by simp
    have f: "f \<longleftrightarrow> should_send_fin s \<and> send_read_pos s + n = length (send_buffer s) \<and> \<not> fin_sent s"
      using n(1) by (auto simp: f_def)
    show ?thesis using that(3) [OF r n(1) _ n(2) tx f s'] n(3) al(1) by simp
  qed
qed


lemma poll_send_data_wf:
  assumes "stream_wf s" and "poll_send_data m a s = (r, s')"
  shows "stream_wf s'"
proof -
  have wf: "send_wf s" "recv_wf s" using assms(1) by (simp_all add: stream_wf_def)
  from assms(2) wf(1) show ?thesis
  proof (cases rule: poll_send_data_cases)
    case (sent n f b)
    have "unat (tx_offset s) + n < 2 ^ 64"
      using sent(5) unsigned_less [of "max_stream_data_remote s", where ?'a = nat] by simp
    then have "send_wf s'"
      using sent wf(1) by (auto simp: send_wf_def should_send_fin_def unat_add_of_nat word_le_nat_alt)
    moreover have "recv_wf s'" using wf(2) by (rule recv_wf_frame) (simp_all add: sent(7))
    ultimately show ?thesis by (simp add: stream_wf_def)
  qed (use assms(1) in simp_all)
qed

lemma stream_step_wf:
  assumes "stream_wf s" and "stream_step c s = (r, s')"
  shows "stream_wf s'"
proof (cases c)
  case (OpWrite d)
  then show ?thesis using assms send_wf_opened [of s] recv_wf_opened [of s]
    by (auto simp: Stream_write_def Let_def stream_wf_def memory_append_def send_wf_def recv_wf_def
        split: sum.splits prod.splits if_splits)
next
  case (OpReset e)
  then show ?thesis using assms by (auto simp: Stream_reset_def stream_wf_def send_wf_def recv_wf_def)
next
  case (OpRead n)
  then show ?thesis using assms
    by (auto simp: Stream_read_def Let_def stream_wf_def send_wf_def recv_wf_def split: if_splits)
next
  case (OpFin off)
  have "send_wf (set_fin_offset off s)"
    unfolding set_fin_offset_def using assms(1)
    by (intro send_wf_check_fin) (auto simp: stream_wf_def send_wf_def split: option.split)
  moreover have "recv_wf (set_fin_offset off s)"
    using assms(1) by (auto intro!: recv_wf_frame [of s] simp: stream_wf_def stream_fields)
  ultimately show ?thesis using assms OpFin by (auto simp: stream_wf_def)
next
  case (OpReceive off d)
  then show ?thesis using assms receive_data_wf [OF assms(1)] by (auto split: prod.splits sum.splits)
next
  case (OpPoll m a)
  then show ?thesis using assms poll_send_data_wf [OF assms(1)] by (auto split: prod.splits sum.splits)
next
  case (OpMaxLocal m)
  have "recv_wf (s\<lparr>max_stream_data_local := m\<rparr>)" if "recv_wf s" "max_stream_data_local s < m"
  proof -
    have "unat (max_stream_data_local s) \<le> unat m" using that(2) by (simp add: word_less_nat_alt)
    then show ?thesis using that by (fastforce simp: recv_wf_def)
  qed
  then show ?thesis using assms OpMaxLocal
    by (cases "max_stream_data_local s < m") (auto simp: update_max_stream_data_local_def stream_wf_def send_wf_def)
next
  case (OpMaxRemote m)
  then show ?thesis using assms
    by (cases "max_stream_data_remote s < m")
      (auto simp: update_max_stream_data_def stream_wf_def send_wf_def recv_wf_def)
next
  case OpCloseLocal
  then show ?thesis using assms by (cases "state s") (auto simp: close_local_def stream_wf_def send_wf_def recv_wf_def)
next
  case OpCloseRemote
  then show ?thesis using assms by (cases "state s") (auto simp: close_remote_def stream_wf_def send_wf_def recv_wf_def)
qed


text \<open>
  A stream stays well-formed whatever its connection and its user do with it: after any
  sequence of writes, polls, received segments, reads, resets and limit updates, exceptions
  included, the send cursor is the send offset and stays in the send buffer, neither direction has
  moved past its flow control limit, the receive offset is the number of reassembled
  bytes, at least the bytes handed to the reader, the out-of-order segments are sorted by distinct
  offsets and end inside the limit, and the FIN is only marked sent on a stream closed
  locally or reset.
\<close>

theorem stream_run_wf:
  "stream_wf (snd (stream_run cs (Stream_new i max_remote max_local)))"
proof -
  obtain tr s where "stream_run cs (Stream_new i max_remote max_local) = (tr, s)" by fastforce
  then have "stream_wf s"
    by (rule stream_run_induct [where P = "\<lambda>_. stream_wf"]) (auto intro: stream_wf_new stream_step_wf)
  then show ?thesis using \<open>stream_run cs _ = (tr, s)\<close> by simp
qed


section \<open>What the reader gets\<close>

text \<open>\<open>(o, d)\<close> is a piece of the byte string \<open>bs\<close>.\<close>

definition slice_of :: "byte list \<Rightarrow> u64 \<times> byte list \<Rightarrow> bool" where
  "slice_of bs x \<longleftrightarrow> seg_end x \<le> length bs \<and> snd x = take (length (snd x)) (drop (unat (fst x)) bs)"

definition holds_prefix :: "byte list \<Rightarrow> stream \<Rightarrow> bool" where
  "holds_prefix bs s \<longleftrightarrow>
     recv_wf s \<and> length (recv_buffer s) \<le> length bs \<and> recv_buffer s = take (length (recv_buffer s)) bs \<and>
     (\<forall>x\<in>set (ooo_buffer s). slice_of bs x)"

lemma holds_prefix_frame:
  "holds_prefix bs s \<Longrightarrow> recv_wf s' \<Longrightarrow> recv_buffer s' = recv_buffer s \<Longrightarrow>
     ooo_buffer s' = ooo_buffer s \<Longrightarrow> holds_prefix bs s'"
  by (simp add: holds_prefix_def)

lemma slice_of_drop:
  assumes "slice_of bs (off, d)" and "k \<le> length d" and "unat x = unat off + k"
  shows "slice_of bs (x, drop k d)"
proof -
  have d: "d = take (length d) (drop (unat off) bs)" and le: "unat off + length d \<le> length bs"
    using assms(1) by (simp_all add: slice_of_def seg_end_def)
  have "drop k d = take (length d - k) (drop (unat x) bs)"
    by (subst d) (simp add: drop_take add.commute assms(3))
  moreover have "unat x + (length d - k) \<le> length bs" using le assms(2,3) by linarith
  ultimately show ?thesis unfolding slice_of_def seg_end_def fst_conv snd_conv length_drop by blast
qed

lemma holds_prefix_deliver:
  assumes h: "holds_prefix bs s" and d: "deliver d s = (q, s')" and sl: "slice_of bs (rx_offset s, d)"
    and lim: "unat (rx_offset s) + length d \<le> unat (max_stream_data_local s)"
  shows "holds_prefix bs s'"
proof -
  let ?n = "length (recv_buffer s)"
  have rx: "unat (rx_offset s) = ?n" using h by (simp add: holds_prefix_def recv_wf_def)
  have wf: "recv_wf s'" using recv_wf_deliver [OF _ d lim] h by (simp add: holds_prefix_def)
  have "d = take (length d) (drop ?n bs)" using sl rx by (simp add: slice_of_def)
  moreover have "recv_buffer s = take ?n bs" using h by (simp add: holds_prefix_def)
  ultimately have "recv_buffer s @ d = take (?n + length d) bs" by (metis take_add)
  then show ?thesis
    using wf h d sl rx by (auto simp: deliver_eq holds_prefix_def slice_of_def seg_end_def split: if_splits)
qed

lemma holds_prefix_round:
  assumes h: "holds_prefix bs s" and "flush_round s = (q, s')"
  shows "holds_prefix bs s'"
proof (cases "ooo_buffer s")
  case Nil then show ?thesis using assms by (simp add: flush_round_def)
next
  case (Cons x rest)
  obtain off d where x: "x = (off, d)" by fastforce
  let ?s = "s\<lparr>ooo_buffer := rest\<rparr>"
  have h': "holds_prefix bs ?s" and sl: "slice_of bs (off, d)"
    and e: "unat off + length d \<le> unat (max_stream_data_local s)"
    using h recv_wf_pop [of s x rest] Cons by (simp_all add: x seg_end_def holds_prefix_def)
  have dl: "holds_prefix bs t"
    if "deliver (drop k d) ?s = (r, t)" and "k \<le> length d" "unat (rx_offset s) = unat off + k" for k r t
    using holds_prefix_deliver [OF h' that(1)] slice_of_drop [OF sl that(2,3)] that e by simp
  show ?thesis
  proof (cases "off = rx_offset s")
    case True
    then show ?thesis using dl [of 0] assms(2) Cons by (auto simp: flush_round_def x split: sum.splits prod.splits)
  next
    case False
    have k: "unat (rx_offset s - off) \<le> length d \<and> unat (rx_offset s) = unat off + unat (rx_offset s - off)"
      if "off < rx_offset s" "rx_offset s < off + of_nat (length d)" "unat off + length d < 2 ^ 64"
    proof -
      have "unat (rx_offset s - off) = unat (rx_offset s) - unat off" using that(1) by (simp add: unat_sub)
      moreover have "unat off < unat (rx_offset s)" "unat (rx_offset s) < unat off + length d"
        using that(1,2) unat_add_of_nat [OF that(3)] by (simp_all add: word_less_nat_alt)
      ultimately show ?thesis by simp
    qed
    then show ?thesis using dl False assms(2) h h' Cons
      by (auto simp: flush_round_def x Let_def u64_add_cases split: if_splits sum.splits prod.splits)
  qed
qed

lemma holds_prefix_flush: "holds_prefix bs s \<Longrightarrow> flush_ooo_buffer s = (r, s') \<Longrightarrow> holds_prefix bs s'"
  by (erule flush_invariant [where P = "holds_prefix bs"]) (auto intro: holds_prefix_round)

lemma holds_prefix_receive:
  assumes h: "holds_prefix bs s" and sl: "slice_of bs (off, d)" and r: "receive_data off d s = (r, s')"
    and wf: "recv_wf s'"
  shows "holds_prefix bs s'"
proof -
  have op: "holds_prefix bs (opened s)"
    using h by (rule holds_prefix_frame) (use h in \<open>simp_all add: holds_prefix_def opened_fields recv_wf_opened\<close>)
  have dl: "holds_prefix bs t"
    if "deliver d (opened s) = (q, t)" "off = rx_offset s" "unat off + length d \<le> unat (max_stream_data_local s)" for q t
    using holds_prefix_deliver [OF op that(1)] sl that by (simp add: opened_fields)
  from r show ?thesis
  proof (cases rule: receive_data_cases)
    case (failed e t)
    then show ?thesis using dl holds_prefix_flush by blast
  next
    case (in_order t u)
    then have "holds_prefix bs u" using dl holds_prefix_flush by blast
    then show ?thesis by (rule holds_prefix_frame) (use wf in_order in \<open>simp_all add: stream_fields\<close>)
  next
    case buffered
    then show ?thesis using op sl wf by (auto simp: holds_prefix_def opened_fields)
  qed (use h op in simp_all)
qed

fun stream_reads :: "(stream_op \<times> stream_out) list \<Rightarrow> byte list" where
  "stream_reads [] = []"
| "stream_reads ((_, OutRead d) # tr) = d @ stream_reads tr"
| "stream_reads (_ # tr) = stream_reads tr"

lemma stream_reads_append [simp]: "stream_reads (tr @ tr') = stream_reads tr @ stream_reads tr'"
  by (induction tr rule: stream_reads.induct) simp_all


lemma holds_prefix_step:
  assumes h: "holds_prefix bs s" and wf: "stream_wf s" and "stream_step c s = (r, s')"
    and sl: "\<And>off d. c = OpReceive off d \<Longrightarrow> slice_of bs (off, d)"
  shows "holds_prefix bs s'"
proof -
  have wf': "recv_wf s'" using stream_step_wf [OF wf assms(3)] by (simp add: stream_wf_def)
  show ?thesis
  proof (cases "\<exists>off d. c = OpReceive off d")
    case True
    then obtain off d where c: "c = OpReceive off d" by blast
    then obtain q where "receive_data off d s = (q, s')"
      using assms(3) by (auto split: prod.splits sum.splits)
    then show ?thesis using holds_prefix_receive [OF h sl [OF c] _ wf'] by blast
  next
    case False
    then have "recv_buffer s' = recv_buffer s \<and> ooo_buffer s' = ooo_buffer s"
      using assms(3) wf
      by (cases c)
        (auto simp: Stream_write_def Stream_reset_def Stream_read_def update_max_stream_data_def
          update_max_stream_data_local_def stream_fields opened_fields Let_def stream_wf_def
          elim!: poll_send_data_cases split: prod.splits sum.splits if_splits)
    then show ?thesis using holds_prefix_frame [OF h wf'] by blast
  qed
qed

lemma reads_step:
  assumes "stream_wf s" and "stream_step c s = (r, s')"
  shows "recv_read_pos s \<le> recv_read_pos s' \<and> recv_read_pos s' \<le> length (recv_buffer s) \<and>
     stream_reads [(c, r)] = take (recv_read_pos s' - recv_read_pos s) (drop (recv_read_pos s) (recv_buffer s))"
proof -
  have p: "recv_read_pos s \<le> length (recv_buffer s)" using assms(1) by (simp add: stream_wf_def recv_wf_def)
  show ?thesis
  proof (cases c)
  case (OpRead n)
  then show ?thesis using p assms(2) by (auto simp: Stream_read_def Let_def split: if_splits)
next
  case (OpReceive off d)
  obtain q where q: "receive_data off d s = (q, s')"
    using assms(2) OpReceive by (auto split: prod.splits sum.splits)
  then have "recv_read_pos s' = recv_read_pos s"
  proof (cases rule: receive_data_cases)
    case (failed e t)
    then show ?thesis using recv_only_deliver recv_only_flush by (metis opened_fields(4) recv_only_def)
  next
    case (in_order t u)
    then show ?thesis using recv_only_deliver [OF in_order(6)] recv_only_flush [OF in_order(7)]
      by (simp add: stream_fields opened_fields recv_only_def)
  qed (simp_all add: opened_fields)
  moreover have "stream_reads [(c, r)] = []"
    using assms(2) OpReceive by (auto split: prod.splits sum.splits)
  ultimately show ?thesis using p by simp
next
  case (OpPoll m a)
  obtain q where q: "poll_send_data m a s = (q, s')"
    using assms(2) OpPoll by (auto split: prod.splits sum.splits)
  then have "recv_read_pos s' = recv_read_pos s"
    by (rule poll_send_data_cases) (use assms(1) in \<open>auto simp: stream_wf_def\<close>)
  moreover have "stream_reads [(c, r)] = []"
    using assms(2) OpPoll by (auto split: prod.splits sum.splits)
  ultimately show ?thesis using p by simp
next
  case (OpWrite d)
  then show ?thesis using p assms(2)
    by (auto simp: Stream_write_def opened_fields Let_def split: prod.splits sum.splits if_splits)
qed (use p assms(2) in \<open>auto simp: Stream_reset_def update_max_stream_data_def
        update_max_stream_data_local_def stream_fields split: if_splits\<close>)
qed

text \<open>
  C16: When every segment a stream receives is a piece of one byte string, in whatever order
  the pieces come, repeated or overlapping, and whatever else happens to the stream, its reader
  gets a prefix of that string: the concatenation of what the reads return is the string
  up to the read cursor.
\<close>

theorem reader_gets_prefix:
  assumes "\<forall>off d. OpReceive off d \<in> set cs \<longrightarrow> slice_of bs (off, d)"
    and run: "stream_run cs (Stream_new i max_remote max_local) = (tr, s)"
  shows "stream_reads tr = take (recv_read_pos s) bs \<and> recv_buffer s = take (unat (rx_offset s)) bs"
proof -
  have new: "holds_prefix bs (Stream_new i max_remote max_local)"
    using stream_wf_new [of i max_remote max_local]
    by (simp add: holds_prefix_def stream_wf_def) (simp add: Stream_new_def)
  have "stream_wf s \<and> holds_prefix bs s \<and> stream_reads tr = take (recv_read_pos s) bs"
    using run
  proof (rule stream_run_induct [where P = "\<lambda>tr s. stream_wf s \<and> holds_prefix bs s \<and>
        stream_reads tr = take (recv_read_pos s) bs"])
    fix c r t t' tr
    assume IH: "stream_wf t \<and> holds_prefix bs t \<and> stream_reads tr = take (recv_read_pos t) bs"
      and st: "stream_step c t = (r, t')" and c: "c \<in> set cs"
    have wf': "stream_wf t'" using IH st stream_step_wf by blast
    have h': "holds_prefix bs t'"
      by (rule holds_prefix_step [OF _ _ st]) (use IH assms(1) c in simp_all)
    let ?p = "recv_read_pos t" and ?p' = "recv_read_pos t'" and ?n = "length (recv_buffer t)"
    have p: "?p \<le> ?p'" "?p' \<le> ?n"
      and rd: "stream_reads [(c, r)] = take (?p' - ?p) (drop ?p (recv_buffer t))"
      using reads_step [OF conjunct1 [OF IH] st] by blast+
    have b: "recv_buffer t = take ?n bs" using IH unfolding holds_prefix_def by blast
    have "take (?p' - ?p) (drop ?p (recv_buffer t)) = take (?p' - ?p) (drop ?p bs)"
      by (subst b) (use p in \<open>simp add: drop_take\<close>)
    then have "stream_reads (tr @ [(c, r)]) = take (?p + (?p' - ?p)) bs"
      using IH rd by (simp only: stream_reads_append take_add)
    then show "stream_wf t' \<and> holds_prefix bs t' \<and> stream_reads (tr @ [(c, r)]) = take ?p' bs"
      using wf' h' p by simp
  qed (use new in \<open>simp_all add: stream_wf_new Stream_new_fields\<close>)
  then have "stream_reads tr = take (recv_read_pos s) bs" "recv_buffer s = take (length (recv_buffer s)) bs"
      "unat (rx_offset s) = length (recv_buffer s)"
    unfolding holds_prefix_def recv_wf_def by blast+
  then show ?thesis by (simp only:)
qed


lemmas stream_eval =
  Stream_new_def Stream_write_def Stream_read_def receive_data_def deliver_def memory_append_def
  MemoryLimit_def u64_add_def flush_ooo_buffer.simps flush_round_def opened_def check_fin_ready_def
  close_remote_def close_local_def set_fin_offset_def poll_send_data_def stream_available_def
  should_send_fin_def Let_def

theorem reader_gets_prefix_witness:
  "let cs = [OpReceive 1 [2, 3], OpReceive 0 [1, 2], OpRead 2, OpReceive 0 [1], OpRead 5]; bs = [1, 2, 3 :: byte]
   in (\<forall>off d. OpReceive off d \<in> set cs \<longrightarrow> slice_of bs (off, d)) \<and>
      stream_reads (fst (stream_run cs (Stream_new 0 0 10))) = [1, 2, 3]"
proof -
  let ?cs = "[OpReceive 1 [2, 3], OpReceive 0 [1, 2], OpRead 2, OpReceive 0 [1], OpRead 5]"
  let ?bs = "[1, 2, 3 :: byte]"
  have h: "\<forall>off d. OpReceive off d \<in> set ?cs \<longrightarrow> slice_of ?bs (off, d)"
    by (auto simp: slice_of_def seg_end_def)
  have run: "stream_run ?cs (Stream_new 0 0 10) =
      (fst (stream_run ?cs (Stream_new 0 0 10)), snd (stream_run ?cs (Stream_new 0 0 10)))" by simp
  have pos: "recv_read_pos (snd (stream_run ?cs (Stream_new 0 0 10))) = 3"
    by (simp add: stream_eval)
  show ?thesis unfolding Let_def using h reader_gets_prefix [OF h run] unfolding pos by simp
qed

text \<open>
  Three shortcomings of the reassembly and of the reset. A retransmission that starts before the
  receive offset is dropped even when it carries new bytes; so is a longer segment at an
  offset that is buffered already; and a reset by the peer makes the stream count as done
  though data written locally has still to be sent.
\<close>

lemma overlapping_retransmission_dropped:
  assumes "off < rx_offset s" and "unat off + length d \<le> unat (max_stream_data_local s)"
  shows "\<exists>s'. receive_data off d s = (Inr (), s') \<and> recv_buffer s' = recv_buffer s \<and> ooo_buffer s' = ooo_buffer s"
proof -
  obtain r s' where r: "receive_data off d s = (r, s')" by fastforce
  have "2 ^ 64 > unat off + length d"
    using assms(2) unsigned_less [of "max_stream_data_local s", where ?'a = nat] by simp
  with r have "r = Inr () \<and> recv_buffer s' = recv_buffer s \<and> ooo_buffer s' = ooo_buffer s"
    using assms by (cases rule: receive_data_cases) (auto simp: opened_fields)
  then show ?thesis using r by blast
qed

lemma longer_segment_dropped:
  "recv_buffer (snd (stream_run [OpReceive 1 [2], OpReceive 1 [2, 3], OpReceive 0 [1]] (Stream_new 0 0 10))) = [1, 2]"
  by (simp add: stream_eval)

lemma reset_discards_send_side:
  "has_send_data s \<Longrightarrow> fully_done (Stream_reset e s)"
  by (simp add: fully_done_def Stream_reset_def)

end
