(* ===== verification/Cr_Frame.thy ===== *)
theory Cr_Frame
  imports Cr_H3
begin

text \<open>
  QUIC frames of the Crystal stack (src/quic/frame.cr): the frame types, the encoder of every
  frame, and \<open>Frame.decode\<close>. The bytes a decoder has still to read are a list.
  \<open>Bytes.new\<close> of a length that does not fit an Int32 raises \<open>OverflowError\<close>; that the memory
  for a shorter length is there is assumed.
\<close>

section \<open>Frame types\<close>

datatype FrameType =
    PADDING | PING | ACK | RESET_STREAM | STOP_SENDING | CRYPTO | NEW_TOKEN | STREAM | MAX_DATA
  | MAX_STREAM_DATA | MAX_STREAMS | DATA_BLOCKED | STREAM_DATA_BLOCKED | STREAMS_BLOCKED
  | NEW_CONNECTION_ID | RETIRE_CONNECTION_ID | PATH_CHALLENGE | PATH_RESPONSE | CONNECTION_CLOSE
  | HANDSHAKE_DONE | DATAGRAM

fun FrameType_value :: "FrameType \<Rightarrow> u64" where
  "FrameType_value PADDING = 0x00"
| "FrameType_value PING = 0x01"
| "FrameType_value ACK = 0x02"
| "FrameType_value RESET_STREAM = 0x04"
| "FrameType_value STOP_SENDING = 0x05"
| "FrameType_value CRYPTO = 0x06"
| "FrameType_value NEW_TOKEN = 0x07"
| "FrameType_value STREAM = 0x08"
| "FrameType_value MAX_DATA = 0x10"
| "FrameType_value MAX_STREAM_DATA = 0x11"
| "FrameType_value MAX_STREAMS = 0x12"
| "FrameType_value DATA_BLOCKED = 0x14"
| "FrameType_value STREAM_DATA_BLOCKED = 0x15"
| "FrameType_value STREAMS_BLOCKED = 0x16"
| "FrameType_value NEW_CONNECTION_ID = 0x18"
| "FrameType_value RETIRE_CONNECTION_ID = 0x19"
| "FrameType_value PATH_CHALLENGE = 0x1a"
| "FrameType_value PATH_RESPONSE = 0x1b"
| "FrameType_value CONNECTION_CLOSE = 0x1c"
| "FrameType_value HANDSHAKE_DONE = 0x1e"
| "FrameType_value DATAGRAM = 0x30"

section \<open>Frames\<close>

text \<open>
  The fields are those of the source in its order; \<open>AckFrame\<close> ends with the three ECN counts
  and \<open>has_ecn?\<close>.
\<close>

datatype quic_frame =
    PaddingFrame
  | PingFrame
  | CryptoFrame u64 "byte list"
  | MaxDataFrame u64
  | MaxStreamDataFrame u64 u64
  | DataBlockedFrame u64
  | StreamDataBlockedFrame u64 u64
  | NewTokenFrame "byte list"
  | ResetStreamFrame u64 u64 u64
  | StopSendingFrame u64 u64
  | StreamFrame u64 u64 "byte list" bool
  | AckFrame u64 u64 u64 "(u64 \<times> u64) list" u64 u64 u64 bool
  | MaxStreamsFrame u64 bool
  | StreamsBlockedFrame u64 bool
  | PathChallengeFrame "byte list"
  | PathResponseFrame "byte list"
  | NewConnectionIdFrame u64 u64 "byte list" "byte list"
  | RetireConnectionIdFrame u64
  | HandshakeDoneFrame
  | DatagramFrame "byte list"
  | ConnectionCloseFrame u64 u64 string

fun frame_type :: "quic_frame \<Rightarrow> FrameType" where
  "frame_type PaddingFrame = PADDING"
| "frame_type PingFrame = PING"
| "frame_type (CryptoFrame _ _) = CRYPTO"
| "frame_type (MaxDataFrame _) = MAX_DATA"
| "frame_type (MaxStreamDataFrame _ _) = MAX_STREAM_DATA"
| "frame_type (DataBlockedFrame _) = DATA_BLOCKED"
| "frame_type (StreamDataBlockedFrame _ _) = STREAM_DATA_BLOCKED"
| "frame_type (NewTokenFrame _) = NEW_TOKEN"
| "frame_type (ResetStreamFrame _ _ _) = RESET_STREAM"
| "frame_type (StopSendingFrame _ _) = STOP_SENDING"
| "frame_type (StreamFrame _ _ _ _) = STREAM"
| "frame_type (AckFrame _ _ _ _ _ _ _ _) = ACK"
| "frame_type (MaxStreamsFrame _ _) = MAX_STREAMS"
| "frame_type (StreamsBlockedFrame _ _) = STREAMS_BLOCKED"
| "frame_type (PathChallengeFrame _) = PATH_CHALLENGE"
| "frame_type (PathResponseFrame _) = PATH_RESPONSE"
| "frame_type (NewConnectionIdFrame _ _ _ _) = NEW_CONNECTION_ID"
| "frame_type (RetireConnectionIdFrame _) = RETIRE_CONNECTION_ID"
| "frame_type HandshakeDoneFrame = HANDSHAKE_DONE"
| "frame_type (DatagramFrame _) = DATAGRAM"
| "frame_type (ConnectionCloseFrame _ _ _) = CONNECTION_CLOSE"

text \<open>The constructors that check their argument\<close>

definition PathChallengeFrame_new :: "byte list \<Rightarrow> cr_error + quic_frame" where
  "PathChallengeFrame_new data =
     (if length data \<noteq> 8 then Inl (ArgumentError ''PathChallenge data must be 8 bytes'')
      else Inr (PathChallengeFrame data))"

definition PathResponseFrame_new :: "byte list \<Rightarrow> cr_error + quic_frame" where
  "PathResponseFrame_new data =
     (if length data \<noteq> 8 then Inl (ArgumentError ''PathResponse data must be 8 bytes'')
      else Inr (PathResponseFrame data))"

section \<open>Encoding\<close>

text \<open>A frame is a sequence of variable-length integers and of raw bytes.\<close>

fun write_varints :: "u64 list \<Rightarrow> cr_error + byte list" where
  "write_varints [] = Inr []"
| "write_varints (v # vs) =
     rbind (VarInt_write v) (\<lambda>a. rbind (write_varints vs) (\<lambda>b. Inr (a @ b)))"

definition size_u64 :: "'a list \<Rightarrow> u64" where
  "size_u64 xs = of_nat (length xs)"

fun range_fields :: "(u64 \<times> u64) list \<Rightarrow> u64 list" where
  "range_fields [] = []"
| "range_fields ((gap, len) # rs) = gap # len # range_fields rs"

definition then_bytes :: "cr_error + byte list \<Rightarrow> byte list \<Rightarrow> cr_error + byte list" where
  "then_bytes r data = rbind r (\<lambda>a. Inr (a @ data))"

fun QuicFrame_encode :: "quic_frame \<Rightarrow> cr_error + byte list" where
  "QuicFrame_encode (CryptoFrame off data) =
     then_bytes (write_varints [FrameType_value CRYPTO, off, size_u64 data]) data"
| "QuicFrame_encode (MaxDataFrame m) = write_varints [FrameType_value MAX_DATA, m]"
| "QuicFrame_encode (MaxStreamDataFrame i m) = write_varints [FrameType_value MAX_STREAM_DATA, i, m]"
| "QuicFrame_encode (DataBlockedFrame m) = write_varints [FrameType_value DATA_BLOCKED, m]"
| "QuicFrame_encode (StreamDataBlockedFrame i m) =
     write_varints [FrameType_value STREAM_DATA_BLOCKED, i, m]"
| "QuicFrame_encode (NewTokenFrame token) =
     then_bytes (write_varints [FrameType_value NEW_TOKEN, size_u64 token]) token"
| "QuicFrame_encode (ResetStreamFrame i code final) =
     write_varints [FrameType_value RESET_STREAM, i, code, final]"
| "QuicFrame_encode (StopSendingFrame i code) = write_varints [FrameType_value STOP_SENDING, i, code]"
| "QuicFrame_encode (StreamFrame i off data fin) =
     then_bytes
       (write_varints
          [(let t = 0x08 OR 0x04 OR 0x02 in if fin then t OR 0x01 else t), i, off, size_u64 data])
       data"
| "QuicFrame_encode (AckFrame largest delay first ranges _ _ _ _) =
     write_varints
       ([FrameType_value ACK, largest, delay, size_u64 ranges, first] @ range_fields ranges)"
| "QuicFrame_encode (MaxStreamsFrame m bidi) = write_varints [(if bidi then 0x12 else 0x13), m]"
| "QuicFrame_encode (StreamsBlockedFrame m bidi) = write_varints [(if bidi then 0x16 else 0x17), m]"
| "QuicFrame_encode (PathChallengeFrame data) =
     then_bytes (write_varints [FrameType_value PATH_CHALLENGE]) data"
| "QuicFrame_encode (PathResponseFrame data) =
     then_bytes (write_varints [FrameType_value PATH_RESPONSE]) data"
| "QuicFrame_encode (NewConnectionIdFrame sn retire cid token) =
     rbind (write_varints [FrameType_value NEW_CONNECTION_ID, sn, retire]) (\<lambda>a.
       if 256 \<le> length cid then Inl OverflowError
       else Inr (a @ of_nat (length cid) # cid @ token))"
| "QuicFrame_encode (RetireConnectionIdFrame sn) =
     write_varints [FrameType_value RETIRE_CONNECTION_ID, sn]"
| "QuicFrame_encode (DatagramFrame data) =
     then_bytes (write_varints [0x31, size_u64 data]) data"
| "QuicFrame_encode (ConnectionCloseFrame code ft reason) =
     then_bytes (write_varints [FrameType_value CONNECTION_CLOSE, code, ft, size_u64 (string_bytes reason)])
       (string_bytes reason)"
| "QuicFrame_encode PaddingFrame = write_varints [FrameType_value PADDING]"
| "QuicFrame_encode PingFrame = write_varints [FrameType_value PING]"
| "QuicFrame_encode HandshakeDoneFrame = write_varints [FrameType_value HANDSHAKE_DONE]"

section \<open>Decoding\<close>

text \<open>\<open>Bytes.new(len)\<close> and \<open>io.read_fully\<close> into it\<close>

definition read_bytes :: "byte list \<Rightarrow> u64 \<Rightarrow> cr_error + (byte list \<times> byte list)" where
  "read_bytes io len = (if 2 ^ 31 \<le> unat len then Inl OverflowError else read_fully io (unat len))"

primrec read_ranges :: "nat \<Rightarrow> byte list \<Rightarrow> cr_error + ((u64 \<times> u64) list \<times> byte list)" where
  "read_ranges 0 io = Inr ([], io)"
| "read_ranges (Suc n) io =
     rbind (VarInt_decode io) (\<lambda>(gap, io).
     rbind (VarInt_decode io) (\<lambda>(len, io).
     rbind (read_ranges n io) (\<lambda>(rs, io). Inr ((gap, len) # rs, io))))"

definition decode1 :: "(u64 \<Rightarrow> quic_frame) \<Rightarrow> byte list \<Rightarrow> cr_error + (quic_frame \<times> byte list)" where
  "decode1 F io = rbind (VarInt_decode io) (\<lambda>(a, io). Inr (F a, io))"

definition decode2 :: "(u64 \<Rightarrow> u64 \<Rightarrow> quic_frame) \<Rightarrow> byte list \<Rightarrow> cr_error + (quic_frame \<times> byte list)" where
  "decode2 F io = rbind (VarInt_decode io) (\<lambda>(a, io). decode1 (F a) io)"

definition decode3 ::
    "(u64 \<Rightarrow> u64 \<Rightarrow> u64 \<Rightarrow> quic_frame) \<Rightarrow> byte list \<Rightarrow> cr_error + (quic_frame \<times> byte list)" where
  "decode3 F io = rbind (VarInt_decode io) (\<lambda>(a, io). decode2 (F a) io)"

definition decode_ack :: "u64 \<Rightarrow> byte list \<Rightarrow> cr_error + (quic_frame \<times> byte list)" where
  "decode_ack type_val io =
     rbind (VarInt_decode io) (\<lambda>(largest, io).
     rbind (VarInt_decode io) (\<lambda>(delay, io).
     rbind (VarInt_decode io) (\<lambda>(count, io).
     rbind (VarInt_decode io) (\<lambda>(first_range, io).
     rbind (read_ranges (unat count) io) (\<lambda>(ack_ranges, io).
       if type_val = 0x03 then
         decode3 (\<lambda>ect0 ect1 ecn_ce. AckFrame largest delay first_range ack_ranges ect0 ect1 ecn_ce True) io
       else Inr (AckFrame largest delay first_range ack_ranges 0 0 0 False, io))))))"

definition decode_stream :: "u64 \<Rightarrow> byte list \<Rightarrow> cr_error + (quic_frame \<times> byte list)" where
  "decode_stream type_val io =
     rbind (VarInt_decode io) (\<lambda>(i, io).
     rbind (if type_val AND 0x04 \<noteq> 0 then VarInt_decode io else Inr (0, io)) (\<lambda>(off, io).
     rbind (if type_val AND 0x02 \<noteq> 0 then VarInt_decode io else Inr (size_u64 io, io)) (\<lambda>(len, io).
     rbind (read_bytes io len) (\<lambda>(data, io).
       Inr (StreamFrame i off data (type_val AND 0x01 \<noteq> 0), io)))))"

definition decode_new_cid :: "byte list \<Rightarrow> cr_error + (quic_frame \<times> byte list)" where
  "decode_new_cid io =
     rbind (VarInt_decode io) (\<lambda>(sn, io).
     rbind (VarInt_decode io) (\<lambda>(retire, io).
     rbind (read_byte io) (\<lambda>(len, io).
     rbind (read_bytes io (ucast len)) (\<lambda>(cid, io).
     rbind (read_bytes io 16) (\<lambda>(token, io).
       Inr (NewConnectionIdFrame sn retire cid token, io))))))"

definition QuicFrame_decode :: "byte list \<Rightarrow> cr_error + (quic_frame \<times> byte list)" where
  "QuicFrame_decode io =
     rbind (VarInt_decode io) (\<lambda>(type_val, io).
       if type_val = FrameType_value PADDING then Inr (PaddingFrame, io)
       else if type_val = FrameType_value PING then Inr (PingFrame, io)
       else if type_val = FrameType_value CRYPTO then
         rbind (VarInt_decode io) (\<lambda>(off, io).
         rbind (VarInt_decode io) (\<lambda>(len, io).
         rbind (read_bytes io len) (\<lambda>(data, io). Inr (CryptoFrame off data, io))))
       else if type_val = FrameType_value NEW_TOKEN then
         rbind (VarInt_decode io) (\<lambda>(len, io).
         rbind (read_bytes io len) (\<lambda>(token, io). Inr (NewTokenFrame token, io)))
       else if type_val = FrameType_value RESET_STREAM then decode3 ResetStreamFrame io
       else if type_val = FrameType_value STOP_SENDING then decode2 StopSendingFrame io
       else if type_val = FrameType_value ACK \<or> type_val = 0x03 then decode_ack type_val io
       else if type_val = FrameType_value MAX_DATA then decode1 MaxDataFrame io
       else if type_val = FrameType_value MAX_STREAM_DATA then decode2 MaxStreamDataFrame io
       else if type_val = FrameType_value PATH_CHALLENGE then
         rbind (read_bytes io 8) (\<lambda>(data, io).
         rbind (PathChallengeFrame_new data) (\<lambda>f. Inr (f, io)))
       else if type_val = FrameType_value PATH_RESPONSE then
         rbind (read_bytes io 8) (\<lambda>(data, io).
         rbind (PathResponseFrame_new data) (\<lambda>f. Inr (f, io)))
       else if type_val = FrameType_value NEW_CONNECTION_ID then decode_new_cid io
       else if type_val = FrameType_value RETIRE_CONNECTION_ID then decode1 RetireConnectionIdFrame io
       else if type_val = FrameType_value HANDSHAKE_DONE then Inr (HandshakeDoneFrame, io)
       else if type_val = FrameType_value DATAGRAM \<or> type_val = FrameType_value DATAGRAM + 1 then
         rbind (if type_val AND 0x01 \<noteq> 0 then VarInt_decode io else Inr (size_u64 io, io)) (\<lambda>(len, io).
         rbind (read_bytes io len) (\<lambda>(data, io). Inr (DatagramFrame data, io)))
       else if type_val = FrameType_value CONNECTION_CLOSE then
         rbind (VarInt_decode io) (\<lambda>(error_code, io).
         rbind (VarInt_decode io) (\<lambda>(ft, io).
         rbind (VarInt_decode io) (\<lambda>(reason_len, io).
         rbind (read_bytes io reason_len) (\<lambda>(reason, io).
           Inr (ConnectionCloseFrame error_code ft (bytes_string reason), io)))))
       else if type_val = 0x1d then
         rbind (VarInt_decode io) (\<lambda>(error_code, io).
         rbind (VarInt_decode io) (\<lambda>(reason_len, io).
         rbind (read_bytes io reason_len) (\<lambda>(reason, io).
           Inr (ConnectionCloseFrame error_code 0 (bytes_string reason), io))))
       else if 0x08 \<le> type_val \<and> type_val \<le> 0x0f then decode_stream type_val io
       else if type_val = FrameType_value DATA_BLOCKED then decode1 DataBlockedFrame io
       else if type_val = FrameType_value STREAM_DATA_BLOCKED then decode2 StreamDataBlockedFrame io
       else if type_val = 0x12 \<or> type_val = 0x13 then
         decode1 (\<lambda>m. MaxStreamsFrame m (type_val = 0x12)) io
       else if type_val = 0x16 \<or> type_val = 0x17 then
         decode1 (\<lambda>m. StreamsBlockedFrame m (type_val = 0x16)) io
       else Inl (ProtocolViolation ''Unsupported frame type''))"


section \<open>Round trip\<close>

lemma VarInt_write_Inr: "VarInt_write v = Inr bs \<longleftrightarrow> v < 2 ^ 62 \<and> bs = writeVarInt v"
proof (cases "v < 2 ^ 62")
  case True
  then show ?thesis using VarInt_write_eq [OF True] by auto
next
  case False
  then have "\<not> v \<le> 0x3fffffffffffffff" by (simp add: word_le_nat_alt word_less_nat_alt)
  then have "\<not> v \<le> 0x3fffffff" "\<not> v \<le> 0x3fff" "\<not> v \<le> 0x3f" by (simp_all add: word_le_nat_alt)
  then show ?thesis using False \<open>\<not> v \<le> 0x3fffffffffffffff\<close> by (simp add: VarInt_write_def)
qed

lemma write_varints_Inr:
  "write_varints vs = Inr bs \<longleftrightarrow> (\<forall>v\<in>set vs. v < 2 ^ 62) \<and> bs = concat (map writeVarInt vs)"
  by (induction vs arbitrary: bs) (auto simp: rbind_Inr_iff VarInt_write_Inr)

declare write_varints.simps [simp del]

lemma then_bytes_Inr: "then_bytes r d = Inr bs \<longleftrightarrow> (\<exists>a. r = Inr a \<and> bs = a @ d)"
  by (auto simp: then_bytes_def rbind_Inr_iff)

lemma size_u64_small: "length xs < 2 ^ 31 \<Longrightarrow> size_u64 xs < 2 ^ 62 \<and> unat (size_u64 xs) = length xs"
  using of_nat_less_62 [of "length xs"] unat_of_nat_62 [of "length xs"] by (simp add: size_u64_def)

lemma read_bytes_app: "length d < 2 ^ 31 \<Longrightarrow> read_bytes (d @ r) (size_u64 d) = Inr (d, r)"
  using size_u64_small [of d] by (simp add: read_bytes_def read_fully_def)

lemma read_bytes_num: "length d = n \<Longrightarrow> n < 2 ^ 31 \<Longrightarrow> unat v = n \<Longrightarrow> read_bytes (d @ r) v = Inr (d, r)"
  by (simp add: read_bytes_def read_fully_def)

lemma read_ranges_app:
  "\<forall>v\<in>set (range_fields rs). v < 2 ^ 62 \<Longrightarrow>
     read_ranges (length rs) (concat (map writeVarInt (range_fields rs)) @ io) = Inr (rs, io)"
  by (induction rs rule: range_fields.induct) (simp_all add: VarInt_decode_write)

text \<open>What a frame built by the code satisfies: no byte string is 2 GiB long, and path data, tokens and
  connection ids have their sizes.\<close>

fun frame_ok :: "quic_frame \<Rightarrow> bool" where
  "frame_ok (CryptoFrame _ d) \<longleftrightarrow> length d < 2 ^ 31"
| "frame_ok (NewTokenFrame d) \<longleftrightarrow> length d < 2 ^ 31"
| "frame_ok (StreamFrame _ _ d _) \<longleftrightarrow> length d < 2 ^ 31"
| "frame_ok (AckFrame _ _ _ rs _ _ _ _) \<longleftrightarrow> length rs < 2 ^ 31"
| "frame_ok (PathChallengeFrame d) \<longleftrightarrow> length d = 8"
| "frame_ok (PathResponseFrame d) \<longleftrightarrow> length d = 8"
| "frame_ok (NewConnectionIdFrame _ _ cid token) \<longleftrightarrow> length token = 16"
| "frame_ok (DatagramFrame d) \<longleftrightarrow> length d < 2 ^ 31"
| "frame_ok (ConnectionCloseFrame _ _ r) \<longleftrightarrow> length r < 2 ^ 31"
| "frame_ok _ \<longleftrightarrow> True"

text \<open>The integers of a frame, and the frame that is on the wire: an ACK loses its ECN counts.\<close>

fun frame_ints :: "quic_frame \<Rightarrow> u64 list" where
  "frame_ints (CryptoFrame off d) = [off]"
| "frame_ints (MaxDataFrame m) = [m]"
| "frame_ints (MaxStreamDataFrame i m) = [i, m]"
| "frame_ints (DataBlockedFrame m) = [m]"
| "frame_ints (StreamDataBlockedFrame i m) = [i, m]"
| "frame_ints (ResetStreamFrame i c n) = [i, c, n]"
| "frame_ints (StopSendingFrame i c) = [i, c]"
| "frame_ints (StreamFrame i off d f) = [i, off]"
| "frame_ints (AckFrame l d f rs _ _ _ _) = [l, d, f] @ range_fields rs"
| "frame_ints (MaxStreamsFrame m _) = [m]"
| "frame_ints (StreamsBlockedFrame m _) = [m]"
| "frame_ints (NewConnectionIdFrame n r _ _) = [n, r]"
| "frame_ints (RetireConnectionIdFrame n) = [n]"
| "frame_ints (ConnectionCloseFrame c t _) = [c, t]"
| "frame_ints _ = []"

fun on_wire :: "quic_frame \<Rightarrow> quic_frame" where
  "on_wire (AckFrame l d f rs _ _ _ _) = AckFrame l d f rs 0 0 0 False"
| "on_wire f = f"

fun cid_fits :: "quic_frame \<Rightarrow> bool" where
  "cid_fits (NewConnectionIdFrame _ _ cid _) \<longleftrightarrow> length cid < 256"
| "cid_fits _ \<longleftrightarrow> True"

lemmas frame_enc = write_varints_Inr then_bytes_Inr size_u64_small [simplified]

lemma QuicFrame_encode_Inr_iff:
  "frame_ok f \<Longrightarrow> (\<exists>bs. QuicFrame_encode f = Inr bs) \<longleftrightarrow> (\<forall>v\<in>set (frame_ints f). v < 2 ^ 62) \<and> cid_fits f"
  by (cases f) (auto simp: frame_enc rbind_Inr_iff not_le)

lemmas frame_dec = QuicFrame_decode_def VarInt_decode_write size_u64_small [simplified] read_bytes_app

lemma frame_roundtrip_ack:
  assumes "QuicFrame_encode (AckFrame l d fr rs e0 e1 ce ecn) = Inr bs" and "length rs < 2 ^ 31"
  shows "QuicFrame_decode (bs @ rest) = Inr (AckFrame l d fr rs 0 0 0 False, rest)"
proof -
  have bs: "bs = writeVarInt 2 @ writeVarInt l @ writeVarInt d @ writeVarInt (size_u64 rs) @ writeVarInt fr @
      concat (map writeVarInt (range_fields rs))"
    and lt: "l < 2 ^ 62" "d < 2 ^ 62" "fr < 2 ^ 62" "\<forall>v\<in>set (range_fields rs). v < 2 ^ 62"
    using assms(1) by (simp_all add: write_varints_Inr)
  show ?thesis unfolding bs using lt assms(2) read_ranges_app [OF lt(4)]
    by (simp add: frame_dec decode_ack_def)
qed

lemma frame_roundtrip_cid:
  assumes "QuicFrame_encode (NewConnectionIdFrame sn retire cid token) = Inr bs" and "length token = 16"
  shows "QuicFrame_decode (bs @ rest) = Inr (NewConnectionIdFrame sn retire cid token, rest)"
proof -
  have bs: "bs = writeVarInt 0x18 @ writeVarInt sn @ writeVarInt retire @ of_nat (length cid) # cid @ token"
    and lt: "sn < 2 ^ 62" "retire < 2 ^ 62" "length cid < 256"
    using assms(1) by (simp_all add: rbind_Inr_iff write_varints_Inr split: if_splits)
  have "unat (ucast (of_nat (length cid) :: byte) :: u64) = length cid"
    using lt(3) by (simp add: unat_of_nat take_bit_nat_eq_self unsigned_ucast_eq)
  then show ?thesis unfolding bs using lt assms(2)
    by (simp add: frame_dec decode_new_cid_def read_bytes_num)
qed

lemma frame_roundtrip_stream:
  assumes "QuicFrame_encode (StreamFrame i off d fin) = Inr bs" and "length d < 2 ^ 31"
  shows "QuicFrame_decode (bs @ rest) = Inr (StreamFrame i off d fin, rest)"
proof -
  have bs: "bs = writeVarInt (if fin then 0x0f else 0x0e) @ writeVarInt i @ writeVarInt off @ writeVarInt (size_u64 d) @ d"
    and lt: "i < 2 ^ 62" "off < 2 ^ 62"
    using assms(1) by (auto simp: then_bytes_Inr write_varints_Inr split: if_splits)
  show ?thesis unfolding bs using lt assms(2) by (cases fin) (simp_all add: frame_dec decode_stream_def)
qed

lemma frame_roundtrip:
  assumes "frame_ok f" and "QuicFrame_encode f = Inr bs"
  shows "QuicFrame_decode (bs @ rest) = Inr (on_wire f, rest)"
proof (cases f)
  case (AckFrame l d fr rs e0 e1 ce ecn)
  then show ?thesis using assms frame_roundtrip_ack by simp
next
  case (NewConnectionIdFrame sn retire cid token)
  then show ?thesis using assms frame_roundtrip_cid by simp
next
  case (StreamFrame i off d fin)
  then show ?thesis using assms frame_roundtrip_stream by simp
next
  case (MaxStreamsFrame m b)
  then show ?thesis using assms by (cases b) (auto simp: write_varints_Inr frame_dec decode1_def)
next
  case (StreamsBlockedFrame m b)
  then show ?thesis using assms by (cases b) (auto simp: write_varints_Inr frame_dec decode1_def)
next
  case (PathChallengeFrame d)
  then show ?thesis using assms
    by (auto simp: write_varints_Inr then_bytes_Inr frame_dec read_bytes_num PathChallengeFrame_new_def)
next
  case (PathResponseFrame d)
  then show ?thesis using assms
    by (auto simp: write_varints_Inr then_bytes_Inr frame_dec read_bytes_num PathResponseFrame_new_def)
qed (use assms in \<open>auto simp: write_varints_Inr then_bytes_Inr frame_dec decode1_def decode2_def decode3_def\<close>)


section \<open>Packet payloads\<close>

text \<open>
  The payload of a packet: \<open>packet.frames.each &.encode(io)\<close> when it is sent, and the loop of
  the connection that decodes frames until the payload is used up.
\<close>

fun payload_encode :: "quic_frame list \<Rightarrow> cr_error + byte list" where
  "payload_encode [] = Inr []"
| "payload_encode (f # fs) =
     rbind (QuicFrame_encode f) (\<lambda>a. rbind (payload_encode fs) (\<lambda>b. Inr (a @ b)))"

lemma read_byte_le: "read_byte io = Inr (b, r) \<Longrightarrow> length r \<le> length io"
  by (cases io) auto

lemma VarInt_decode_le: "VarInt_decode io = Inr (v, r) \<Longrightarrow> length r \<le> length io"
  using VarInt_decode_shrinks [of io v r] by simp

lemma read_bytes_le: "read_bytes io n = Inr (d, r) \<Longrightarrow> length r \<le> length io"
  by (auto simp: read_bytes_def read_fully_def split: if_splits)

lemma read_ranges_le: "read_ranges n io = Inr (rs, r) \<Longrightarrow> length r \<le> length io"
  by (induction n arbitrary: io rs) (fastforce simp: rbind_Inr_iff dest: VarInt_decode_le)+

lemma decode123_le:
  "decode1 F1 io = Inr (f, r) \<Longrightarrow> length r \<le> length io"
  "decode2 F2 io = Inr (f, r) \<Longrightarrow> length r \<le> length io"
  "decode3 F3 io = Inr (f, r) \<Longrightarrow> length r \<le> length io"
  by (auto simp: decode1_def decode2_def decode3_def rbind_Inr_iff dest!: VarInt_decode_le)

lemmas decode_le = VarInt_decode_le read_byte_le read_bytes_le read_ranges_le decode123_le

lemma decode_ack_le: "decode_ack t io = Inr (f, r) \<Longrightarrow> length r \<le> length io"
  by (auto simp: decode_ack_def rbind_Inr_iff dest!: decode_le split: if_splits)

lemma decode_stream_le: "decode_stream t io = Inr (f, r) \<Longrightarrow> length r \<le> length io"
  by (auto simp: decode_stream_def rbind_Inr_iff dest!: decode_le split: if_splits)

lemma decode_new_cid_le: "decode_new_cid io = Inr (f, r) \<Longrightarrow> length r \<le> length io"
  by (auto simp: decode_new_cid_def rbind_Inr_iff dest!: decode_le)


lemma QuicFrame_decode_shrinks:
  assumes "QuicFrame_decode io = Inr (f, r)"
  shows "length r < length io"
proof -
  obtain t io1 where t: "VarInt_decode io = Inr (t, io1)"
    using assms by (auto simp: QuicFrame_decode_def rbind_Inr_iff)
  have "length r \<le> length io1"
    using assms t unfolding QuicFrame_decode_def
    by (auto simp: rbind_Inr_iff dest!: decode_le decode_ack_le decode_stream_le decode_new_cid_le
        split: if_splits simp del: FrameType_value.simps)
  then show ?thesis using VarInt_decode_shrinks [OF t] by simp
qed

function payload_decode :: "byte list \<Rightarrow> cr_error + quic_frame list" where
  "payload_decode io =
     (if io = [] then Inr []
      else
        (case QuicFrame_decode io of
           Inl e \<Rightarrow> Inl e
         | Inr (f, io') \<Rightarrow> rbind (payload_decode io') (\<lambda>fs. Inr (f # fs))))"
  by pat_completeness auto
termination by (relation "measure length") (auto dest: QuicFrame_decode_shrinks)

declare payload_decode.simps [simp del]

lemma QuicFrame_encode_nonempty: "frame_ok f \<Longrightarrow> QuicFrame_encode f = Inr bs \<Longrightarrow> bs \<noteq> []"
  using frame_roundtrip [of f bs "[]"] by (auto simp: QuicFrame_decode_def VarInt_decode_def)

lemma payload_encode_Inr_iff:
  "\<forall>f\<in>set fs. frame_ok f \<Longrightarrow>
     (\<exists>bs. payload_encode fs = Inr bs) \<longleftrightarrow>
       (\<forall>f\<in>set fs. (\<forall>v\<in>set (frame_ints f). v < 2 ^ 62) \<and> cid_fits f)"
proof (induction fs)
  case (Cons f fs)
  then show ?case using QuicFrame_encode_Inr_iff [of f] by (auto simp: rbind_Inr_iff)
qed simp

lemma payload_encode_decode:
  "payload_encode fs = Inr bs \<Longrightarrow> \<forall>f\<in>set fs. frame_ok f \<Longrightarrow> payload_decode bs = Inr (map on_wire fs)"
proof (induction fs arbitrary: bs)
  case Nil
  then show ?case by (simp add: payload_decode.simps)
next
  case (Cons f fs)
  then obtain a b where a: "QuicFrame_encode f = Inr a" and b: "payload_encode fs = Inr b" and bs: "bs = a @ b"
    by (auto simp: rbind_Inr_iff)
  have ok: "frame_ok f" using Cons.prems by simp
  have "QuicFrame_decode (a @ b) = Inr (on_wire f, b)" by (rule frame_roundtrip [OF ok a])
  then show ?case using Cons b bs QuicFrame_encode_nonempty [OF ok a]
    by (simp add: payload_decode.simps [of "a @ b"])
qed

text \<open>
  C13: Every frame with contents of the right size (\<open>frame_ok\<close>: byte strings below 2 GiB, eight bytes of
  path data, a reset token of 16 bytes) is read back as it was sent, alone or among others in the
  payload of a packet: encoding succeeds exactly when the integers of the frames fit 62 bits (and a new
  connection id has at most 255 bytes), and decoding the payload gives the frames
  in order, where an ACK has lost its ECN counts, which its encoder never writes.
\<close>

theorem payload_roundtrip:
  assumes "\<forall>f\<in>set fs. frame_ok f"
  shows "case payload_encode fs of
           Inl e \<Rightarrow> \<exists>f\<in>set fs. \<not> ((\<forall>v\<in>set (frame_ints f). v < 2 ^ 62) \<and> cid_fits f)
         | Inr bs \<Rightarrow> (\<forall>f\<in>set fs. (\<forall>v\<in>set (frame_ints f). v < 2 ^ 62) \<and> cid_fits f) \<and>
                     payload_decode bs = Inr (map on_wire fs)"
  using payload_encode_Inr_iff [OF assms] payload_encode_decode [OF _ assms]
  by (cases "payload_encode fs") auto

theorem payload_roundtrip_witness:
  "let fs = [PingFrame, StreamFrame 4 1000 [1, 2, 3] True, AckFrame 9 25 2 [(0, 3)] 5 0 1 True]
   in (\<forall>f\<in>set fs. frame_ok f) \<and> payload_encode fs =
        Inr [1, 15, 4, 0x43, 0xe8, 3, 1, 2, 3, 2, 9, 25, 1, 2, 0, 3] \<and>
      payload_decode [1, 15, 4, 0x43, 0xe8, 3, 1, 2, 3, 2, 9, 25, 1, 2, 0, 3] =
        Inr [PingFrame, StreamFrame 4 1000 [1, 2, 3] True, AckFrame 9 25 2 [(0, 3)] 0 0 0 False]"
proof -
  let ?fs = "[PingFrame, StreamFrame 4 1000 [1, 2, 3] True, AckFrame 9 25 2 [(0, 3)] 5 0 1 True]"
  have ok: "\<forall>f\<in>set ?fs. frame_ok f" by simp
  have enc: "payload_encode ?fs = Inr [1, 15, 4, 0x43, 0xe8, 3, 1, 2, 3, 2, 9, 25, 1, 2, 0, 3]"
    by code_simp
  show ?thesis using payload_roundtrip [OF ok] ok unfolding Let_def enc by simp
qed

end
