(* ===== verification/Stream_Interop.thy ===== *)
theory Stream_Interop
  imports Cr_Stream Cr_Frame
begin

text \<open>
  Two ends of a stream: what the polls of one end send and what the other end reassembles.
\<close>

section \<open>The sending end\<close>

text \<open>
  The bytes the writes of a run accepted, and the frames its polls gave: the connection builds a
  STREAM frame when there is data or the FIN (src/quic/connection.cr).
\<close>

fun stream_written :: "(stream_op \<times> stream_out) list \<Rightarrow> byte list" where
  "stream_written [] = []"
| "stream_written ((OpWrite d, OutWritten n) # tr) = take n d @ stream_written tr"
| "stream_written (_ # tr) = stream_written tr"

fun stream_sent :: "(stream_op \<times> stream_out) list \<Rightarrow> (u64 \<times> byte list \<times> bool) list" where
  "stream_sent [] = []"
| "stream_sent ((_, OutSent off d f b) # tr) =
     (if 0 < length d \<or> f then (off, d, f) # stream_sent tr else stream_sent tr)"
| "stream_sent (_ # tr) = stream_sent tr"

lemma stream_written_append [simp]: "stream_written (tr @ tr') = stream_written tr @ stream_written tr'"
  by (induction tr rule: stream_written.induct) simp_all

lemma stream_sent_append [simp]: "stream_sent (tr @ tr') = stream_sent tr @ stream_sent tr'"
  by (induction tr rule: stream_sent.induct) simp_all

fun contiguous :: "nat \<Rightarrow> (u64 \<times> byte list \<times> bool) list \<Rightarrow> bool" where
  "contiguous p [] \<longleftrightarrow> True"
| "contiguous p ((off, d, f) # cs) \<longleftrightarrow> unat off = p \<and> contiguous (p + length d) cs"

definition frames_data :: "(u64 \<times> byte list \<times> bool) list \<Rightarrow> byte list" where
  "frames_data cs = concat (map (\<lambda>(off, d, f). d) cs)"

lemma frames_data_simps [simp]:
  "frames_data [] = []" "frames_data ((off, d, f) # cs) = d @ frames_data cs"
  "frames_data (cs @ cs') = frames_data cs @ frames_data cs'"
  by (simp_all add: frames_data_def)

lemma contiguous_append:
  "contiguous p (cs @ cs') \<longleftrightarrow> contiguous p cs \<and> contiguous (p + length (frames_data cs)) cs'"
  by (induction p cs rule: contiguous.induct) (auto simp: add.assoc)

definition sender_inv :: "(stream_op \<times> stream_out) list \<Rightarrow> stream \<Rightarrow> bool" where
  "sender_inv tr s \<longleftrightarrow>
     stream_wf s \<and> send_buffer s = stream_written tr \<and>
     frames_data (stream_sent tr) = take (send_read_pos s) (stream_written tr) \<and>
     contiguous 0 (stream_sent tr)"

lemma other_ops_step:
  assumes "stream_step c s = (r, s')" and "stream_wf s"
    and "\<nexists>d. c = OpWrite d" and "\<nexists>m a. c = OpPoll m a"
  shows "send_buffer s' = send_buffer s \<and> send_read_pos s' = send_read_pos s \<and>
     tx_offset s' = tx_offset s \<and> fin_sent s' = fin_sent s \<and>
     stream_written [(c, r)] = [] \<and> stream_sent [(c, r)] = []"
proof (cases "\<exists>off d. c = OpReceive off d")
  case True
  then obtain off d q where c: "c = OpReceive off d" and q: "receive_data off d s = (q, s')"
    using assms(1) by (auto split: prod.splits sum.splits)
  have "send_buffer s' = send_buffer s \<and> send_read_pos s' = send_read_pos s \<and>
     tx_offset s' = tx_offset s \<and> fin_sent s' = fin_sent s"
    using q
  proof (cases rule: receive_data_cases)
    case (failed e t)
    then have "recv_only (opened s) s'"
      by (auto dest: recv_only_deliver recv_only_flush intro: recv_only_trans)
    then show ?thesis by (simp add: recv_only_def opened_fields)
  next
    case (in_order t u)
    then show ?thesis using recv_only_deliver [OF in_order(6)] recv_only_flush [OF in_order(7)]
      by (simp add: stream_fields opened_fields recv_only_def)
  qed (simp_all add: opened_fields)
  then show ?thesis using assms(1) c by (auto split: prod.splits sum.splits)
next
  case False
  then show ?thesis using assms
    by (cases c)
      (auto simp: Stream_reset_def Stream_read_def update_max_stream_data_def
        update_max_stream_data_local_def stream_fields Let_def split: if_splits)
qed

lemma write_step:
  assumes "stream_step (OpWrite d) s = (r, s')"
  obtains e where "r = OutRaised e" "s' = opened s"
  | "r = OutWritten 0" "s' = s" "state s = Closed \<or> state s = HalfClosedLocal"
  | "r = OutWritten (length d)" "s' = (opened s)\<lparr>send_buffer := send_buffer s @ d\<rparr>"
      "state s \<noteq> Closed" "state s \<noteq> HalfClosedLocal"
  using assms
  by (auto simp: Stream_write_def Let_def memory_append_def opened_fields split: sum.splits prod.splits if_splits)

lemma sender_inv_step:
  assumes inv: "sender_inv tr s" and st: "stream_step c s = (r, s')"
  shows "sender_inv (tr @ [(c, r)]) s'"
proof -
  have wf: "stream_wf s" and wf': "stream_wf s'"
    using inv stream_step_wf [OF _ st] by (auto simp: sender_inv_def)
  have pos: "send_read_pos s \<le> length (stream_written tr)"
    using inv unfolding sender_inv_def stream_wf_def send_wf_def by auto
  consider (wr) d where "c = OpWrite d" | (poll) m a where "c = OpPoll m a"
    | (other) "\<nexists>d. c = OpWrite d" "\<nexists>m a. c = OpPoll m a" by blast
  then show ?thesis
  proof cases
    case wr
    from st [unfolded wr] show ?thesis
      by (rule write_step) (use inv wf' wr pos in \<open>simp_all add: sender_inv_def opened_fields\<close>)
  next
    case other
    then show ?thesis using other_ops_step [OF st wf other] inv wf' by (simp add: sender_inv_def)
  next
    case poll
    obtain q where q: "poll_send_data m a s = (q, s')" using st poll by (auto split: prod.splits sum.splits)
    have swf: "send_wf s" using wf by (simp add: stream_wf_def)
    from q swf show ?thesis
    proof (cases rule: poll_send_data_cases)
      case (sent n f b)
      have "length (frames_data (stream_sent tr)) = send_read_pos s"
        using inv pos by (simp add: sender_inv_def)
      moreover have "r = OutSent (tx_offset s) (take n (drop (send_read_pos s) (send_buffer s))) f b"
        using st poll q sent(1) by simp
      ultimately show ?thesis
        using inv wf' poll sent swf pos
        by (auto simp: sender_inv_def contiguous_append take_add send_wf_def)
    qed (use st poll q inv wf' in \<open>auto simp: sender_inv_def\<close>)
  qed
qed

lemma sender_inv_run:
  assumes "stream_run cs (Stream_new i mr ml) = (tr, s)"
  shows "sender_inv tr s"
  using assms
proof (rule stream_run_induct [where P = sender_inv])
  show "sender_inv [] (Stream_new i mr ml)"
    by (simp add: sender_inv_def stream_wf_new Stream_new_fields)
qed (rule sender_inv_step)


text \<open>Without a reset the FIN goes out once, with the last frame, after all data.\<close>

lemma reset_only_by_reset:
  assumes "stream_step c s = (r, s')" and "stream_wf s" and "\<nexists>e. c = OpReset e" and "state s \<noteq> Reset"
  shows "state s' \<noteq> Reset"
proof -
  have close: "state (close_remote t) = Reset \<longleftrightarrow> state t = Reset" "state (close_local t) = Reset \<longleftrightarrow> state t = Reset"
    "state (opened t) = Reset \<longleftrightarrow> state t = Reset" for t
    by (auto simp: close_remote_def close_local_def opened_def)
  then have fin: "state (check_fin_ready t) = Reset \<longleftrightarrow> state t = Reset" for t
    by (simp add: check_fin_ready_def split: option.split)
  show ?thesis
  proof (cases c)
    case (OpReceive off d)
    then obtain q where "receive_data off d s = (q, s')" using assms(1) by (auto split: prod.splits sum.splits)
    then show ?thesis
    proof (cases rule: receive_data_cases)
      case (failed e t)
      then have "recv_only (opened s) s'"
        by (auto dest: recv_only_deliver recv_only_flush intro: recv_only_trans)
      then show ?thesis using assms(4) close by (simp add: recv_only_def)
    next
      case (in_order t u)
      then show ?thesis using recv_only_deliver [OF in_order(6)] recv_only_flush [OF in_order(7)] assms(4) close fin
        by (simp add: recv_only_def)
    qed (use assms(4) close in simp_all)
  next
    case (OpPoll m a)
    then obtain q where q: "poll_send_data m a s = (q, s')" using assms(1) by (auto split: prod.splits sum.splits)
    have "send_wf s" using assms(2) by (simp add: stream_wf_def)
    from q this show ?thesis by (rule poll_send_data_cases) (use assms(4) in simp_all)
  next
    case (OpWrite d)
    from assms(1) [unfolded this] show ?thesis by (rule write_step) (use assms(4) close in auto)
  next
    case (OpReset e)
    then show ?thesis using assms(3) by blast
  next
    case (OpRead n)
    then show ?thesis using assms(1,4) by (auto simp: Stream_read_def Let_def split: if_splits)
  next
    case (OpFin off)
    then have s': "s' = set_fin_offset off s" using assms(1) by simp
    show ?thesis unfolding s' set_fin_offset_def fin using assms(4) by (simp split: option.split)
  next
    case (OpMaxRemote m)
    then show ?thesis using assms(1,4) by (auto simp: update_max_stream_data_def split: if_splits)
  next
    case (OpMaxLocal m)
    then show ?thesis using assms(1,4) by (auto simp: update_max_stream_data_local_def split: if_splits)
  qed (use assms(1,4) close in auto)
qed

definition fin_last :: "(u64 \<times> byte list \<times> bool) list \<Rightarrow> stream \<Rightarrow> bool" where
  "fin_last fs s \<longleftrightarrow>
     (if fin_sent s
      then fs \<noteq> [] \<and> snd (snd (last fs)) \<and> (\<forall>x\<in>set (butlast fs). \<not> snd (snd x)) \<and>
           send_read_pos s = length (send_buffer s)
      else \<forall>x\<in>set fs. \<not> snd (snd x))"

lemma fin_last_step:
  assumes wf: "stream_wf s" and st: "stream_step c s = (r, s')" and nr: "\<nexists>e. c = OpReset e"
    and "state s \<noteq> Reset" and fl: "fin_last (stream_sent tr) s"
  shows "fin_last (stream_sent (tr @ [(c, r)])) s'"
proof -
  have closed: "fin_sent s \<Longrightarrow> state s = HalfClosedLocal \<or> state s = Closed"
    using wf assms(4) by (auto simp: stream_wf_def send_wf_def)
  consider (wr) d where "c = OpWrite d" | (poll) m a where "c = OpPoll m a"
    | (other) "\<nexists>d. c = OpWrite d" "\<nexists>m a. c = OpPoll m a" by blast
  then show ?thesis
  proof cases
    case wr
    from st [unfolded wr] show ?thesis
      by (rule write_step) (use fl wr closed in \<open>auto simp: fin_last_def opened_fields\<close>)
  next
    case other
    then show ?thesis using other_ops_step [OF st wf other] fl by (simp add: fin_last_def)
  next
    case poll
    obtain q where q: "poll_send_data m a s = (q, s')" using st poll by (auto split: prod.splits sum.splits)
    have swf: "send_wf s" using wf by (simp add: stream_wf_def)
    from q swf show ?thesis
    proof (cases rule: poll_send_data_cases)
      case (sent n f b)
      let ?d = "take n (drop (send_read_pos s) (send_buffer s))"
      have r: "stream_sent [(c, r)] = (if 0 < n \<or> f then [(tx_offset s, ?d, f)] else [])"
        using st poll q sent(1,2) by auto
      show ?thesis
      proof (cases "fin_sent s")
        case True
        then have "n = 0" "\<not> f" using fl sent(2,6) by (auto simp: fin_last_def)
        then show ?thesis using fl r sent(7) True by (simp add: fin_last_def)
      next
        case False
        then show ?thesis using fl r sent(6,7) by (cases f) (auto simp: fin_last_def)
      qed
    next
      case idle
      then have "stream_sent [(c, r)] = []" using st poll q by auto
      then show ?thesis using fl idle(4) by simp
    next
      case (failed e)
      then have "stream_sent [(c, r)] = []" using st poll q by auto
      then show ?thesis using fl failed(2) by simp
    qed
  qed
qed

lemma fin_last_run:
  assumes "stream_run cs (Stream_new i mr ml) = (tr, s)" and "\<forall>e. OpReset e \<notin> set cs"
  shows "fin_last (stream_sent tr) s"
proof -
  have "stream_wf s \<and> state s \<noteq> Reset \<and> fin_last (stream_sent tr) s"
    using assms(1)
  proof (rule stream_run_induct [where P = "\<lambda>tr s. stream_wf s \<and> state s \<noteq> Reset \<and> fin_last (stream_sent tr) s"])
    show "stream_wf (Stream_new i mr ml) \<and> state (Stream_new i mr ml) \<noteq> Reset \<and>
        fin_last (stream_sent []) (Stream_new i mr ml)"
      by (simp add: stream_wf_new Stream_new_fields fin_last_def)
  next
    fix c r t t' tr
    assume IH: "stream_wf t \<and> state t \<noteq> Reset \<and> fin_last (stream_sent tr) t"
      and st: "stream_step c t = (r, t')" and "c \<in> set cs"
    then have nr: "\<nexists>e. c = OpReset e" using assms(2) by blast
    show "stream_wf t' \<and> state t' \<noteq> Reset \<and> fin_last (stream_sent (tr @ [(c, r)])) t'"
      using IH st nr stream_step_wf [OF _ st] reset_only_by_reset [OF st _ nr] fin_last_step [OF _ st nr] by blast
  qed
  then show ?thesis by blast
qed


section \<open>The receiving end\<close>

text \<open>What \<open>handle_frame\<close> of the connection does with the stream of a STREAM frame\<close>

definition receive_stream_frame :: "u64 \<times> byte list \<times> bool \<Rightarrow> stream \<Rightarrow> (cr_error + unit) \<times> stream" where
  "receive_stream_frame x s =
     (case x of (off, d, fin) \<Rightarrow>
        (case receive_data off d s of
           (Inl e, s1) \<Rightarrow> (Inl e, s1)
         | (Inr _, s1) \<Rightarrow>
             if fin then
               (case u64_add off (length d) of
                  Inl e \<Rightarrow> (Inl e, s1)
                | Inr o' \<Rightarrow> (Inr (), set_fin_offset o' s1))
             else (Inr (), s1)))"

fun receive_stream_frames :: "(u64 \<times> byte list \<times> bool) list \<Rightarrow> stream \<Rightarrow> (cr_error + unit) \<times> stream" where
  "receive_stream_frames [] s = (Inr (), s)"
| "receive_stream_frames (x # xs) s =
     (case receive_stream_frame x s of
        (Inl e, s1) \<Rightarrow> (Inl e, s1)
      | (Inr _, s1) \<Rightarrow> receive_stream_frames xs s1)"

text \<open>The segments \<open>T\<close> cut the byte string \<open>bs\<close> into pieces.\<close>

definition tiling :: "byte list \<Rightarrow> (u64 \<times> byte list) set \<Rightarrow> bool" where
  "tiling bs T \<longleftrightarrow>
     (\<forall>x\<in>T. slice_of bs x) \<and>
     (\<forall>x\<in>T. \<forall>y\<in>T. x \<noteq> y \<longrightarrow> seg_end x \<le> unat (fst y) \<or> seg_end y \<le> unat (fst x)) \<and>
     inj_on fst T \<and>
     (\<forall>p<length bs. \<exists>x\<in>T. unat (fst x) \<le> p \<and> p < seg_end x)"

definition seg :: "u64 \<times> byte list \<times> bool \<Rightarrow> u64 \<times> byte list" where
  "seg x = (fst x, fst (snd x))"

lemma seg_simp [simp]: "seg (off, d, f) = (off, d)"
  by (simp add: seg_def)

lemma contiguous_ends:
  "contiguous p cs \<Longrightarrow> x \<in> set cs \<Longrightarrow> p \<le> unat (fst x) \<and> seg_end (seg x) \<le> p + length (frames_data cs)"
proof (induction p cs rule: contiguous.induct)
  case (2 p off d f cs)
  then show ?case by (fastforce simp: seg_end_def)
qed simp

lemma slice_of_append: "slice_of bs x \<Longrightarrow> slice_of (bs @ bs') x"
  by (cases x) (auto simp: slice_of_def seg_end_def)

lemma contiguous_tiling:
  assumes "contiguous 0 cs" and "\<forall>x\<in>set (butlast cs). fst (snd x) \<noteq> []"
  shows "tiling (frames_data cs) (seg ` set cs)"
  using assms
proof (induction cs rule: rev_induct)
  case Nil
  then show ?case by (simp add: tiling_def)
next
  case (snoc x cs)
  obtain off d f where x: "x = (off, d, f)" by (cases x)
  let ?n = "length (frames_data cs)"
  have c: "contiguous 0 cs" and off: "unat off = ?n" and ne: "\<forall>y\<in>set cs. fst (snd y) \<noteq> []"
    using snoc.prems by (simp_all add: contiguous_append x)
  have IH: "tiling (frames_data cs) (seg ` set cs)"
    using snoc.IH [OF c] ne by (auto dest: in_set_butlastD)
  have e: "seg_end y \<le> ?n" "unat (fst y) < ?n" if "y \<in> seg ` set cs" for y
  proof -
    from that obtain z where z: "z \<in> set cs" "y = seg z" by blast
    show "seg_end y \<le> ?n" using contiguous_ends [OF c z(1)] z by simp
    moreover have "unat (fst y) < seg_end y" using ne z by (simp add: seg_end_def seg_def)
    ultimately show "unat (fst y) < ?n" by simp
  qed
  have new: "slice_of (frames_data cs @ d) (off, d)" by (simp add: slice_of_def seg_end_def off)
  have "\<forall>y\<in>seg ` set cs. fst y \<noteq> off" using e(2) off by (metis less_irrefl)
  then have "inj_on fst (insert (off, d) (seg ` set cs))" using IH by (auto simp: tiling_def)
  moreover have "\<exists>y\<in>insert (off, d) (seg ` set cs). unat (fst y) \<le> p \<and> p < seg_end y"
    if "p < ?n + length d" for p
    using that IH off by (cases "p < ?n") (auto simp: tiling_def seg_end_def)
  moreover have "\<forall>y\<in>seg ` set cs. seg_end y \<le> unat off" using e(1) off by simp
  ultimately show ?case using IH new unfolding tiling_def
    by (auto simp: x intro: slice_of_append)
qed


text \<open>
  The buffer holds the string up to the receive offset, which is the boundary of a piece, and
  the buffered segments are pieces from the offset on.
\<close>

definition at_boundary :: "byte list \<Rightarrow> (u64 \<times> byte list) set \<Rightarrow> stream \<Rightarrow> bool" where
  "at_boundary bs T s \<longleftrightarrow>
     holds_prefix bs s \<and> length bs < MemoryLimit \<and> length bs \<le> unat (max_stream_data_local s) \<and>
     (\<forall>x\<in>T. seg_end x \<le> unat (rx_offset s) \<or> unat (rx_offset s) \<le> unat (fst x)) \<and>
     set (ooo_buffer s) \<subseteq> T"

lemma at_boundary_deliver:
  assumes b: "at_boundary bs T s" and T: "tiling bs T" and x: "(rx_offset s, d) \<in> T"
  obtains t where "deliver d s = (Inr (), t)" "at_boundary bs T t" "ooo_buffer t = ooo_buffer s"
    "unat (rx_offset t) = unat (rx_offset s) + length d" "recv_only s t"
    "\<forall>x\<in>T. unat (rx_offset s) < unat (fst x) \<longrightarrow> unat (rx_offset t) \<le> unat (fst x)"
proof -
  have sl: "slice_of bs (rx_offset s, d)" using T x by (auto simp: tiling_def)
  then have e: "unat (rx_offset s) + length d \<le> length bs" by (simp add: slice_of_def seg_end_def)
  have rx: "unat (rx_offset s) = length (recv_buffer s)"
    using b by (simp add: at_boundary_def holds_prefix_def recv_wf_def)
  let ?t = "s\<lparr>recv_buffer := recv_buffer s @ d, rx_offset := rx_offset s + of_nat (length d)\<rparr>"
  have d: "deliver d s = (Inr (), ?t)"
    using deliver_eq [OF rx, of d] b e rx by (simp add: at_boundary_def)
  have rx': "unat (rx_offset ?t) = unat (rx_offset s) + length d"
    using b e MemoryLimit_u64 by (simp add: at_boundary_def unat_add_of_nat)
  have hp: "holds_prefix bs ?t"
    using holds_prefix_deliver [OF _ d sl] b e by (simp add: at_boundary_def)
  have sep: "seg_end y \<le> unat (rx_offset s) + length d \<or> unat (rx_offset s) + length d \<le> unat (fst y)"
    if "y \<in> T" for y
  proof (cases "y = (rx_offset s, d)")
    case False
    then have "seg_end y \<le> unat (rx_offset s) \<or> seg_end (rx_offset s, d) \<le> unat (fst y)"
      using T x that unfolding tiling_def by fastforce
    then show ?thesis by (auto simp: seg_end_def)
  qed (simp add: seg_end_def)
  have ahead: "unat (rx_offset s) + length d \<le> unat (fst y)"
    if "y \<in> T" "unat (rx_offset s) < unat (fst y)" for y
  proof -
    have "y \<noteq> (rx_offset s, d)" using that by auto
    then have "seg_end y \<le> unat (rx_offset s) \<or> seg_end (rx_offset s, d) \<le> unat (fst y)"
      using T x that unfolding tiling_def by fastforce
    then show ?thesis using that by (auto simp: seg_end_def)
  qed
  have "at_boundary bs T ?t" using hp b sep rx' by (simp add: at_boundary_def)
  then show ?thesis using that [OF d] rx' ahead recv_only_deliver [OF d] by simp
qed

lemma at_boundary_flush:
  assumes "at_boundary bs T s" and "tiling bs T"
    and "\<forall>x\<in>set (ooo_buffer s). rx_offset s \<le> fst x"
  shows "\<exists>s'. flush_ooo_buffer s = (Inr (), s') \<and> at_boundary bs T s' \<and>
     (\<forall>x\<in>set (ooo_buffer s'). rx_offset s' < fst x) \<and> rx_offset s \<le> rx_offset s' \<and>
     (\<forall>x\<in>set (ooo_buffer s). x \<in> set (ooo_buffer s') \<or> seg_end x \<le> unat (rx_offset s'))"
  using assms
proof (induction "ooo_buffer s" arbitrary: s)
  case Nil
  then have "flush_round s = (Inr False, s)" by (simp add: flush_round_def)
  then show ?case using Nil by (simp add: flush_ooo_buffer.simps [of s])
next
  case (Cons x rest)
  obtain off d where x: "x = (off, d)" by fastforce
  note o = Cons.hyps(2) [symmetric, unfolded x]
  have sorted: "\<forall>y\<in>set rest. off < fst y"
    using Cons.prems(1) o by (auto simp: at_boundary_def holds_prefix_def recv_wf_def)
  show ?case
  proof (cases "off = rx_offset s")
    case False
    then have "rx_offset s < off" using Cons.prems(3) o by auto
    then have "flush_round s = (Inr False, s)" and "\<forall>y\<in>set (ooo_buffer s). rx_offset s < fst y"
      using o sorted by (auto simp: flush_round_def)
    then show ?thesis using Cons.prems by (simp add: flush_ooo_buffer.simps [of s])
  next
    case True
    let ?s = "s\<lparr>ooo_buffer := rest\<rparr>"
    have b: "at_boundary bs T ?s"
      using Cons.prems(1) o recv_wf_pop [OF _ o] by (auto simp: at_boundary_def holds_prefix_def)
    have inT: "(rx_offset ?s, d) \<in> T" using Cons.prems(1) o True by (auto simp: at_boundary_def)
    from b Cons.prems(2) inT obtain t where t: "deliver d ?s = (Inr (), t)" "at_boundary bs T t"
        "ooo_buffer t = rest" "unat (rx_offset t) = unat (rx_offset s) + length d"
        "\<forall>x\<in>T. unat (rx_offset s) < unat (fst x) \<longrightarrow> unat (rx_offset t) \<le> unat (fst x)"
      by (rule at_boundary_deliver) (simp_all add: o)
    have "flush_round s = (Inr True, t)" using o True t(1) by (simp add: flush_round_def)
    then have fl: "flush_ooo_buffer s = flush_ooo_buffer t" by (simp add: flush_ooo_buffer.simps [of s])
    have "\<forall>y\<in>set (ooo_buffer t). rx_offset t \<le> fst y"
    proof
      fix y assume y: "y \<in> set (ooo_buffer t)"
      then have "y \<in> T" using t(2) by (auto simp: at_boundary_def)
      moreover have "unat (rx_offset s) < unat (fst y)" using sorted y t(3) True by (simp add: word_less_nat_alt)
      ultimately show "rx_offset t \<le> fst y" using t(5) by (simp add: word_le_nat_alt)
    qed
    from Cons.hyps(1) [OF t(3) [symmetric] t(2) Cons.prems(2) this]
    obtain s' where s': "flush_ooo_buffer t = (Inr (), s')" "at_boundary bs T s'"
        "\<forall>x\<in>set (ooo_buffer s'). rx_offset s' < fst x" "rx_offset t \<le> rx_offset s'"
        "\<forall>x\<in>set rest. x \<in> set (ooo_buffer s') \<or> seg_end x \<le> unat (rx_offset s')"
      using t(3) by auto
    have "seg_end x \<le> unat (rx_offset t)" using t(4) True by (simp add: x seg_end_def)
    then have "seg_end x \<le> unat (rx_offset s')" using s'(4) by (simp add: word_le_nat_alt)
    moreover have "rx_offset s \<le> rx_offset s'" using t(4) s'(4) by (simp add: word_le_nat_alt)
    ultimately show ?thesis using fl s' o x by auto
  qed
qed


lemma at_boundary_frame:
  assumes "at_boundary bs T s" and "recv_buffer s' = recv_buffer s" and "rx_offset s' = rx_offset s"
    and "ooo_buffer s' = ooo_buffer s" and "max_stream_data_local s' = max_stream_data_local s"
    and "recv_read_pos s' = recv_read_pos s"
  shows "at_boundary bs T s'"
  using assms(1) unfolding at_boundary_def holds_prefix_def recv_wf_def assms(2-6) .

definition caught_up :: "byte list \<Rightarrow> (u64 \<times> byte list) set \<Rightarrow> (u64 \<times> byte list \<times> bool) set \<Rightarrow> stream \<Rightarrow> bool" where
  "caught_up bs T got s \<longleftrightarrow>
     at_boundary bs T s \<and> (\<forall>x\<in>set (ooo_buffer s). rx_offset s < fst x) \<and>
     (\<forall>x\<in>got. seg_end (seg x) \<le> unat (rx_offset s) \<or> seg x \<in> set (ooo_buffer s)) \<and>
     state s \<in> {Idle, Open, HalfClosedRemote} \<and> (got \<noteq> {} \<longrightarrow> state s \<noteq> Idle) \<and>
     (state s = HalfClosedRemote \<longrightarrow> unat (rx_offset s) = length bs) \<and>
     (\<forall>y. fin_offset s = Some y \<longrightarrow> unat y = length bs \<and> unat (rx_offset s) < length bs) \<and>
     ((\<exists>x\<in>got. snd (snd x)) \<longrightarrow> fin_offset s \<noteq> None \<or> state s = HalfClosedRemote)"

lemma at_boundary_rx: "at_boundary bs T s \<Longrightarrow> unat (rx_offset s) \<le> length bs"
  by (simp add: at_boundary_def holds_prefix_def recv_wf_def)

lemma caught_up_receive:
  assumes c: "caught_up bs T got s" and T: "tiling bs T" and x: "(off, d) \<in> T"
  shows "\<exists>s1. receive_data off d s = (Inr (), s1) \<and> caught_up bs T (insert (off, d, False) got) s1"
proof -
  obtain r s1 where r: "receive_data off d s = (r, s1)" by fastforce
  have b: "at_boundary bs T s" and lim: "length bs < MemoryLimit" "length bs \<le> unat (max_stream_data_local s)"
    using c by (simp_all add: caught_up_def at_boundary_def)
  have sl: "seg_end (off, d) \<le> length bs" using T x by (auto simp: tiling_def slice_of_def)
  have op: "at_boundary bs T (opened s)" by (rule at_boundary_frame [OF b]) (simp_all add: opened_fields)
  have st: "state (opened s) \<in> {Open, HalfClosedRemote}" "state s = HalfClosedRemote \<longleftrightarrow> state (opened s) = HalfClosedRemote"
    using c by (auto simp: caught_up_def opened_def)
  have dl: "\<exists>t u. deliver d (opened s) = (Inr (), t) \<and> flush_ooo_buffer t = (Inr (), u) \<and>
      at_boundary bs T u \<and> (\<forall>x\<in>set (ooo_buffer u). rx_offset u < fst x) \<and> recv_only (opened s) u \<and>
      unat off + length d \<le> unat (rx_offset u) \<and>
      (\<forall>x\<in>set (ooo_buffer s). x \<in> set (ooo_buffer u) \<or> seg_end x \<le> unat (rx_offset u))"
    if off: "off = rx_offset s"
  proof -
    have x': "(rx_offset (opened s), d) \<in> T" using x off by (simp add: opened_fields)
    from op T x' obtain t where t: "deliver d (opened s) = (Inr (), t)" "at_boundary bs T t"
        "ooo_buffer t = ooo_buffer (opened s)" "unat (rx_offset t) = unat (rx_offset (opened s)) + length d"
        "recv_only (opened s) t"
        "\<forall>x\<in>T. unat (rx_offset (opened s)) < unat (fst x) \<longrightarrow> unat (rx_offset t) \<le> unat (fst x)"
      by (rule at_boundary_deliver)
    have "rx_offset t \<le> fst y" if "y \<in> set (ooo_buffer t)" for y
    proof -
      have "y \<in> T" using that t(2) by (auto simp: at_boundary_def)
      moreover have "unat (rx_offset s) < unat (fst y)"
        using that t(3) c by (auto simp: caught_up_def opened_fields word_less_nat_alt)
      ultimately show ?thesis using t(6) by (simp add: opened_fields word_le_nat_alt)
    qed
    then obtain u where u: "flush_ooo_buffer t = (Inr (), u)" "at_boundary bs T u"
        "\<forall>x\<in>set (ooo_buffer u). rx_offset u < fst x" "rx_offset t \<le> rx_offset u"
        "\<forall>x\<in>set (ooo_buffer t). x \<in> set (ooo_buffer u) \<or> seg_end x \<le> unat (rx_offset u)"
      using at_boundary_flush [OF t(2) T] by blast
    have "unat off + length d \<le> unat (rx_offset u)"
      using t(4) u(4) off by (simp add: opened_fields word_le_nat_alt)
    then show ?thesis
      using t u recv_only_trans [OF t(5) recv_only_flush [OF u(1)]] by (auto simp: opened_fields)
  qed
  from r show ?thesis
  proof (cases rule: receive_data_cases)
    case closed
    then have "unat (rx_offset s) = length bs" "state s = HalfClosedRemote" using c by (auto simp: caught_up_def)
    then show ?thesis using c r closed sl by (auto simp: caught_up_def)
  next
    case (refused e)
    then show ?thesis using sl lim MemoryLimit_u64 [OF lim(1)] by (auto simp: seg_end_def)
  next
    case (failed e t)
    then show ?thesis using dl [OF failed(2)] by auto
  next
    case (in_order t u)
    have u: "at_boundary bs T u" "\<forall>x\<in>set (ooo_buffer u). rx_offset u < fst x" "recv_only (opened s) u"
        "unat off + length d \<le> unat (rx_offset u)"
        "\<forall>x\<in>set (ooo_buffer s). x \<in> set (ooo_buffer u) \<or> seg_end x \<le> unat (rx_offset u)"
      using dl [OF in_order(2)] in_order(6,7) by auto
    have u': "state u = Open" "fin_offset u = fin_offset s"
      using u(3) st in_order(3,4) by (auto simp: recv_only_def opened_fields)
    have mono: "unat (rx_offset s) \<le> unat (rx_offset u)" using u(4) in_order(2) by simp
    have got: "\<forall>y\<in>insert (off, d, False) got. seg_end (seg y) \<le> unat (rx_offset u) \<or> seg y \<in> set (ooo_buffer u)"
      using c u(4,5) mono by (auto simp: caught_up_def seg_end_def intro: order_trans)
    have "caught_up bs T (insert (off, d, False) got) (check_fin_ready u)"
    proof (cases "fin_offset s")
      case None
      then have "\<not> (\<exists>x\<in>got. snd (snd x))" using c in_order(4) by (auto simp: caught_up_def)
      then show ?thesis using u u' got None by (auto simp: caught_up_def check_fin_ready_def)
    next
      case (Some y)
      then have y: "unat y = length bs" using c by (simp add: caught_up_def)
      have le: "y \<le> rx_offset u \<longleftrightarrow> unat (rx_offset u) = length bs"
        using y at_boundary_rx [OF u(1)] by (auto simp: word_le_nat_alt)
      have "at_boundary bs T (check_fin_ready u)" by (rule at_boundary_frame [OF u(1)]) (simp_all add: stream_fields)
      then show ?thesis using u u' got Some y le at_boundary_rx [OF u(1)]
        by (auto simp: caught_up_def stream_fields) (auto simp: check_fin_ready_def close_remote_def)
    qed
    then show ?thesis using r in_order(1,8) by simp
  next
    case buffered
    have "receive_data off d s = (Inr (), s1)" using r buffered(1) by simp
    moreover have "recv_wf s1"
      using op recv_wf_buffered [of "opened s" off d] buffered(3,4,5)
      by (simp add: at_boundary_def holds_prefix_def opened_fields)
    then have "at_boundary bs T s1"
      using op x T buffered(5) unfolding at_boundary_def holds_prefix_def tiling_def
      by (simp add: opened_fields)
    ultimately show ?thesis using c st buffered
      by (auto simp: caught_up_def opened_fields)
  next
    case ignored
    have "seg_end (off, d) \<le> unat (rx_offset s) \<or> (off, d) \<in> set (ooo_buffer s)"
      using ignored(2)
    proof
      assume "off < rx_offset s"
      then show ?thesis using b x by (force simp: at_boundary_def word_less_nat_alt)
    next
      assume "off \<in> fst ` set (ooo_buffer s)"
      then obtain d' where d': "(off, d') \<in> set (ooo_buffer s)" by auto
      then have "(off, d') \<in> T" using b by (auto simp: at_boundary_def)
      then have "(off, d') = (off, d)"
        using T x inj_onD [of fst T "(off, d')" "(off, d)"] by (simp add: tiling_def)
      then show ?thesis using d' by simp
    qed
    then show ?thesis using c op st r ignored by (auto simp: caught_up_def opened_fields)
  qed
qed


lemma caught_up_fin:
  assumes c: "caught_up bs T got s" and ne: "got \<noteq> {}" and y: "unat y = length bs"
  shows "caught_up bs T got (set_fin_offset y s)"
    and "fin_offset (set_fin_offset y s) \<noteq> None \<or> state (set_fin_offset y s) = HalfClosedRemote"
proof -
  have b: "at_boundary bs T s" using c by (simp add: caught_up_def)
  have fo: "fin_offset s = None \<or> fin_offset s = Some y"
    using c y by (cases "fin_offset s") (auto simp: caught_up_def word_unat_eq_iff)
  then have t: "set_fin_offset y s = check_fin_ready (s\<lparr>fin_offset := Some y\<rparr>)"
  proof
    assume "fin_offset s = Some y"
    then have up: "s\<lparr>fin_offset := Some y\<rparr> = s" by (cases s) simp
    show ?thesis unfolding up using \<open>fin_offset s = Some y\<close> by (simp add: set_fin_offset_def)
  qed (simp add: set_fin_offset_def)
  have st: "state s = Open \<or> state s = HalfClosedRemote" using c ne by (auto simp: caught_up_def)
  have le: "y \<le> rx_offset s \<longleftrightarrow> unat (rx_offset s) = length bs"
    using y at_boundary_rx [OF b] by (auto simp: word_le_nat_alt)
  have b': "at_boundary bs T (set_fin_offset y s)"
    by (rule at_boundary_frame [OF b]) (simp_all add: stream_fields)
  show "caught_up bs T got (set_fin_offset y s)"
  proof (cases "unat (rx_offset s) = length bs")
    case True
    then have "state (set_fin_offset y s) = HalfClosedRemote" "fin_offset (set_fin_offset y s) = None"
      using st le unfolding t by (auto simp: check_fin_ready_def close_remote_def)
    then show ?thesis using c b' True by (simp add: caught_up_def stream_fields)
  next
    case False
    then have "state (set_fin_offset y s) = state s" "fin_offset (set_fin_offset y s) = Some y"
      using le unfolding t by (auto simp: check_fin_ready_def)
    then show ?thesis using c b' False at_boundary_rx [OF b] y by (auto simp: caught_up_def stream_fields)
  qed
  show "fin_offset (set_fin_offset y s) \<noteq> None \<or> state (set_fin_offset y s) = HalfClosedRemote"
    using st unfolding t by (auto simp: check_fin_ready_def close_remote_def)
qed

lemma caught_up_frame:
  assumes c: "caught_up bs T got s" and T: "tiling bs T" and x: "seg x \<in> T"
    and fin: "snd (snd x) \<Longrightarrow> seg_end (seg x) = length bs"
  shows "\<exists>s'. receive_stream_frame x s = (Inr (), s') \<and> caught_up bs T (insert x got) s'"
proof -
  obtain off d f where e: "x = (off, d, f)" by (cases x)
  obtain s1 where s1: "receive_data off d s = (Inr (), s1)" "caught_up bs T (insert (off, d, False) got) s1"
    using caught_up_receive [OF c T] x by (auto simp: e)
  show ?thesis
  proof (cases f)
    case False
    then show ?thesis using s1 by (simp add: e receive_stream_frame_def)
  next
    case True
    have n: "unat off + length d = length bs" using fin True by (simp add: e seg_end_def)
    moreover have "length bs < MemoryLimit" using c by (simp add: caught_up_def at_boundary_def)
    ultimately have lt: "unat off + length d < 2 ^ 64" using MemoryLimit_u64 by simp
    let ?y = "off + of_nat (length d)"
    have y: "unat ?y = length bs" using n unat_add_of_nat [OF lt] by simp
    note cf = caught_up_fin [OF s1(2) _ y]
    have "caught_up bs T (insert x got) (set_fin_offset ?y s1)"
      using cf by (auto simp: caught_up_def e)
    then show ?thesis using s1(1) lt True by (simp add: e receive_stream_frame_def u64_add_def)
  qed
qed

lemma caught_up_frames:
  assumes "caught_up bs T got s" and "tiling bs T" and "seg ` set xs \<subseteq> T"
    and "\<forall>x\<in>set xs. snd (snd x) \<longrightarrow> seg_end (seg x) = length bs"
  shows "\<exists>s'. receive_stream_frames xs s = (Inr (), s') \<and> caught_up bs T (got \<union> set xs) s'"
  using assms
proof (induction xs arbitrary: got s)
  case (Cons x xs)
  then obtain s1 where s1: "receive_stream_frame x s = (Inr (), s1)" "caught_up bs T (insert x got) s1"
    using caught_up_frame [of bs T got s x] by auto
  from Cons.IH [OF s1(2)] Cons.prems show ?case using s1(1) by auto
qed simp

lemma caught_up_complete:
  assumes c: "caught_up bs T got s" and T: "tiling bs T" and all: "T \<subseteq> seg ` got"
  shows "recv_buffer s = bs"
proof -
  have b: "at_boundary bs T s" using c by (simp add: caught_up_def)
  have "unat (rx_offset s) = length bs"
  proof (rule ccontr)
    assume "unat (rx_offset s) \<noteq> length bs"
    then have "unat (rx_offset s) < length bs" using at_boundary_rx [OF b] by simp
    then obtain x where x: "x \<in> T" "unat (fst x) \<le> unat (rx_offset s)" "unat (rx_offset s) < seg_end x"
      using T unfolding tiling_def by blast
    then obtain z where "z \<in> got" "seg z = x" using all by blast
    then have "x \<in> set (ooo_buffer s)" using c x(3) by (auto simp: caught_up_def)
    then have "rx_offset s < fst x" using c by (simp add: caught_up_def)
    then show False using x(2) by (simp add: word_less_nat_alt)
  qed
  moreover have "recv_buffer s = take (length (recv_buffer s)) bs" "unat (rx_offset s) = length (recv_buffer s)"
    using b unfolding at_boundary_def holds_prefix_def recv_wf_def by blast+
  ultimately show ?thesis by simp
qed

lemma stream_frames_transfer:
  assumes run: "stream_run cs (Stream_new i max_remote max_local) = (tr, s)"
    and no_reset: "\<forall>e. OpReset e \<notin> set cs"
    and delivered: "set frames = set (stream_sent tr)"
    and limit: "send_read_pos s \<le> unat max_local'"
  shows "\<exists>r. receive_stream_frames frames (Stream_new j max_remote' max_local') = (Inr (), r) \<and>
     recv_buffer r = take (send_read_pos s) (stream_written tr) \<and>
     (fin_sent s \<longrightarrow> recv_buffer r = stream_written tr \<and> state r = HalfClosedRemote)"
proof -
  let ?fs = "stream_sent tr" and ?new = "Stream_new j max_remote' max_local'"
  let ?bs = "frames_data ?fs" and ?T = "seg ` set (stream_sent tr)"
  have inv: "sender_inv tr s" and fl: "fin_last ?fs s"
    using sender_inv_run [OF run] fin_last_run [OF run no_reset] by simp_all
  then have bs: "?bs = take (send_read_pos s) (stream_written tr)"
    and pos: "send_read_pos s \<le> length (stream_written tr)" "length (stream_written tr) < MemoryLimit"
    unfolding sender_inv_def stream_wf_def send_wf_def by auto
  have ct: "contiguous 0 ?fs" using inv by (simp add: sender_inv_def)
  have data: "fst (snd x) \<noteq> [] \<or> snd (snd x)" if "x \<in> set ?fs" for x
    using that by (induction tr rule: stream_sent.induct) (auto split: if_splits)
  have "\<forall>x\<in>set (butlast ?fs). \<not> snd (snd x)"
    using fl by (auto simp: fin_last_def dest: in_set_butlastD split: if_splits)
  then have T: "tiling ?bs ?T" using contiguous_tiling [OF ct] data in_set_butlastD by fastforce
  have fin: "seg_end (seg x) = length ?bs" if "x \<in> set ?fs" "snd (snd x)" for x
  proof -
    have ne: "?fs \<noteq> []" using that by auto
    have "x = last ?fs" using that fl append_butlast_last_id [OF ne]
      by (metis (no_types, lifting) Un_iff empty_iff fin_last_def insert_iff list.set(1,2) set_append)
    moreover obtain off d f where l: "last ?fs = (off, d, f)" by (cases "last ?fs")
    moreover have "?fs = butlast ?fs @ [(off, d, f)]" using append_butlast_last_id [OF ne] l by simp
    then have "unat off = length (frames_data (butlast ?fs)) \<and> ?bs = frames_data (butlast ?fs) @ d"
      using ct contiguous_append [of 0 "butlast ?fs" "[(off, d, f)]"] frames_data_simps(3) [of "butlast ?fs" "[(off, d, f)]"]
      by simp
    ultimately show ?thesis by (simp add: seg_end_def)
  qed
  have "holds_prefix ?bs ?new"
    using stream_wf_new [of j max_remote' max_local'] by (simp add: holds_prefix_def stream_wf_def Stream_new_fields)
  then have "caught_up ?bs ?T {} ?new"
    using bs pos limit by (simp add: caught_up_def at_boundary_def Stream_new_fields)
  then obtain r where r: "receive_stream_frames frames ?new = (Inr (), r)" "caught_up ?bs ?T (set frames) r"
    using caught_up_frames [OF _ T, of "{}" ?new frames] fin delivered by auto
  have rb: "recv_buffer r = ?bs" by (rule caught_up_complete [OF r(2) T]) (simp add: delivered)
  moreover have "state r = HalfClosedRemote \<and> ?bs = stream_written tr" if "fin_sent s"
  proof
    have l: "?fs \<noteq> []" "snd (snd (last ?fs))" and p: "send_read_pos s = length (send_buffer s)"
      using fl that by (simp_all add: fin_last_def)
    show "?bs = stream_written tr" using bs p inv by (simp add: sender_inv_def)
    have "\<exists>x\<in>set frames. snd (snd x)" using l last_in_set [OF l(1)] delivered by auto
    then have "fin_offset r \<noteq> None \<or> state r = HalfClosedRemote" using r(2) by (simp add: caught_up_def)
    moreover have "unat (rx_offset r) = length ?bs"
      using r(2) rb unfolding caught_up_def at_boundary_def holds_prefix_def recv_wf_def by metis
    ultimately show "state r = HalfClosedRemote" using r(2) by (auto simp: caught_up_def)
  qed
  ultimately show ?thesis using r(1) bs by auto
qed


section \<open>Through the packets\<close>

text \<open>
  The frames of stream \<open>i\<close> in a payload, and what a connection does for that stream with a
  decrypted payload: each frame is decoded and handled before the next is decoded.
\<close>

fun stream_frames :: "u64 \<Rightarrow> quic_frame list \<Rightarrow> (u64 \<times> byte list \<times> bool) list" where
  "stream_frames i [] = []"
| "stream_frames i (StreamFrame j off d fin # fs) =
     (if j = i then (off, d, fin) # stream_frames i fs else stream_frames i fs)"
| "stream_frames i (_ # fs) = stream_frames i fs"

function receive_payload :: "u64 \<Rightarrow> byte list \<Rightarrow> stream \<Rightarrow> (cr_error + unit) \<times> stream" where
  "receive_payload i io s =
     (if io = [] then (Inr (), s)
      else
        (case QuicFrame_decode io of
           Inl e \<Rightarrow> (Inl e, s)
         | Inr (f, io') \<Rightarrow>
             (case receive_stream_frames (stream_frames i [f]) s of
                (Inl e, s1) \<Rightarrow> (Inl e, s1)
              | (Inr _, s1) \<Rightarrow> receive_payload i io' s1)))"
  by pat_completeness auto
termination by (relation "measure (\<lambda>(i, io, s). length io)") (auto dest: QuicFrame_decode_shrinks)

declare receive_payload.simps [simp del]

fun receive_payloads :: "u64 \<Rightarrow> byte list list \<Rightarrow> stream \<Rightarrow> (cr_error + unit) \<times> stream" where
  "receive_payloads i [] s = (Inr (), s)"
| "receive_payloads i (p # ps) s =
     (case receive_payload i p s of
        (Inl e, s1) \<Rightarrow> (Inl e, s1)
      | (Inr _, s1) \<Rightarrow> receive_payloads i ps s1)"

lemma receive_stream_frames_append:
  "receive_stream_frames (xs @ ys) s =
     (case receive_stream_frames xs s of
        (Inl e, s1) \<Rightarrow> (Inl e, s1)
      | (Inr _, s1) \<Rightarrow> receive_stream_frames ys s1)"
  by (induction xs arbitrary: s) (auto split: prod.splits sum.splits)

lemma stream_frames_append [simp]: "stream_frames i (fs @ gs) = stream_frames i fs @ stream_frames i gs"
  by (induction i fs rule: stream_frames.induct) simp_all

lemma stream_frames_Cons: "stream_frames i (f # fs) = stream_frames i [f] @ stream_frames i fs"
  using stream_frames_append [of i "[f]" fs] by simp

lemma stream_frames_on_wire [simp]: "stream_frames i (map on_wire fs) = stream_frames i fs"
  by (induction i fs rule: stream_frames.induct) simp_all

lemma receive_payload_decoded:
  "payload_decode p = Inr fs \<Longrightarrow> receive_payload i p s = receive_stream_frames (stream_frames i fs) s"
proof (induction p arbitrary: fs s rule: payload_decode.induct)
  case (1 io)
  show ?case
  proof (cases "io = []")
    case True
    then have "fs = []" using "1.prems" by (simp add: payload_decode.simps [of "[]"])
    then show ?thesis using True by (simp add: receive_payload.simps [of i "[]"])
  next
    case False
    obtain f io' gs where d: "QuicFrame_decode io = Inr (f, io')" "payload_decode io' = Inr gs" "fs = f # gs"
      using "1.prems" False by (auto simp: payload_decode.simps [of io] rbind_Inr_iff split: sum.splits)
    note IH = "1.IH" [OF False d(1) refl d(2)]
    show ?thesis using False d(1)
      by (simp add: receive_payload.simps [of i io] d(3) stream_frames_Cons [of i f gs]
          receive_stream_frames_append IH split: prod.split sum.split)
  qed
qed

lemma receive_payloads_decoded:
  assumes "list_all2 (\<lambda>p fs. payload_decode p = Inr (map on_wire fs)) ps pks"
  shows "receive_payloads i ps s = receive_stream_frames (stream_frames i (concat pks)) s"
  using assms
proof (induction ps pks arbitrary: s rule: list_all2_induct)
  case (Cons p ps pk pks)
  then show ?case
    using receive_payload_decoded [OF Cons.hyps(1), of i s]
    by (simp add: receive_stream_frames_append split: prod.split sum.split)
qed simp

text \<open>
  C3: Two ends of a stream agree, whatever the network does between them. The sender's
  stream is written, polled, limited and closed, but not reset, in any order; its STREAM frames are packed with
  other frames into packets, which arrive in any order, some of them several times, but each frame at
  least once. The receiver, if its limit admits the data, decodes every
  packet without an exception and then holds exactly the bytes sent, in order. When
  the FIN went out as well, these are all bytes written and the receiver has seen the end.
\<close>

theorem stream_transfer:
  assumes run: "stream_run cs (Stream_new i max_remote max_local) = (tr, s)"
    and no_reset: "\<forall>e. OpReset e \<notin> set cs"
    and packets: "list_all2 (\<lambda>p fs. payload_encode fs = Inr p \<and> (\<forall>f\<in>set fs. frame_ok f)) ps pks"
    and delivered: "set (stream_frames i (concat pks)) = set (stream_sent tr)"
    and limit: "send_read_pos s \<le> unat max_local'"
  shows "\<exists>r. receive_payloads i ps (Stream_new i max_remote' max_local') = (Inr (), r) \<and>
     recv_buffer r = take (send_read_pos s) (stream_written tr) \<and>
     (fin_sent s \<longrightarrow> recv_buffer r = stream_written tr \<and> state r = HalfClosedRemote)"
proof -
  have "list_all2 (\<lambda>p fs. payload_decode p = Inr (map on_wire fs)) ps pks"
    using packets
  proof (rule list_all2_mono)
    fix p fs
    assume "payload_encode fs = Inr p \<and> (\<forall>f\<in>set fs. frame_ok f)"
    then show "payload_decode p = Inr (map on_wire fs)" using payload_encode_decode by blast
  qed
  then show ?thesis
    using stream_frames_transfer [OF run no_reset delivered limit, of i max_remote']
    by (simp add: receive_payloads_decoded)
qed


theorem stream_transfer_witness:
  "\<exists>p1 p2 r. payload_encode [PingFrame, StreamFrame 4 2 [3] True] = Inr p1 \<and>
     payload_encode [StreamFrame 4 0 [1, 2] False] = Inr p2 \<and>
     receive_payloads 4 [p1, p2, p1] (Stream_new 4 0 3) = (Inr (), r) \<and>
     recv_buffer r = [1, 2, 3] \<and> state r = HalfClosedRemote"
proof -
  let ?cs = "[OpWrite [1, 2, 3], OpPoll 2 100, OpCloseLocal, OpPoll 10 100]"
  let ?p1 = "[1, 15, 4, 2, 1, 3] :: byte list" and ?p2 = "[14, 4, 0, 2, 1, 2] :: byte list"
  let ?k1 = "[PingFrame, StreamFrame 4 2 [3] True]" and ?k2 = "[StreamFrame 4 0 [1, 2] False]"
  define tr where "tr = fst (stream_run ?cs (Stream_new 4 100 0))"
  define s where "s = snd (stream_run ?cs (Stream_new 4 100 0))"
  have run: "stream_run ?cs (Stream_new 4 100 0) = (tr, s)" by (simp add: tr_def s_def)
  have sent: "stream_sent tr = [(0, [1, 2], False), (2, [3], True)]"
    unfolding tr_def by (simp add: stream_eval)
  have wr: "stream_written tr = [1, 2, 3]" "fin_sent s" "send_read_pos s = 3"
    unfolding tr_def s_def by (simp_all add: stream_eval)
  have e: "payload_encode ?k1 = Inr ?p1" "payload_encode ?k2 = Inr ?p2" by code_simp+
  have pk: "list_all2 (\<lambda>p fs. payload_encode fs = Inr p \<and> (\<forall>f\<in>set fs. frame_ok f))
      [?p1, ?p2, ?p1] [?k1, ?k2, ?k1]"
    unfolding list_all2_Cons e by simp
  have "\<exists>r. receive_payloads 4 [?p1, ?p2, ?p1] (Stream_new 4 0 3) = (Inr (), r) \<and>
     recv_buffer r = take (send_read_pos s) (stream_written tr) \<and>
     (fin_sent s \<longrightarrow> recv_buffer r = stream_written tr \<and> state r = HalfClosedRemote)"
    by (rule stream_transfer [OF run _ pk]) (auto simp: sent wr)
  then show ?thesis using e wr by auto
qed

end
