(* ===== verification/Cr_Recovery.thy ===== *)
theory Cr_Recovery
  imports Cr_Frame
begin

text \<open>
  Loss recovery and congestion control of the Crystal stack (src/quic/recovery.cr) with NewReno, its
  default controller, and the ACK frame a packet number space builds from the packets it
  has received (\<open>Connection#send\<close> in src/quic/connection.cr). Times and time spans are nanoseconds;
  \<open>scale x k\<close> is the product of the span \<open>x\<close> with the float \<open>k / 1000\<close>, an argument of what
  uses it. \<open>clock\<close> is what \<open>Time.local\<close> returns inside an operation. The hash \<open>@sent_packets\<close> is an association list in insertion order. The
  counters of bytes are natural numbers: a connection that moves \<open>2\<^sup>6\<^sup>4\<close> bytes is out of reach. The
  estimator of BBR and the pacing rate, both in floats, are left out.
\<close>

section \<open>State\<close>

record sent_packet =
  sp_packet_number :: u64
  sp_time_sent :: int
  sp_bytes :: nat
  sp_frames :: "quic_frame list"
  sp_space_id :: int

type_synonym sp_table = "((int \<times> u64) \<times> sent_packet) list"

record recovery =
  largest_acked :: "int \<Rightarrow> u64"
  loss_time :: "int option"
  sent_packets :: sp_table
  latest_rtt :: int
  smoothed_rtt :: int
  rttvar :: int
  min_rtt :: int
  peer_max_ack_delay :: int
  congestion_window :: nat
  bytes_in_flight :: nat
  ssthresh :: nat
  recovery_start_time :: "int option"
  pto_count :: int
  last_ecn_ce :: u64

definition milliseconds :: "int \<Rightarrow> int" where
  "milliseconds n = n * 1000000"

definition SPAN_MAX :: int where
  "SPAN_MAX = (2 ^ 63 - 1) * 1000000000 + 999999999"

definition MAX_DATAGRAM_SIZE :: nat where "MAX_DATAGRAM_SIZE = 1472"
definition INITIAL_WINDOW :: nat where "INITIAL_WINDOW = 32 * MAX_DATAGRAM_SIZE"
definition MIN_WINDOW :: nat where "MIN_WINDOW = 2 * MAX_DATAGRAM_SIZE"

definition Recovery_new :: "nat \<Rightarrow> recovery" where
  "Recovery_new initial_window =
     \<lparr>largest_acked = (\<lambda>_. 0), loss_time = None, sent_packets = [],
      latest_rtt = milliseconds 333, smoothed_rtt = milliseconds 333, rttvar = milliseconds 166,
      min_rtt = SPAN_MAX, peer_max_ack_delay = milliseconds 25,
      congestion_window = initial_window, bytes_in_flight = 0, ssthresh = 2 ^ 64 - 1,
      recovery_start_time = None, pto_count = 0, last_ecn_ce = 0\<rparr>"

section \<open>Sending\<close>

definition on_packet_sent ::
    "u64 \<Rightarrow> nat \<Rightarrow> quic_frame list \<Rightarrow> bool \<Rightarrow> int \<Rightarrow> int \<Rightarrow> recovery \<Rightarrow> recovery" where
  "on_packet_sent pn bytes fs ack_eliciting space_id now r =
     (if \<not> ack_eliciting then r
      else r\<lparr>sent_packets :=
               AList.update (space_id, pn)
                 \<lparr>sp_packet_number = pn, sp_time_sent = now, sp_bytes = bytes, sp_frames = fs,
                  sp_space_id = space_id\<rparr> (sent_packets r),
             bytes_in_flight := bytes_in_flight r + bytes\<rparr>)"

section \<open>Acknowledgements\<close>

text \<open>Division of a time span by an integer truncates.\<close>

definition span_div :: "int \<Rightarrow> int \<Rightarrow> int" where
  "span_div x k = sgn x * (\<bar>x\<bar> div k)"

definition update_rtt :: "(int \<Rightarrow> nat \<Rightarrow> int) \<Rightarrow> int \<Rightarrow> int \<Rightarrow> recovery \<Rightarrow> recovery" where
  "update_rtt scale latest ack_delay r =
     (let r = r\<lparr>latest_rtt := latest, min_rtt := min (min_rtt r) latest\<rparr>;
          adjusted = (if min_rtt r + ack_delay < latest then latest - ack_delay else latest)
      in if smoothed_rtt r = milliseconds 333
         then r\<lparr>smoothed_rtt := latest, rttvar := span_div latest 2\<rparr>
         else
           (let r = r\<lparr>rttvar := scale (rttvar r) 750 + scale \<bar>smoothed_rtt r - adjusted\<bar> 250\<rparr>
            in r\<lparr>smoothed_rtt := scale (smoothed_rtt r) 875 + scale adjusted 125\<rparr>))"

text \<open>One packet number of \<open>ack_range\<close>, and the loop over all numbers of the range\<close>

definition ack_packet :: "int \<Rightarrow> u64 \<Rightarrow> recovery \<Rightarrow> recovery" where
  "ack_packet space_id pn r =
     (case map_of (sent_packets r) (space_id, pn) of
        None \<Rightarrow> r
      | Some packet \<Rightarrow>
          (let r = r\<lparr>sent_packets := AList.delete (space_id, pn) (sent_packets r)\<rparr>;
               r = (if sp_bytes packet \<le> bytes_in_flight r
                    then r\<lparr>bytes_in_flight := bytes_in_flight r - sp_bytes packet\<rparr> else r)
           in if recovery_start_time r = None \<or> the (recovery_start_time r) < sp_time_sent packet
              then
                (if congestion_window r < ssthresh r
                 then r\<lparr>congestion_window := congestion_window r + sp_bytes packet\<rparr>
                 else r\<lparr>congestion_window := congestion_window r +
                          (MAX_DATAGRAM_SIZE * sp_bytes packet) div congestion_window r\<rparr>)
              else r))"

definition ack_range :: "nat \<Rightarrow> nat \<Rightarrow> int \<Rightarrow> recovery \<Rightarrow> recovery" where
  "ack_range from_pn to_pn space_id r =
     foldl (\<lambda>r pn. ack_packet space_id (of_nat pn) r) r [from_pn ..< to_pn + 1]"

definition compute_loss_delay :: "recovery \<Rightarrow> int" where
  "compute_loss_delay r =
     (let delay = max (latest_rtt r) (smoothed_rtt r); delay = delay + span_div delay 8
      in max delay (peer_max_ack_delay r))"

definition update_loss_time :: "int \<Rightarrow> recovery \<Rightarrow> recovery" where
  "update_loss_time space_id r =
     (let largest = largest_acked r space_id in
      if largest = 0 then r
      else
        (let loss_delay = compute_loss_delay r;
             earliest = foldl (\<lambda>earliest ((sp, pn), packet).
                 if sp \<noteq> space_id \<or> largest < pn then earliest
                 else
                   (let t = sp_time_sent packet + loss_delay
                    in case earliest of None \<Rightarrow> Some t | Some e \<Rightarrow> if t < e then Some t else Some e))
               None (sent_packets r)
         in case earliest of
              None \<Rightarrow> r
            | Some e \<Rightarrow>
                (case loss_time r of
                   None \<Rightarrow> r\<lparr>loss_time := Some e\<rparr>
                 | Some l \<Rightarrow> if e < l then r\<lparr>loss_time := Some e\<rparr> else r)))"

text \<open>
  The ranges of an ACK frame, from the largest packet number down: the first range, then for
  every pair a gap and a length. The sums of two 62-bit numbers do not leave 64 bits.
\<close>

definition first_smallest :: "u64 \<Rightarrow> u64 \<Rightarrow> nat" where
  "first_smallest largest first_ack_range =
     (if first_ack_range < largest then unat largest - unat first_ack_range else 0)"

fun ack_ranges_loop :: "nat \<Rightarrow> (u64 \<times> u64) list \<Rightarrow> int \<Rightarrow> recovery \<Rightarrow> recovery" where
  "ack_ranges_loop smallest [] space_id r = r"
| "ack_ranges_loop smallest ((gap, ack_len) # ranges) space_id r =
     (let next_largest = (if unat gap + 2 < smallest then smallest - unat gap - 2 else 0);
          next_smallest = (if unat ack_len < next_largest then next_largest - unat ack_len else 0)
      in ack_ranges_loop next_smallest ranges space_id (ack_range next_smallest next_largest space_id r))"

text \<open>\<open>(cwnd.to_f * LOSS_REDUCTION_FACTOR).to_u64\<close>: half the window, exact below \<open>2\<^sup>5\<^sup>3\<close>\<close>

definition reduce_window :: "int \<Rightarrow> recovery \<Rightarrow> recovery" where
  "reduce_window now r =
     (let s = max (congestion_window r div 2) MIN_WINDOW
      in r\<lparr>recovery_start_time := Some now, ssthresh := s, congestion_window := s\<rparr>)"

fun on_ack_received ::
    "(int \<Rightarrow> nat \<Rightarrow> int) \<Rightarrow> quic_frame \<Rightarrow> int \<Rightarrow> int \<Rightarrow> int \<Rightarrow> recovery \<Rightarrow> recovery" where
  "on_ack_received scale (AckFrame largest ack_delay first_ack_range ranges ect0 ect1 ecn_ce has_ecn)
       time_received clock space_id r =
     (let r = (case map_of (sent_packets r) (space_id, largest) of
                 None \<Rightarrow> r
               | Some packet \<Rightarrow>
                   update_rtt scale (time_received - sp_time_sent packet) (milliseconds (int (unat ack_delay))) r);
          smallest = first_smallest largest first_ack_range;
          r = ack_range smallest (unat largest) space_id r;
          r = ack_ranges_loop smallest ranges space_id r;
          r = r\<lparr>largest_acked := (largest_acked r)(space_id := max (largest_acked r space_id) largest),
                pto_count := 0\<rparr>;
          r = update_loss_time space_id r
      in if has_ecn \<and> last_ecn_ce r < ecn_ce
         then reduce_window clock (r\<lparr>last_ecn_ce := ecn_ce\<rparr>)
         else r)"
| "on_ack_received scale _ time_received clock space_id r = r"

section \<open>Losses\<close>

text \<open>\<open>1 << @pto_count\<close> in Int32: shifted out from 32 on, negative at 31\<close>

definition pto_backoff :: "recovery \<Rightarrow> int" where
  "pto_backoff r = min (sint (push_bit (nat (pto_count r)) 1 :: 32 word)) 8"

definition pto_timeout :: "recovery \<Rightarrow> int" where
  "pto_timeout r =
     (if min_rtt r = SPAN_MAX then milliseconds 666 * pto_backoff r
      else
        (let base = smoothed_rtt r + max (rttvar r * 4) (milliseconds 1) + milliseconds 25;
             effective = (if milliseconds 100 < base then base else milliseconds 100)
         in effective * pto_backoff r))"

definition is_lost :: "int \<Rightarrow> u64 \<Rightarrow> int \<Rightarrow> int \<Rightarrow> (int \<times> u64) \<times> sent_packet \<Rightarrow> bool" where
  "is_lost space_id largest now loss_delay x \<longleftrightarrow>
     fst (fst x) = space_id \<and> snd (fst x) \<le> largest \<and> loss_delay < now - sp_time_sent (snd x)"

definition drop_packet :: "recovery \<Rightarrow> (int \<times> u64) \<times> sent_packet \<Rightarrow> recovery" where
  "drop_packet r x =
     (case map_of (sent_packets r) (fst x) of
        None \<Rightarrow> r
      | Some packet \<Rightarrow>
          (let r = r\<lparr>sent_packets := AList.delete (fst x) (sent_packets r)\<rparr>
           in if sp_bytes packet \<le> bytes_in_flight r
              then r\<lparr>bytes_in_flight := bytes_in_flight r - sp_bytes packet\<rparr> else r))"

definition detect_lost_packets ::
    "u64 \<Rightarrow> int \<Rightarrow> int \<Rightarrow> int \<Rightarrow> recovery \<Rightarrow> sent_packet list \<times> recovery" where
  "detect_lost_packets largest now clock space_id r =
     (let lost = filter (is_lost space_id largest now (compute_loss_delay r)) (sent_packets r);
          lost_packets = map snd lost; times = map sp_time_sent lost_packets;
          r = foldl drop_packet r lost
      in if lost = [] then ([], r)
         else
           (let largest_lost_time = Max (set times);
                r = (if recovery_start_time r = None \<or> the (recovery_start_time r) < largest_lost_time
                     then reduce_window clock r else r);
                loss_span = Max (set times) - Min (set times)
            in if pto_timeout r * 3 \<le> loss_span
               then (lost_packets, r\<lparr>congestion_window := MIN_WINDOW, ssthresh := MIN_WINDOW\<rparr>)
               else (lost_packets, r)))"

definition recovery_timeout :: "recovery \<Rightarrow> int option" where
  "recovery_timeout r =
     (if sent_packets r = [] then None
      else Some (Min (set (map (sp_time_sent \<circ> snd) (sent_packets r))) + pto_timeout r))"

text \<open>\<open>@pto_count += 1\<close> is checked at \<open>2\<^sup>3\<^sup>1\<close>.\<close>

definition on_pto_timeout :: "recovery \<Rightarrow> cr_error + (sent_packet list \<times> recovery)" where
  "on_pto_timeout r =
     (if 2 ^ 31 \<le> pto_count r + 1 then Inl OverflowError
      else Inr (map snd (sent_packets r),
                r\<lparr>pto_count := pto_count r + 1, sent_packets := [], bytes_in_flight := 0\<rparr>))"

definition sent_packet_count :: "recovery \<Rightarrow> nat" where
  "sent_packet_count r = length (sent_packets r)"

definition can_send :: "recovery \<Rightarrow> bool" where
  "can_send r \<longleftrightarrow> bytes_in_flight r < congestion_window r"

section \<open>Building an ACK\<close>

text \<open>
  The walk over the sorted packet numbers from the largest down; the list holds those still to
  come, and the differences are checked.
\<close>

fun first_run :: "u64 \<Rightarrow> u64 \<Rightarrow> u64 list \<Rightarrow> cr_error + (u64 \<times> u64 list)" where
  "first_run largest first_ack_range [] = Inr (first_ack_range, [])"
| "first_run largest first_ack_range (p # ps) =
     (if unat largest < unat first_ack_range + 1 then Inl OverflowError
      else if p = largest - first_ack_range - 1 then first_run largest (first_ack_range + 1) ps
      else Inr (first_ack_range, p # ps))"

fun next_run :: "u64 \<Rightarrow> u64 \<Rightarrow> u64 list \<Rightarrow> cr_error + (u64 \<times> u64 list)" where
  "next_run next_largest range_len [] = Inr (range_len, [])"
| "next_run next_largest range_len (p # ps) =
     (if next_largest < range_len then Inl OverflowError
      else if p = next_largest - range_len then next_run next_largest (range_len + 1) ps
      else Inr (range_len, p # ps))"

lemma next_run_le: "next_run n k ps = Inr (m, qs) \<Longrightarrow> length qs \<le> length ps"
  by (induction n k ps rule: next_run.induct) (auto split: if_splits)

function additional_ranges :: "u64 \<Rightarrow> u64 list \<Rightarrow> cr_error + (u64 \<times> u64) list" where
  "additional_ranges current_smallest [] = Inr []"
| "additional_ranges current_smallest (p # ps) =
     (if unat current_smallest < unat p + 2 then Inl OverflowError
      else
        (case next_run p 1 ps of
           Inl e \<Rightarrow> Inl e
         | Inr (range_len, rest) \<Rightarrow>
             rbind (additional_ranges (p - (range_len - 1)) rest) (\<lambda>rs.
               Inr ((current_smallest - p - 2, range_len - 1) # rs))))"
  by pat_completeness auto
termination by (relation "measure (\<lambda>(c, ps). length ps)") (auto dest: next_run_le)

definition build_ack :: "u64 list \<Rightarrow> cr_error + quic_frame" where
  "build_ack received_pns =
     (case rev (sort received_pns) of
        [] \<Rightarrow> Inl (RuntimeError ''Empty enumerable'')
      | largest # ps \<Rightarrow>
          rbind (first_run largest 0 ps) (\<lambda>(first_ack_range, rest).
          rbind (additional_ranges (largest - first_ack_range) rest) (\<lambda>ranges.
            Inr (AckFrame largest 0 first_ack_range ranges 0 0 0 False))))"


section \<open>What an ACK covers\<close>

fun acked_below :: "nat \<Rightarrow> (u64 \<times> u64) list \<Rightarrow> nat set" where
  "acked_below smallest [] = {}"
| "acked_below smallest ((gap, len) # rs) =
     (let hi = smallest - unat gap - 2; lo = hi - unat len in {lo..hi} \<union> acked_below lo rs)"

definition acked :: "u64 \<Rightarrow> u64 \<Rightarrow> (u64 \<times> u64) list \<Rightarrow> nat set" where
  "acked largest first rs =
     {unat largest - unat first..unat largest} \<union> acked_below (unat largest - unat first) rs"

lemma delete_filter: "AList.delete k al = filter (\<lambda>x. fst x \<noteq> k) al"
  by (auto simp: AList.delete_eq intro!: filter_cong)

lemma ack_packet_sent: "sent_packets (ack_packet sp pn r) = AList.delete (sp, pn) (sent_packets r)"
  by (auto simp: ack_packet_def Let_def AList.delete_id map_of_eq_None_iff split: option.split)

lemma ack_range_sent:
  assumes "b < 2 ^ 64"
  shows "sent_packets (ack_range a b sp r) =
     filter (\<lambda>x. \<not> (fst (fst x) = sp \<and> unat (snd (fst x)) \<in> {a..b})) (sent_packets r)"
proof -
  have "sent_packets (foldl (\<lambda>r pn. ack_packet sp (of_nat pn) r) r ns) =
      filter (\<lambda>x. \<not> (fst (fst x) = sp \<and> unat (snd (fst x)) \<in> set ns)) (sent_packets r)"
    if "\<forall>n\<in>set ns. n < 2 ^ 64" for ns
    using that
  proof (induction ns arbitrary: r)
    case (Cons n ns)
    have "snd (fst x) = of_nat n \<longleftrightarrow> unat (snd (fst x)) = n" for x :: "(int \<times> u64) \<times> sent_packet"
      using Cons.prems by (auto simp: unat_of_nat take_bit_nat_eq_self word_unat_eq_iff)
    then have "filter (\<lambda>x. fst x \<noteq> (sp, of_nat n)) (sent_packets r) =
        filter (\<lambda>x. \<not> (fst (fst x) = sp \<and> unat (snd (fst x)) = n)) (sent_packets r)"
      by (intro filter_cong) (auto simp: prod_eq_iff)
    then show ?case using Cons
      by (simp add: ack_packet_sent delete_filter) (auto intro!: filter_cong)
  qed simp
  from this [of "[a..<b + 1]"] have "sent_packets (ack_range a b sp r) =
      filter (\<lambda>x. \<not> (fst (fst x) = sp \<and> unat (snd (fst x)) \<in> set [a..<b + 1])) (sent_packets r)"
    unfolding ack_range_def using assms by fastforce
  moreover have "set [a..<b + 1] = {a..b}" by auto
  ultimately show ?thesis by (simp only:)
qed

lemma ack_ranges_sent:
  assumes "smallest < 2 ^ 64"
  shows "sent_packets (ack_ranges_loop smallest rs sp r) =
     filter (\<lambda>x. \<not> (fst (fst x) = sp \<and> unat (snd (fst x)) \<in> acked_below smallest rs)) (sent_packets r)"
  using assms
proof (induction smallest rs sp r rule: ack_ranges_loop.induct)
  case (2 smallest gap len rs sp r)
  let ?hi = "smallest - unat gap - 2" and ?lo = "smallest - unat gap - 2 - unat len"
  have e: "(if unat gap + 2 < smallest then smallest - unat gap - 2 else 0) = ?hi"
    "(if unat len < ?hi then ?hi - unat len else 0) = ?lo" by auto
  have lt: "?hi < 2 ^ 64" "?lo < 2 ^ 64" using "2.prems" by simp_all
  note IH = "2.IH" [OF refl refl, unfolded e, OF lt(2)]
  have "ack_ranges_loop smallest ((gap, len) # rs) sp r = ack_ranges_loop ?lo rs sp (ack_range ?lo ?hi sp r)"
    by (simp only: ack_ranges_loop.simps Let_def e)
  then have "sent_packets (ack_ranges_loop smallest ((gap, len) # rs) sp r) =
      filter (\<lambda>x. \<not> (fst (fst x) = sp \<and> unat (snd (fst x)) \<in> acked_below ?lo rs))
        (filter (\<lambda>x. \<not> (fst (fst x) = sp \<and> unat (snd (fst x)) \<in> {?lo..?hi})) (sent_packets r))"
    by (simp only: IH ack_range_sent [OF lt(1)])
  also have "\<dots> = filter (\<lambda>x. \<not> (fst (fst x) = sp \<and> unat (snd (fst x)) \<in> acked_below smallest ((gap, len) # rs)))
      (sent_packets r)"
    unfolding filter_filter by (rule filter_cong) (simp_all add: Let_def, blast)
  finally show ?case .
qed simp

lemma update_loss_time_sent: "sent_packets (update_loss_time sp r) = sent_packets r"
  by (auto simp: update_loss_time_def Let_def split: option.split)

lemma update_rtt_sent: "sent_packets (update_rtt scale l d r) = sent_packets r"
  by (simp add: update_rtt_def Let_def)

lemma first_smallest_eq: "first_smallest largest first = unat largest - unat first"
  by (auto simp: first_smallest_def word_less_nat_alt)

lemma on_ack_sent:
  "sent_packets (on_ack_received scale (AckFrame largest d first rs e0 e1 ce ecn) now clk sp r) =
     filter (\<lambda>x. \<not> (fst (fst x) = sp \<and> unat (snd (fst x)) \<in> acked largest first rs)) (sent_packets r)"
proof -
  have lt: "unat largest < 2 ^ 64" "unat largest - unat first < 2 ^ 64"
    using unsigned_less [of largest, where ?'a = nat] by simp_all
  show ?thesis
    by (auto simp: Let_def reduce_window_def update_loss_time_sent first_smallest_eq update_rtt_sent
        ack_ranges_sent [OF lt(2)] ack_range_sent [OF lt(1)] acked_def intro!: filter_cong split: option.split)
qed


section \<open>The ACK that is built covers exactly what was received\<close>

text \<open>Packet numbers have 62 bits.\<close>

lemma next_run_spec:
  assumes "sorted_wrt (>) ps" and "n < 2 ^ 62" and "unat k \<le> unat n + 1"
    and "\<forall>p\<in>set ps. unat p + unat k \<le> unat n"
  shows "\<exists>m qs. next_run n k ps = Inr (m, qs) \<and> k \<le> m \<and> unat m \<le> unat n + 1 \<and>
     unat ` set ps = {unat n + 1 - unat m ..< unat n + 1 - unat k} \<union> unat ` set qs \<and>
     sorted_wrt (>) qs \<and> set qs \<subseteq> set ps \<and> (\<forall>q\<in>set qs. unat q + unat m < unat n)"
  using assms
proof (induction n k ps rule: next_run.induct)
  case (1 n k)
  then show ?case by simp
next
  case (2 n k p ps)
  have n: "unat n < 2 ^ 62" using "2.prems"(2) by (simp add: word_less_nat_alt)
  have pk: "unat p + unat k \<le> unat n" using "2.prems"(4) by simp
  then have kn: "\<not> n < k" by (simp add: word_less_nat_alt)
  then have sub: "unat (n - k) = unat n - unat k" by (simp add: unat_sub not_less)
  show ?case
  proof (cases "p = n - k")
    case False
    then have "unat p \<noteq> unat n - unat k" using sub by (metis word_unat_eq_iff)
    then have lt: "unat p + unat k < unat n" using pk by linarith
    have "\<forall>q\<in>set (p # ps). unat q + unat k < unat n"
      using lt "2.prems"(1) by (auto simp: word_less_nat_alt)
    then show ?thesis using False kn "2.prems"(1,3) by auto
  next
    case True
    have up: "unat p = unat n - unat k" using sub True by simp
    have k1: "unat (k + 1) = unat k + 1" using pk n by (simp add: unat_add_of_nat [of k 1, simplified])
    have "\<forall>q\<in>set ps. unat q + unat (k + 1) \<le> unat n"
      using "2.prems"(1) up pk by (auto simp: k1 word_less_nat_alt)
    moreover have "unat (k + 1) \<le> unat n + 1" using pk k1 by simp
    ultimately obtain m qs where IH: "next_run n (k + 1) ps = Inr (m, qs)" "k + 1 \<le> m" "unat m \<le> unat n + 1"
        "unat ` set ps = {unat n + 1 - unat m ..< unat n + 1 - unat (k + 1)} \<union> unat ` set qs"
        "sorted_wrt (>) qs" "set qs \<subseteq> set ps" "\<forall>q\<in>set qs. unat q + unat m < unat n"
      using "2.IH" [OF kn True] "2.prems"(1,2) by auto
    have "unat k + 1 \<le> unat m" using IH(2) k1 by (simp add: word_le_nat_alt)
    then have "{unat n + 1 - unat m ..< unat n + 1 - unat k} =
        insert (unat p) {unat n + 1 - unat m ..< unat n + 1 - unat (k + 1)}"
      using up pk k1 IH(3) by auto
    moreover have "k \<le> m" using \<open>unat k + 1 \<le> unat m\<close> by (simp add: word_le_nat_alt)
    ultimately show ?thesis using IH True kn by auto
  qed
qed

lemma first_run_next_run:
  assumes "largest < 2 ^ 62" and "unat k \<le> unat largest" and "\<forall>p\<in>set ps. unat p + unat k < unat largest"
    and "sorted_wrt (>) ps"
  shows "first_run largest k ps = rbind (next_run largest (k + 1) ps) (\<lambda>(m, qs). Inr (m - 1, qs))"
  using assms
proof (induction largest k ps rule: first_run.induct)
  case (1 l k)
  then show ?case by simp
next
  case (2 l k p ps)
  have l: "unat l < 2 ^ 62" using "2.prems"(1) by (simp add: word_less_nat_alt)
  have pk: "unat p + unat k < unat l" using "2.prems"(3) by simp
  have k1: "unat (k + 1) = unat k + 1" using pk l by (simp add: unat_add_of_nat [of k 1, simplified])
  have c: "\<not> unat l < unat k + 1" "\<not> l < k + 1" using pk k1 by (simp_all add: word_less_nat_alt)
  have e: "l - k - 1 = l - (k + 1)" by simp
  show ?case
  proof (cases "p = l - (k + 1)")
    case False
    then have "p \<noteq> l - k - 1" unfolding e .
    then show ?thesis using False c by simp
  next
    case True
    then have p': "p = l - k - 1" unfolding e .
    from True have up: "unat p = unat l - unat (k + 1)" using c(2) by (simp add: unat_sub)
    have "\<forall>q\<in>set ps. unat q + unat (k + 1) < unat l"
      using "2.prems"(4) up pk by (auto simp: k1 word_less_nat_alt)
    then have "first_run l (k + 1) ps = rbind (next_run l (k + 1 + 1) ps) (\<lambda>(m, qs). Inr (m - 1, qs))"
      using "2.IH" [OF c(1) p'] "2.prems" k1 pk by simp
    moreover have "first_run l k (p # ps) = first_run l (k + 1) ps" using c(1) p' by simp
    moreover have "next_run l (k + 1) (p # ps) = next_run l (k + 1 + 1) ps" using c(2) True by simp
    ultimately show ?thesis by (simp only:)
  qed
qed


lemma additional_ranges_spec:
  assumes "sorted_wrt (>) ps" and "c < 2 ^ 62" and "\<forall>p\<in>set ps. unat p + 2 \<le> unat c"
  shows "\<exists>rs. additional_ranges c ps = Inr rs \<and> acked_below (unat c) rs = unat ` set ps \<and>
     length rs \<le> length ps \<and> (\<forall>v\<in>set (range_fields rs). v < 2 ^ 62)"
  using assms
proof (induction c ps rule: additional_ranges.induct)
  case (1 c)
  then show ?case by simp
next
  case (2 c p ps)
  have c: "unat c < 2 ^ 62" using "2.prems"(2) by (simp add: word_less_nat_alt)
  have pc: "unat p + 2 \<le> unat c" using "2.prems"(3) by simp
  then have p62: "p < 2 ^ 62" using c by (simp add: word_less_nat_alt)
  have "\<forall>q\<in>set ps. unat q + unat (1 :: u64) \<le> unat p"
    using "2.prems"(1) by (auto simp: word_less_nat_alt)
  then obtain m qs where m: "next_run p 1 ps = Inr (m, qs)" "1 \<le> m" "unat m \<le> unat p + 1"
      "unat ` set ps = {unat p + 1 - unat m ..< unat p} \<union> unat ` set qs"
      "sorted_wrt (>) qs" "set qs \<subseteq> set ps" "\<forall>q\<in>set qs. unat q + unat m < unat p"
    using next_run_spec [of ps p 1] "2.prems"(1) p62 by auto
  have m1: "unat (m - 1) = unat m - 1" "1 \<le> unat m"
    using m(2) by (simp_all add: unat_sub word_le_nat_alt)
  then have "m - 1 \<le> p" using m(3) by (simp add: word_le_nat_alt)
  then have d: "unat (p - (m - 1)) = unat p - (unat m - 1)" using m1 by (simp add: unat_sub)
  have no: "\<not> unat c < unat p + 2" using pc by simp
  have "p - (m - 1) < 2 ^ 62" using p62 d by (simp add: word_less_nat_alt)
  moreover have "\<forall>q\<in>set qs. unat q + 2 \<le> unat (p - (m - 1))" using m(7) d m1(2) by fastforce
  ultimately obtain rs where rs: "additional_ranges (p - (m - 1)) qs = Inr rs"
      "acked_below (unat (p - (m - 1))) rs = unat ` set qs" "length rs \<le> length qs"
      "\<forall>v\<in>set (range_fields rs). v < 2 ^ 62"
    using "2.IH" [OF no m(1) refl m(5)] by auto
  have pc': "p \<le> c" "2 \<le> c - p" using pc by (simp_all add: word_le_nat_alt unat_sub)
  then have g: "unat (c - p - 2) = unat c - unat p - 2" by (simp add: unat_sub)
  have hi: "unat c - unat (c - p - 2) - 2 = unat p" using g pc by simp
  then have hi': "unat c - Suc (Suc (unat (c - p - 2))) = unat p" by simp
  have "{unat p - (unat m - 1)..unat p} = insert (unat p) {unat p + 1 - unat m ..< unat p}"
    using m(3) m1(2) by auto
  moreover have "acked_below (unat c) ((c - p - 2, m - 1) # rs) =
      {unat p - (unat m - 1)..unat p} \<union> unat ` set qs"
    using rs(2) d m1 by (simp add: Let_def hi')
  moreover have "c - p - 2 < 2 ^ 62" "m - 1 < 2 ^ 62"
    using g c m1 m(3) p62 by (simp_all add: word_less_nat_alt)
  moreover have "length qs \<le> length ps" by (rule next_run_le [OF m(1)])
  ultimately show ?case using no m(1,4) rs by auto
qed

lemma build_ack_spec:
  assumes "distinct pns" and "pns \<noteq> []" and "\<forall>p\<in>set pns. p < 2 ^ 62"
  shows "\<exists>largest first rs. build_ack pns = Inr (AckFrame largest 0 first rs 0 0 0 False) \<and>
     acked largest first rs = unat ` set pns \<and> largest = Max (set pns) \<and> length rs \<le> length pns \<and>
     (\<forall>v\<in>set ([largest, first] @ range_fields rs). v < 2 ^ 62)"
proof -
  have "sorted_wrt (<) (sort pns)" using assms(1) by (simp add: strict_sorted_iff)
  then have srt: "sorted_wrt (>) (rev (sort pns))" by (simp add: sorted_wrt_rev)
  have "rev (sort pns) \<noteq> []" using assms(2) by (metis length_0_conv length_rev length_sort)
  then obtain l ps where L: "rev (sort pns) = l # ps" by (cases "rev (sort pns)") auto
  have set: "set pns = insert l (set ps)" using arg_cong [OF L, of set] by simp
  have len: "length pns = Suc (length ps)" using arg_cong [OF L, of length] by simp
  have below: "\<forall>p\<in>set ps. p < l" and ps: "sorted_wrt (>) ps" using srt L by auto
  have l: "l < 2 ^ 62" using assms(3) set by simp
  have "\<forall>p\<in>set ps. unat p + unat (0 + 1 :: u64) \<le> unat l" using below by (auto simp: word_less_nat_alt)
  then obtain m qs where m: "next_run l (0 + 1) ps = Inr (m, qs)" "1 \<le> m" "unat m \<le> unat l + 1"
      "unat ` set ps = {unat l + 1 - unat m ..< unat l} \<union> unat ` set qs"
      "sorted_wrt (>) qs" "set qs \<subseteq> set ps" "\<forall>q\<in>set qs. unat q + unat m < unat l"
    using next_run_spec [OF ps l, of "0 + 1"] by auto
  have fr: "first_run l 0 ps = Inr (m - 1, qs)"
    using first_run_next_run [OF l, of 0 ps] below ps m(1) by (simp add: word_less_nat_alt)
  have m1: "unat (m - 1) = unat m - 1" "1 \<le> unat m"
    using m(2) by (simp_all add: unat_sub word_le_nat_alt)
  then have "m - 1 \<le> l" using m(3) by (simp add: word_le_nat_alt)
  then have d: "unat (l - (m - 1)) = unat l - (unat m - 1)" using m1 by (simp add: unat_sub)
  have "l - (m - 1) < 2 ^ 62" using l d by (simp add: word_less_nat_alt)
  moreover have "\<forall>q\<in>set qs. unat q + 2 \<le> unat (l - (m - 1))" using m(7) d m1(2) by fastforce
  ultimately obtain rs where rs: "additional_ranges (l - (m - 1)) qs = Inr rs"
      "acked_below (unat (l - (m - 1))) rs = unat ` set qs" "length rs \<le> length qs"
      "\<forall>v\<in>set (range_fields rs). v < 2 ^ 62"
    using additional_ranges_spec [OF m(5)] by blast
  have "{unat l - (unat m - 1)..unat l} = insert (unat l) {unat l + 1 - unat m ..< unat l}"
    using m(3) m1(2) by auto
  then have "acked l (m - 1) rs = unat ` set pns"
    using rs(2) d m(4) by (simp add: acked_def m1(1) set)
  moreover have "Max (set pns) = l"
    using below unfolding set by (intro Max_eqI) (auto intro: order_less_imp_le)
  moreover have "length qs \<le> length ps" by (rule next_run_le [OF m(1)])
  moreover have "m - 1 < 2 ^ 62" using \<open>m - 1 \<le> l\<close> l by (rule order_le_less_trans)
  moreover have "build_ack pns = Inr (AckFrame l 0 (m - 1) rs 0 0 0 False)"
    by (simp add: build_ack_def L fr rs(1))
  ultimately show ?thesis using rs l len by auto
qed


section \<open>The sent packets are accounted for\<close>

definition in_flight :: "sp_table \<Rightarrow> nat" where
  "in_flight al = sum_list (map (sp_bytes \<circ> snd) al)"

definition recovery_wf :: "recovery \<Rightarrow> bool" where
  "recovery_wf r \<longleftrightarrow>
     distinct (map fst (sent_packets r)) \<and> bytes_in_flight r = in_flight (sent_packets r) \<and>
     MIN_WINDOW \<le> congestion_window r \<and> MIN_WINDOW \<le> ssthresh r"

lemma in_flight_delete:
  "distinct (map fst al) \<Longrightarrow> map_of al k = Some p \<Longrightarrow> in_flight al = in_flight (AList.delete k al) + sp_bytes p"
proof (induction al)
  case (Cons x al)
  show ?case
  proof (cases "fst x = k")
    case True
    then have "\<forall>y\<in>set al. fst y \<noteq> k" using Cons.prems(1) by (metis distinct.simps(2) image_eqI list.set_map list.simps(9))
    then have "filter (\<lambda>y. fst y \<noteq> k) al = al" by (simp add: filter_id_conv)
    then show ?thesis using True Cons.prems by (cases x) (simp add: in_flight_def delete_filter)
  next
    case False
    then show ?thesis using Cons by (cases x) (auto simp: in_flight_def delete_filter)
  qed
qed simp

lemma in_flight_update_new: "k \<notin> fst ` set al \<Longrightarrow> in_flight (AList.update k p al) = in_flight al + sp_bytes p"
  by (induction al) (auto simp: in_flight_def)

lemma distinct_delete: "distinct (map fst al) \<Longrightarrow> distinct (map fst (AList.delete k al))"
  by (rule AList.distinct_delete)

lemma recovery_wf_new: "MIN_WINDOW \<le> w \<Longrightarrow> recovery_wf (Recovery_new w)"
  by (simp add: recovery_wf_def Recovery_new_def in_flight_def MIN_WINDOW_def MAX_DATAGRAM_SIZE_def)

lemma recovery_wf_remove:
  assumes "recovery_wf r" and "map_of (sent_packets r) k = Some p"
  shows "sp_bytes p \<le> bytes_in_flight r"
    and "recovery_wf (r\<lparr>sent_packets := AList.delete k (sent_packets r), bytes_in_flight := bytes_in_flight r - sp_bytes p\<rparr>)"
  using assms in_flight_delete [of "sent_packets r" k p] distinct_delete by (auto simp: recovery_wf_def)

lemma recovery_wf_frame:
  "recovery_wf r \<Longrightarrow> sent_packets r' = sent_packets r \<Longrightarrow> bytes_in_flight r' = bytes_in_flight r \<Longrightarrow>
     congestion_window r \<le> congestion_window r' \<Longrightarrow> ssthresh r' = ssthresh r \<Longrightarrow> recovery_wf r'"
  by (simp add: recovery_wf_def)

lemma recovery_wf_ack_packet:
  assumes "recovery_wf r"
  shows "recovery_wf (ack_packet sp pn r)"
proof (cases "map_of (sent_packets r) (sp, pn)")
  case None
  then show ?thesis using assms by (simp add: ack_packet_def)
next
  case (Some p)
  note rm = recovery_wf_remove [OF assms Some]
  show ?thesis using rm(1) by (auto simp: ack_packet_def Some Let_def intro: recovery_wf_frame [OF rm(2)])
qed

lemma recovery_wf_ack_range: "recovery_wf r \<Longrightarrow> recovery_wf (ack_range a b sp r)"
proof -
  have "recovery_wf r \<Longrightarrow> recovery_wf (foldl (\<lambda>r pn. ack_packet sp (of_nat pn) r) r ns)" for ns
    by (induction ns arbitrary: r) (simp_all add: recovery_wf_ack_packet)
  then show "recovery_wf r \<Longrightarrow> recovery_wf (ack_range a b sp r)" by (simp add: ack_range_def)
qed

lemma recovery_wf_ack_ranges: "recovery_wf r \<Longrightarrow> recovery_wf (ack_ranges_loop n rs sp r)"
  by (induction n rs sp r rule: ack_ranges_loop.induct) (simp_all add: Let_def recovery_wf_ack_range)

lemma recovery_wf_reduce: "recovery_wf r \<Longrightarrow> recovery_wf (reduce_window now r)"
  by (simp add: recovery_wf_def reduce_window_def Let_def)

lemma recovery_wf_loss_time: "recovery_wf r \<Longrightarrow> recovery_wf (update_loss_time sp r)"
  by (erule recovery_wf_frame) (auto simp: update_loss_time_def Let_def split: option.split)

lemma recovery_wf_rtt: "recovery_wf r \<Longrightarrow> recovery_wf (update_rtt scale l d r)"
  by (erule recovery_wf_frame) (auto simp: update_rtt_def Let_def)

lemma recovery_wf_acked: "recovery_wf r \<Longrightarrow> recovery_wf (r\<lparr>largest_acked := f, pto_count := 0\<rparr>)"
  by (erule recovery_wf_frame) simp_all

lemma recovery_wf_ack:
  assumes "recovery_wf r"
  shows "recovery_wf (on_ack_received scale f now clk sp r)"
proof (cases f)
  case (AckFrame largest d first rs e0 e1 ce ecn)
  define r1 where "r1 = (case map_of (sent_packets r) (sp, largest) of
                 None \<Rightarrow> r
               | Some packet \<Rightarrow> update_rtt scale (now - sp_time_sent packet) (milliseconds (int (unat d))) r)"
  have "recovery_wf r1" using assms by (auto simp: r1_def recovery_wf_rtt split: option.split)
  define r2 where "r2 = update_loss_time sp
      ((ack_ranges_loop (first_smallest largest first) rs sp (ack_range (first_smallest largest first) (unat largest) sp r1))
        \<lparr>largest_acked := (largest_acked (ack_ranges_loop (first_smallest largest first) rs sp
            (ack_range (first_smallest largest first) (unat largest) sp r1)))
            (sp := max (largest_acked (ack_ranges_loop (first_smallest largest first) rs sp
              (ack_range (first_smallest largest first) (unat largest) sp r1)) sp) largest), pto_count := 0\<rparr>)"
  have "recovery_wf r2" unfolding r2_def
    by (intro recovery_wf_loss_time recovery_wf_acked recovery_wf_ack_ranges recovery_wf_ack_range \<open>recovery_wf r1\<close>)
  moreover have "recovery_wf (r2\<lparr>last_ecn_ce := ce\<rparr>)" using \<open>recovery_wf r2\<close> by (rule recovery_wf_frame) simp_all
  moreover have "on_ack_received scale f now clk sp r =
      (if ecn \<and> last_ecn_ce r2 < ce then reduce_window clk (r2\<lparr>last_ecn_ce := ce\<rparr>) else r2)"
    unfolding AckFrame on_ack_received.simps r2_def r1_def Let_def ..
  ultimately show ?thesis by (simp add: recovery_wf_reduce)
qed (use assms in simp_all)


lemma drop_packet_sent: "sent_packets (drop_packet r x) = AList.delete (fst x) (sent_packets r)"
  by (auto simp: drop_packet_def Let_def AList.delete_id map_of_eq_None_iff split: option.split)

lemma recovery_wf_drop: "recovery_wf r \<Longrightarrow> recovery_wf (drop_packet r x)"
  using recovery_wf_remove [of r "fst x"] by (auto simp: drop_packet_def Let_def split: option.split)

lemma drop_packets:
  "sent_packets (foldl drop_packet r xs) = filter (\<lambda>y. fst y \<notin> fst ` set xs) (sent_packets r)"
  "recovery_wf r \<Longrightarrow> recovery_wf (foldl drop_packet r xs)"
  by (induction xs arbitrary: r)
    (auto simp: drop_packet_sent delete_filter recovery_wf_drop intro!: filter_cong)

lemma detect_lost_effect:
  assumes "recovery_wf r"
  shows "fst (detect_lost_packets largest now clk sp r) =
      map snd (filter (is_lost sp largest now (compute_loss_delay r)) (sent_packets r))"
    and "sent_packets (snd (detect_lost_packets largest now clk sp r)) =
      filter (\<lambda>x. \<not> is_lost sp largest now (compute_loss_delay r) x) (sent_packets r)"
    and "recovery_wf (snd (detect_lost_packets largest now clk sp r))"
proof -
  let ?P = "is_lost sp largest now (compute_loss_delay r)"
  let ?lost = "filter ?P (sent_packets r)" and ?r = "foldl drop_packet r (filter ?P (sent_packets r))"
  have inj: "inj_on fst (set (sent_packets r))"
    using assms by (simp add: recovery_wf_def distinct_map)
  have keys: "(fst y \<notin> fst ` set ?lost) = (\<not> ?P y)" if "y \<in> set (sent_packets r)" for y
    using that inj by (auto dest: inj_onD)
  have sent: "sent_packets ?r = filter (\<lambda>x. \<not> ?P x) (sent_packets r)"
    unfolding drop_packets(1) using keys by (intro filter_cong) auto
  have wf: "recovery_wf ?r" using assms by (rule drop_packets(2))
  show "fst (detect_lost_packets largest now clk sp r) = map snd ?lost"
    by (auto simp: detect_lost_packets_def Let_def)
  show "sent_packets (snd (detect_lost_packets largest now clk sp r)) = filter (\<lambda>x. \<not> ?P x) (sent_packets r)"
    using sent by (auto simp: detect_lost_packets_def Let_def reduce_window_def)
  define r1 where "r1 = (if recovery_start_time ?r = None \<or>
      the (recovery_start_time ?r) < Max (set (map sp_time_sent (map snd ?lost))) then reduce_window clk ?r else ?r)"
  have "recovery_wf r1" using wf by (simp add: r1_def recovery_wf_reduce)
  moreover have "recovery_wf (r1\<lparr>congestion_window := MIN_WINDOW, ssthresh := MIN_WINDOW\<rparr>)"
    using \<open>recovery_wf r1\<close> by (simp add: recovery_wf_def)
  ultimately show "recovery_wf (snd (detect_lost_packets largest now clk sp r))"
    using wf unfolding detect_lost_packets_def Let_def r1_def [symmetric] by (auto split: if_splits)
qed

datatype recovery_op =
    PacketSent u64 nat "quic_frame list" bool int int
  | AckReceived quic_frame int int int
  | LossAlarm u64 int int int
  | PtoExpired

fun recovery_step :: "(int \<Rightarrow> nat \<Rightarrow> int) \<Rightarrow> recovery \<Rightarrow> recovery_op \<Rightarrow> recovery" where
  "recovery_step scale r (PacketSent pn bytes fs ae sp now) = on_packet_sent pn bytes fs ae sp now r"
| "recovery_step scale r (AckReceived f now clk sp) = on_ack_received scale f now clk sp r"
| "recovery_step scale r (LossAlarm la now clk sp) = snd (detect_lost_packets la now clk sp (r\<lparr>loss_time := None\<rparr>))"
| "recovery_step scale r PtoExpired = (case on_pto_timeout r of Inl e \<Rightarrow> r | Inr (lost, r') \<Rightarrow> r')"

fun sent_keys :: "recovery_op list \<Rightarrow> (int \<times> u64) list" where
  "sent_keys [] = []"
| "sent_keys (PacketSent pn _ _ _ sp _ # cs) = (sp, pn) # sent_keys cs"
| "sent_keys (_ # cs) = sent_keys cs"

lemma recovery_step_wf:
  assumes "recovery_wf r" and "fst ` set (sent_packets r) \<inter> set (sent_keys [c]) = {}"
  shows "recovery_wf (recovery_step scale r c) \<and>
     fst ` set (sent_packets (recovery_step scale r c)) \<subseteq> fst ` set (sent_packets r) \<union> set (sent_keys [c])"
proof (cases c)
  case (PacketSent pn bytes fs ae sp now)
  then have "(sp, pn) \<notin> fst ` set (sent_packets r)" using assms(2) by auto
  then show ?thesis using assms(1) PacketSent
    by (auto simp: on_packet_sent_def recovery_wf_def in_flight_update_new AList.distinct_update
        AList.dom_update [unfolded set_map])
next
  case (AckReceived f now clk sp)
  have "sent_packets (on_ack_received scale f now clk sp r) = sent_packets r \<or>
      (\<exists>P. sent_packets (on_ack_received scale f now clk sp r) = filter P (sent_packets r))"
  proof (cases f)
    case (AckFrame l d fr rs e0 e1 ce ecn)
    show ?thesis unfolding AckFrame on_ack_sent by blast
  qed simp_all
  then show ?thesis using AckReceived recovery_wf_ack [OF assms(1)] by auto
next
  case (LossAlarm la now clk sp)
  have "recovery_wf (r\<lparr>loss_time := None\<rparr>)" using assms(1) by (rule recovery_wf_frame) simp_all
  then show ?thesis using LossAlarm detect_lost_effect(2,3) [of "r\<lparr>loss_time := None\<rparr>" la now clk sp] by auto
next
  case PtoExpired
  then show ?thesis using assms(1) by (auto simp: on_pto_timeout_def recovery_wf_def in_flight_def)
qed

lemma sent_keys_Cons: "sent_keys (c # cs) = sent_keys [c] @ sent_keys cs"
  by (cases c) simp_all

lemma recovery_run_wf_from:
  assumes "recovery_wf r" and "distinct (sent_keys cs)" and "fst ` set (sent_packets r) \<inter> set (sent_keys cs) = {}"
  shows "recovery_wf (foldl (recovery_step scale) r cs)"
  using assms
proof (induction cs arbitrary: r)
  case (Cons c cs)
  have d: "distinct (sent_keys cs)" "set (sent_keys [c]) \<inter> set (sent_keys cs) = {}"
    using Cons.prems(2) by (simp_all add: sent_keys_Cons [of c cs])
  have f: "fst ` set (sent_packets r) \<inter> set (sent_keys [c]) = {}" "fst ` set (sent_packets r) \<inter> set (sent_keys cs) = {}"
    using Cons.prems(3) by (auto simp: sent_keys_Cons [of c cs])
  note st = recovery_step_wf [OF Cons.prems(1) f(1), of scale]
  have "fst ` set (sent_packets (recovery_step scale r c)) \<inter> set (sent_keys cs) = {}"
    using conjunct2 [OF st] d(2) f(2) by blast
  then show ?case using Cons.IH [OF conjunct1 [OF st] d(1)] by simp
qed simp

text \<open>
  C12: Whatever a connection reports to loss recovery, started with a window of at least two
  datagrams, as long as it never uses a packet number of a space twice, the bytes in flight are exactly those of the tracked packets, so they neither leak nor
  underflow, each packet is tracked once, and the congestion window and the slow start threshold
  never fall below two datagrams, also after losses, ECN marks and persistent
  congestion.
\<close>

theorem recovery_run_wf:
  assumes "MIN_WINDOW \<le> initial_window" and "distinct (sent_keys cs)"
  shows "let r = foldl (recovery_step scale) (Recovery_new initial_window) cs
         in bytes_in_flight r = sum_list (map (sp_bytes \<circ> snd) (sent_packets r)) \<and>
            distinct (map fst (sent_packets r)) \<and>
            MIN_WINDOW \<le> congestion_window r \<and> MIN_WINDOW \<le> ssthresh r"
proof -
  have "recovery_wf (foldl (recovery_step scale) (Recovery_new initial_window) cs)"
    by (rule recovery_run_wf_from [OF recovery_wf_new [OF assms(1)] assms(2)]) (simp add: Recovery_new_def)
  then show ?thesis by (simp add: recovery_wf_def in_flight_def Let_def)
qed

theorem recovery_run_wf_witness:
  "let cs = [PacketSent 0 1200 [] True 2 0, PacketSent 1 1000 [] True 2 5, PacketSent 2 50 [] False 2 6,
             AckReceived (AckFrame 1 0 0 [] 0 0 0 False) 40 41 2];
       r = foldl (recovery_step (\<lambda>x k. x * int k div 1000)) (Recovery_new INITIAL_WINDOW) cs
   in map fst (sent_packets r) = [(2, 0)] \<and> bytes_in_flight r = 1200 \<and> MIN_WINDOW \<le> congestion_window r"
proof -
  let ?cs = "[PacketSent 0 1200 [] True 2 0, PacketSent 1 1000 [] True 2 5, PacketSent 2 50 [] False 2 6,
             AckReceived (AckFrame 1 0 0 [] 0 0 0 False) 40 41 2]"
  let ?r = "foldl (recovery_step (\<lambda>x k. x * int k div 1000)) (Recovery_new INITIAL_WINDOW) ?cs"
  have e: "sent_packets ?r = [((2, 0), \<lparr>sp_packet_number = 0, sp_time_sent = 0, sp_bytes = 1200, sp_frames = [], sp_space_id = 2\<rparr>)]"
    by (simp add: on_ack_sent acked_def on_packet_sent_def Recovery_new_def del: on_ack_received.simps)
  have "MIN_WINDOW \<le> INITIAL_WINDOW" "distinct (sent_keys ?cs)"
    by (simp_all add: MIN_WINDOW_def INITIAL_WINDOW_def)
  from recovery_run_wf [OF this, of "\<lambda>x k. x * int k div 1000"] show ?thesis
    unfolding Let_def e by simp
qed

text \<open>
  C6: An acknowledgement frees exactly what arrived. From the packet numbers a peer has
  received, in whatever order and with whatever gaps, each once, the code builds an ACK frame
  whose encoding succeeds and is read back unchanged; handling it, loss recovery forgets exactly the
  packets of that space with these numbers and keeps all others, and its accounts stay in order. The
  numbers have 62 bits and there are fewer than \<open>2 ^ 31\<close> of them; the recovery is well-formed
  (\<open>recovery_wf\<close>), which every sequence of reports keeps.
\<close>

theorem ack_frees_exactly:
  assumes "distinct pns" and "pns \<noteq> []" and "\<forall>p\<in>set pns. p < 2 ^ 62" and "length pns < 2 ^ 31"
    and "recovery_wf r"
  shows "\<exists>f bs. build_ack pns = Inr f \<and> QuicFrame_encode f = Inr bs \<and>
     QuicFrame_decode (bs @ rest) = Inr (f, rest) \<and>
     sent_packets (on_ack_received scale f now clock sp r) =
       filter (\<lambda>x. \<not> (fst (fst x) = sp \<and> snd (fst x) \<in> set pns)) (sent_packets r) \<and>
     recovery_wf (on_ack_received scale f now clock sp r)"
proof -
  obtain l fr rs where b: "build_ack pns = Inr (AckFrame l 0 fr rs 0 0 0 False)"
      and ac: "acked l fr rs = unat ` set pns" and len: "length rs \<le> length pns"
      and lt: "\<forall>v\<in>set ([l, fr] @ range_fields rs). v < 2 ^ 62"
    using build_ack_spec [OF assms(1-3)] by blast
  let ?f = "AckFrame l 0 fr rs 0 0 0 False"
  have ok: "frame_ok ?f" using len assms(4) by simp
  moreover have "\<forall>v\<in>set (frame_ints ?f). v < 2 ^ 62" "cid_fits ?f" using lt by auto
  ultimately obtain bs where bs: "QuicFrame_encode ?f = Inr bs" using QuicFrame_encode_Inr_iff [of ?f] by blast
  have "QuicFrame_decode (bs @ rest) = Inr (?f, rest)" using frame_roundtrip [OF ok bs] by simp
  moreover have "unat p \<in> unat ` set pns \<longleftrightarrow> p \<in> set pns" for p :: u64
    by (auto simp: word_unat_eq_iff [symmetric] dest: word_unat_eq_iff [THEN iffD2])
  then have "sent_packets (on_ack_received scale ?f now clock sp r) =
      filter (\<lambda>x. \<not> (fst (fst x) = sp \<and> snd (fst x) \<in> set pns)) (sent_packets r)"
    by (simp only: on_ack_sent ac)
  ultimately show ?thesis
    using b bs recovery_wf_ack [OF assms(5), of scale ?f now clock sp] by blast
qed


theorem ack_frees_exactly_witness:
  "let pns = [7, 2, 3, 9, 8 :: u64];
       r = on_packet_sent 4 1200 [] True 2 0 (on_packet_sent 3 1200 [] True 2 0 (Recovery_new INITIAL_WINDOW))
   in build_ack pns = Inr (AckFrame 9 0 2 [(2, 1)] 0 0 0 False) \<and>
      map fst (sent_packets (on_ack_received (\<lambda>x k. x) (AckFrame 9 0 2 [(2, 1)] 0 0 0 False) 5 5 2 r)) = [(2, 4)]"
proof -
  let ?pns = "[7, 2, 3, 9, 8 :: u64]" and ?f = "AckFrame 9 0 2 [(2, 1)] 0 0 0 False"
  let ?r = "on_packet_sent 4 1200 [] True 2 0 (on_packet_sent 3 1200 [] True 2 0 (Recovery_new INITIAL_WINDOW))"
  have b: "build_ack ?pns = Inr ?f" by code_simp
  have "recovery_wf ?r"
    by (simp add: on_packet_sent_def Recovery_new_def recovery_wf_def in_flight_def INITIAL_WINDOW_def
        MIN_WINDOW_def MAX_DATAGRAM_SIZE_def)
  from ack_frees_exactly [of ?pns ?r, OF _ _ _ _ this, of "[]" "\<lambda>x k. x" 5 5 2]
  have "sent_packets (on_ack_received (\<lambda>x k. x) ?f 5 5 2 ?r) =
      filter (\<lambda>x. \<not> (fst (fst x) = 2 \<and> snd (fst x) \<in> set ?pns)) (sent_packets ?r)"
    by (auto simp: b simp del: on_ack_received.simps)
  then show ?thesis unfolding Let_def using b by (simp add: on_packet_sent_def Recovery_new_def)
qed

text \<open>
  Two shortcomings. A packet that the network delivers twice is entered twice into the received
  numbers, and building the next ACK raises \<open>OverflowError\<close>; and after 31 probe timeouts
  without an answer the shift of the backoff is negative, from 32 on it is zero, so that the
  timeout lies in the past or is immediate.
\<close>

lemma duplicate_packet_breaks_ack:
  "build_ack [5, 5] = Inl OverflowError" "build_ack [0, 0] = Inl OverflowError"
  "build_ack [4, 5, 4] = Inl OverflowError"
  by code_simp+

lemma pto_backoff_31: "pto_count r = 31 \<Longrightarrow> pto_backoff r = - (2 ^ 31)"
  by (simp add: pto_backoff_def push_bit_eq_mult)

lemma pto_backoff_32:
  assumes "32 \<le> pto_count r"
  shows "pto_backoff r = 0"
proof -
  have "(2 :: 32 word) ^ nat (pto_count r) = 0" using assms by (simp add: exp_eq_zero_iff)
  then show ?thesis unfolding pto_backoff_def push_bit_eq_mult mult_1 by (simp only:) simp
qed

end
