(* ===== verification/Cr_Packet.thy ===== *)
theory Cr_Packet
  imports Cr_Frame
begin

text \<open>
  Packet numbers and packet headers of the Crystal stack: the headers that are sent
  (src/quic/packet.cr), the number \<open>Connection#send\<close> writes after the header, and how
  \<open>recv_packet\<close> and \<open>decode_packet_number\<close> of src/quic/connection.cr get it back. Packet numbers
  have 62 bits, so that the sums of the reconstruction do not leave 64 bits.
\<close>

section \<open>Headers\<close>

datatype PacketType = Initial | ZeroRTT | Handshake | Retry | Short

definition QUIC_V1_VERSION :: u32 where "QUIC_V1_VERSION = 1"
definition QUIC_V2_VERSION :: u32 where "QUIC_V2_VERSION = 0x6b3343cf"

text \<open>\<open>IO::ByteFormat::NetworkEndian.encode\<close> of a UInt32\<close>

definition u32_encode :: "u32 \<Rightarrow> byte list" where
  "u32_encode v = [ucast (drop_bit 24 v), ucast (drop_bit 16 v), ucast (drop_bit 8 v), ucast v]"

definition LongHeader_first_byte :: "PacketType \<Rightarrow> u32 \<Rightarrow> byte" where
  "LongHeader_first_byte typ version =
     (let type_val =
        (if version = QUIC_V2_VERSION
         then (case typ of Initial \<Rightarrow> 0x01 | ZeroRTT \<Rightarrow> 0x02 | Handshake \<Rightarrow> 0x03 | _ \<Rightarrow> 0x01)
         else (case typ of Initial \<Rightarrow> 0x00 | ZeroRTT \<Rightarrow> 0x01 | Handshake \<Rightarrow> 0x02 | _ \<Rightarrow> 0x00))
      in 0xc0 OR push_bit 4 type_val OR 0x03)"

text \<open>\<open>size.to_u8\<close> is checked.\<close>

definition cid_field :: "byte list \<Rightarrow> cr_error + byte list" where
  "cid_field cid = (if 256 \<le> length cid then Inl OverflowError else Inr (of_nat (length cid) # cid))"

definition LongHeader_encode_header ::
    "PacketType \<Rightarrow> u32 \<Rightarrow> byte list \<Rightarrow> byte list \<Rightarrow> byte list \<Rightarrow> cr_error + byte list" where
  "LongHeader_encode_header typ version dcid scid token =
     rbind (cid_field dcid) (\<lambda>d.
     rbind (cid_field scid) (\<lambda>s.
     rbind (if typ = Initial then then_bytes (VarInt_encode (size_u64 token)) token else Inr []) (\<lambda>t.
       Inr (LongHeader_first_byte typ version # u32_encode version @ d @ s @ t))))"

text \<open>\<open>spin\<close> is the random bit.\<close>

definition ShortHeader_first_byte :: "bool \<Rightarrow> byte \<Rightarrow> byte" where
  "ShortHeader_first_byte spin key_phase =
     0x40 OR (if spin then 0x20 else 0x00) OR (if key_phase \<noteq> 0 then 0x04 else 0x00) OR 0x03"

definition ShortHeader_encode_header :: "bool \<Rightarrow> byte \<Rightarrow> byte list \<Rightarrow> byte list" where
  "ShortHeader_encode_header spin key_phase dcid = ShortHeader_first_byte spin key_phase # dcid"

text \<open>
  What the receiver reads from the first byte of a long header: the space by the type bits, which
  version 2 rotates, and in any header the length of the packet number.
\<close>

definition long_space :: "bool \<Rightarrow> byte \<Rightarrow> PacketType" where
  "long_space is_v2 first_byte =
     (let type_bits = drop_bit 4 first_byte AND 0x03 in
      if is_v2
      then (if type_bits = 0x01 then Initial else if type_bits = 0x02 then ZeroRTT
            else if type_bits = 0x03 then Handshake else Initial)
      else (if type_bits = 0x00 then Initial else if type_bits = 0x01 then ZeroRTT
            else if type_bits = 0x02 then Handshake else Initial))"

definition pn_len :: "byte \<Rightarrow> nat" where
  "pn_len first_byte = unat (first_byte AND 0x03) + 1"

section \<open>Packet numbers\<close>

text \<open>\<open>packet_number.to_u32\<close>, checked, and its four bytes\<close>

definition pn_encode :: "u64 \<Rightarrow> cr_error + byte list" where
  "pn_encode pn = (if 2 ^ 32 \<le> unat pn then Inl OverflowError else Inr (u32_encode (ucast pn)))"

fun read_trunc_pn :: "byte list \<Rightarrow> u64" where
  "read_trunc_pn [a] = ucast a"
| "read_trunc_pn [a, b] = push_bit 8 (ucast a) OR ucast b"
| "read_trunc_pn [a, b, c] = push_bit 16 (ucast a) OR push_bit 8 (ucast b) OR ucast c"
| "read_trunc_pn [a, b, c, d] =
     push_bit 24 (ucast a) OR push_bit 16 (ucast b) OR push_bit 8 (ucast c) OR ucast d"
| "read_trunc_pn _ = 0"

definition decode_packet_number :: "u64 \<Rightarrow> u64 \<Rightarrow> nat \<Rightarrow> u64" where
  "decode_packet_number largest_pn truncated_pn pn_nbits =
     (let expected_pn = largest_pn + 1;
          pn_win = push_bit pn_nbits 1;
          pn_hwin = drop_bit 1 pn_win;
          pn_mask = pn_win - 1;
          candidate = (expected_pn AND NOT pn_mask) OR truncated_pn
      in if candidate + pn_hwin \<le> expected_pn then candidate + pn_win
         else if expected_pn + pn_hwin < candidate \<and> pn_win \<le> candidate then candidate - pn_win
         else candidate)"

text \<open>The low bytes of a packet number, as many as the header announces\<close>

definition pn_bytes :: "nat \<Rightarrow> u64 \<Rightarrow> byte list" where
  "pn_bytes len pn = map (\<lambda>i. ucast (drop_bit (8 * i) pn)) (rev [0..<len])"

lemma byte_low: "ucast (ucast v :: byte) = (v AND mask 8 :: u64)"
  by (rule bit_word_eqI) (auto simp: bit_simps)

lemma byte_step: "push_bit 8 (drop_bit 8 v AND mask k) OR ucast (ucast v :: byte) = (v AND mask (k + 8) :: u64)"
proof (rule bit_word_eqI)
  fix n assume "n < LENGTH(64)"
  then show "bit (push_bit 8 (drop_bit 8 v AND mask k) OR ucast (ucast v :: byte)) n = bit (v AND mask (k + 8)) n"
    by (cases "n < 8") (auto simp: bit_simps not_less)
qed

lemma byte_step_at:
  "push_bit 8 (drop_bit (j + 8) v AND mask k) OR ucast (ucast (drop_bit j v) :: byte) = (drop_bit j v AND mask (k + 8) :: u64)"
  using byte_step [of "drop_bit j v" k] by (simp add: add.commute)

lemma read_trunc_horner:
  "read_trunc_pn [a, b, c] = push_bit 8 (push_bit 8 (ucast a) OR ucast b) OR ucast c"
  "read_trunc_pn [a, b, c, d] = push_bit 8 (push_bit 8 (push_bit 8 (ucast a) OR ucast b) OR ucast c) OR ucast d"
  by (simp_all only: read_trunc_pn.simps push_bit_or push_bit_push_bit) (simp_all add: or.assoc)

lemma pn_bytes_eqs:
  "pn_bytes 1 pn = [ucast pn]" "pn_bytes 2 pn = [ucast (drop_bit 8 pn), ucast pn]"
  "pn_bytes 3 pn = [ucast (drop_bit 16 pn), ucast (drop_bit 8 pn), ucast pn]"
  "pn_bytes 4 pn = [ucast (drop_bit 24 pn), ucast (drop_bit 16 pn), ucast (drop_bit 8 pn), ucast pn]"
  by (simp_all add: pn_bytes_def numeral_eq_Suc upt_rec)

lemma read_trunc_bytes:
  assumes "len \<in> {1, 2, 3, 4}"
  shows "read_trunc_pn (pn_bytes len pn) = pn AND mask (8 * len)"
proof -
  note l = pn_bytes_eqs
  have s: "push_bit 8 (drop_bit 8 pn AND mask k) OR ucast (ucast pn :: byte) = pn AND mask (k + 8)"
    "push_bit 8 (drop_bit 16 pn AND mask k) OR ucast (ucast (drop_bit 8 pn) :: byte) = drop_bit 8 pn AND mask (k + 8)"
    "push_bit 8 (drop_bit 24 pn AND mask k) OR ucast (ucast (drop_bit 16 pn) :: byte) = drop_bit 16 pn AND mask (k + 8)"
    for k using byte_step_at [of 0 pn k] byte_step_at [of 8 pn k] byte_step_at [of 16 pn k] by simp_all
  have "read_trunc_pn (pn_bytes 1 pn) = pn AND mask 8" by (simp only: l read_trunc_pn.simps byte_low)
  moreover have "read_trunc_pn (pn_bytes 2 pn) = pn AND mask (8 + 8)"
    by (simp only: l read_trunc_pn.simps byte_low [of "drop_bit 8 pn"] s)
  moreover have "read_trunc_pn (pn_bytes 3 pn) = pn AND mask (8 + 8 + 8)"
    by (simp only: l read_trunc_horner byte_low [of "drop_bit 16 pn"] s)
  moreover have "read_trunc_pn (pn_bytes 4 pn) = pn AND mask (8 + 8 + 8 + 8)"
    by (simp only: l read_trunc_horner byte_low [of "drop_bit 24 pn"] s)
  ultimately show ?thesis using assms by auto
qed

lemma pn_encode_bytes: "pn_encode pn = Inr bs \<Longrightarrow> bs = pn_bytes 4 pn \<and> unat pn < 2 ^ 32"
proof -
  have u: "ucast (drop_bit k (ucast pn :: u32)) = (ucast (drop_bit k pn) :: byte)" if "k \<le> 24" for k
    by (rule bit_word_eqI) (use that in \<open>auto simp: bit_simps\<close>)
  show "pn_encode pn = Inr bs \<Longrightarrow> bs = pn_bytes 4 pn \<and> unat pn < 2 ^ 32"
    using u [of 24] u [of 16] u [of 8] u [of 0]
    by (simp add: pn_encode_def u32_encode_def pn_bytes_eqs split: if_splits)
qed


lemma sum_bound: "a \<le> x \<Longrightarrow> b < c \<Longrightarrow> c \<le> y \<Longrightarrow> x + y \<le> z \<Longrightarrow> a + b < (z :: nat)"
  by simp

lemma candidate_bound:
  assumes "n \<le> m" and "unat e \<le> x" and "x + 2 ^ m \<le> z"
  shows "unat (e :: u64) div 2 ^ n * 2 ^ n + unat p mod 2 ^ n < (z :: nat)"
proof (rule sum_bound)
  show "unat e div 2 ^ n * 2 ^ n \<le> x" by (rule order_trans [OF _ assms(2)]) simp
  show "unat p mod 2 ^ n < 2 ^ n" by simp
  show "(2 :: nat) ^ n \<le> 2 ^ m" using assms(1) by (intro power_increasing) simp_all
  show "x + 2 ^ m \<le> z" by (rule assms(3))
qed

lemma candidate_nat:
  assumes "n < 62" and "unat e \<le> 2 ^ 62"
  shows "unat ((e AND NOT (push_bit n 1 - 1)) OR (p AND mask n) :: u64) =
     unat e div 2 ^ n * 2 ^ n + unat p mod 2 ^ n"
proof -
  have m: "push_bit n (1 :: u64) - 1 = mask n" by (simp add: push_bit_eq_mult mask_eq_decr_exp)
  have a: "e AND NOT (mask n) = push_bit n (drop_bit n e)"
    by (rule bit_word_eqI) (auto simp: bit_simps)
  have "(e AND NOT (mask n)) OR (p AND mask n) = (e AND NOT (mask n)) + (p AND mask n)"
    by (rule disjunctive_add_eq_or [symmetric]) (rule bit_word_eqI, auto simp: bit_simps)
  moreover have "unat (push_bit n (drop_bit n e)) = unat e div 2 ^ n * 2 ^ n"
  proof -
    have "unat e div 2 ^ n * 2 ^ n \<le> unat e" by simp
    then have "unat e div 2 ^ n * 2 ^ n \<le> 2 ^ 62" using assms(2) by (rule order_trans)
    then have "unat e div 2 ^ n * 2 ^ n < 2 ^ 64" by (rule order_le_less_trans) simp
    moreover have "unat (push_bit n (drop_bit n e)) = take_bit 64 (push_bit n (drop_bit n (unat e)))"
      by (simp only: unsigned_push_bit_eq unat_drop_bit_eq) simp
    moreover have "push_bit n (drop_bit n (unat e)) = unat e div 2 ^ n * 2 ^ n"
      by (simp add: push_bit_eq_mult drop_bit_eq_div)
    ultimately show ?thesis by (simp only: take_bit_nat_eq_self)
  qed
  moreover have "unat (p AND mask n) = unat p mod 2 ^ n"
    by (simp only: take_bit_eq_mask [symmetric] unsigned_take_bit_eq take_bit_eq_mod [where ?'a = nat])
  moreover have "unat e div 2 ^ n * 2 ^ n + unat p mod 2 ^ n < 2 ^ 64"
    by (rule candidate_bound [of n 62 e "2 ^ 62"]) (use assms in simp_all)
  ultimately show ?thesis
    unfolding m a by (simp add: unat_word_ariths take_bit_nat_eq_self)
qed

text \<open>The arithmetic of RFC 9000, A.3\<close>

lemma window_unique:
  fixes W H E P c :: nat
  assumes W: "W = 2 * H" "0 < H" and c: "c = E div W * W + P mod W"
    and lo: "E < P + H" and hi: "P \<le> E + H"
  shows "(if c + H \<le> E then c + W else if E + H < c \<and> W \<le> c then c - W else c) = P"
proof -
  have Wpos: "0 < W" using W by simp
  have e: "E = E div W * W + E mod W" "E mod W < W" using Wpos by simp_all
  have p: "P = P div W * W + P mod W" "P mod W < W" using Wpos by simp_all
  let ?q = "E div W" and ?r = "P div W"
  have "?r \<le> ?q + 1"
  proof (rule ccontr)
    assume "\<not> ?r \<le> ?q + 1"
    then have "(?q + 2) * W \<le> ?r * W" by (intro mult_le_mono1) simp
    then have "?q * W + 2 * W \<le> ?r * W" by (simp only: add_mult_distrib)
    then show False using e p hi W by linarith
  qed
  moreover have "?q \<le> ?r + 1"
  proof (rule ccontr)
    assume "\<not> ?q \<le> ?r + 1"
    then have "(?r + 2) * W \<le> ?q * W" by (intro mult_le_mono1) simp
    then have "?r * W + 2 * W \<le> ?q * W" by (simp only: add_mult_distrib)
    then show False using e p lo W by linarith
  qed
  ultimately consider "?r = ?q" | "?r = ?q + 1" | "?q = ?r + 1" by linarith
  then show ?thesis
  proof cases
    case 1
    then have "c = P" using c p(1) by simp
    then show ?thesis using lo hi by auto
  next
    case 2
    then have "P = c + W" using c p(1) by (simp add: algebra_simps)
    then show ?thesis using lo hi W by auto
  next
    case 3
    then have "c = P + W" using c p(1) by (simp add: algebra_simps)
    then show ?thesis using lo hi W by auto
  qed
qed

text \<open>
  C11: Packet numbers survive their truncation. For any number of bytes a header may announce, the
  number of a packet is rebuilt from its low bytes whenever it lies in the window of that
  size around the next expected number; in particular what \<open>Connection#send\<close> writes, always
  four bytes, is read back as the number itself.
\<close>

theorem packet_number_recovered:
  assumes len: "len \<in> {1, 2, 3, 4}" and bounds: "largest < 2 ^ 62" "pn < 2 ^ 62"
    and window: "unat largest + 1 < unat pn + 2 ^ (8 * len - 1)" "unat pn \<le> unat largest + 1 + 2 ^ (8 * len - 1)"
  shows "decode_packet_number largest (read_trunc_pn (pn_bytes len pn)) (8 * len) = pn \<and>
     (\<forall>bs. pn_encode pn = Inr bs \<longrightarrow> bs = pn_bytes 4 pn \<and>
        read_trunc_pn bs = pn)"
proof -
  let ?n = "8 * len" and ?H = "2 ^ (8 * len - 1) :: nat"
  have n: "?n < 62" "8 \<le> ?n" "?n \<le> 32" using len by auto
  have W: "2 ^ ?n = 2 * ?H" using n by (metis One_nat_def power_Suc Suc_diff_1 len less_le_trans zero_less_numeral)
  have L: "unat largest < 2 ^ 62" and P: "unat pn < 2 ^ 62" using bounds by (simp_all add: word_less_nat_alt)
  have E: "unat (largest + 1) = unat largest + 1" using unat_add_of_nat [of largest 1] L by simp
  define w :: u64 where "w = push_bit ?n 1"
  define h where "h = drop_bit 1 w"
  define c where "c = (largest + 1 AND NOT (w - 1)) OR read_trunc_pn (pn_bytes len pn)"
  have c: "unat c = (unat largest + 1) div 2 ^ ?n * 2 ^ ?n + unat pn mod 2 ^ ?n"
    unfolding c_def w_def read_trunc_bytes [OF len] using candidate_nat [OF n(1), of "largest + 1" pn] E L by simp
  have win: "unat w = 2 ^ ?n" "unat h = ?H" using len by (auto simp: w_def h_def)
  have H: "?H \<le> 2 ^ 31" "0 < ?H" using power_increasing [of "8 * len - 1" 31 "2 :: nat"] n(3) by simp_all
  have cb: "unat c < 2 ^ 62 + 2 ^ 33"
    unfolding c E [symmetric] by (rule candidate_bound [of _ 32 _ "2 ^ 62"]) (use n(3) L E in simp_all)
  have win_le: "(2 :: nat) ^ ?n \<le> 2 ^ 32" using n(3) by (intro power_increasing) simp_all
  have add: "unat (a + b) = unat a + unat b" if "unat a + unat b < 2 ^ 64" for a b :: u64
    using that by (simp add: unat_word_ariths take_bit_nat_eq_self)
  have "decode_packet_number largest (read_trunc_pn (pn_bytes len pn)) ?n =
      (if c + h \<le> largest + 1 then c + w else if largest + 1 + h < c \<and> w \<le> c then c - w else c)"
    unfolding decode_packet_number_def Let_def c_def h_def w_def ..
  moreover have "unat (c + h) = unat c + ?H" using cb H win(2) by (subst add) simp_all
  moreover have "unat (largest + 1 + h) = unat largest + 1 + ?H" using L E H win(2) by (subst add) simp_all
  moreover have "unat (c + w) = unat c + 2 ^ ?n" using cb win(1) win_le by (subst add) simp_all
  moreover have "unat (c - w) = unat c - 2 ^ ?n" if "w \<le> c" using that win(1) by (simp add: unat_sub)
  ultimately have "unat (decode_packet_number largest (read_trunc_pn (pn_bytes len pn)) ?n) = unat pn"
    using window_unique [OF W H(2) c window] E win(1) by (auto simp: word_le_nat_alt word_less_nat_alt split: if_splits)
  then have "decode_packet_number largest (read_trunc_pn (pn_bytes len pn)) ?n = pn"
    by (simp add: word_unat_eq_iff)
  moreover have "bs = pn_bytes 4 pn \<and> read_trunc_pn bs = pn" if "pn_encode pn = Inr bs" for bs
  proof -
    note b = pn_encode_bytes [OF that]
    have "pn AND mask 32 = pn"
      unfolding take_bit_eq_mask [symmetric] word_unat_eq_iff unsigned_take_bit_eq
      using b by (simp add: take_bit_nat_eq_self)
    then show ?thesis using b read_trunc_bytes [of 4 pn] by simp
  qed
  ultimately show ?thesis by blast
qed


theorem packet_number_recovered_witness:
  "decode_packet_number 0xa82f30ea (read_trunc_pn (pn_bytes 2 0xa82f9b32)) 16 = 0xa82f9b32 \<and>
   pn_bytes 2 0xa82f9b32 = [0x9b, 0x32]"
proof
  show "decode_packet_number 0xa82f30ea (read_trunc_pn (pn_bytes 2 0xa82f9b32)) 16 = 0xa82f9b32"
    using packet_number_recovered [of 2 "0xa82f30ea" "0xa82f9b32"] by simp
  show "pn_bytes 2 0xa82f9b32 = [0x9b, 0x32]" unfolding pn_bytes_eqs by simp
qed

text \<open>From \<open>2\<^sup>3\<^sup>2\<close> packets on \<open>to_u32\<close> raises instead of truncating.\<close>

lemma pn_encode_raises: "2 ^ 32 \<le> unat pn \<Longrightarrow> pn_encode pn = Inl OverflowError"
  by (simp add: pn_encode_def)

text \<open>The receiver finds the space the sender chose, and four bytes of packet number, in both versions.\<close>

lemma long_header_type:
  "typ \<in> {Initial, ZeroRTT, Handshake} \<Longrightarrow>
     long_space (version = QUIC_V2_VERSION) (LongHeader_first_byte typ version) = typ \<and>
     pn_len (LongHeader_first_byte typ version) = 4"
  by (auto simp: LongHeader_first_byte_def long_space_def pn_len_def QUIC_V2_VERSION_def)

lemma short_header_pn_len: "pn_len (ShortHeader_first_byte spin key_phase) = 4"
  by (simp add: ShortHeader_first_byte_def pn_len_def)

end
