(* ===== verification/Cr_Transport.thy ===== *)
theory Cr_Transport
  imports Cr_Packet
begin

text \<open>
  Transport parameters (src/quic/transport_parameters.cr): the parameters of an endpoint, their
  encoder and their decoder. The \<open>IO::Memory\<close> the decoder reads is the list of the bytes still to
  come.
\<close>

section \<open>The parameters\<close>

record TransportParameters =
  original_destination_connection_id :: "byte list option"
  max_idle_timeout :: u64
  stateless_reset_token :: "byte list option"
  max_udp_payload_size :: u64
  initial_max_data :: u64
  initial_max_stream_data_bidi_local :: u64
  initial_max_stream_data_bidi_remote :: u64
  initial_max_stream_data_uni :: u64
  initial_max_streams_bidi :: u64
  initial_max_streams_uni :: u64
  ack_delay_exponent :: u64
  max_ack_delay :: u64
  disable_active_migration :: bool
  preferred_address :: "byte list option"
  active_connection_id_limit :: u64
  initial_source_connection_id :: "byte list option"
  retry_source_connection_id :: "byte list option"
  max_datagram_frame_size :: u64
  quic_version_information :: "(u32 \<times> u32 list) option"

definition TransportParameters_new :: TransportParameters where
  "TransportParameters_new =
     \<lparr>original_destination_connection_id = None, max_idle_timeout = 0, stateless_reset_token = None,
      max_udp_payload_size = 65527, initial_max_data = 0, initial_max_stream_data_bidi_local = 0,
      initial_max_stream_data_bidi_remote = 0, initial_max_stream_data_uni = 0,
      initial_max_streams_bidi = 0, initial_max_streams_uni = 0, ack_delay_exponent = 3,
      max_ack_delay = 25, disable_active_migration = False, preferred_address = None,
      active_connection_id_limit = 2, initial_source_connection_id = None,
      retry_source_connection_id = None, max_datagram_frame_size = 0, quic_version_information = None\<rparr>"

section \<open>Encoding\<close>

text \<open>Writes one after the other, the first exception ends them.\<close>

primrec write_all :: "(cr_error + byte list) list \<Rightarrow> cr_error + byte list" where
  "write_all [] = Inr []"
| "write_all (m # ms) = rbind m (\<lambda>a. rbind (write_all ms) (\<lambda>b. Inr (a @ b)))"

text \<open>The two overloads of \<open>write_param\<close>, and \<open>write_empty_param\<close>\<close>

definition write_param :: "u64 \<Rightarrow> u64 \<Rightarrow> cr_error + byte list" where
  "write_param i v =
     rbind (VarInt_encode i) (\<lambda>a.
     rbind (VarInt_encode v) (\<lambda>val_bytes.
     rbind (VarInt_encode (size_u64 val_bytes)) (\<lambda>b. Inr (a @ b @ val_bytes))))"

definition write_bytes_param :: "u64 \<Rightarrow> byte list option \<Rightarrow> cr_error + byte list" where
  "write_bytes_param i v =
     (case v of
        None \<Rightarrow> Inr []
      | Some d \<Rightarrow>
          rbind (VarInt_encode i) (\<lambda>a. rbind (VarInt_encode (size_u64 d)) (\<lambda>b. Inr (a @ b @ d))))"

definition write_empty_param :: "u64 \<Rightarrow> cr_error + byte list" where
  "write_empty_param i = rbind (VarInt_encode i) (\<lambda>a. rbind (VarInt_encode 0) (\<lambda>b. Inr (a @ b)))"

text \<open>The size of the version information is an Int32.\<close>

definition write_version_information :: "(u32 \<times> u32 list) option \<Rightarrow> cr_error + byte list" where
  "write_version_information vi =
     (case vi of
        None \<Rightarrow> Inr []
      | Some (chosen, others) \<Rightarrow>
          rbind (VarInt_encode 0x11) (\<lambda>a.
          if 2 ^ 31 \<le> 4 + 4 * length others then Inl OverflowError
          else
            rbind (VarInt_encode (of_nat (4 + 4 * length others))) (\<lambda>b.
              Inr (a @ b @ u32_encode chosen @ concat (map u32_encode others)))))"

definition TransportParameters_encode :: "TransportParameters \<Rightarrow> cr_error + byte list" where
  "TransportParameters_encode p = write_all
     [write_bytes_param 0x00 (original_destination_connection_id p),
      if 0 < max_idle_timeout p then write_param 0x01 (max_idle_timeout p) else Inr [],
      write_bytes_param 0x02 (stateless_reset_token p),
      write_param 0x03 (max_udp_payload_size p),
      if 0 < initial_max_data p then write_param 0x04 (initial_max_data p) else Inr [],
      if 0 < initial_max_stream_data_bidi_local p
      then write_param 0x05 (initial_max_stream_data_bidi_local p) else Inr [],
      if 0 < initial_max_stream_data_bidi_remote p
      then write_param 0x06 (initial_max_stream_data_bidi_remote p) else Inr [],
      if 0 < initial_max_stream_data_uni p
      then write_param 0x07 (initial_max_stream_data_uni p) else Inr [],
      if 0 < initial_max_streams_bidi p then write_param 0x08 (initial_max_streams_bidi p) else Inr [],
      if 0 < initial_max_streams_uni p then write_param 0x09 (initial_max_streams_uni p) else Inr [],
      if ack_delay_exponent p \<noteq> 3 then write_param 0x0a (ack_delay_exponent p) else Inr [],
      if max_ack_delay p \<noteq> 25 then write_param 0x0b (max_ack_delay p) else Inr [],
      if disable_active_migration p then write_empty_param 0x0c else Inr [],
      write_bytes_param 0x0d (preferred_address p),
      if active_connection_id_limit p \<noteq> 2 then write_param 0x0e (active_connection_id_limit p) else Inr [],
      write_bytes_param 0x0f (initial_source_connection_id p),
      write_bytes_param 0x10 (retry_source_connection_id p),
      if 0 < max_datagram_frame_size p then write_param 0x20 (max_datagram_frame_size p) else Inr [],
      write_version_information (quic_version_information p)]"

section \<open>Decoding\<close>

text \<open>\<open>IO::Memory#skip\<close> raises when the bytes are not there.\<close>

definition io_skip :: "byte list \<Rightarrow> u64 \<Rightarrow> cr_error + byte list" where
  "io_skip io n = (if unat n \<le> length io then Inr (drop (unat n) io) else Inl EOFError)"

definition read_varint_value :: "byte list \<Rightarrow> u64 \<Rightarrow> cr_error + (u64 \<times> byte list)" where
  "read_varint_value io len =
     rbind (VarInt_decode io) (\<lambda>(val, io').
       let actual_read = length io - length io' in
       if actual_read < unat len
       then rbind (io_skip io' (len - of_nat actual_read)) (\<lambda>io''. Inr (val, io''))
       else if unat len < actual_read
       then Inl (ProtocolViolation ''Transport parameter length mismatch'')
       else Inr (val, io'))"

text \<open>\<open>IO::ByteFormat::NetworkEndian.decode(UInt32, io)\<close>\<close>

fun read_u32 :: "byte list \<Rightarrow> cr_error + (u32 \<times> byte list)" where
  "read_u32 (a # b # c # d # io) =
     Inr (push_bit 24 (ucast a) OR push_bit 16 (ucast b) OR push_bit 8 (ucast c) OR ucast d, io)"
| "read_u32 _ = Inl EOFError"

text \<open>\<open>while bytes_read + 4 <= length\<close>: a length below \<open>2\<^sup>6\<^sup>2\<close> keeps the sum in range.\<close>

function read_others :: "nat \<Rightarrow> nat \<Rightarrow> byte list \<Rightarrow> cr_error + (u32 list \<times> nat \<times> byte list)" where
  "read_others len bytes_read io =
     (if bytes_read + 4 \<le> len then
        rbind (read_u32 io) (\<lambda>(v, io).
        rbind (read_others len (bytes_read + 4) io) (\<lambda>(vs, n, io). Inr (v # vs, n, io)))
      else Inr ([], bytes_read, io))"
  by pat_completeness auto
termination by (relation "measure (\<lambda>(len, n, io). len - n)") auto

declare read_others.simps [simp del]

definition read_version_information :: "byte list \<Rightarrow> u64 \<Rightarrow> cr_error + ((u32 \<times> u32 list) \<times> byte list)" where
  "read_version_information io len =
     rbind (read_u32 io) (\<lambda>(chosen, io).
     rbind (read_others (unat len) 4 io) (\<lambda>(others, bytes_read, io).
     rbind (if bytes_read < unat len then io_skip io (len - of_nat bytes_read) else Inr io) (\<lambda>io.
       Inr ((chosen, others), io))))"

definition num_param ::
    "(u64 \<Rightarrow> TransportParameters) \<Rightarrow> byte list \<Rightarrow> u64 \<Rightarrow> cr_error + (TransportParameters \<times> byte list)" where
  "num_param f io len = rbind (read_varint_value io len) (\<lambda>(v, io). Inr (f v, io))"

definition bytes_param ::
    "(byte list option \<Rightarrow> TransportParameters) \<Rightarrow> byte list \<Rightarrow> u64 \<Rightarrow> cr_error + (TransportParameters \<times> byte list)" where
  "bytes_param f io len = rbind (read_bytes io len) (\<lambda>(d, io). Inr (f (Some d), io))"

definition decode_param ::
    "u64 \<Rightarrow> u64 \<Rightarrow> TransportParameters \<Rightarrow> byte list \<Rightarrow> cr_error + (TransportParameters \<times> byte list)" where
  "decode_param i len p io =
     (if i = 0x00 then bytes_param (\<lambda>v. p\<lparr>original_destination_connection_id := v\<rparr>) io len
      else if i = 0x01 then num_param (\<lambda>v. p\<lparr>max_idle_timeout := v\<rparr>) io len
      else if i = 0x02 then bytes_param (\<lambda>v. p\<lparr>stateless_reset_token := v\<rparr>) io len
      else if i = 0x03 then num_param (\<lambda>v. p\<lparr>max_udp_payload_size := v\<rparr>) io len
      else if i = 0x04 then num_param (\<lambda>v. p\<lparr>initial_max_data := v\<rparr>) io len
      else if i = 0x05 then num_param (\<lambda>v. p\<lparr>initial_max_stream_data_bidi_local := v\<rparr>) io len
      else if i = 0x06 then num_param (\<lambda>v. p\<lparr>initial_max_stream_data_bidi_remote := v\<rparr>) io len
      else if i = 0x07 then num_param (\<lambda>v. p\<lparr>initial_max_stream_data_uni := v\<rparr>) io len
      else if i = 0x08 then num_param (\<lambda>v. p\<lparr>initial_max_streams_bidi := v\<rparr>) io len
      else if i = 0x09 then num_param (\<lambda>v. p\<lparr>initial_max_streams_uni := v\<rparr>) io len
      else if i = 0x0a then num_param (\<lambda>v. p\<lparr>ack_delay_exponent := v\<rparr>) io len
      else if i = 0x0b then num_param (\<lambda>v. p\<lparr>max_ack_delay := v\<rparr>) io len
      else if i = 0x0c then
        rbind (io_skip io len) (\<lambda>io. Inr (p\<lparr>disable_active_migration := True\<rparr>, io))
      else if i = 0x0d then bytes_param (\<lambda>v. p\<lparr>preferred_address := v\<rparr>) io len
      else if i = 0x0e then num_param (\<lambda>v. p\<lparr>active_connection_id_limit := v\<rparr>) io len
      else if i = 0x0f then bytes_param (\<lambda>v. p\<lparr>initial_source_connection_id := v\<rparr>) io len
      else if i = 0x10 then bytes_param (\<lambda>v. p\<lparr>retry_source_connection_id := v\<rparr>) io len
      else if i = 0x20 then num_param (\<lambda>v. p\<lparr>max_datagram_frame_size := v\<rparr>) io len
      else if i = 0x11 then
        rbind (read_version_information io len) (\<lambda>(vi, io). Inr (p\<lparr>quic_version_information := Some vi\<rparr>, io))
      else rbind (io_skip io len) (\<lambda>io. Inr (p, io)))"

definition decode_one :: "TransportParameters \<Rightarrow> byte list \<Rightarrow> cr_error + (TransportParameters \<times> byte list)" where
  "decode_one p io =
     rbind (VarInt_decode io) (\<lambda>(i, io). rbind (VarInt_decode io) (\<lambda>(len, io). decode_param i len p io))"

lemma io_skip_le: "io_skip io n = Inr r \<Longrightarrow> length r \<le> length io"
  by (auto simp: io_skip_def split: if_splits)

lemma read_varint_value_le: "read_varint_value io n = Inr (v, r) \<Longrightarrow> length r \<le> length io"
  by (auto simp: read_varint_value_def rbind_Inr_iff Let_def dest!: VarInt_decode_le io_skip_le split: if_splits)

lemma read_u32_le: "read_u32 io = Inr (v, r) \<Longrightarrow> length r \<le> length io"
  by (cases io rule: read_u32.cases) auto

lemma read_others_le: "read_others len n io = Inr (vs, m, r) \<Longrightarrow> length r \<le> length io"
proof (induction len n io arbitrary: vs m r rule: read_others.induct)
  case (1 len n io)
  note step = 1(2) [unfolded read_others.simps [of len n io]]
  show ?case
  proof (cases "n + 4 \<le> len")
    case True
    then obtain v io1 vs' where v: "read_u32 io = Inr (v, io1)"
      and o: "read_others len (n + 4) io1 = Inr (vs', m, r)"
      using step by (auto simp: rbind_Inr_iff)
    show ?thesis using "1.IH" [OF True o] read_u32_le [OF v] by simp
  qed (use step in auto)
qed

lemma read_version_information_le: "read_version_information io n = Inr (v, r) \<Longrightarrow> length r \<le> length io"
  by (auto simp: read_version_information_def rbind_Inr_iff
      dest!: read_u32_le read_others_le io_skip_le split: if_splits)

lemma num_param_le: "num_param f io n = Inr (p, r) \<Longrightarrow> length r \<le> length io"
  by (auto simp: num_param_def rbind_Inr_iff dest!: read_varint_value_le)

lemma bytes_param_le: "bytes_param f io n = Inr (p, r) \<Longrightarrow> length r \<le> length io"
  by (auto simp: bytes_param_def rbind_Inr_iff dest!: read_bytes_le)

lemma decode_param_le: "decode_param i n p io = Inr (q, r) \<Longrightarrow> length r \<le> length io"
  unfolding decode_param_def
  by (auto simp: rbind_Inr_iff dest!: num_param_le bytes_param_le io_skip_le read_version_information_le
      split: if_splits)

lemma decode_one_shrinks: "decode_one p io = Inr (q, r) \<Longrightarrow> length r < length io"
  by (fastforce simp: decode_one_def rbind_Inr_iff dest: VarInt_decode_shrinks decode_param_le)

function decode_params :: "TransportParameters \<Rightarrow> byte list \<Rightarrow> cr_error + TransportParameters" where
  "decode_params p io =
     (if io = [] then Inr p
      else (case decode_one p io of Inl e \<Rightarrow> Inl e | Inr (q, io') \<Rightarrow> decode_params q io'))"
  by pat_completeness auto
termination by (relation "measure (\<lambda>(p, io). length io)") (auto dest: decode_one_shrinks)

declare decode_params.simps [simp del]

definition TransportParameters_decode :: "byte list \<Rightarrow> cr_error + TransportParameters" where
  "TransportParameters_decode io = decode_params TransportParameters_new io"

section \<open>Round trip\<close>

text \<open>A parameter that is written is read: \<open>m\<close> is what the encoder writes, \<open>u\<close> the effect of reading it.\<close>

definition takes :: "cr_error + byte list \<Rightarrow> (TransportParameters \<Rightarrow> TransportParameters) \<Rightarrow> bool" where
  "takes m u \<longleftrightarrow> (\<forall>bs p r. m = Inr bs \<longrightarrow> decode_params p (bs @ r) = decode_params (u p) r)"

lemma takesI:
  "(\<And>bs p r. m = Inr bs \<Longrightarrow> bs \<noteq> [] \<and> decode_one p (bs @ r) = Inr (u p, r)) \<Longrightarrow> takes m u"
  unfolding takes_def by (subst decode_params.simps) fastforce

lemma takes_nothing: "takes (Inr []) (\<lambda>p. p)"
  by (simp add: takes_def)

lemma takes_if: "takes m u \<Longrightarrow> takes (if b then m else Inr []) (\<lambda>p. if b then u p else p)"
  by (cases b) (simp_all add: takes_nothing)

lemma takes_all:
  assumes "list_all2 takes ms us" and "write_all ms = Inr bs"
  shows "decode_params p (bs @ r) = decode_params (fold (\<lambda>u. u) us p) r"
  using assms
proof (induction arbitrary: bs p rule: list_all2_induct)
  case (Cons m ms u us)
  then obtain a b where "m = Inr a" "write_all ms = Inr b" "bs = a @ b" by (auto simp: rbind_Inr_iff)
  then show ?case using Cons by (simp add: takes_def)
qed simp

lemma writeVarInt_length: "v < 2 ^ 62 \<Longrightarrow> writeVarInt v \<noteq> [] \<and> length (writeVarInt v) < 9"
  by (auto simp: writeVarInt_def)

lemma read_varint_value_app:
  assumes "v < 2 ^ 62"
  shows "read_varint_value (writeVarInt v @ r) (size_u64 (writeVarInt v)) = Inr (v, r)"
  using writeVarInt_length [OF assms] size_u64_small [of "writeVarInt v"]
  by (simp add: read_varint_value_def VarInt_decode_write [OF assms] Let_def)

lemma write_param_Inr:
  "write_param i v = Inr bs \<longleftrightarrow> i < 2 ^ 62 \<and> v < 2 ^ 62 \<and>
     bs = writeVarInt i @ writeVarInt (size_u64 (writeVarInt v)) @ writeVarInt v"
  using writeVarInt_length [of v] size_u64_small [of "writeVarInt v"]
  by (auto simp: write_param_def rbind_Inr_iff VarInt_encode_def VarInt_write_Inr)

lemma takes_num:
  assumes "\<And>p io len. decode_param i len p io = num_param (\<lambda>v. f v p) io len"
  shows "takes (write_param i v) (f v)"
proof (rule takesI)
  fix bs p r assume "write_param i v = Inr bs"
  then have lt: "i < 2 ^ 62" "v < 2 ^ 62"
    and bs: "bs = writeVarInt i @ writeVarInt (size_u64 (writeVarInt v)) @ writeVarInt v"
    by (simp_all add: write_param_Inr)
  have sz: "size_u64 (writeVarInt v) < 2 ^ 62"
    using writeVarInt_length [OF lt(2)] size_u64_small [of "writeVarInt v"] by simp
  show "bs \<noteq> [] \<and> decode_one p (bs @ r) = Inr (f v p, r)"
    unfolding bs using writeVarInt_length [OF lt(1)]
    by (simp add: decode_one_def VarInt_decode_write [OF lt(1)] VarInt_decode_write [OF sz] assms num_param_def
          read_varint_value_app [OF lt(2)])
qed

text \<open>A byte string as it is announced\<close>

definition bytes_ok :: "byte list option \<Rightarrow> bool" where
  "bytes_ok v \<longleftrightarrow> (\<forall>d. v = Some d \<longrightarrow> length d < 2 ^ 31)"

lemma takes_bytes:
  assumes "\<And>p io len. decode_param i len p io = bytes_param (\<lambda>v. f v p) io len" and "bytes_ok v"
  shows "takes (write_bytes_param i v) (\<lambda>p. if v = None then p else f v p)"
proof (cases v)
  case None
  then show ?thesis by (simp add: write_bytes_param_def takes_nothing)
next
  case (Some d)
  then have d: "length d < 2 ^ 31" using assms(2) by (simp add: bytes_ok_def)
  have "takes (write_bytes_param i v) (f v)"
  proof (rule takesI)
    fix bs p r assume "write_bytes_param i v = Inr bs"
    then have lt: "i < 2 ^ 62" and bs: "bs = writeVarInt i @ writeVarInt (size_u64 d) @ d"
      using Some by (auto simp: write_bytes_param_def rbind_Inr_iff VarInt_encode_def VarInt_write_Inr)
    show "bs \<noteq> [] \<and> decode_one p (bs @ r) = Inr (f v p, r)"
      unfolding bs using writeVarInt_length [OF lt] Some
      by (simp add: decode_one_def VarInt_decode_write [OF lt] assms(1) bytes_param_def read_bytes_app [OF d]
          VarInt_decode_write [OF size_u64_small [OF d, THEN conjunct1]])
  qed
  then show ?thesis using Some by simp
qed

lemma takes_empty:
  assumes "\<And>p io len. decode_param i len p io = rbind (io_skip io len) (\<lambda>io. Inr (u p, io))"
  shows "takes (write_empty_param i) u"
proof (rule takesI)
  fix bs p r assume "write_empty_param i = Inr bs"
  then have lt: "i < 2 ^ 62" and bs: "bs = writeVarInt i @ writeVarInt 0"
    by (auto simp: write_empty_param_def rbind_Inr_iff VarInt_encode_def VarInt_write_Inr)
  show "bs \<noteq> [] \<and> decode_one p (bs @ r) = Inr (u p, r)"
    unfolding bs using writeVarInt_length [OF lt]
    by (simp add: decode_one_def VarInt_decode_write [OF lt] VarInt_decode_write [of 0] assms io_skip_def)
qed

text \<open>Parameters this endpoint does not know are skipped.\<close>

definition unknown_param :: "u64 \<Rightarrow> bool" where
  "unknown_param i \<longleftrightarrow> 0x11 < i \<and> i \<noteq> 0x20"

lemma takes_unknown:
  assumes "unknown_param i" and d: "length d < 2 ^ 31"
  shows "takes (write_bytes_param i (Some d)) (\<lambda>p. p)"
proof (rule takesI)
  fix bs p r assume "write_bytes_param i (Some d) = Inr bs"
  then have lt: "i < 2 ^ 62" and bs: "bs = writeVarInt i @ writeVarInt (size_u64 d) @ d"
    by (auto simp: write_bytes_param_def rbind_Inr_iff VarInt_encode_def VarInt_write_Inr)
  have "i \<notin> {0x00, 0x01, 0x02, 0x03, 0x04, 0x05, 0x06, 0x07, 0x08, 0x09, 0x0a, 0x0b, 0x0c, 0x0d, 0x0e, 0x0f, 0x10, 0x11, 0x20}"
    using assms(1) by (auto simp: unknown_param_def)
  then have "decode_param i len p io = rbind (io_skip io len) (\<lambda>io. Inr (p, io))" for len io
    unfolding decode_param_def by (simp split del: if_split)
  then show "bs \<noteq> [] \<and> decode_one p (bs @ r) = Inr (p, r)"
    unfolding bs using writeVarInt_length [OF lt] size_u64_small [OF d]
    by (simp add: decode_one_def VarInt_decode_write [OF lt] io_skip_def
        VarInt_decode_write [OF size_u64_small [OF d, THEN conjunct1]])
qed

lemma read_u32_app: "read_u32 (u32_encode v @ r) = Inr (v, r)"
proof -
  have "push_bit 24 (ucast (ucast (drop_bit 24 v) :: byte)) OR push_bit 16 (ucast (ucast (drop_bit 16 v) :: byte)) OR
      push_bit 8 (ucast (ucast (drop_bit 8 v) :: byte)) OR ucast (ucast v :: byte) = (v :: u32)"
  proof (rule bit_word_eqI)
    fix n assume n: "n < LENGTH(32)"
    consider "n < 8" | "8 \<le> n" "n < 16" | "16 \<le> n" "n < 24" | "24 \<le> n" by linarith
    then show "bit (push_bit 24 (ucast (ucast (drop_bit 24 v) :: byte)) OR push_bit 16 (ucast (ucast (drop_bit 16 v) :: byte)) OR
        push_bit 8 (ucast (ucast (drop_bit 8 v) :: byte)) OR ucast (ucast v :: byte) :: u32) n = bit v n"
      by cases (use n in \<open>auto simp: bit_simps\<close>)
  qed
  then show ?thesis by (simp add: u32_encode_def)
qed

lemma read_others_app:
  "read_others (k + 4 * length vs) k (concat (map u32_encode vs) @ r) = Inr (vs, k + 4 * length vs, r)"
proof (induction vs arbitrary: k)
  case Nil
  then show ?case by (simp add: read_others.simps)
next
  case (Cons v vs)
  have l: "k + 4 * length (v # vs) = k + 4 + 4 * length vs" by simp
  have "read_others (k + 4 + 4 * length vs) k (u32_encode v @ concat (map u32_encode vs) @ r) =
      Inr (v # vs, k + 4 + 4 * length vs, r)"
    using Cons.IH [of "k + 4"] by (subst read_others.simps) (simp add: read_u32_app)
  then show ?case unfolding l by simp
qed

definition versions_ok :: "(u32 \<times> u32 list) option \<Rightarrow> bool" where
  "versions_ok vi \<longleftrightarrow> (\<forall>c vs. vi = Some (c, vs) \<longrightarrow> 4 + 4 * length vs < 2 ^ 31)"

lemma takes_versions:
  assumes "versions_ok vi"
  shows "takes (write_version_information vi)
     (\<lambda>p. if vi = None then p else p\<lparr>quic_version_information := vi\<rparr>)"
proof (cases vi)
  case None
  then show ?thesis by (simp add: write_version_information_def takes_nothing)
next
  case (Some cv)
  obtain c vs where cv: "cv = (c, vs)" by fastforce
  let ?n = "4 + 4 * length vs"
  have n: "?n < 2 ^ 31" using assms Some cv by (simp add: versions_ok_def)
  have lt: "of_nat ?n < (2 ^ 62 :: u64)" "unat (of_nat ?n :: u64) = ?n"
    using of_nat_less_62 [of ?n] unat_of_nat_62 [of ?n] n by simp_all
  have "takes (write_version_information vi) (\<lambda>p. p\<lparr>quic_version_information := vi\<rparr>)"
  proof (rule takesI)
    fix bs p r assume "write_version_information vi = Inr bs"
    then have bs: "bs = writeVarInt 0x11 @ writeVarInt (of_nat ?n) @ u32_encode c @ concat (map u32_encode vs)"
      using Some cv n by (auto simp: write_version_information_def rbind_Inr_iff VarInt_encode_def VarInt_write_Inr)
    have "read_version_information (u32_encode c @ concat (map u32_encode vs) @ r) (of_nat ?n) = Inr ((c, vs), r)"
      unfolding read_version_information_def lt(2) by (simp add: read_u32_app read_others_app)
    then show "bs \<noteq> [] \<and> decode_one p (bs @ r) = Inr (p\<lparr>quic_version_information := vi\<rparr>, r)"
      unfolding bs using writeVarInt_length [of "0x11"] Some cv
      by (simp add: decode_one_def VarInt_decode_write [of "0x11"] VarInt_decode_write [OF lt(1)] decode_param_def
          del: of_nat_add of_nat_mult)
  qed
  then show ?thesis using Some by simp
qed

text \<open>The effects of the entries of the encoder, in order\<close>

definition decoded_entries :: "TransportParameters \<Rightarrow> (TransportParameters \<Rightarrow> TransportParameters) list" where
  "decoded_entries q =
     [\<lambda>p. if original_destination_connection_id q = None then p
          else p\<lparr>original_destination_connection_id := original_destination_connection_id q\<rparr>,
      \<lambda>p. if 0 < max_idle_timeout q then p\<lparr>max_idle_timeout := max_idle_timeout q\<rparr> else p,
      \<lambda>p. if stateless_reset_token q = None then p else p\<lparr>stateless_reset_token := stateless_reset_token q\<rparr>,
      \<lambda>p. p\<lparr>max_udp_payload_size := max_udp_payload_size q\<rparr>,
      \<lambda>p. if 0 < initial_max_data q then p\<lparr>initial_max_data := initial_max_data q\<rparr> else p,
      \<lambda>p. if 0 < initial_max_stream_data_bidi_local q
          then p\<lparr>initial_max_stream_data_bidi_local := initial_max_stream_data_bidi_local q\<rparr> else p,
      \<lambda>p. if 0 < initial_max_stream_data_bidi_remote q
          then p\<lparr>initial_max_stream_data_bidi_remote := initial_max_stream_data_bidi_remote q\<rparr> else p,
      \<lambda>p. if 0 < initial_max_stream_data_uni q
          then p\<lparr>initial_max_stream_data_uni := initial_max_stream_data_uni q\<rparr> else p,
      \<lambda>p. if 0 < initial_max_streams_bidi q then p\<lparr>initial_max_streams_bidi := initial_max_streams_bidi q\<rparr> else p,
      \<lambda>p. if 0 < initial_max_streams_uni q then p\<lparr>initial_max_streams_uni := initial_max_streams_uni q\<rparr> else p,
      \<lambda>p. if ack_delay_exponent q \<noteq> 3 then p\<lparr>ack_delay_exponent := ack_delay_exponent q\<rparr> else p,
      \<lambda>p. if max_ack_delay q \<noteq> 25 then p\<lparr>max_ack_delay := max_ack_delay q\<rparr> else p,
      \<lambda>p. if disable_active_migration q then p\<lparr>disable_active_migration := True\<rparr> else p,
      \<lambda>p. if preferred_address q = None then p else p\<lparr>preferred_address := preferred_address q\<rparr>,
      \<lambda>p. if active_connection_id_limit q \<noteq> 2
          then p\<lparr>active_connection_id_limit := active_connection_id_limit q\<rparr> else p,
      \<lambda>p. if initial_source_connection_id q = None then p
          else p\<lparr>initial_source_connection_id := initial_source_connection_id q\<rparr>,
      \<lambda>p. if retry_source_connection_id q = None then p
          else p\<lparr>retry_source_connection_id := retry_source_connection_id q\<rparr>,
      \<lambda>p. if 0 < max_datagram_frame_size q then p\<lparr>max_datagram_frame_size := max_datagram_frame_size q\<rparr> else p,
      \<lambda>p. if quic_version_information q = None then p
          else p\<lparr>quic_version_information := quic_version_information q\<rparr>]"

lemma conditional_updates:
  "(if b then p else p\<lparr>original_destination_connection_id := w\<rparr>) = original_destination_connection_id_update (\<lambda>x. if b then x else w) p"
  "(if b then p\<lparr>max_idle_timeout := v\<rparr> else p) = max_idle_timeout_update (\<lambda>x. if b then v else x) p"
  "(if b then p else p\<lparr>stateless_reset_token := w\<rparr>) = stateless_reset_token_update (\<lambda>x. if b then x else w) p"
  "(if b then p\<lparr>initial_max_data := v\<rparr> else p) = initial_max_data_update (\<lambda>x. if b then v else x) p"
  "(if b then p\<lparr>initial_max_stream_data_bidi_local := v\<rparr> else p) = initial_max_stream_data_bidi_local_update (\<lambda>x. if b then v else x) p"
  "(if b then p\<lparr>initial_max_stream_data_bidi_remote := v\<rparr> else p) = initial_max_stream_data_bidi_remote_update (\<lambda>x. if b then v else x) p"
  "(if b then p\<lparr>initial_max_stream_data_uni := v\<rparr> else p) = initial_max_stream_data_uni_update (\<lambda>x. if b then v else x) p"
  "(if b then p\<lparr>initial_max_streams_bidi := v\<rparr> else p) = initial_max_streams_bidi_update (\<lambda>x. if b then v else x) p"
  "(if b then p\<lparr>initial_max_streams_uni := v\<rparr> else p) = initial_max_streams_uni_update (\<lambda>x. if b then v else x) p"
  "(if b then p\<lparr>ack_delay_exponent := v\<rparr> else p) = ack_delay_exponent_update (\<lambda>x. if b then v else x) p"
  "(if b then p\<lparr>max_ack_delay := v\<rparr> else p) = max_ack_delay_update (\<lambda>x. if b then v else x) p"
  "(if b then p else p\<lparr>preferred_address := w\<rparr>) = preferred_address_update (\<lambda>x. if b then x else w) p"
  "(if b then p\<lparr>active_connection_id_limit := v\<rparr> else p) = active_connection_id_limit_update (\<lambda>x. if b then v else x) p"
  "(if b then p else p\<lparr>initial_source_connection_id := w\<rparr>) = initial_source_connection_id_update (\<lambda>x. if b then x else w) p"
  "(if b then p else p\<lparr>retry_source_connection_id := w\<rparr>) = retry_source_connection_id_update (\<lambda>x. if b then x else w) p"
  "(if b then p\<lparr>max_datagram_frame_size := v\<rparr> else p) = max_datagram_frame_size_update (\<lambda>x. if b then v else x) p"
  "(if b then p else p\<lparr>quic_version_information := w2\<rparr>) = quic_version_information_update (\<lambda>x. if b then x else w2) p"
  "(if b then p\<lparr>disable_active_migration := True\<rparr> else p) = disable_active_migration_update (\<lambda>x. b \<or> x) p"
  by simp_all

lemma kept_values:
  "(if 0 < v then v else 0) = (v :: u64)" "(if v \<noteq> k then v else k) = (v :: u64)" "(if x = None then None else x) = x"
  by (simp_all add: word_neq_0_conv [symmetric])

lemma decoded_entries_new: "fold (\<lambda>u. u) (decoded_entries q) TransportParameters_new = q"
  unfolding decoded_entries_def conditional_updates
  unfolding fold_simps TransportParameters_new_def
  by (cases q) (simp only: TransportParameters.select_convs TransportParameters.update_convs kept_values simp_thms)

definition parameters_ok :: "TransportParameters \<Rightarrow> bool" where
  "parameters_ok p \<longleftrightarrow>
     bytes_ok (original_destination_connection_id p) \<and> bytes_ok (stateless_reset_token p) \<and>
     bytes_ok (preferred_address p) \<and> bytes_ok (initial_source_connection_id p) \<and>
     bytes_ok (retry_source_connection_id p) \<and> versions_ok (quic_version_information p)"

definition parameter_ints :: "TransportParameters \<Rightarrow> u64 list" where
  "parameter_ints p =
     [max_idle_timeout p, max_udp_payload_size p, initial_max_data p, initial_max_stream_data_bidi_local p,
      initial_max_stream_data_bidi_remote p, initial_max_stream_data_uni p, initial_max_streams_bidi p,
      initial_max_streams_uni p, ack_delay_exponent p, max_ack_delay p, active_connection_id_limit p,
      max_datagram_frame_size p]"

lemma encode_takes:
  assumes "parameters_ok q" and "TransportParameters_encode q = Inr bs"
  shows "decode_params TransportParameters_new (bs @ r) = decode_params q r"
proof -
  have "decode_params TransportParameters_new (bs @ r) =
      decode_params (fold (\<lambda>u. u) (decoded_entries q) TransportParameters_new) r"
    by (rule takes_all [OF _ assms(2) [unfolded TransportParameters_encode_def]], unfold decoded_entries_def,
        intro list.rel_intros takes_if)
      (rule takes_bytes takes_num takes_empty takes_versions; use assms(1) in \<open>simp add: decode_param_def parameters_ok_def\<close>)+
  then show ?thesis by (simp only: decoded_entries_new)
qed

lemma write_all_Inr_iff: "(\<exists>bs. write_all ms = Inr bs) \<longleftrightarrow> (\<forall>m\<in>set ms. \<exists>bs. m = Inr bs)"
  by (induction ms) (auto simp: rbind_Inr_iff)

lemma write_bytes_param_ok: "i < 2 ^ 62 \<Longrightarrow> bytes_ok v \<Longrightarrow> \<exists>bs. write_bytes_param i v = Inr bs"
  using size_u64_small [of "the v"]
  by (auto simp: write_bytes_param_def bytes_ok_def rbind_Inr_iff VarInt_encode_def VarInt_write_Inr split: option.split)

lemma write_version_information_ok: "versions_ok vi \<Longrightarrow> \<exists>bs. write_version_information vi = Inr bs"
proof (cases vi)
  case (Some cv)
  assume "versions_ok vi"
  then have "4 + 4 * length (snd cv) < 2 ^ 31" using Some by (cases cv) (simp add: versions_ok_def)
  then show ?thesis using Some of_nat_less_62 [of "4 + 4 * length (snd cv)"]
    by (cases cv) (auto simp: write_version_information_def rbind_Inr_iff VarInt_encode_def VarInt_write_Inr)
qed (simp add: write_version_information_def)

lemma write_if_ok: "(\<exists>bs. (if b then write_param i v else Inr []) = Inr bs) \<longleftrightarrow> (b \<longrightarrow> i < 2 ^ 62 \<and> v < 2 ^ 62)"
  by (simp add: write_param_Inr)

lemma encode_ok_iff:
  assumes "parameters_ok p"
  shows "(\<exists>bs. TransportParameters_encode p = Inr bs) \<longleftrightarrow> (\<forall>v\<in>set (parameter_ints p). v < 2 ^ 62)"
proof -
  have e: "\<exists>bs. (if c then write_empty_param 0x0c else Inr []) = Inr bs" for c
    by (simp add: write_empty_param_def rbind_Inr_iff VarInt_encode_def VarInt_write_Inr)
  have b: "\<exists>bs. write_bytes_param i v = Inr bs" if "i < 2 ^ 62" "bytes_ok v" for i v
    using that by (rule write_bytes_param_ok)
  have pos: "(\<exists>bs. (if 0 < v then write_param i v else Inr []) = Inr bs) \<longleftrightarrow> v < 2 ^ 62"
    and plain: "(\<exists>bs. write_param i v = Inr bs) \<longleftrightarrow> v < 2 ^ 62" if "i < 2 ^ 62" for i v
    using that by (auto simp: write_param_Inr word_neq_0_conv [symmetric])
  have opt: "(\<exists>bs. (if v \<noteq> k then write_param i v else Inr []) = Inr bs) \<longleftrightarrow> v < 2 ^ 62"
    if "i < 2 ^ 62" "k < 2 ^ 62" for i k v
    using that by (auto simp: write_param_Inr)
  have L: "(0x00 :: u64) < 2 ^ 62" "(0x01 :: u64) < 2 ^ 62" "(0x02 :: u64) < 2 ^ 62" "(0x03 :: u64) < 2 ^ 62"
    "(0x04 :: u64) < 2 ^ 62" "(0x05 :: u64) < 2 ^ 62" "(0x06 :: u64) < 2 ^ 62" "(0x07 :: u64) < 2 ^ 62"
    "(0x08 :: u64) < 2 ^ 62" "(0x09 :: u64) < 2 ^ 62" "(0x0a :: u64) < 2 ^ 62" "(0x0b :: u64) < 2 ^ 62"
    "(0x0d :: u64) < 2 ^ 62" "(0x0e :: u64) < 2 ^ 62" "(0x0f :: u64) < 2 ^ 62" "(0x10 :: u64) < 2 ^ 62"
    "(0x20 :: u64) < 2 ^ 62" "(25 :: u64) < 2 ^ 62" by simp_all
  note ok = assms [unfolded parameters_ok_def]
  note opts = opt [OF L(11) L(4)] opt [OF L(12) L(18)] opt [OF L(14) L(3)]
  note fixed = b [OF L(1)] b [OF L(3)] b [OF L(13)] b [OF L(15)] b [OF L(16)] write_version_information_ok
  show ?thesis
    unfolding TransportParameters_encode_def write_all_Inr_iff parameter_ints_def list.set ball_simps
    by (simp only: L [THEN pos] L [THEN plain] opts e fixed ok simp_thms)
qed

text \<open>
  C14: Transport parameters whose byte strings are below 2 GiB (\<open>parameters_ok\<close>) survive the wire. Encoding succeeds exactly when every integer fits a
  variable-length integer, and whatever parameters a newer peer puts before and after them, decoding
  gives back every parameter, those that were left out because they have their defaults included.
\<close>

theorem transport_parameters_roundtrip:
  assumes "parameters_ok p" and "\<forall>(i, d)\<in>set xs. unknown_param i \<and> length d < 2 ^ 31"
  shows "case TransportParameters_encode p of
       Inl e \<Rightarrow> \<exists>v\<in>set (parameter_ints p). 2 ^ 62 \<le> v
     | Inr bs \<Rightarrow> (\<forall>v\<in>set (parameter_ints p). v < 2 ^ 62) \<and>
         (\<forall>us. write_all (map (\<lambda>(i, d). write_bytes_param i (Some d)) xs) = Inr us \<longrightarrow>
            TransportParameters_decode (us @ bs @ us) = Inr p)"
proof (cases "TransportParameters_encode p")
  case (Inl e)
  then show ?thesis using encode_ok_iff [OF assms(1)] by (auto simp: not_less)
next
  case (Inr bs)
  have skip: "decode_params q (us @ r) = decode_params q r"
    if "write_all (map (\<lambda>(i, d). write_bytes_param i (Some d)) xs) = Inr us" for q us r
    using assms(2) that
  proof (induction xs arbitrary: us)
    case (Cons x xs)
    obtain i d where x: "x = (i, d)" by fastforce
    obtain a b where a: "write_bytes_param i (Some d) = Inr a" and us: "us = a @ b"
      and b: "write_all (map (\<lambda>(i, d). write_bytes_param i (Some d)) xs) = Inr b"
      using Cons.prems x by (auto simp: rbind_Inr_iff)
    have "takes (write_bytes_param i (Some d)) (\<lambda>p. p)" using Cons.prems(1) x by (intro takes_unknown) auto
    then have "decode_params q (us @ r) = decode_params q (b @ r)" using a us by (simp add: takes_def)
    then show ?case using Cons.IH [OF _ b] Cons.prems(1) by simp
  qed simp
  have "TransportParameters_decode (us @ bs @ us) = Inr p"
    if "write_all (map (\<lambda>(i, d). write_bytes_param i (Some d)) xs) = Inr us" for us
    unfolding TransportParameters_decode_def skip [OF that] encode_takes [OF assms(1) Inr]
    using skip [OF that, of p "[]"] by (simp add: decode_params.simps [of p "[]"])
  then show ?thesis using Inr encode_ok_iff [OF assms(1)] by auto
qed

text \<open>The parameters of a client of bench_h3's defaults, with an unknown parameter before and after\<close>

theorem transport_parameters_roundtrip_witness:
  "let p = TransportParameters_new\<lparr>max_idle_timeout := 30000, initial_max_data := 0x40000000,
         initial_max_streams_bidi := 128, disable_active_migration := True,
         initial_source_connection_id := Some [1, 2, 3, 4], quic_version_information := Some (1, [0x6b3343cf])\<rparr>;
       us = [0x40, 0x7f, 2, 9, 9];
       bs = [1, 4, 0x80, 0, 0x75, 0x30, 3, 4, 0x80, 0, 0xff, 0xf7, 4, 8, 0xc0, 0, 0, 0, 0x40, 0, 0, 0,
             8, 2, 0x40, 0x80, 0x0c, 0, 0x0f, 4, 1, 2, 3, 4, 0x11, 8, 0, 0, 0, 1, 0x6b, 0x33, 0x43, 0xcf]
   in TransportParameters_encode p = Inr bs \<and> TransportParameters_decode (us @ bs @ us) = Inr p"
proof -
  let ?p = "TransportParameters_new\<lparr>max_idle_timeout := 30000, initial_max_data := 0x40000000,
         initial_max_streams_bidi := 128, disable_active_migration := True,
         initial_source_connection_id := Some [1, 2, 3, 4], quic_version_information := Some (1, [0x6b3343cf])\<rparr>"
  let ?bs = "[1, 4, 0x80, 0, 0x75, 0x30, 3, 4, 0x80, 0, 0xff, 0xf7, 4, 8, 0xc0, 0, 0, 0, 0x40, 0, 0, 0,
             8, 2, 0x40, 0x80, 0x0c, 0, 0x0f, 4, 1, 2, 3, 4, 0x11, 8, 0, 0, 0, 1, 0x6b, 0x33, 0x43, 0xcf] :: byte list"
  have ok: "parameters_ok ?p"
    by (simp add: parameters_ok_def bytes_ok_def versions_ok_def TransportParameters_new_def)
  have xs: "\<forall>(i, d)\<in>set [(0x7f :: u64, [9, 9 :: byte])]. unknown_param i \<and> length d < 2 ^ 31"
    by (simp add: unknown_param_def)
  have enc: "TransportParameters_encode ?p = Inr ?bs"
    by (simp add: TransportParameters_encode_def TransportParameters_new_def write_param_def write_bytes_param_def
        write_empty_param_def write_version_information_def VarInt_encode_def VarInt_write_def size_u64_def u32_encode_def)
  have unk: "write_all (map (\<lambda>(i, d). write_bytes_param i (Some d)) [(0x7f, [9, 9])]) = Inr [0x40, 0x7f, 2, 9, 9]"
    by code_simp
  have "TransportParameters_decode ([0x40, 0x7f, 2, 9, 9] @ ?bs @ [0x40, 0x7f, 2, 9, 9]) = Inr ?p"
    using transport_parameters_roundtrip [OF ok xs, unfolded enc] unk by simp
  then show ?thesis using enc unfolding Let_def by blast
qed

text \<open>
  Numeric parameters whose content is longer than its integer leave the rest of the parameter out; a
  version information shorter than four bytes is read past its end.
\<close>

lemma short_version_information_overreads:
  "TransportParameters_decode [0x11, 0, 0x01, 2, 0x40, 0x80] =
     Inr (TransportParameters_new\<lparr>quic_version_information := Some (0x01024080, [])\<rparr>)"
  by (simp add: TransportParameters_decode_def decode_params.simps decode_one_def VarInt_decode_def
      decode_param_def read_version_information_def read_others.simps Let_def TransportParameters_new_def)

end
