(* ===== verification/Cr_Handshake.thy ===== *)
theory Cr_Handshake
  imports Cr_Stream Cr_Transport
begin

text \<open>
  The cryptographic handshake as the connection sees it (src/quic/connection.cr): CRYPTO frames
  are put in order by \<open>handle_crypto_frame\<close> and handed to TLS, and the peer's transport parameters are
  taken out of the handshake messages by \<open>parse_transport_parameters_from_stream\<close> and
  \<open>extract_transport_parameters\<close>. OpenSSL is an argument \<open>ssl\<close>: from everything \<open>handle_data\<close>
  has been given it tells the transport parameters it reports in that call, if any, and whether the
  handshake is finished.
\<close>

section \<open>Growing memory\<close>

text \<open>An \<open>IO::Memory\<close> that is written and read: its bytes and its position\<close>

record memory_io =
  mem_bytes :: "byte list"
  mem_pos :: nat

definition memory_new :: memory_io where
  "memory_new = \<lparr>mem_bytes = [], mem_pos = 0\<rparr>"

text \<open>\<open>write\<close> at the position, over what is there\<close>

definition memory_write :: "byte list \<Rightarrow> memory_io \<Rightarrow> cr_error + memory_io" where
  "memory_write data io =
     (if data = [] then Inr io
      else if MemoryLimit \<le> mem_pos io + length data then Inl OverflowError
      else Inr \<lparr>mem_bytes = take (mem_pos io) (mem_bytes io) @ data @ drop (mem_pos io + length data) (mem_bytes io),
                mem_pos = mem_pos io + length data\<rparr>)"

section \<open>Transport parameters in a handshake message\<close>

text \<open>\<open>io.read_bytes(UInt16, IO::ByteFormat::BigEndian) rescue ...\<close>\<close>

fun read_u16 :: "byte list \<Rightarrow> (nat \<times> byte list) option" where
  "read_u16 (a # b # io) = Some (256 * unat a + unat b, io)"
| "read_u16 _ = None"

definition skip_bytes :: "byte list \<Rightarrow> nat \<Rightarrow> cr_error + byte list" where
  "skip_bytes io n = (if n \<le> length io then Inr (drop n io) else Inl EOFError)"

text \<open>The loop over the extensions; \<open>left\<close> is \<open>end_pos - io.pos\<close>.\<close>

function find_extension :: "int \<Rightarrow> byte list \<Rightarrow> cr_error + byte list option" where
  "find_extension left io =
     (if 0 < left \<and> io \<noteq> [] then
        (case read_u16 io of
           None \<Rightarrow> Inr None
         | Some (ext_type, io1) \<Rightarrow>
             (case read_u16 io1 of
                None \<Rightarrow> Inr None
              | Some (ext_len, io2) \<Rightarrow>
                  if ext_type = 57 then rbind (read_fully io2 ext_len) (\<lambda>(tp_bytes, io3). Inr (Some tp_bytes))
                  else
                    (case skip_bytes io2 ext_len of
                       Inl e \<Rightarrow> Inl e
                     | Inr io3 \<Rightarrow> find_extension (left - 4 - int ext_len) io3)))
      else Inr None)"
  by pat_completeness auto
termination
  by (relation "measure (\<lambda>(l, io). length io)")
    (auto simp: skip_bytes_def split: if_splits elim!: read_u16.elims)

declare find_extension.simps [simp del]

text \<open>Past version, random, session id, cipher suites and compression methods of a ClientHello\<close>

definition skip_client_hello :: "byte list \<Rightarrow> cr_error + byte list option" where
  "skip_client_hello io =
     (if length io < 34 then Inr None
      else
        (case drop 34 io of
           [] \<Rightarrow> Inr None
         | sess_id_len # io \<Rightarrow>
             rbind (skip_bytes io (unat sess_id_len)) (\<lambda>io.
             case read_u16 io of
               None \<Rightarrow> Inr None
             | Some (ciphers_len, io) \<Rightarrow>
                 rbind (skip_bytes io ciphers_len) (\<lambda>io.
                 case io of
                   [] \<Rightarrow> Inr None
                 | comp_len # io \<Rightarrow> rbind (skip_bytes io (unat comp_len)) (\<lambda>io. Inr (Some io))))))"

definition extract_transport_parameters :: "byte list \<Rightarrow> cr_error + byte list option" where
  "extract_transport_parameters handshake_bytes =
     (if length handshake_bytes < 4 then Inr None
      else
        (let type = handshake_bytes ! 0 in
         if \<not> (type = 1 \<or> type = 8) then Inr None
         else
           rbind (if type = 1 then skip_client_hello (drop 4 handshake_bytes) else Inr (Some (drop 4 handshake_bytes)))
             (\<lambda>io_opt.
               case io_opt of
                 None \<Rightarrow> Inr None
               | Some io \<Rightarrow>
                   (case read_u16 io of
                      None \<Rightarrow> Inr None
                    | Some (ext_total_len, io) \<Rightarrow> find_extension (int ext_total_len) io))))"

text \<open>
  The loop over the complete messages of a buffer, from a position on: the new position and the
  remote parameters.
\<close>

definition message_length :: "byte list \<Rightarrow> nat" where
  "message_length rest = 65536 * unat (rest ! 1) + 256 * unat (rest ! 2) + unat (rest ! 3)"

function parse_messages ::
    "byte list \<Rightarrow> nat \<Rightarrow> TransportParameters option \<Rightarrow> (cr_error + unit) \<times> nat \<times> TransportParameters option" where
  "parse_messages buf p tp =
     (let rest = drop p buf in
      if length rest < 4 then (Inr (), p, tp)
      else if length rest - 4 < message_length rest then (Inr (), p, tp)
      else
        (let p' = p + 4 + message_length rest in
         case extract_transport_parameters (take (4 + message_length rest) rest) of
           Inl e \<Rightarrow> (Inl e, p', tp)
         | Inr None \<Rightarrow> parse_messages buf p' tp
         | Inr (Some tp_bytes) \<Rightarrow>
             parse_messages buf p'
               (case TransportParameters_decode tp_bytes of Inl e \<Rightarrow> tp | Inr t \<Rightarrow> Some t)))"
  by pat_completeness auto
termination by (relation "measure (\<lambda>(buf, p, tp). length buf - p)") auto

declare parse_messages.simps [simp del]

definition parse_transport_parameters_from_stream ::
    "memory_io \<Rightarrow> TransportParameters option \<Rightarrow> (cr_error + unit) \<times> memory_io \<times> TransportParameters option" where
  "parse_transport_parameters_from_stream io tp =
     (case parse_messages (mem_bytes io) 0 tp of
        (Inl e, p, tp') \<Rightarrow> (Inl e, io\<lparr>mem_pos := p\<rparr>, tp')
      | (Inr _, p, tp') \<Rightarrow>
          (Inr (),
           if 0 < p then
             (let temp = drop p (mem_bytes io) in \<lparr>mem_bytes = temp, mem_pos = length temp\<rparr>)
           else io\<lparr>mem_pos := 0\<rparr>, tp'))"

section \<open>CRYPTO frames\<close>

text \<open>
  The buffer is a hash in insertion order: an offset that is already there keeps its place and gets
  the new data.
\<close>

fun hash_set :: "'k \<Rightarrow> 'v \<Rightarrow> ('k \<times> 'v) list \<Rightarrow> ('k \<times> 'v) list" where
  "hash_set k v [] = [(k, v)]"
| "hash_set k v ((k', v') # h) = (if k' = k then (k, v) # h else (k', v') # hash_set k v h)"

definition hash_delete :: "'k \<Rightarrow> ('k \<times> 'v) list \<Rightarrow> ('k \<times> 'v) list" where
  "hash_delete k h = filter (\<lambda>(k', v). k' \<noteq> k) h"

fun find_segment :: "u64 \<Rightarrow> (u64 \<times> byte list) list \<Rightarrow> cr_error + (u64 \<times> byte list) option" where
  "find_segment next_offset [] = Inr None"
| "find_segment next_offset ((k, d) # buf) =
     (if k \<le> next_offset then
        rbind (u64_add k (length d)) (\<lambda>e.
          if next_offset < e then Inr (Some (k, d)) else find_segment next_offset buf)
      else find_segment next_offset buf)"

lemma find_segment_in: "find_segment n buf = Inr (Some x) \<Longrightarrow> x \<in> set buf"
  by (induction n buf rule: find_segment.induct) (auto simp: rbind_Inr_iff split: if_splits)

text \<open>The contiguous bytes from an offset on; \<open>total_size\<close> is an Int32.\<close>

function gather ::
    "(u64 \<times> byte list) list \<Rightarrow> u64 \<Rightarrow> byte list \<Rightarrow>
     (cr_error + (byte list \<times> u64)) \<times> (u64 \<times> byte list) list" where
  "gather buf next_offset bytes =
     (case find_segment next_offset buf of
        Inl e \<Rightarrow> (Inl e, buf)
      | Inr None \<Rightarrow> (Inr (bytes, next_offset), buf)
      | Inr (Some (found_key, data)) \<Rightarrow>
          (let buf' = hash_delete found_key buf;
               chunk = drop (unat (next_offset - found_key)) data in
           if 2 ^ 31 \<le> length bytes + length chunk then (Inl OverflowError, buf')
           else
             (case u64_add next_offset (length chunk) of
                Inl e \<Rightarrow> (Inl e, buf')
              | Inr next_offset' \<Rightarrow> gather buf' next_offset' (bytes @ chunk))))"
  by pat_completeness auto
termination
  by (relation "measure (\<lambda>(buf, n, bytes). length buf)")
    (fastforce simp: hash_delete_def dest!: find_segment_in intro: length_filter_less)+

declare gather.simps [simp del]

datatype pn_space = SpaceInitial | SpaceHandshake | SpaceZeroRTT | SpaceApp

record crypto_space =
  crypto_buf :: "(u64 \<times> byte list) list"
  crypto_rx_offset :: u64
  handshake_bytes :: memory_io

definition crypto_space_new :: crypto_space where
  "crypto_space_new = \<lparr>crypto_buf = [], crypto_rx_offset = 0, handshake_bytes = memory_new\<rparr>"

text \<open>The part of the connection the handshake uses; \<open>tls_input\<close> is what \<open>handle_data\<close> was given.\<close>

record handshake =
  is_server :: bool
  space_initial :: crypto_space
  space_handshake :: crypto_space
  space_app :: crypto_space
  remote_transport_parameters :: "TransportParameters option"
  tls_input :: "(u32 \<times> byte list) list"
  handshake_notified :: bool
  pending_handshake_done :: bool

definition handshake_new :: "bool \<Rightarrow> handshake" where
  "handshake_new server =
     \<lparr>is_server = server, space_initial = crypto_space_new, space_handshake = crypto_space_new,
      space_app = crypto_space_new, remote_transport_parameters = None, tls_input = [],
      handshake_notified = False, pending_handshake_done = False\<rparr>"

text \<open>The hashes have no entry for the 0-RTT space.\<close>

fun get_space :: "pn_space \<Rightarrow> handshake \<Rightarrow> crypto_space option" where
  "get_space SpaceInitial h = Some (space_initial h)"
| "get_space SpaceHandshake h = Some (space_handshake h)"
| "get_space SpaceApp h = Some (space_app h)"
| "get_space SpaceZeroRTT h = None"

fun set_space :: "pn_space \<Rightarrow> crypto_space \<Rightarrow> handshake \<Rightarrow> handshake" where
  "set_space SpaceInitial s h = h\<lparr>space_initial := s\<rparr>"
| "set_space SpaceHandshake s h = h\<lparr>space_handshake := s\<rparr>"
| "set_space SpaceApp s h = h\<lparr>space_app := s\<rparr>"
| "set_space SpaceZeroRTT s h = h"

fun protection_level :: "pn_space \<Rightarrow> u32" where
  "protection_level SpaceInitial = 0"
| "protection_level SpaceHandshake = 2"
| "protection_level _ = 3"

type_synonym ssl = "(u32 \<times> byte list) list \<Rightarrow> byte list option \<times> bool"

text \<open>The callback \<open>got_transport_params_cb\<close>: parameters that cannot be decoded are dropped.\<close>

definition got_transport_params_cb :: "byte list \<Rightarrow> handshake \<Rightarrow> handshake" where
  "got_transport_params_cb bytes h =
     (case TransportParameters_decode bytes of
        Inl e \<Rightarrow> h
      | Inr tp \<Rightarrow> h\<lparr>remote_transport_parameters := Some tp\<rparr>)"

definition tls_handle_data :: "ssl \<Rightarrow> byte list \<Rightarrow> u32 \<Rightarrow> handshake \<Rightarrow> handshake" where
  "tls_handle_data ssl data level h =
     (let h = h\<lparr>tls_input := tls_input h @ [(level, data)]\<rparr> in
      case fst (ssl (tls_input h)) of
        None \<Rightarrow> h
      | Some bytes \<Rightarrow> got_transport_params_cb bytes h)"

text \<open>Writing to the handshake bytes of the Initial and Handshake spaces and parsing them\<close>

definition scan_handshake :: "pn_space \<Rightarrow> byte list \<Rightarrow> crypto_space \<Rightarrow> handshake \<Rightarrow> (cr_error + unit) \<times> handshake" where
  "scan_handshake sp data s h =
     (if sp = SpaceInitial \<or> sp = SpaceHandshake then
        (case memory_write data (handshake_bytes s) of
           Inl e \<Rightarrow> (Inl e, set_space sp s h)
         | Inr io \<Rightarrow>
             (case parse_transport_parameters_from_stream io (remote_transport_parameters h) of
                (r, io', tp) \<Rightarrow>
                  (r, set_space sp (s\<lparr>handshake_bytes := io'\<rparr>) (h\<lparr>remote_transport_parameters := tp\<rparr>))))
      else (Inr (), set_space sp s h))"

text \<open>The end of the handshake is noticed once; a server then has \<open>HANDSHAKE_DONE\<close> to send.\<close>

definition notify_handshake :: "ssl \<Rightarrow> handshake \<Rightarrow> handshake" where
  "notify_handshake ssl h =
     (if snd (ssl (tls_input h)) \<and> \<not> handshake_notified h
      then h\<lparr>handshake_notified := True, pending_handshake_done := pending_handshake_done h \<or> is_server h\<rparr>
      else h)"

definition handle_crypto_frame ::
    "ssl \<Rightarrow> pn_space \<Rightarrow> u64 \<Rightarrow> byte list \<Rightarrow> handshake \<Rightarrow> (cr_error + unit) \<times> handshake" where
  "handle_crypto_frame ssl sp off data h =
     (case get_space sp h of
        None \<Rightarrow> (Inl KeyError, h)
      | Some s \<Rightarrow>
          (case gather (hash_set off data (crypto_buf s)) (crypto_rx_offset s) [] of
             (Inl e, buf) \<Rightarrow> (Inl e, set_space sp (s\<lparr>crypto_buf := buf\<rparr>) h)
           | (Inr (bytes, next_offset), buf) \<Rightarrow>
               (let s = s\<lparr>crypto_buf := buf\<rparr> in
                if 0 < length bytes then
                  (case scan_handshake sp bytes s h of
                     (Inl e, h) \<Rightarrow> (Inl e, h)
                   | (Inr _, h) \<Rightarrow>
                       (let h = notify_handshake ssl (tls_handle_data ssl bytes (protection_level sp) h) in (Inr (), set_space sp ((the (get_space sp h))\<lparr>crypto_rx_offset := next_offset\<rparr>) h)))
                else (Inr (), set_space sp (s\<lparr>crypto_rx_offset := next_offset\<rparr>) h))))"

section \<open>In order\<close>

lemma memory_write_new: "data \<noteq> [] \<Longrightarrow> length data < MemoryLimit \<Longrightarrow>
    memory_write data memory_new = Inr \<lparr>mem_bytes = data, mem_pos = length data\<rparr>"
  by (simp add: memory_write_def memory_new_def)

lemma hash_set_set: "set (hash_set k v h) \<subseteq> insert (k, v) (set h)"
  by (induction k v h rule: hash_set.induct) auto

lemma hash_set_mem: "(k, v) \<in> set (hash_set k v h)"
  by (induction k v h rule: hash_set.induct) auto

lemma hash_set_keep: "x \<in> set h \<Longrightarrow> fst x = k \<longrightarrow> snd x = v \<Longrightarrow> x \<in> set (hash_set k v h)"
  by (induction k v h rule: hash_set.induct) auto

lemma u64_add_small: "unat x + n < 2 ^ 64 \<Longrightarrow> u64_add x n = Inr (x + of_nat n) \<and> unat (x + of_nat n) = unat x + n"
  by (simp add: u64_add_def unat_add_of_nat)

text \<open>The segments of a buffer cut from \<open>bs\<close>, which is shorter than 2 GiB\<close>

definition cut_from :: "byte list \<Rightarrow> (u64 \<times> byte list) set \<Rightarrow> bool" where
  "cut_from bs X \<longleftrightarrow> (\<forall>x\<in>X. slice_of bs x) \<and> length bs < 2 ^ 31 \<and> inj_on fst X"

definition covers :: "u64 \<times> byte list \<Rightarrow> nat \<Rightarrow> bool" where
  "covers x p \<longleftrightarrow> unat (fst x) \<le> p \<and> p < seg_end x"

lemma cut_from_add: "cut_from bs X \<Longrightarrow> (k, d) \<in> X \<Longrightarrow> u64_add k (length d) = Inr (k + of_nat (length d)) \<and>
    unat (k + of_nat (length d)) = seg_end (k, d)"
  using u64_add_small [of k "length d"] by (fastforce simp: cut_from_def slice_of_def seg_end_def)

lemma find_segment_cut:
  assumes "cut_from bs X" and "set buf \<subseteq> X"
  shows "case find_segment n buf of
       Inl e \<Rightarrow> False
     | Inr None \<Rightarrow> \<forall>x\<in>set buf. \<not> covers x (unat n)
     | Inr (Some x) \<Rightarrow> x \<in> set buf \<and> covers x (unat n)"
  using assms(2)
proof (induction n buf rule: find_segment.induct)
  case (2 n k d buf)
  then have "(k, d) \<in> X" by simp
  note a = cut_from_add [OF assms(1) this]
  show ?case
  proof (cases "covers (k, d) (unat n)")
    case True
    then show ?thesis using a by (simp add: covers_def word_le_nat_alt word_less_nat_alt)
  next
    case False
    then have "find_segment n ((k, d) # buf) = find_segment n buf"
      using a by (simp add: covers_def word_le_nat_alt word_less_nat_alt)
    moreover have "case find_segment n buf of
       Inl e \<Rightarrow> False
     | Inr None \<Rightarrow> \<forall>x\<in>set buf. \<not> covers x (unat n)
     | Inr (Some x) \<Rightarrow> x \<in> set buf \<and> covers x (unat n)"
    proof (cases "k \<le> n")
      case True
      then have "\<not> n < k + of_nat (length d)" using False a by (simp add: covers_def word_le_nat_alt word_less_nat_alt)
      then show ?thesis using 2(1) [OF True, of "k + of_nat (length d)"] 2(3) by simp
    next
      case not_le: False
      then show ?thesis using 2(2) 2(3) by simp
    qed
    ultimately show ?thesis using False by (auto split: sum.splits option.splits)
  qed
qed simp

lemma gather_step:
  assumes "find_segment n buf = Inr (Some (k, d))" and "c = drop (unat (n - k)) d"
    and "length bytes + length c < 2 ^ 31" and "u64_add n (length c) = Inr n'"
  shows "gather buf n bytes = gather (hash_delete k buf) n' (bytes @ c)"
  using assms(3,4) unfolding assms(2) by (subst gather.simps) (simp add: assms(1) Let_def)

lemma gather_cut:
  assumes "cut_from bs X" and "set buf \<subseteq> X" and "bytes = take (unat n) bs" "unat n \<le> length bs"
    and "start \<le> unat n"
  shows "\<exists>n' buf'. gather buf n (drop start bytes) = (Inr (drop start (take (unat n') bs), n'), buf') \<and>
     unat n \<le> unat n' \<and> unat n' \<le> length bs \<and> set buf' \<subseteq> set buf \<and>
     (\<forall>x\<in>set buf. x \<in> set buf' \<or> seg_end x \<le> unat n') \<and>
     (\<forall>x\<in>set buf'. \<not> covers x (unat n')) \<and>
     (\<forall>p<unat n'. unat n \<le> p \<longrightarrow> (\<exists>x\<in>set buf. covers x p))"
  using assms(2-5)
proof (induction "length buf" arbitrary: buf n bytes rule: less_induct)
  case less
  note f = find_segment_cut [OF assms(1) less.prems(1), of n]
  consider (none) "find_segment n buf = Inr None" | (some) k d where "find_segment n buf = Inr (Some (k, d))"
    using f by (auto split: sum.splits option.splits)
  then show ?case
  proof cases
    case none
    then show ?thesis using f less.prems by (subst gather.simps) simp
  next
    case (some k d)
    then have x: "(k, d) \<in> set buf" and c: "covers (k, d) (unat n)" using f by simp_all
    have sl: "slice_of bs (k, d)" and lb: "length bs < 2 ^ 31" using assms(1) x less.prems(1)
      by (auto simp: cut_from_def)
    let ?chunk = "drop (unat (n - k)) d" and ?n = "n + of_nat (length (drop (unat (n - k)) d))"
    have kn: "unat k \<le> unat n" "unat n < unat k + length d" "unat k + length d \<le> length bs"
      using c sl by (simp_all add: covers_def seg_end_def slice_of_def)
    have nk: "unat (n - k) = unat n - unat k" using kn(1) by (simp add: unat_sub word_le_nat_alt)
    have lc: "unat n + length ?chunk = unat k + length d" using kn nk by simp
    have n': "u64_add n (length ?chunk) = Inr ?n" "unat ?n = unat k + length d"
      using u64_add_small [of n "length ?chunk"] lc kn(3) lb by simp_all
    have d: "d = take (length d) (drop (unat k) bs)" using sl by (simp add: slice_of_def)
    have chunk: "?chunk = drop (unat n) (take (unat k + length d) bs)"
      unfolding nk using kn(1) by (subst d) (simp add: drop_take add.commute)
    have step: "drop start bytes @ ?chunk = drop start (take (unat ?n) bs)"
    proof -
      have "take (unat n) (take (unat k + length d) bs) = bytes" using less.prems(2) kn(2) by simp
      then have "bytes @ ?chunk = take (unat k + length d) bs"
        unfolding chunk by (metis append_take_drop_id)
      moreover have "start \<le> length bytes" using less.prems by simp
      ultimately show ?thesis unfolding n'(2) by (metis drop_append diff_is_0_eq drop0)
    qed
    let ?buf = "hash_delete k buf"
    have "length ?buf < length buf" using x unfolding hash_delete_def by (auto intro: length_filter_less)
    moreover have sub: "set ?buf \<subseteq> set buf" by (auto simp: hash_delete_def)
    moreover have "set ?buf \<subseteq> X" using sub less.prems(1) by blast
    ultimately obtain m buf' where IH: "gather ?buf ?n (drop start (take (unat ?n) bs)) =
        (Inr (drop start (take (unat m) bs), m), buf')"
      "unat ?n \<le> unat m" "unat m \<le> length bs" "set buf' \<subseteq> set ?buf"
      "\<forall>x\<in>set ?buf. x \<in> set buf' \<or> seg_end x \<le> unat m" "\<forall>x\<in>set buf'. \<not> covers x (unat m)"
      "\<forall>p<unat m. unat ?n \<le> p \<longrightarrow> (\<exists>x\<in>set ?buf. covers x p)"
      using less.hyps [of ?buf "take (unat ?n) bs" ?n] n'(2) kn less.prems(4) by auto
    have "length (drop start bytes) + length ?chunk = length (drop start (take (unat ?n) bs))"
      using step by (metis length_append)
    also have "\<dots> \<le> length bs" by simp
    finally have "length (drop start bytes) + length ?chunk < 2 ^ 31" using lb by linarith
    from gather_step [OF some refl this n'(1)]
    have g: "gather buf n (drop start bytes) = gather ?buf ?n (drop start (take (unat ?n) bs))"
      unfolding step .
    have other: "y \<in> set ?buf \<or> y = (k, d)" if "y \<in> set buf" for y
    proof (cases "fst y = k")
      case True
      have "inj_on fst X" "y \<in> X" "(k, d) \<in> X" using assms(1) that x less.prems(1) by (auto simp: cut_from_def)
      then show ?thesis using True inj_onD [of fst X y "(k, d)"] by simp
    next
      case False
      then show ?thesis using that by (cases y) (simp add: hash_delete_def)
    qed
    have e: "seg_end (k, d) \<le> unat m" using IH(2) n'(2) by (simp add: seg_end_def)
    have cov: "covers (k, d) p" if "unat n \<le> p" "p < unat ?n" for p
      using that n'(2) kn(1) by (simp add: covers_def seg_end_def)
    have "\<exists>x\<in>set buf. covers x p" if "p < unat m" "unat n \<le> p" for p
    proof (cases "p < unat ?n")
      case True
      then show ?thesis using cov that x by blast
    next
      case False
      then show ?thesis using IH(7) that sub by (meson not_le subsetD)
    qed
    moreover have "\<forall>y\<in>set buf. y \<in> set buf' \<or> seg_end y \<le> unat m" using IH(5) other e by blast
    moreover have "unat n \<le> unat m" using IH(2) n'(2) kn by simp
    moreover have "set buf' \<subseteq> set buf" using IH(4) sub by blast
    ultimately show ?thesis unfolding g IH(1) using IH(3,6) by blast
  qed
qed

section \<open>Crypto streams\<close>

text \<open>
  Frames of one space, one after the other, until one raises: then the connection is closed and
  nothing more is received.
\<close>

fun crypto_run :: "ssl \<Rightarrow> pn_space \<Rightarrow> (u64 \<times> byte list) list \<Rightarrow> handshake \<Rightarrow> (cr_error + unit) \<times> handshake" where
  "crypto_run ssl sp [] h = (Inr (), h)"
| "crypto_run ssl sp ((off, data) # xs) h =
     (case handle_crypto_frame ssl sp off data h of
        (Inl e, h) \<Rightarrow> (Inl e, h)
      | (Inr _, h) \<Rightarrow> crypto_run ssl sp xs h)"

lemma get_set_space: "sp \<noteq> SpaceZeroRTT \<Longrightarrow> get_space sp (set_space sp s h) = Some s"
  by (cases sp) simp_all

lemma get_space_Some: "sp \<noteq> SpaceZeroRTT \<Longrightarrow> \<exists>s. get_space sp h = Some s"
  by (cases sp) simp_all

lemma set_space_input [simp]: "tls_input (set_space sp s h) = tls_input h"
  by (cases sp) simp_all

lemma handle_data_fields [simp]:
  "tls_input (tls_handle_data ssl data l h) = tls_input h @ [(l, data)]"
  "get_space sp (tls_handle_data ssl data l h) = get_space sp h"
  by (cases sp; auto simp: tls_handle_data_def got_transport_params_cb_def Let_def split: option.splits sum.splits)+

lemma get_space_notified [simp]:
  "get_space sp (notify_handshake ssl h) = get_space sp h" "tls_input (notify_handshake ssl h) = tls_input h"
  "get_space sp (h\<lparr>remote_transport_parameters := tp\<rparr>) = get_space sp h"
  by (cases sp; simp add: notify_handshake_def)+

lemma scan_handshake_keeps:
  assumes "scan_handshake sp data s h = (r, h')" and "sp \<noteq> SpaceZeroRTT"
  shows "tls_input h' = tls_input h \<and> (\<exists>io. get_space sp h' = Some (s\<lparr>handshake_bytes := io\<rparr>)) \<and>
     (sp = SpaceApp \<longrightarrow> r = Inr ())"
proof (cases "memory_write data (handshake_bytes s)")
  case (Inl e)
  have "s = s\<lparr>handshake_bytes := handshake_bytes s\<rparr>" by simp
  then have "\<exists>io. Some s = Some (s\<lparr>handshake_bytes := io\<rparr>)" by metis
  then show ?thesis using assms Inl by (auto simp: scan_handshake_def get_set_space split: if_splits)
next
  case (Inr io)
  have "s = s\<lparr>handshake_bytes := handshake_bytes s\<rparr>" by simp
  then have "\<exists>io. Some s = Some (s\<lparr>handshake_bytes := io\<rparr>)" by metis
  then show ?thesis using assms Inr
    by (cases "parse_transport_parameters_from_stream io (remote_transport_parameters h)")
      (auto simp: scan_handshake_def get_set_space split: if_splits)
qed

text \<open>What \<open>handle_data\<close> has got is the byte string up to the receive offset; every frame is used up or still buffered.\<close>

definition crypto_inv ::
    "byte list \<Rightarrow> (u64 \<times> byte list) set \<Rightarrow> pn_space \<Rightarrow> (u64 \<times> byte list) list \<Rightarrow> handshake \<Rightarrow> bool" where
  "crypto_inv bs X sp xs h \<longleftrightarrow>
     (\<exists>s. get_space sp h = Some s \<and> set (crypto_buf s) \<subseteq> set xs \<and> set xs \<subseteq> X \<and>
        concat (map snd (tls_input h)) = take (unat (crypto_rx_offset s)) bs \<and>
        (\<forall>i\<in>set (tls_input h). fst i = protection_level sp) \<and>
        unat (crypto_rx_offset s) \<le> length bs \<and>
        (\<forall>x\<in>set xs. x \<in> set (crypto_buf s) \<or> seg_end x \<le> unat (crypto_rx_offset s)) \<and>
        (\<forall>x\<in>set (crypto_buf s). \<not> covers x (unat (crypto_rx_offset s))) \<and>
        (\<forall>p<unat (crypto_rx_offset s). \<exists>x\<in>set xs. covers x p))"

lemma crypto_inv_step:
  assumes cut: "cut_from bs X" and inv: "crypto_inv bs X sp xs h" and sp: "sp \<noteq> SpaceZeroRTT"
    and x: "(off, data) \<in> X" and st: "handle_crypto_frame ssl sp off data h = (r, h')"
  shows "(r = Inr () \<longrightarrow> crypto_inv bs X sp (xs @ [(off, data)]) h') \<and>
     (r \<noteq> Inr () \<longrightarrow> sp \<noteq> SpaceApp \<and> tls_input h' = tls_input h)"
proof -
  obtain s where s: "get_space sp h = Some s" and buf: "set (crypto_buf s) \<subseteq> set xs" "set xs \<subseteq> X"
    and handed: "concat (map snd (tls_input h)) = take (unat (crypto_rx_offset s)) bs"
    and level: "\<forall>i\<in>set (tls_input h). fst i = protection_level sp"
    and le: "unat (crypto_rx_offset s) \<le> length bs"
    and used: "\<forall>x\<in>set xs. x \<in> set (crypto_buf s) \<or> seg_end x \<le> unat (crypto_rx_offset s)"
    and cov: "\<forall>p<unat (crypto_rx_offset s). \<exists>x\<in>set xs. covers x p"
    using inv unfolding crypto_inv_def by blast
  let ?b = "hash_set off data (crypto_buf s)" and ?n = "crypto_rx_offset s" and ?xs = "xs @ [(off, data)]"
  have b_sub: "set ?b \<subseteq> set ?xs" using hash_set_set [of off data "crypto_buf s"] buf by auto
  then have b_X: "set ?b \<subseteq> X" using buf x by auto
  have b_used: "\<forall>y\<in>set ?xs. y \<in> set ?b \<or> seg_end y \<le> unat ?n"
  proof
    fix y assume y: "y \<in> set ?xs"
    show "y \<in> set ?b \<or> seg_end y \<le> unat ?n"
    proof (cases "y = (off, data)")
      case False
      then have y': "y \<in> set xs" using y by simp
      have "fst y = off \<longrightarrow> snd y = data"
        using cut x y' buf(2) unfolding cut_from_def by (metis (no_types, lifting) fst_conv inj_onD snd_conv subsetD)
      then show ?thesis using used y' hash_set_keep [of y "crypto_buf s" off data] by blast
    qed (simp add: hash_set_mem)
  qed
  obtain n' buf' where g: "gather ?b ?n [] = (Inr (drop (unat ?n) (take (unat n') bs), n'), buf')"
    and n': "unat ?n \<le> unat n'" "unat n' \<le> length bs" "set buf' \<subseteq> set ?b"
    "\<forall>x\<in>set ?b. x \<in> set buf' \<or> seg_end x \<le> unat n'" "\<forall>x\<in>set buf'. \<not> covers x (unat n')"
    "\<forall>p<unat n'. unat ?n \<le> p \<longrightarrow> (\<exists>x\<in>set ?b. covers x p)"
    using gather_cut [OF cut b_X refl le order_refl] by auto
  have new: "set buf' \<subseteq> set ?xs" "set ?xs \<subseteq> X"
    "\<forall>x\<in>set ?xs. x \<in> set buf' \<or> seg_end x \<le> unat n'"
  proof -
    show "set buf' \<subseteq> set ?xs" using n'(3) b_sub by blast
    show "set ?xs \<subseteq> X" using buf x by simp
    show "\<forall>x\<in>set ?xs. x \<in> set buf' \<or> seg_end x \<le> unat n'"
      using b_used n'(1,4) by (blast intro: order_trans)
  qed
  have covered: "\<exists>x\<in>set ?xs. covers x p" if lt: "p < unat n'" for p
  proof (cases "p < unat ?n")
    case True
    then obtain y where "y \<in> set xs" "covers y p" using cov by blast
    then show ?thesis by (intro bexI [of _ y]) simp_all
  next
    case False
    then obtain y where "y \<in> set ?b" "covers y p" using n'(6) lt by (meson not_less)
    then show ?thesis using b_sub by (intro bexI [of _ y]) (simp, blast)
  qed
  have joined: "take (unat ?n) bs @ drop (unat ?n) (take (unat n') bs) = take (unat n') bs"
    using n'(1) by (metis append_take_drop_id min.absorb1 take_take)
  show ?thesis
  proof (cases "drop (unat ?n) (take (unat n') bs) = []")
    case True
    then have "h' = set_space sp (s\<lparr>crypto_buf := buf', crypto_rx_offset := n'\<rparr>) h" "r = Inr ()"
      using st by (simp_all add: handle_crypto_frame_def s g)
    moreover have "take (unat n') bs = take (unat ?n) bs" using joined True by simp
    ultimately show ?thesis unfolding crypto_inv_def
      using new covered n'(2,5) handed level by (simp add: get_set_space [OF sp] del: set_append)
  next
    case False
    let ?d = "drop (unat ?n) (take (unat n') bs)" and ?s = "s\<lparr>crypto_buf := buf'\<rparr>"
    obtain q h1 where scan: "scan_handshake sp ?d ?s h = (q, h1)" by fastforce
    obtain io where h1: "tls_input h1 = tls_input h" "get_space sp h1 = Some (?s\<lparr>handshake_bytes := io\<rparr>)"
      "sp = SpaceApp \<longrightarrow> q = Inr ()"
      using scan_handshake_keeps [OF scan sp] by blast
    show ?thesis
    proof (cases q)
      case (Inl e)
      then have "h' = h1" "r = Inl e" using st False by (simp_all add: handle_crypto_frame_def s g scan)
      then show ?thesis using h1 Inl by simp
    next
      case (Inr u)
      have h': "h' = set_space sp (s\<lparr>crypto_buf := buf', handshake_bytes := io, crypto_rx_offset := n'\<rparr>)
          (notify_handshake ssl (tls_handle_data ssl ?d (protection_level sp) h1))" and r: "r = Inr ()"
        using st False Inr h1 by (simp_all add: handle_crypto_frame_def s g scan Let_def)
      have "concat (map snd (tls_input h')) = take (unat n') bs"
        unfolding h' using handed h1(1) joined by simp
      then show ?thesis using new covered n' level h1(1) r
        by (simp add: h' crypto_inv_def get_set_space [OF sp])
    qed
  qed
qed

lemma crypto_inv_new: "sp \<noteq> SpaceZeroRTT \<Longrightarrow> crypto_inv bs X sp [] (handshake_new server)"
  by (cases sp) (simp_all add: crypto_inv_def handshake_new_def crypto_space_new_def)

lemma crypto_inv_run:
  assumes "cut_from bs X" and "crypto_inv bs X sp ys h0" and "sp \<noteq> SpaceZeroRTT" and "set xs \<subseteq> X"
    and "crypto_run ssl sp xs h0 = (r, h)"
  shows "(r = Inr () \<and> crypto_inv bs X sp (ys @ xs) h) \<or>
     (r \<noteq> Inr () \<and> sp \<noteq> SpaceApp \<and>
        (\<exists>h1 zs. set zs \<subseteq> set (ys @ xs) \<and> crypto_inv bs X sp zs h1 \<and> tls_input h = tls_input h1))"
  using assms(2,4,5)
proof (induction xs arbitrary: ys h0)
  case (Cons x xs)
  obtain off d where x: "x = (off, d)" by fastforce
  obtain q h2 where st: "handle_crypto_frame ssl sp off d h0 = (q, h2)" by fastforce
  have "(off, d) \<in> X" using Cons.prems(2) x by simp
  note step = crypto_inv_step [OF assms(1) Cons.prems(1) assms(3) this st]
  show ?case
  proof (cases q)
    case (Inl e)
    then have "r = Inl e" "h = h2" using Cons.prems(3) st x by simp_all
    moreover have "set ys \<subseteq> set (ys @ x # xs)" by auto
    ultimately show ?thesis using step Inl Cons.prems(1) by auto
  next
    case (Inr u)
    then have inv: "crypto_inv bs X sp (ys @ [x]) h2" and run: "crypto_run ssl sp xs h2 = (r, h)"
      using step Cons.prems(3) st x by simp_all
    show ?thesis using Cons.IH [OF inv _ run] Cons.prems(2) by simp
  qed
qed auto

lemma crypto_inv_covered:
  assumes "crypto_inv bs X sp xs h"
  shows "\<exists>n \<le> length bs. concat (map snd (tls_input h)) = take n bs \<and>
     (\<forall>i\<in>set (tls_input h). fst i = protection_level sp) \<and>
     (\<forall>p<n. \<exists>x\<in>set xs. covers x p) \<and> (\<forall>x\<in>set xs. \<not> covers x n)"
  using assms unfolding crypto_inv_def
proof (elim exE conjE)
  fix s let ?n = "unat (crypto_rx_offset s)"
  assume a: "concat (map snd (tls_input h)) = take ?n bs" "\<forall>i\<in>set (tls_input h). fst i = protection_level sp"
    "?n \<le> length bs" "\<forall>p<?n. \<exists>x\<in>set xs. covers x p"
    and b: "\<forall>x\<in>set xs. x \<in> set (crypto_buf s) \<or> seg_end x \<le> ?n" "\<forall>x\<in>set (crypto_buf s). \<not> covers x ?n"
  have "\<forall>x\<in>set xs. \<not> covers x ?n" using b by (meson covers_def not_le)
  with a show ?thesis by (intro exI [of _ ?n] conjI) assumption+
qed



text \<open>
  A frame that repeats the offset of a buffered one replaces it: a shorter one takes away bytes that
  had arrived.
\<close>

lemma shorter_frame_replaces:
  "concat (map snd (tls_input (snd (crypto_run (\<lambda>i. (None, False)) SpaceApp
     [(1, [2, 3, 4]), (1, [2]), (0, [1])] (handshake_new True))))) = [1, 2]"
  by (simp add: handshake_new_def crypto_space_new_def handle_crypto_frame_def gather.simps hash_delete_def
      u64_add_def Let_def scan_handshake_def tls_handle_data_def notify_handshake_def)

section \<open>The peer's parameters\<close>

text \<open>Handshake messages as RFC 8446 lays them out: an extension is its type and its data.\<close>

definition tls_u16 :: "nat \<Rightarrow> byte list" where
  "tls_u16 n = [of_nat (n div 256), of_nat (n mod 256)]"

definition tls_message :: "byte \<Rightarrow> byte list \<Rightarrow> byte list" where
  "tls_message type body =
     [type, of_nat (length body div 65536), of_nat (length body div 256 mod 256), of_nat (length body mod 256)] @ body"

definition tls_extension :: "nat \<times> byte list \<Rightarrow> byte list" where
  "tls_extension x = tls_u16 (fst x) @ tls_u16 (length (snd x)) @ snd x"

definition tls_extensions :: "(nat \<times> byte list) list \<Rightarrow> byte list" where
  "tls_extensions xs = (let b = concat (map tls_extension xs) in tls_u16 (length b) @ b)"

definition encrypted_extensions :: "(nat \<times> byte list) list \<Rightarrow> byte list" where
  "encrypted_extensions xs = tls_message 8 (tls_extensions xs)"

definition client_hello ::
    "byte list \<Rightarrow> byte list \<Rightarrow> byte list \<Rightarrow> byte list \<Rightarrow> (nat \<times> byte list) list \<Rightarrow> byte list" where
  "client_hello version_random sid ciphers compressions xs = tls_message 1
     (version_random @ of_nat (length sid) # sid @ tls_u16 (length ciphers) @ ciphers @
      of_nat (length compressions) # compressions @ tls_extensions xs)"

definition extensions_ok :: "(nat \<times> byte list) list \<Rightarrow> bool" where
  "extensions_ok xs \<longleftrightarrow> (\<forall>x\<in>set xs. fst x < 65536) \<and> length (concat (map tls_extension xs)) < 65536"

lemma read_u16_app: "n < 65536 \<Longrightarrow> read_u16 (tls_u16 n @ io) = Some (n, io)"
  by (simp add: tls_u16_def unat_of_nat take_bit_nat_eq_self)

lemma tls_lengths [simp]:
  "length (tls_u16 n) = 2" "length (tls_extension x) = 4 + length (snd x)"
  "tls_u16 n \<noteq> []" "tls_extension x \<noteq> []"
  by (simp_all add: tls_u16_def tls_extension_def)

lemma find_extension_app:
  assumes "extensions_ok (before @ (57, d) # after)" and "57 \<notin> fst ` set before"
    and "left = int (length (concat (map tls_extension (before @ (57, d) # after))))"
  shows "find_extension left (concat (map tls_extension (before @ (57, d) # after)) @ rest) = Inr (Some d)"
  using assms
proof (induction before arbitrary: left)
  case Nil
  have "length d < 65536" using Nil.prems(1) by (simp add: extensions_ok_def)
  then show ?case using Nil.prems(3)
    by (subst find_extension.simps) (simp add: tls_extension_def read_u16_app read_fully_def)
next
  case (Cons x before)
  let ?r = "concat (map tls_extension (before @ (57, d) # after))"
  have x: "fst x < 65536" "fst x \<noteq> 57" "length (snd x) < 65536"
    using Cons.prems(1,2) by (auto simp: extensions_ok_def)
  have ok: "extensions_ok (before @ (57, d) # after)"
    using Cons.prems(1) by (simp add: extensions_ok_def)
  have l: "left = 4 + int (length (snd x)) + int (length ?r)"
    using Cons.prems(3) by simp
  have "find_extension left (tls_extension x @ ?r @ rest) = find_extension (left - 4 - int (length (snd x))) (?r @ rest)"
    using x l by (subst find_extension.simps)
      (simp add: tls_extension_def read_u16_app skip_bytes_def)
  also have "left - 4 - int (length (snd x)) = int (length ?r)" using l by simp
  also have "find_extension (int (length ?r)) (?r @ rest) = Inr (Some d)"
    by (rule Cons.IH [OF ok _ refl]) (use Cons.prems(2) in simp)
  finally show ?case by simp
qed

lemma tls_message_length [simp]: "length (tls_message t body) = 4 + length body"
  by (simp add: tls_message_def)

lemma message_length_app:
  assumes "length body < 2 ^ 24"
  shows "message_length (tls_message t body @ rest) = length body"
proof -
  have "length body div 65536 < 256" "length body div 256 mod 256 < 256" "length body mod 256 < 256"
    using assms by simp_all
  then have "message_length (tls_message t body @ rest) =
      65536 * (length body div 65536) + 256 * (length body div 256 mod 256) + length body mod 256"
    by (simp add: message_length_def tls_message_def unat_of_nat take_bit_nat_eq_self)
  moreover have "length body div 65536 = length body div 256 div 256" by (simp add: div_mult2_eq [symmetric])
  moreover have "length body = 256 * (length body div 256) + length body mod 256" by simp
  moreover have "length body div 256 = 256 * (length body div 256 div 256) + length body div 256 mod 256" by simp
  ultimately show ?thesis by linarith
qed

lemma skip_client_hello_app:
  assumes "length vr = 34" "length sid < 256" "length ciphers < 65536" "length comps < 256"
  shows "skip_client_hello (vr @ of_nat (length sid) # sid @ tls_u16 (length ciphers) @ ciphers @
     of_nat (length comps) # comps @ rest) = Inr (Some rest)"
  using assms by (simp add: skip_client_hello_def skip_bytes_def read_u16_app unat_of_nat take_bit_nat_eq_self)

definition carries_extensions :: "byte list \<Rightarrow> (nat \<times> byte list) list \<Rightarrow> bool" where
  "carries_extensions msg xs \<longleftrightarrow>
     msg = encrypted_extensions xs \<or>
     (\<exists>vr sid ciphers comps. msg = client_hello vr sid ciphers comps xs \<and> length vr = 34 \<and>
        length sid < 256 \<and> length ciphers < 65536 \<and> length comps < 256)"

lemma extract_found:
  assumes "carries_extensions msg (before @ (57, d) # after)"
    and ok: "extensions_ok (before @ (57, d) # after)" "57 \<notin> fst ` set before"
  shows "extract_transport_parameters msg = Inr (Some d)"
proof -
  let ?xs = "before @ (57, d) # after"
  have n: "length (concat (map tls_extension ?xs)) < 65536" using ok(1) by (simp add: extensions_ok_def)
  have f: "(case read_u16 (tls_extensions ?xs) of
      None \<Rightarrow> Inr None | Some (ext_total_len, io) \<Rightarrow> find_extension (int ext_total_len) io) = Inr (Some d)"
    using find_extension_app [OF ok refl, of "[]"] read_u16_app [OF n]
    unfolding tls_extensions_def Let_def by (simp only: append_Nil2) simp
  show ?thesis using assms(1) unfolding carries_extensions_def
  proof (elim disjE exE conjE)
    assume "msg = encrypted_extensions ?xs"
    then show ?thesis using f
      by (simp add: extract_transport_parameters_def encrypted_extensions_def tls_message_def)
  next
    fix vr sid ciphers comps
    assume "msg = client_hello vr sid ciphers comps ?xs" "length vr = 34" "length sid < 256"
      "length ciphers < 65536" "length comps < 256"
    then show ?thesis using f skip_client_hello_app [of vr sid ciphers comps "tls_extensions ?xs"]
      by (simp add: extract_transport_parameters_def client_hello_def tls_message_def)
  qed
qed

lemma carries_extensions_length:
  assumes "carries_extensions msg xs" and "extensions_ok xs"
  shows "4 \<le> length (msg @ tail) \<and> message_length (msg @ tail) = length msg - 4 \<and> 4 \<le> length msg"
proof -
  have e: "length (tls_extensions xs) < 65538"
    using assms(2) by (simp add: tls_extensions_def extensions_ok_def Let_def)
  from assms(1) obtain t body where "msg = tls_message t body" "length body < 2 ^ 24"
    unfolding carries_extensions_def encrypted_extensions_def client_hello_def using e by fastforce
  then show ?thesis using message_length_app [of body t tail] by simp
qed

text \<open>
  C15: The peer's transport parameters are found in its handshake. When the buffer starts with the
  ClientHello or the EncryptedExtensions of a peer that encoded its parameters, whatever the other
  extensions and whatever incomplete message follows, the connection ends up with exactly these
  parameters and keeps the incomplete message. The parameters are ones the encoder can represent
  (\<open>parameters_ok\<close>: byte strings below 2 GiB, versions that fit their field), and the lengths of
  the message fit the fields of TLS.
\<close>

theorem peer_parameters_learned:
  assumes "parameters_ok p" and "TransportParameters_encode p = Inr d"
    and "carries_extensions msg (before @ (57, d) # after)"
    and "extensions_ok (before @ (57, d) # after)" and "57 \<notin> fst ` set before"
    and "length tail < 4 \<or> length tail - 4 < message_length tail"
  shows "parse_transport_parameters_from_stream \<lparr>mem_bytes = msg @ tail, mem_pos = q\<rparr> tp =
     (Inr (), \<lparr>mem_bytes = tail, mem_pos = length tail\<rparr>, Some p)"
proof -
  note len = carries_extensions_length [OF assms(3,4), of tail]
  have dec: "TransportParameters_decode d = Inr p"
    using encode_takes [OF assms(1,2), of "[]"]
    by (simp add: TransportParameters_decode_def decode_params.simps [of p "[]"])
  have "\<not> length msg + length tail - 4 < length msg - 4" using len by linarith
  then have "parse_messages (msg @ tail) 0 tp = parse_messages (msg @ tail) (length msg) (Some p)"
    using len extract_found [OF assms(3-5)] dec by (subst parse_messages.simps) (simp add: Let_def)
  also have "\<dots> = (Inr (), length msg, Some p)"
    using assms(6) by (subst parse_messages.simps) (auto simp: Let_def)
  finally have "parse_messages (msg @ tail) 0 tp = (Inr (), length msg, Some p)" .
  moreover have "0 < length msg" using len by linarith
  ultimately show ?thesis by (simp add: parse_transport_parameters_from_stream_def Let_def)
qed

text \<open>EncryptedExtensions with ALPN and the parameters, followed by the start of a Certificate\<close>

theorem peer_parameters_learned_witness:
  "let p = TransportParameters_new\<lparr>max_idle_timeout := 30000, initial_max_streams_bidi := 100\<rparr>;
       msg = [8, 0, 0, 31, 0, 29, 0, 16, 0, 5, 0, 3, 2, 0x68, 0x33, 0, 57, 0, 16,
              1, 4, 0x80, 0, 0x75, 0x30, 3, 4, 0x80, 0, 0xff, 0xf7, 8, 2, 0x40, 0x64]
   in parse_transport_parameters_from_stream \<lparr>mem_bytes = msg @ [11, 0, 4, 0, 9], mem_pos = 40\<rparr> None =
        (Inr (), \<lparr>mem_bytes = [11, 0, 4, 0, 9], mem_pos = 5\<rparr>, Some p)"
proof -
  let ?p = "TransportParameters_new\<lparr>max_idle_timeout := 30000, initial_max_streams_bidi := 100\<rparr>"
  let ?d = "[1, 4, 0x80, 0, 0x75, 0x30, 3, 4, 0x80, 0, 0xff, 0xf7, 8, 2, 0x40, 0x64] :: byte list"
  let ?before = "[(16, [0, 3, 2, 0x68, 0x33])] :: (nat \<times> byte list) list"
  let ?msg = "encrypted_extensions (?before @ (57, ?d) # [])"
  have msg: "?msg = [8, 0, 0, 31, 0, 29, 0, 16, 0, 5, 0, 3, 2, 0x68, 0x33, 0, 57, 0, 16] @ ?d"
    by (simp add: encrypted_extensions_def tls_message_def tls_extensions_def tls_extension_def tls_u16_def)
  have "parse_transport_parameters_from_stream \<lparr>mem_bytes = ?msg @ [11, 0, 4, 0, 9], mem_pos = 40\<rparr> None =
      (Inr (), \<lparr>mem_bytes = [11, 0, 4, 0, 9], mem_pos = length [11, 0, 4, 0, 9 :: byte]\<rparr>, Some ?p)"
  proof (rule peer_parameters_learned [where before = ?before and d = ?d and after = "[]"])
    show "parameters_ok ?p" by (simp add: parameters_ok_def bytes_ok_def versions_ok_def TransportParameters_new_def)
    show "TransportParameters_encode ?p = Inr ?d"
      by (simp add: TransportParameters_encode_def TransportParameters_new_def write_param_def write_bytes_param_def
          write_empty_param_def write_version_information_def VarInt_encode_def VarInt_write_def size_u64_def)
  qed (simp_all add: carries_extensions_def extensions_ok_def message_length_def)
  then show ?thesis unfolding msg Let_def by simp
qed

text \<open>
  When the first message is incomplete the position stays at its start, and the rest of the message is
  written over it: split over two frames, the same EncryptedExtensions yields no parameters.
\<close>

lemma incomplete_message_overwritten:
  assumes "length a < 4 \<or> length a - 4 < message_length a" and "b \<noteq> []" and "length b < MemoryLimit"
  shows "\<exists>io. parse_transport_parameters_from_stream \<lparr>mem_bytes = a, mem_pos = q\<rparr> tp = (Inr (), io, tp) \<and>
     memory_write b io = Inr \<lparr>mem_bytes = b @ drop (length b) a, mem_pos = length b\<rparr>"
proof -
  have "parse_messages a 0 tp = (Inr (), 0, tp)"
    using assms(1) by (subst parse_messages.simps) (auto simp: Let_def)
  then show ?thesis using assms(2,3)
    by (simp add: parse_transport_parameters_from_stream_def memory_write_def)
qed

end
