(* ===== verification/Cr_Conn.thy ===== *)
theory Cr_Conn
  imports Stream_Interop Cr_Recovery Cr_Handshake
begin

text \<open>
  The connection (src/quic/connection.cr) between packet protection and streams: \<open>handle_frame\<close> for
  every frame, the loops of \<open>recv\<close> and \<open>recv_packet\<close> over the packets and frames of a datagram, the
  calls of the application, and the frames \<open>send\<close> puts into a packet. What a datagram is after header
  protection and decryption, the clock, OpenSSL and the size a packet has on the wire are
  arguments. The notification channels of the streams are left out: they carry no data.
\<close>

section \<open>State\<close>

text \<open>The part of \<open>Config\<close> the connection reads\<close>

record quic_config =
  config_max_idle_timeout :: u64
  config_initial_max_data :: u64
  config_bidi_local :: u64
  config_bidi_remote :: u64
  config_uni :: u64
  config_streams_bidi :: u64
  config_initial_cwnd_packets :: nat

record pn_state =
  received_pns :: "u64 list"
  largest_received_pn :: u64
  pending_ack :: bool
  packet_number :: u64

record path =
  path_id :: u64
  path_recovery :: recovery
  path_validated :: bool
  bytes_sent :: nat
  bytes_received :: nat

text \<open>
  \<open>recovery_path\<close> is the index of the path whose controller \<open>@recovery\<close> is. Hashes are lists in
  insertion order, and the key of an outstanding challenge is its data instead of the
  hexadecimal string. \<open>datagrams_in\<close> is what \<open>on_datagram\<close> was called with.
\<close>

record connection =
  config :: quic_config
  conn_handshake :: handshake
  pn_spaces :: "pn_space \<Rightarrow> pn_state"
  crypto_tx_offsets :: "pn_space \<Rightarrow> u64"
  streams :: "(u64 \<times> stream) list"
  lost_frames :: "(int \<times> quic_frame) list"
  paths :: "path list"
  active_path_id :: u64
  recovery_path :: nat
  max_data_local :: u64
  max_data_remote :: u64
  data_sent :: u64
  data_received :: u64
  pending_data_blocked :: bool
  pending_stream_data_blocked :: "u64 list"
  pending_max_data :: bool
  pending_max_stream_data :: "u64 list"
  closed :: bool
  close_sent :: bool
  close_error :: u64
  close_reason :: string
  last_recv_time :: int
  pending_reset_streams :: "(u64 \<times> u64 \<times> u64) list"
  max_streams_bidi_remote :: u64
  max_streams_uni_remote :: u64
  max_streams_bidi_local :: u64
  peer_streams_bidi_opened :: u64
  pending_max_streams_bidi :: u64
  pending_streams_blocked_bidi :: u64
  pending_streams_blocked_uni :: u64
  pending_path_responses :: "byte list list"
  pending_path_challenges :: "(byte list \<times> u64) list"
  outstanding_path_challenges :: "(byte list \<times> u64) list"
  conn_path_validated :: bool
  queued_datagrams :: "byte list list"
  datagrams_in :: "byte list list"
  path_mtu :: u64
  pmtud_probe_pn :: "u64 option"
  pmtud_probe_sent_size :: u64
  remote_tp_applied :: bool
  early_keys :: bool
  peer_cids :: "(byte list \<times> u64 \<times> byte list) list"
  issued_cids :: "(byte list \<times> u64) list"
  dcid_sequence_number :: u64
  pending_retire_cids :: "u64 list"

definition pn_state_new :: pn_state where
  "pn_state_new = \<lparr>received_pns = [], largest_received_pn = 0, pending_ack = False, packet_number = 0\<rparr>"

definition path_new :: "u64 \<Rightarrow> nat \<Rightarrow> path" where
  "path_new i initial_cwnd =
     \<lparr>path_id = i, path_recovery = Recovery_new initial_cwnd, path_validated = (i = 0), bytes_sent = 0, bytes_received = 0\<rparr>"

definition connection_new :: "quic_config \<Rightarrow> bool \<Rightarrow> int \<Rightarrow> connection" where
  "connection_new cfg server now =
     \<lparr>config = cfg, conn_handshake = handshake_new server, pn_spaces = (\<lambda>_. pn_state_new),
      crypto_tx_offsets = (\<lambda>_. 0), streams = [], lost_frames = [],
      paths = [path_new 0 (config_initial_cwnd_packets cfg * MAX_DATAGRAM_SIZE)], active_path_id = 0, recovery_path = 0,
      max_data_local = config_initial_max_data cfg, max_data_remote = 0, data_sent = 0, data_received = 0,
      pending_data_blocked = False, pending_stream_data_blocked = [], pending_max_data = False,
      pending_max_stream_data = [], closed = False, close_sent = False, close_error = 0, close_reason = [],
      last_recv_time = now, pending_reset_streams = [], max_streams_bidi_remote = 0, max_streams_uni_remote = 0,
      max_streams_bidi_local = config_streams_bidi cfg, peer_streams_bidi_opened = 0,
      pending_max_streams_bidi = 0, pending_streams_blocked_bidi = 0, pending_streams_blocked_uni = 0,
      pending_path_responses = [], pending_path_challenges = [], outstanding_path_challenges = [],
      conn_path_validated = False, queued_datagrams = [], datagrams_in = [], path_mtu = 1200,
      pmtud_probe_pn = None, pmtud_probe_sent_size = 0, remote_tp_applied = False, early_keys = True,
      peer_cids = [], issued_cids = [], dcid_sequence_number = 0, pending_retire_cids = []\<rparr>"

text \<open>What an operation needs from outside: OpenSSL, the product with a float, and the clock\<close>

record env =
  env_ssl :: ssl
  env_scale :: "int \<Rightarrow> nat \<Rightarrow> int"
  env_now :: int

section \<open>Limits of streams\<close>

abbreviation conn_server :: "connection \<Rightarrow> bool" where
  "conn_server c \<equiv> is_server (conn_handshake c)"

abbreviation remote_tp :: "connection \<Rightarrow> TransportParameters option" where
  "remote_tp c \<equiv> remote_transport_parameters (conn_handshake c)"

definition initial_stream_limits :: "connection \<Rightarrow> u64 \<Rightarrow> u64 \<times> u64" where
  "initial_stream_limits c i =
     (let bidi = (i mod 4 < 2); local_initiated = ((i mod 2 = 1) = conn_server c); cfg = config c;
          max_local =
            (if bidi then (if local_initiated then config_bidi_remote cfg else config_bidi_local cfg)
             else (if local_initiated then 0 else config_uni cfg));
          max_remote =
            (case remote_tp c of
               Some tp \<Rightarrow>
                 if bidi
                 then (if local_initiated then initial_max_stream_data_bidi_local tp
                       else initial_max_stream_data_bidi_remote tp)
                 else (if local_initiated then initial_max_stream_data_uni tp else 0)
             | None \<Rightarrow>
                 if bidi then (if local_initiated then config_bidi_local cfg else config_bidi_remote cfg)
                 else (if local_initiated then config_uni cfg else 0))
      in (max_remote, max_local))"

text \<open>Sums and products of two UInt64 with their overflow checks\<close>

definition u64_plus :: "u64 \<Rightarrow> u64 \<Rightarrow> cr_error + u64" where
  "u64_plus x y = u64_add x (unat y)"

definition u64_double :: "u64 \<Rightarrow> cr_error + u64" where
  "u64_double x = (if 2 ^ 63 \<le> unat x then Inl OverflowError else Inr (x * 2))"

definition maybe_extend_max_streams_bidi :: "connection \<Rightarrow> (cr_error + unit) \<times> connection" where
  "maybe_extend_max_streams_bidi c =
     (case u64_double (peer_streams_bidi_opened c) of
        Inl e \<Rightarrow> (Inl e, c)
      | Inr twice \<Rightarrow>
          if max_streams_bidi_local c \<le> twice then
            (case u64_plus (max_streams_bidi_local c) (config_streams_bidi (config c)) of
               Inl e \<Rightarrow> (Inl e, c)
             | Inr m \<Rightarrow> (Inr (), c\<lparr>max_streams_bidi_local := m, pending_max_streams_bidi := m\<rparr>))
          else (Inr (), c))"

text \<open>\<open>@streams[id] ||= Stream.new(...)\<close>\<close>

definition ensure_stream :: "u64 \<Rightarrow> connection \<Rightarrow> connection" where
  "ensure_stream i c =
     (case map_of (streams c) i of
        Some s \<Rightarrow> c
      | None \<Rightarrow>
          (case initial_stream_limits c i of
             (max_remote, max_local) \<Rightarrow> c\<lparr>streams := streams c @ [(i, Stream_new i max_remote max_local)]\<rparr>))"

text \<open>An operation on a stream of the table, if it is there\<close>

definition with_stream :: "u64 \<Rightarrow> (stream \<Rightarrow> (cr_error + unit) \<times> stream) \<Rightarrow> connection \<Rightarrow> (cr_error + unit) \<times> connection" where
  "with_stream i f c =
     (case map_of (streams c) i of
        None \<Rightarrow> (Inr (), c)
      | Some s \<Rightarrow> (case f s of (r, s') \<Rightarrow> (r, c\<lparr>streams := hash_set i s' (streams c)\<rparr>)))"

definition conn_close :: "u64 \<Rightarrow> string \<Rightarrow> connection \<Rightarrow> connection" where
  "conn_close error_code reason c =
     (if closed c then c else c\<lparr>closed := True, close_error := error_code, close_reason := reason\<rparr>)"

section \<open>Frames\<close>

fun space_id :: "pn_space \<Rightarrow> int" where
  "space_id SpaceInitial = 0"
| "space_id SpaceHandshake = 1"
| "space_id _ = 2"

text \<open>The number of a stream among the bidirectional ones of the peer\<close>

definition note_opened :: "u64 \<Rightarrow> connection \<Rightarrow> (cr_error + unit) \<times> connection" where
  "note_opened i c =
     (let ordinal = drop_bit 2 i + 1 in
      if peer_streams_bidi_opened c < ordinal
      then maybe_extend_max_streams_bidi (c\<lparr>peer_streams_bidi_opened := ordinal\<rparr>)
      else (Inr (), c))"

definition handle_stream_frame ::
    "u64 \<Rightarrow> u64 \<Rightarrow> byte list \<Rightarrow> bool \<Rightarrow> connection \<Rightarrow> (cr_error + unit) \<times> connection" where
  "handle_stream_frame i off data fin c =
     (let is_new_peer_bidi = (i mod 4 = (if conn_server c then 0 else 1) \<and> map_of (streams c) i = None);
          c = ensure_stream i c
      in case (if is_new_peer_bidi then note_opened i c else (Inr (), c)) of
           (Inl e, c) \<Rightarrow> (Inl e, c)
         | (Inr _, c) \<Rightarrow>
             (case u64_add (data_received c) (length data) of
                Inl e \<Rightarrow> (Inl e, c)
              | Inr received \<Rightarrow>
                  if max_data_local c < received then (Inr (), conn_close 0x01 ''Flow control error'' c)
                  else with_stream i (receive_stream_frame (off, data, fin)) (c\<lparr>data_received := received\<rparr>)))"

definition map_recoveries :: "(recovery \<Rightarrow> recovery) \<Rightarrow> connection \<Rightarrow> connection" where
  "map_recoveries f c = c\<lparr>paths := map (\<lambda>p. p\<lparr>path_recovery := f (path_recovery p)\<rparr>) (paths c)\<rparr>"

definition handle_ack_frame :: "env \<Rightarrow> pn_space \<Rightarrow> quic_frame \<Rightarrow> u64 \<Rightarrow> u64 \<Rightarrow> connection \<Rightarrow> (cr_error + unit) \<times> connection" where
  "handle_ack_frame env sp frame largest first_ack_range c =
     (let c = map_recoveries (on_ack_received (env_scale env) frame (env_now env) (env_now env) (space_id sp)) c in
      case pmtud_probe_pn c of
        None \<Rightarrow> (Inr (), c)
      | Some pn \<Rightarrow>
          if largest < first_ack_range then (Inl OverflowError, c)
          else if largest - first_ack_range \<le> pn \<and> pn \<le> largest
          then (Inr (), c\<lparr>path_mtu := pmtud_probe_sent_size c, pmtud_probe_pn := None\<rparr>)
          else (Inr (), c))"

text \<open>\<open>active_path_id=\<close>: the controller becomes that of the first path with the id, or of the first path\<close>

fun path_index :: "u64 \<Rightarrow> path list \<Rightarrow> nat option" where
  "path_index i [] = None"
| "path_index i (p # ps) = (if path_id p = i then Some 0 else map_option Suc (path_index i ps))"

definition active_index :: "connection \<Rightarrow> nat" where
  "active_index c = (case path_index (active_path_id c) (paths c) of None \<Rightarrow> 0 | Some n \<Rightarrow> n)"

definition set_active_path_id :: "u64 \<Rightarrow> connection \<Rightarrow> connection" where
  "set_active_path_id i c = (let c = c\<lparr>active_path_id := i\<rparr> in c\<lparr>recovery_path := active_index c\<rparr>)"

definition handle_path_response :: "byte list \<Rightarrow> connection \<Rightarrow> connection" where
  "handle_path_response data c =
     (case map_of (outstanding_path_challenges c) data of
        None \<Rightarrow> c
      | Some pid \<Rightarrow>
          (let c = c\<lparr>outstanding_path_challenges := hash_delete data (outstanding_path_challenges c),
                      conn_path_validated := True\<rparr>
           in if pid \<noteq> active_path_id c then set_active_path_id pid c else c))"

definition handle_new_cid :: "u64 \<Rightarrow> u64 \<Rightarrow> byte list \<Rightarrow> byte list \<Rightarrow> connection \<Rightarrow> connection" where
  "handle_new_cid sn retire_prior_to cid token c =
     (let c = c\<lparr>peer_cids := filter (\<lambda>(_, n, _). \<not> n < retire_prior_to) (peer_cids c @ [(cid, sn, token)])\<rparr> in
      if 0 < retire_prior_to \<and> dcid_sequence_number c < retire_prior_to
      then c\<lparr>pending_retire_cids := pending_retire_cids c @ [dcid_sequence_number c],
             dcid_sequence_number := retire_prior_to\<rparr>
      else c)"

text \<open>A stream operation that cannot fail\<close>

definition total_op :: "(stream \<Rightarrow> stream) \<Rightarrow> stream \<Rightarrow> (cr_error + unit) \<times> stream" where
  "total_op f s = (Inr (), f s)"

fun handle_frame :: "env \<Rightarrow> pn_space \<Rightarrow> quic_frame \<Rightarrow> connection \<Rightarrow> (cr_error + unit) \<times> connection" where
  "handle_frame env sp (CryptoFrame off data) c =
     (case handle_crypto_frame (env_ssl env) sp off data (conn_handshake c) of
        (r, h) \<Rightarrow> (r, c\<lparr>conn_handshake := h\<rparr>))"
| "handle_frame env sp (StreamFrame i off data fin) c = handle_stream_frame i off data fin c"
| "handle_frame env sp (AckFrame largest delay first ranges ect0 ect1 ce ecn) c =
     handle_ack_frame env sp (AckFrame largest delay first ranges ect0 ect1 ce ecn) largest first c"
| "handle_frame env sp (DatagramFrame data) c = (Inr (), c\<lparr>datagrams_in := datagrams_in c @ [data]\<rparr>)"
| "handle_frame env sp (MaxDataFrame m) c = (Inr (), c\<lparr>max_data_remote := max (max_data_remote c) m\<rparr>)"
| "handle_frame env sp (MaxStreamDataFrame i m) c = with_stream i (total_op (update_max_stream_data m)) c"
| "handle_frame env sp (DataBlockedFrame m) c =
     (case u64_plus (max_data_local c) 1048576 of
        Inl e \<Rightarrow> (Inl e, c)
      | Inr l \<Rightarrow> (Inr (), c\<lparr>max_data_local := l, pending_max_data := True\<rparr>))"
| "handle_frame env sp (StreamDataBlockedFrame i m) c =
     (case map_of (streams c) i of
        None \<Rightarrow> (Inr (), c)
      | Some s \<Rightarrow>
          (case u64_plus (max_stream_data_local s) 1048576 of
             Inl e \<Rightarrow> (Inl e, c)
           | Inr l \<Rightarrow>
               (case with_stream i (total_op (update_max_stream_data_local l)) c of
                  (r, c) \<Rightarrow> (r, c\<lparr>pending_max_stream_data := pending_max_stream_data c @ [i]\<rparr>))))"
| "handle_frame env sp (PathChallengeFrame data) c =
     (Inr (), c\<lparr>pending_path_responses := pending_path_responses c @ [data]\<rparr>)"
| "handle_frame env sp (PathResponseFrame data) c = (Inr (), handle_path_response data c)"
| "handle_frame env sp (ResetStreamFrame i code final) c =
     with_stream i (total_op (Stream_reset code)) (ensure_stream i c)"
| "handle_frame env sp (StopSendingFrame i code) c =
     (case map_of (streams c) i of
        None \<Rightarrow> (Inr (), c)
      | Some s \<Rightarrow>
          with_stream i (total_op close_local)
            (c\<lparr>pending_reset_streams := pending_reset_streams c @ [(i, code, tx_offset s)]\<rparr>))"
| "handle_frame env sp HandshakeDoneFrame c =
     (Inr (), if conn_server c then c else c\<lparr>early_keys := False\<rparr>)"
| "handle_frame env sp (MaxStreamsFrame m bidi) c =
     (Inr (), if bidi then c\<lparr>max_streams_bidi_remote := max (max_streams_bidi_remote c) m\<rparr>
              else c\<lparr>max_streams_uni_remote := max (max_streams_uni_remote c) m\<rparr>)"
| "handle_frame env sp (StreamsBlockedFrame m bidi) c =
     (if bidi then maybe_extend_max_streams_bidi c else (Inr (), c))"
| "handle_frame env sp (NewConnectionIdFrame sn retire cid token) c = (Inr (), handle_new_cid sn retire cid token c)"
| "handle_frame env sp (RetireConnectionIdFrame sn) c =
     (Inr (), c\<lparr>issued_cids := filter (\<lambda>(_, n). n \<noteq> sn) (issued_cids c)\<rparr>)"
| "handle_frame env sp (ConnectionCloseFrame code ft reason) c =
     (Inr (), c\<lparr>closed := True, close_error := code, close_reason := reason\<rparr>)"
| "handle_frame env sp PaddingFrame c = (Inr (), c)"
| "handle_frame env sp PingFrame c = (Inr (), c)"
| "handle_frame env sp (NewTokenFrame token) c = (Inr (), c)"

section \<open>Receiving\<close>

definition ack_eliciting :: "quic_frame \<Rightarrow> bool" where
  "ack_eliciting f \<longleftrightarrow> frame_type f \<notin> {ACK, CONNECTION_CLOSE, PADDING}"

text \<open>The loop over the frames of a packet, each handled before the next one is decoded\<close>

function recv_frames ::
    "env \<Rightarrow> pn_space \<Rightarrow> byte list \<Rightarrow> bool \<Rightarrow> connection \<Rightarrow> (cr_error + bool) \<times> connection" where
  "recv_frames env sp io has_ack_eliciting c =
     (if io = [] then (Inr has_ack_eliciting, c)
      else
        (case QuicFrame_decode io of
           Inl e \<Rightarrow> (Inl e, c)
         | Inr (f, io') \<Rightarrow>
             (case handle_frame env sp f c of
                (Inl e, c) \<Rightarrow> (Inl e, c)
              | (Inr _, c) \<Rightarrow> recv_frames env sp io' (has_ack_eliciting \<or> ack_eliciting f) c)))"
  by pat_completeness auto
termination by (relation "measure (\<lambda>(env, sp, io, a, c). length io)") (auto dest: QuicFrame_decode_shrinks)

declare recv_frames.simps [simp del]

definition map_pn_space :: "pn_space \<Rightarrow> (pn_state \<Rightarrow> pn_state) \<Rightarrow> connection \<Rightarrow> connection" where
  "map_pn_space sp f c = c\<lparr>pn_spaces := (pn_spaces c)(sp := f (pn_spaces c sp))\<rparr>"

text \<open>\<open>recv_packet\<close> from the decrypted payload on\<close>

definition recv_packet :: "env \<Rightarrow> pn_space \<Rightarrow> u64 \<Rightarrow> byte list \<Rightarrow> connection \<Rightarrow> (cr_error + unit) \<times> connection" where
  "recv_packet env sp pn payload c =
     (let c = map_pn_space sp (\<lambda>n. n\<lparr>received_pns := received_pns n @ [pn],
                largest_received_pn := max (largest_received_pn n) pn\<rparr>) c
      in case recv_frames env sp payload False c of
           (Inl e, c) \<Rightarrow> (Inl e, c)
         | (Inr elicits, c) \<Rightarrow>
             (Inr (), if elicits then map_pn_space sp (\<lambda>n. n\<lparr>pending_ack := True\<rparr>) c else c))"

text \<open>A datagram, opened: its packets in order, each decrypted, or the exception opening it raised\<close>

type_synonym opened_packet = "cr_error + (pn_space \<times> u64 \<times> byte list)"

fun recv_packets :: "env \<Rightarrow> opened_packet list \<Rightarrow> connection \<Rightarrow> (cr_error + unit) \<times> connection" where
  "recv_packets env [] c = (Inr (), c)"
| "recv_packets env (Inl e # ps) c = (Inl e, c)"
| "recv_packets env (Inr (sp, pn, payload) # ps) c =
     (case recv_packet env sp pn payload c of
        (Inl e, c) \<Rightarrow> (Inl e, c)
      | (Inr _, c) \<Rightarrow> recv_packets env ps c)"

text \<open>The error code and the reason \<open>recv\<close> closes with; a \<open>QUIC::Error\<close> has its own code.\<close>

fun closing_code :: "cr_error \<Rightarrow> u64" where
  "closing_code (ProtocolViolation s) = 0xa"
| "closing_code (InvalidPacket s) = 0xa"
| "closing_code BufferTooShort = 0x7"
| "closing_code _ = 0x1"

fun closing_reason :: "cr_error \<Rightarrow> string" where
  "closing_reason (ProtocolViolation s) = s"
| "closing_reason (InvalidPacket s) = s"
| "closing_reason (InternalError s) = s"
| "closing_reason (QuicError s) = s"
| "closing_reason BufferTooShort = ''Protocol Error''"
| "closing_reason _ = ''Internal Error''"

definition map_path :: "nat \<Rightarrow> (path \<Rightarrow> path) \<Rightarrow> connection \<Rightarrow> connection" where
  "map_path n f c = c\<lparr>paths := (paths c)[n := f (paths c ! n)]\<rparr>"

definition stateless_reset :: "byte list \<Rightarrow> connection \<Rightarrow> bool" where
  "stateless_reset data c \<longleftrightarrow>
     \<not> conn_server c \<and> 37 \<le> length data \<and>
     (\<exists>tp\<in>set_option (remote_tp c). \<exists>t\<in>set_option (stateless_reset_token tp). drop (length data - 16) data = t)"

definition conn_recv :: "env \<Rightarrow> byte list \<Rightarrow> opened_packet list \<Rightarrow> connection \<Rightarrow> int \<times> connection" where
  "conn_recv env data packets c =
     (if closed c then (0, c)
      else if stateless_reset data c then (int (length data), c\<lparr>closed := True, close_error := 0x14\<rparr>)
      else
        (case recv_packets env packets
                (map_path (active_index c) (\<lambda>p. p\<lparr>bytes_received := bytes_received p + length data\<rparr>) c) of
           (Inl e, c) \<Rightarrow>
             (0, c\<lparr>closed := True, close_error := closing_code e, close_reason := closing_reason e\<rparr>)
         | (Inr _, c) \<Rightarrow> (int (length data), c\<lparr>last_recv_time := env_now env\<rparr>)))"

section \<open>The application's calls\<close>

fun map_streams :: "(u64 \<Rightarrow> stream \<Rightarrow> stream) \<Rightarrow> (u64 \<times> stream) list \<Rightarrow> (u64 \<times> stream) list" where
  "map_streams f [] = []"
| "map_streams f ((i, s) # ss) = (i, f i s) # map_streams f ss"

definition check_and_apply_remote_tp :: "connection \<Rightarrow> connection" where
  "check_and_apply_remote_tp c =
     (if remote_tp_applied c then c
      else
        (case remote_tp c of
           None \<Rightarrow> c
         | Some tp \<Rightarrow>
             (let c = c\<lparr>max_data_remote := initial_max_data tp,
                 max_streams_bidi_remote :=
                   (if 0 < initial_max_streams_bidi tp then initial_max_streams_bidi tp else max_streams_bidi_remote c),
                 max_streams_uni_remote :=
                   (if 0 < initial_max_streams_uni tp then initial_max_streams_uni tp else max_streams_uni_remote c),
                 streams := map_streams (\<lambda>i. update_max_stream_data (fst (initial_stream_limits c i))) (streams c),
                 remote_tp_applied := True\<rparr>
              in if 0 < max_ack_delay tp
                 then map_recoveries (\<lambda>r. r\<lparr>peer_max_ack_delay := milliseconds (int (unat (max_ack_delay tp)))\<rparr>) c
                 else c)))"

text \<open>A new local stream beyond the peer's grant is announced as blocked, and opened all the same.\<close>

definition note_blocked :: "u64 \<Rightarrow> connection \<Rightarrow> connection" where
  "note_blocked i c =
     (if (i mod 2 = 1) = conn_server c then
        (let ordinal = i div 4 in
         if i mod 4 < 2 then
           (if 0 < max_streams_bidi_remote c \<and> max_streams_bidi_remote c \<le> ordinal
            then c\<lparr>pending_streams_blocked_bidi := max_streams_bidi_remote c\<rparr> else c)
         else
           (if 0 < max_streams_uni_remote c \<and> max_streams_uni_remote c \<le> ordinal
            then c\<lparr>pending_streams_blocked_uni := max_streams_uni_remote c\<rparr> else c))
      else c)"

definition discard_count :: "(cr_error + 'a) \<times> 's \<Rightarrow> (cr_error + unit) \<times> 's" where
  "discard_count x = (case x of (Inl e, s) \<Rightarrow> (Inl e, s) | (Inr _, s) \<Rightarrow> (Inr (), s))"

definition stream_write :: "u64 \<Rightarrow> byte list \<Rightarrow> connection \<Rightarrow> (cr_error + unit) \<times> connection" where
  "stream_write i data c =
     (let c = check_and_apply_remote_tp c;
          c = (if map_of (streams c) i = None then ensure_stream i (note_blocked i c) else c)
      in with_stream i (\<lambda>s. discard_count (Stream_write data s)) c)"

definition stream_read :: "u64 \<Rightarrow> nat \<Rightarrow> connection \<Rightarrow> byte list \<times> connection" where
  "stream_read i n c =
     (case map_of (streams c) i of
        None \<Rightarrow> ([], c)
      | Some s \<Rightarrow> (case Stream_read n s of (d, s') \<Rightarrow> (d, c\<lparr>streams := hash_set i s' (streams c)\<rparr>)))"

definition cleanup_done_streams :: "connection \<Rightarrow> connection" where
  "cleanup_done_streams c = c\<lparr>streams := filter (\<lambda>(_, s). \<not> fully_done s) (streams c)\<rparr>"

definition send_datagram :: "byte list \<Rightarrow> connection \<Rightarrow> connection" where
  "send_datagram data c = c\<lparr>queued_datagrams := queued_datagrams c @ [data]\<rparr>"

definition queue_streams_blocked :: "bool \<Rightarrow> u64 \<Rightarrow> connection \<Rightarrow> connection" where
  "queue_streams_blocked bidi limit c =
     (if bidi then c\<lparr>pending_streams_blocked_bidi := limit\<rparr> else c\<lparr>pending_streams_blocked_uni := limit\<rparr>)"

definition initiate_path_validation :: "byte list \<Rightarrow> u64 \<Rightarrow> connection \<Rightarrow> connection" where
  "initiate_path_validation challenge i c =
     c\<lparr>pending_path_challenges := pending_path_challenges c @ [(challenge, i)], conn_path_validated := False\<rparr>"

definition add_path :: "u64 \<Rightarrow> connection \<Rightarrow> connection" where
  "add_path i c = c\<lparr>paths := paths c @ [path_new i (config_initial_cwnd_packets (config c) * MAX_DATAGRAM_SIZE)]\<rparr>"

text \<open>Frames of lost packets that are sent again\<close>

definition requeued :: "quic_frame \<Rightarrow> bool" where
  "requeued f \<longleftrightarrow> frame_type f \<in> {STREAM, CRYPTO, MAX_DATA, MAX_STREAM_DATA, DATAGRAM}"

definition queue_lost_frames :: "sent_packet list \<Rightarrow> connection \<Rightarrow> connection" where
  "queue_lost_frames pkts c =
     c\<lparr>lost_frames := lost_frames c @
        concat (map (\<lambda>p. map (Pair (sp_space_id p)) (filter requeued (sp_frames p))) pkts)\<rparr>"

abbreviation conn_recovery :: "connection \<Rightarrow> recovery" where
  "conn_recovery c \<equiv> path_recovery (paths c ! recovery_path c)"

definition set_recovery :: "recovery \<Rightarrow> connection \<Rightarrow> connection" where
  "set_recovery r c = map_path (recovery_path c) (\<lambda>p. p\<lparr>path_recovery := r\<rparr>) c"

definition effective_idle_timeout_ms :: "connection \<Rightarrow> u64" where
  "effective_idle_timeout_ms c =
     (let local = config_max_idle_timeout (config c);
          remote = (case remote_tp c of None \<Rightarrow> 0 | Some tp \<Rightarrow> max_idle_timeout tp)
      in if local = 0 \<and> remote = 0 then 0
         else if local = 0 then remote else if remote = 0 then local else min local remote)"

text \<open>\<open>tick\<close>: the probe timeout, and after the handshake the loss alarm of the application space and the idle timeout\<close>

definition conn_tick :: "env \<Rightarrow> connection \<Rightarrow> (cr_error + unit) \<times> connection" where
  "conn_tick env c =
     (let now = env_now env in
      case (case recovery_timeout (conn_recovery c) of
              None \<Rightarrow> (Inr (), c)
            | Some t \<Rightarrow>
                if t \<le> now then
                  (case on_pto_timeout (conn_recovery c) of
                     Inl e \<Rightarrow> (Inl e, c)
                   | Inr (pkts, r) \<Rightarrow> (Inr (), queue_lost_frames pkts (set_recovery r c)))
                else (Inr (), c)) of
        (Inl e, c) \<Rightarrow> (Inl e, c)
      | (Inr _, c) \<Rightarrow>
          (Inr (),
           if snd (env_ssl env (tls_input (conn_handshake c))) then
             (let c = (case loss_time (conn_recovery c) of
                         None \<Rightarrow> c
                       | Some lt \<Rightarrow>
                           if lt \<le> now then
                             (let r = (conn_recovery c)\<lparr>loss_time := None\<rparr>; la = largest_acked r 2 in
                              if 0 < la then
                                (case detect_lost_packets la now now 2 r of
                                   (pkts, r) \<Rightarrow> queue_lost_frames pkts (set_recovery r c))
                              else set_recovery r c)
                           else c);
                  ms = effective_idle_timeout_ms c
              in if 0 < ms \<and> last_recv_time c + milliseconds (int (unat ms)) \<le> now
                 then c\<lparr>closed := True\<rparr> else c)
           else c))"

section \<open>Sending\<close>

text \<open>
  The frames of a packet, in the order of the code. Every part gives its frames and the connection
  after it; an exception loses the frames.
\<close>

definition closing_frames :: "connection \<Rightarrow> quic_frame list \<times> connection" where
  "closing_frames c =
     (if closed c \<and> \<not> close_sent c
      then ([ConnectionCloseFrame (close_error c) 0 (close_reason c)], c\<lparr>close_sent := True\<rparr>) else ([], c))"

text \<open>The constructors of path frames check the size of their data.\<close>

fun challenge_frames ::
    "(byte list \<times> u64) list \<Rightarrow> (byte list \<times> u64) list \<Rightarrow> (cr_error + quic_frame list) \<times> (byte list \<times> u64) list" where
  "challenge_frames [] h = (Inr [], h)"
| "challenge_frames ((data, i) # xs) h =
     (case PathChallengeFrame_new data of
        Inl e \<Rightarrow> (Inl e, h)
      | Inr f \<Rightarrow> (case challenge_frames xs (hash_set data i h) of (r, h) \<Rightarrow> (rbind r (\<lambda>fs. Inr (f # fs)), h)))"

fun response_frames :: "byte list list \<Rightarrow> cr_error + quic_frame list" where
  "response_frames [] = Inr []"
| "response_frames (d # ds) =
     rbind (PathResponseFrame_new d) (\<lambda>f. rbind (response_frames ds) (\<lambda>fs. Inr (f # fs)))"

definition path_frames :: "connection \<Rightarrow> (cr_error + quic_frame list) \<times> connection" where
  "path_frames c =
     (case challenge_frames (pending_path_challenges c) (outstanding_path_challenges c) of
        (Inl e, h) \<Rightarrow> (Inl e, c\<lparr>outstanding_path_challenges := h\<rparr>)
      | (Inr challenges, h) \<Rightarrow>
          (let c = c\<lparr>outstanding_path_challenges := h, pending_path_challenges := []\<rparr>
           in case response_frames (pending_path_responses c) of
                Inl e \<Rightarrow> (Inl e, c)
              | Inr responses \<Rightarrow> (Inr (challenges @ responses), c\<lparr>pending_path_responses := []\<rparr>)))"

definition crypto_frames :: "pn_space \<Rightarrow> byte list option \<Rightarrow> connection \<Rightarrow> (cr_error + quic_frame list) \<times> connection" where
  "crypto_frames sp tls_data c =
     (case tls_data of
        None \<Rightarrow> (Inr [], c)
      | Some data \<Rightarrow>
          (case u64_add (crypto_tx_offsets c sp) (length data) of
             Inl e \<Rightarrow> (Inl e, c)
           | Inr off \<Rightarrow>
               (Inr [CryptoFrame (crypto_tx_offsets c sp) data],
                c\<lparr>crypto_tx_offsets := (crypto_tx_offsets c)(sp := off)\<rparr>)))"

definition ack_frames :: "pn_space \<Rightarrow> connection \<Rightarrow> (cr_error + quic_frame list) \<times> connection" where
  "ack_frames sp c =
     (if pending_ack (pn_spaces c sp) \<and> received_pns (pn_spaces c sp) \<noteq> [] then
        (case build_ack (received_pns (pn_spaces c sp)) of
           Inl e \<Rightarrow> (Inl e, map_pn_space sp (\<lambda>n. n\<lparr>received_pns := sort (received_pns n)\<rparr>) c)
         | Inr f \<Rightarrow> (Inr [f], map_pn_space sp (\<lambda>n. n\<lparr>pending_ack := False, received_pns := []\<rparr>) c))
      else (Inr [], c))"

text \<open>Flow control and control frames of the application space\<close>

definition stream_limit_frames :: "(u64 \<Rightarrow> stream \<Rightarrow> quic_frame) \<Rightarrow> u64 list \<Rightarrow> connection \<Rightarrow> quic_frame list" where
  "stream_limit_frames F is c =
     concat (map (\<lambda>i. case map_of (streams c) i of None \<Rightarrow> [] | Some s \<Rightarrow> [F i s]) is)"

definition app_control_frames :: "pn_space \<Rightarrow> connection \<Rightarrow> quic_frame list \<times> connection" where
  "app_control_frames sp c =
     (let handshake_done = (pending_handshake_done (conn_handshake c) \<and> conn_server c \<and> sp = SpaceApp);
          fs = (if pending_max_data c then [MaxDataFrame (max_data_local c)] else []) @
               (if pending_data_blocked c then [DataBlockedFrame (max_data_remote c)] else []) @
               stream_limit_frames (\<lambda>i s. StreamDataBlockedFrame i (max_stream_data_remote s))
                 (pending_stream_data_blocked c) c @
               stream_limit_frames (\<lambda>i s. MaxStreamDataFrame i (max_stream_data_local s))
                 (pending_max_stream_data c) c @
               (if 0 < pending_max_streams_bidi c then [MaxStreamsFrame (pending_max_streams_bidi c) True] else []) @
               (if 0 < pending_streams_blocked_bidi c
                then [StreamsBlockedFrame (pending_streams_blocked_bidi c) True] else []) @
               (if 0 < pending_streams_blocked_uni c
                then [StreamsBlockedFrame (pending_streams_blocked_uni c) False] else []) @
               (if handshake_done then [HandshakeDoneFrame] else []) @
               map (\<lambda>(i, code, size). ResetStreamFrame i code size) (pending_reset_streams c) @
               map DatagramFrame (queued_datagrams c)
      in (fs, c\<lparr>pending_max_data := False, pending_data_blocked := False, pending_stream_data_blocked := [],
               pending_max_stream_data := [], pending_max_streams_bidi := 0, pending_streams_blocked_bidi := 0,
               pending_streams_blocked_uni := 0,
               conn_handshake := (if handshake_done then (conn_handshake c)\<lparr>pending_handshake_done := False\<rparr>
                                  else conn_handshake c),
               early_keys := early_keys c \<and> \<not> handshake_done,
               pending_reset_streams := [], queued_datagrams := []\<rparr>))"

text \<open>
  The loop over the streams: \<open>budget\<close> is what is left of the packet, \<open>avail\<close> of the peer's connection
  limit \<open>limit\<close>, \<open>sent\<close> is \<open>@data_sent\<close>. The result has the frames, the streams and the
  new \<open>@data_sent\<close>.
\<close>

fun poll_streams ::
    "u64 \<Rightarrow> (u64 \<times> stream) list \<Rightarrow> int \<Rightarrow> u64 \<Rightarrow> u64 \<Rightarrow>
     (cr_error + quic_frame list) \<times> (u64 \<times> stream) list \<times> u64" where
  "poll_streams limit [] budget avail sent = (Inr [], [], sent)"
| "poll_streams limit ((i, s) # ss) budget avail sent =
     (if budget \<le> 0 then (Inr [], (i, s) # ss, sent)
      else
        (case poll_send_data (min budget 1200) avail s of
           (Inl e, s') \<Rightarrow> (Inl e, (i, s') # ss, sent)
         | (Inr (off, data, send_fin, blocked_reason), s') \<Rightarrow>
             (let has_frame = (0 < length data \<or> send_fin);
                  fs = (if has_frame then [StreamFrame (stream_id s) off data send_fin] else []) @
                       (case blocked_reason of
                          Some BlockedConnection \<Rightarrow> [DataBlockedFrame limit]
                        | Some BlockedStream \<Rightarrow> [StreamDataBlockedFrame (stream_id s) (max_stream_data_remote s)]
                        | None \<Rightarrow> [])
              in case u64_add sent (length data) of
                   Inl e \<Rightarrow> (Inl e, (i, s') # ss, sent)
                 | Inr sent' \<Rightarrow>
                     (case poll_streams limit ss (if has_frame then budget - (int (length data) + 10) else budget)
                             (avail - of_nat (length data)) sent' of
                        (r, ss', sent'') \<Rightarrow> (rbind r (\<lambda>gs. Inr (fs @ gs)), (i, s') # ss', sent'')))))"

text \<open>\<open>(@path_mtu.to_i - 30).clamp(256, 1200)\<close>; \<open>to_i\<close> is checked.\<close>

definition stream_budget :: "u64 \<Rightarrow> cr_error + int" where
  "stream_budget mtu =
     (if 2 ^ 31 \<le> unat mtu then Inl OverflowError else Inr (max 256 (min 1200 (int (unat mtu) - 30))))"

definition stream_data_frames :: "connection \<Rightarrow> (cr_error + quic_frame list) \<times> connection" where
  "stream_data_frames c =
     (let conn_available = (if data_sent c < max_data_remote c then max_data_remote c - data_sent c else 0) in
      case stream_budget (path_mtu c) of
        Inl e \<Rightarrow> (Inl e, c)
      | Inr budget \<Rightarrow>
          (case poll_streams (max_data_remote c) (streams c) budget conn_available (data_sent c) of
             (r, ss, sent) \<Rightarrow> (r, c\<lparr>streams := ss, data_sent := sent\<rparr>)))"

definition lost_frame :: "pn_space \<Rightarrow> connection \<Rightarrow> quic_frame list \<times> connection" where
  "lost_frame sp c =
     (case lost_frames c of
        [] \<Rightarrow> ([], c)
      | (sid, f) # rest \<Rightarrow> if sid = space_id sp then ([f], c\<lparr>lost_frames := rest\<rparr>) else ([], c))"

definition app_frames :: "pn_space \<Rightarrow> byte list option \<Rightarrow> connection \<Rightarrow> (cr_error + quic_frame list) \<times> connection" where
  "app_frames sp tls_data c =
     (if (sp = SpaceApp \<or> sp = SpaceZeroRTT) \<and> can_send (conn_recovery c) \<and> tls_data = None then
        (case app_control_frames sp c of
           (fs, c) \<Rightarrow>
             (case stream_data_frames c of
                (Inl e, c) \<Rightarrow> (Inl e, c)
              | (Inr gs, c) \<Rightarrow> (Inr (fs @ gs), c)))
      else (Inr [], c))"

text \<open>All frames of a packet; padding and the probe of the path MTU, which only fill it up, are left out.\<close>

definition then_frames ::
    "(cr_error + quic_frame list) \<times> connection \<Rightarrow> (connection \<Rightarrow> (cr_error + quic_frame list) \<times> connection) \<Rightarrow>
     (cr_error + quic_frame list) \<times> connection" where
  "then_frames x f =
     (case x of
        (Inl e, c) \<Rightarrow> (Inl e, c)
      | (Inr fs, c) \<Rightarrow> (case f c of (Inl e, c) \<Rightarrow> (Inl e, c) | (Inr gs, c) \<Rightarrow> (Inr (fs @ gs), c)))"

definition no_raise :: "quic_frame list \<times> connection \<Rightarrow> (cr_error + quic_frame list) \<times> connection" where
  "no_raise x = (Inr (fst x), snd x)"

definition packet_frames :: "pn_space \<Rightarrow> byte list option \<Rightarrow> connection \<Rightarrow> (cr_error + quic_frame list) \<times> connection" where
  "packet_frames sp tls_data c =
     then_frames (then_frames (then_frames (then_frames (then_frames (no_raise (closing_frames c))
       path_frames) (crypto_frames sp tls_data)) (ack_frames sp)) (app_frames sp tls_data))
       (\<lambda>c. no_raise (lost_frame sp c))"

text \<open>What holds \<open>send\<close> back: the congestion window and the anti-amplification limit\<close>

definition send_held_back :: "connection \<Rightarrow> bool" where
  "send_held_back c \<longleftrightarrow>
     (closed c \<and> close_sent c) \<or>
     (\<not> can_send (conn_recovery c) \<and>
        \<not> (pending_ack (pn_spaces c SpaceInitial) \<or> pending_ack (pn_spaces c SpaceHandshake) \<or>
           pending_ack (pn_spaces c SpaceApp)) \<and>
        lost_frames c = [] \<and> pending_reset_streams c = [] \<and> \<not> pending_handshake_done (conn_handshake c)) \<or>
     (let p = paths c ! active_index c in
      \<not> path_validated p \<and> bytes_received p * 3 < bytes_sent p + 1200)"

text \<open>The early return: updated limits alone do not make a packet.\<close>

definition nothing_to_send :: "pn_space \<Rightarrow> byte list option \<Rightarrow> connection \<Rightarrow> bool" where
  "nothing_to_send sp tls_data c \<longleftrightarrow>
     tls_data = None \<and> \<not> pending_ack (pn_spaces c sp) \<and> \<not> (closed c \<and> \<not> close_sent c) \<and>
     list_all (\<lambda>(i, s). \<not> has_send_data s) (streams c) \<and> pending_path_responses c = [] \<and>
     pending_path_challenges c = [] \<and> lost_frames c = [] \<and> \<not> pending_handshake_done (conn_handshake c) \<and>
     pending_reset_streams c = [] \<and> pending_streams_blocked_bidi c = 0 \<and> pending_streams_blocked_uni c = 0 \<and>
     queued_datagrams c = []"

text \<open>
  \<open>send\<close> for the space and the TLS data it has chosen. \<open>final_size\<close> is the number of bytes a payload
  has on the wire; a packet that does not fit \<open>room\<close> is dropped.
\<close>

definition conn_send ::
    "env \<Rightarrow> pn_space \<Rightarrow> byte list option \<Rightarrow> (byte list \<Rightarrow> nat) \<Rightarrow> nat \<Rightarrow> connection \<Rightarrow>
     (cr_error + quic_frame list) \<times> connection" where
  "conn_send env sp tls_data final_size room c0 =
     (let c = check_and_apply_remote_tp c0 in
      if send_held_back c \<or> nothing_to_send sp tls_data c then (Inr [], c)
      else
        (case packet_frames sp tls_data c of
           (Inl e, c) \<Rightarrow> (Inl e, c)
         | (Inr fs, c) \<Rightarrow>
             if fs = [] then (Inr [], c)
             else
               (case payload_encode fs of
                  Inl e \<Rightarrow> (Inl e, c)
                | Inr payload \<Rightarrow>
                    (case pn_encode (packet_number (pn_spaces c sp)) of
                       Inl e \<Rightarrow> (Inl e, c)
                     | Inr four_bytes \<Rightarrow>
                         if room < final_size payload then (Inr [], c)
                         else
                           (let r = on_packet_sent (packet_number (pn_spaces c sp)) (final_size payload) fs
                                      (list_ex ack_eliciting fs) (space_id sp) (env_now env) (conn_recovery c);
                                c = set_recovery r c;
                                c = map_pn_space sp (\<lambda>n. n\<lparr>packet_number := packet_number n + 1\<rparr>) c;
                                c = map_path (active_index c) (\<lambda>p. p\<lparr>bytes_sent := bytes_sent p + final_size payload\<rparr>) c
                            in (Inr fs, c))))))"

end
