(* ===== verification/Conn_Safety.thy ===== *)
theory Conn_Safety
  imports Cr_Conn
begin

text \<open>
  Flow control of the connection: what its streams hold never exceeds what it has granted, under any
  sequence of its operations, and the packets it sends stay within what the peer has granted.
\<close>

section \<open>What the streams hold\<close>

text \<open>The bytes a stream has received and keeps: reassembled, and out of order\<close>

definition held :: "stream \<Rightarrow> nat" where
  "held s = length (recv_buffer s) + (\<Sum>x\<leftarrow>ooo_buffer s. length (snd x))"

lemma held_eqI: "recv_buffer s' = recv_buffer s \<Longrightarrow> ooo_buffer s' = ooo_buffer s \<Longrightarrow> held s' = held s"
  by (simp add: held_def)

lemma held_deliver:
  assumes "recv_wf s" and "deliver d s = (r, s')"
  shows "held s' \<le> held s + length d"
proof -
  have "unat (rx_offset s) = length (recv_buffer s)" using assms(1) by (simp add: recv_wf_def)
  from deliver_eq [OF this, of d] assms(2) show ?thesis by (auto simp: held_def split: if_splits)
qed

lemma held_pop: "ooo_buffer s = (off, d) # rest \<Longrightarrow> held (s\<lparr>ooo_buffer := rest\<rparr>) + length d = held s"
  by (simp add: held_def)

lemma held_round:
  assumes wf: "recv_wf s" and "flush_round s = (q, s')"
  shows "held s' \<le> held s"
proof (cases "ooo_buffer s")
  case Nil
  then show ?thesis using assms(2) by (simp add: flush_round_def)
next
  case (Cons x rest)
  obtain off d where x: "x = (off, d)" by fastforce
  let ?s = "s\<lparr>ooo_buffer := rest\<rparr>"
  note pop = held_pop [OF Cons [unfolded x]]
  have "recv_wf ?s" using recv_wf_pop [OF wf Cons] by simp
  then have dl: "held t \<le> held s" if "deliver d' ?s = (r, t)" "length d' \<le> length d" for d' r t
    using held_deliver [OF _ that(1)] pop that(2) by fastforce
  have "held ?s \<le> held s" using pop by simp
  then show ?thesis using assms(2) Cons
    by (auto simp: flush_round_def x Let_def dest!: dl split: if_splits sum.splits prod.splits)
qed

lemma held_flush:
  assumes "recv_wf s" and "flush_ooo_buffer s = (r, s')"
  shows "held s' \<le> held s"
proof -
  have "recv_wf s' \<and> held s' \<le> held s"
    using assms(2) by (rule flush_invariant [where P = "\<lambda>t. recv_wf t \<and> held t \<le> held s"])
      (use assms(1) in \<open>auto dest: recv_wf_round held_round\<close>)
  then show ?thesis by simp
qed

lemma held_sort: "(\<Sum>x\<leftarrow>sort_key fst (xs @ [(off, d)]). length (snd x)) = (\<Sum>x\<leftarrow>xs. length (snd x)) + length d"
proof -
  have "(\<Sum>x\<leftarrow>ys. length (snd x)) = (\<Sum>x\<in>#mset ys. length (snd x))" for ys :: "('a \<times> 'b list) list"
    by (simp add: sum_mset_sum_list [symmetric])
  then show ?thesis by simp
qed

lemma held_receive:
  assumes "stream_wf s" and "receive_data off d s = (r, s')"
  shows "held s' \<le> held s + length d \<and> stream_id s' = stream_id s"
proof -
  have wf: "recv_wf (opened s)" using assms(1) by (simp add: stream_wf_def recv_wf_opened)
  have o: "held (opened s) = held s" by (rule held_eqI) (simp_all add: opened_fields)
  have i: "stream_id (opened s) = stream_id s" by (simp add: opened_def)
  have dl: "recv_wf t \<and> held t \<le> held s + length d \<and> stream_id t = stream_id s"
    if "deliver d (opened s) = (q, t)" "off = rx_offset s" "unat off + length d \<le> unat (max_stream_data_local s)" for q t
    using that recv_wf_deliver [OF wf that(1)] held_deliver [OF wf that(1)] recv_only_deliver [OF that(1)] o i
    by (simp add: opened_fields recv_only_def)
  have fl: "held u \<le> held t \<and> stream_id u = stream_id t" if "recv_wf t" "flush_ooo_buffer t = (q, u)" for q t u
    using held_flush [OF that] recv_only_flush [OF that(2)] by (simp add: recv_only_def)
  from assms(2) show ?thesis
  proof (cases rule: receive_data_cases)
    case (failed e t)
    from failed(4) show ?thesis
    proof
      assume "deliver d (opened s) = (Inl e, s')"
      then show ?thesis using dl failed(2,3) by blast
    next
      assume "deliver d (opened s) = (Inr (), t) \<and> flush_ooo_buffer t = (Inl e, s')"
      then show ?thesis using dl [of "Inr ()" t] fl [of t "Inl e" s'] failed(2,3) by fastforce
    qed
  next
    case (in_order t u)
    have "held (check_fin_ready u) = held u" by (rule held_eqI) (simp_all add: stream_fields)
    moreover have "stream_id (check_fin_ready u) = stream_id u"
      by (simp add: check_fin_ready_def close_remote_def split: option.split)
    ultimately show ?thesis using dl [OF in_order(6) in_order(2,5)] fl [OF _ in_order(7)] in_order(8) by fastforce
  next
    case buffered
    then show ?thesis by (simp add: held_def held_sort opened_fields i)
  qed (use o i in simp_all)
qed

text \<open>An operation keeps a stream well-formed and adds at most \<open>k\<close> bytes to what it holds.\<close>

definition good_op :: "nat \<Rightarrow> (stream \<Rightarrow> (cr_error + unit) \<times> stream) \<Rightarrow> bool" where
  "good_op k f \<longleftrightarrow>
     (\<forall>s r s'. stream_wf s \<longrightarrow> f s = (r, s') \<longrightarrow>
        stream_wf s' \<and> stream_id s' = stream_id s \<and> held s' \<le> held s + k)"

lemma good_total:
  assumes "\<And>s. stream_wf s \<Longrightarrow> stream_wf (f s)" and "\<And>s. stream_id (f s) = stream_id s"
    and "\<And>s. recv_buffer (f s) = recv_buffer s" and "\<And>s. ooo_buffer (f s) = ooo_buffer s"
  shows "good_op 0 (total_op f)"
  using assms held_eqI [of "f _"] by (auto simp: good_op_def total_op_def)

lemma good_receive: "good_op (length d) (receive_stream_frame (off, d, fin))"
proof -
  have "held (set_fin_offset off' s) = held s" "stream_id (set_fin_offset off' s) = stream_id s"
    "stream_wf s \<Longrightarrow> stream_wf (set_fin_offset off' s)" for off' s
    using stream_step_wf [of s "OpFin off'"]
    by (auto intro!: held_eqI simp: stream_fields set_fin_offset_def check_fin_ready_def close_remote_def split: option.split)
  then show ?thesis using receive_data_wf held_receive
    by (fastforce simp: good_op_def receive_stream_frame_def split: sum.splits prod.splits if_splits)
qed

lemma wf_ops:
  assumes "stream_wf s"
  shows "stream_wf (update_max_stream_data m s)" "stream_wf (update_max_stream_data_local m s)"
    "stream_wf (Stream_reset code s)" "stream_wf (close_local s)"
  using stream_step_wf [OF assms, of "OpMaxRemote m"] stream_step_wf [OF assms, of "OpMaxLocal m"]
    stream_step_wf [OF assms, of "OpReset code"] stream_step_wf [OF assms, of OpCloseLocal] by simp_all

lemma good_ops:
  "good_op 0 (total_op (update_max_stream_data m))" "good_op 0 (total_op (update_max_stream_data_local m))"
  "good_op 0 (total_op (Stream_reset code))" "good_op 0 (total_op close_local)"
proof -
  show "good_op 0 (total_op (update_max_stream_data m))"
    by (rule good_total, erule wf_ops) (simp_all add: update_max_stream_data_def)
  show "good_op 0 (total_op (update_max_stream_data_local m))"
    by (rule good_total, erule wf_ops) (simp_all add: update_max_stream_data_local_def)
  show "good_op 0 (total_op (Stream_reset code))"
    by (rule good_total, erule wf_ops) (simp_all add: Stream_reset_def)
  show "good_op 0 (total_op close_local)"
    by (rule good_total, erule wf_ops) (simp_all add: close_local_def)
qed

lemma good_write: "good_op 0 (\<lambda>s. discard_count (Stream_write d s))"
  unfolding good_op_def
proof (intro allI impI)
  fix s r s' assume wf: "stream_wf s" and w: "discard_count (Stream_write d s) = (r, s')"
  obtain q t where q: "Stream_write d s = (q, t)" by fastforce
  then have t: "t = s'" using w by (cases q) (simp_all add: discard_count_def)
  have "stream_wf s'" using stream_step_wf [of s "OpWrite d"] wf q t by (cases q) auto
  moreover have "stream_id s' = stream_id s" "held s' = held s"
    using q t by (auto simp: Stream_write_def Let_def opened_def held_def memory_append_def split: if_splits sum.splits)
  ultimately show "stream_wf s' \<and> stream_id s' = stream_id s \<and> held s' \<le> held s + 0" by simp
qed

section \<open>The table of streams\<close>

definition table_wf :: "(u64 \<times> stream) list \<Rightarrow> bool" where
  "table_wf ss \<longleftrightarrow> distinct (map fst ss) \<and> (\<forall>(i, s)\<in>set ss. stream_wf s \<and> stream_id s = i)"

definition table_held :: "(u64 \<times> stream) list \<Rightarrow> nat" where
  "table_held ss = (\<Sum>(i, s)\<leftarrow>ss. held s)"

lemma table_simps [simp]:
  "table_wf []" "table_held [] = 0"
  "table_wf ((i, s) # ss) \<longleftrightarrow> i \<notin> fst ` set ss \<and> stream_wf s \<and> stream_id s = i \<and> table_wf ss"
  "table_held ((i, s) # ss) = held s + table_held ss"
  "table_held (ss @ ts) = table_held ss + table_held ts"
  by (auto simp: table_wf_def table_held_def)

lemma hash_set_keys: "fst ` set (hash_set k v h) = insert k (fst ` set h)"
  by (induction k v h rule: hash_set.induct) auto

lemma table_update:
  assumes "table_wf ss" and "map_of ss i = Some s" and "stream_wf s'" and "stream_id s' = i"
  shows "table_wf (hash_set i s' ss) \<and> table_held (hash_set i s' ss) + held s = table_held ss + held s' \<and>
     map fst (hash_set i s' ss) = map fst ss"
  using assms
proof (induction i s' ss rule: hash_set.induct)
  case (2 k v k' v' h)
  have "fst ` set (hash_set k v h) = fst ` set h" if "map_of h k = Some s"
    using that hash_set_keys [of k v h] by (force dest: map_of_SomeD)
  then show ?case using 2 by (auto split: if_splits)
qed simp

lemma table_wf_lookup: "table_wf ss \<Longrightarrow> map_of ss i = Some s \<Longrightarrow> stream_wf s \<and> stream_id s = i"
  by (fastforce simp: table_wf_def dest: map_of_SomeD)

definition conn_wf :: "connection \<Rightarrow> bool" where
  "conn_wf c \<longleftrightarrow>
     table_wf (streams c) \<and> table_held (streams c) \<le> unat (data_received c) \<and>
     data_received c \<le> max_data_local c"

lemma conn_wf_cong:
  "streams c' = streams c \<Longrightarrow> data_received c' = data_received c \<Longrightarrow> max_data_local c' = max_data_local c \<Longrightarrow>
     conn_wf c' = conn_wf c"
  by (simp add: conn_wf_def)

lemma Stream_new_held: "stream_wf (Stream_new i a b) \<and> stream_id (Stream_new i a b) = i \<and> held (Stream_new i a b) = 0"
  using stream_wf_new [of i a b] by (simp add: held_def Stream_new_fields) (simp add: Stream_new_def)

lemma ensure_stream_wf: "conn_wf c \<Longrightarrow> conn_wf (ensure_stream i c)"
  using Stream_new_held [of i]
  by (auto simp: conn_wf_def ensure_stream_def table_wf_def map_of_eq_None_iff split: option.splits prod.splits)

lemma ensure_stream_fields [simp]:
  "data_received (ensure_stream i c) = data_received c" "max_data_local (ensure_stream i c) = max_data_local c"
  "peer_streams_bidi_opened (ensure_stream i c) = peer_streams_bidi_opened c"
  "closed (ensure_stream i c) = closed c"
  by (simp_all add: ensure_stream_def split: option.split prod.split)

lemma with_stream_wf:
  assumes "table_wf (streams c)" and "table_held (streams c) + k \<le> unat (data_received c)"
    and "data_received c \<le> max_data_local c" and "good_op k f" and "with_stream i f c = (r, c')"
  shows "conn_wf c'"
proof (cases "map_of (streams c) i")
  case None
  then show ?thesis using assms by (simp add: with_stream_def conn_wf_def)
next
  case (Some s)
  obtain q s' where q: "f s = (q, s')" by fastforce
  note wf = table_wf_lookup [OF assms(1) Some]
  have g: "stream_wf s'" "stream_id s' = i" "held s' \<le> held s + k"
    using assms(4) wf q unfolding good_op_def by auto
  have "c' = c\<lparr>streams := hash_set i s' (streams c)\<rparr>" using assms(5) Some q by (simp add: with_stream_def)
  then show ?thesis using table_update [OF assms(1) Some g(1,2)] g(3) assms(2,3) by (simp add: conn_wf_def)
qed

lemma with_stream_wf0: "conn_wf c \<Longrightarrow> good_op 0 f \<Longrightarrow> with_stream i f c = (r, c') \<Longrightarrow> conn_wf c'"
  by (rule with_stream_wf [of c 0]) (simp_all add: conn_wf_def)

lemma extend_wf: "conn_wf c \<Longrightarrow> maybe_extend_max_streams_bidi c = (r, c') \<Longrightarrow> conn_wf c'"
  by (auto simp: maybe_extend_max_streams_bidi_def conn_wf_def split: sum.splits if_splits)

lemma u64_add_Inr: "u64_add x n = Inr y \<Longrightarrow> unat y = unat x + n"
  by (auto simp: u64_add_cases unat_add_of_nat)

lemma note_opened_wf:
  assumes "conn_wf c" and "note_opened i c = (r, c')"
  shows "conn_wf c'"
proof (cases "peer_streams_bidi_opened c < drop_bit 2 i + 1")
  case True
  have "conn_wf (c\<lparr>peer_streams_bidi_opened := drop_bit 2 i + 1\<rparr>)" using assms(1) by (simp add: conn_wf_def)
  then show ?thesis using assms(2) True extend_wf by (simp add: note_opened_def)
qed (use assms in \<open>simp add: note_opened_def\<close>)

lemma handle_stream_frame_wf:
  assumes "conn_wf c" and "handle_stream_frame i off d fin c = (r, c')"
  shows "conn_wf c'"
proof -
  let ?c1 = "ensure_stream i c"
  let ?new = "i mod 4 = (if conn_server c then 0 else 1) \<and> map_of (streams c) i = None"
  obtain q c2 where q: "(if ?new then note_opened i ?c1 else (Inr (), ?c1)) = (q, c2)" by fastforce
  have wf2: "conn_wf c2"
  proof (cases ?new)
    case True
    then show ?thesis using q note_opened_wf [OF ensure_stream_wf [OF assms(1)], of i i q c2] by simp
  next
    case False
    then show ?thesis using q ensure_stream_wf [OF assms(1), of i] by auto
  qed
  show ?thesis
  proof (cases q)
    case (Inl e)
    then show ?thesis using assms(2) q wf2 by (simp add: handle_stream_frame_def Let_def)
  next
    case (Inr u)
    show ?thesis
    proof (cases "u64_add (data_received c2) (length d)")
      case (Inl e)
      then show ?thesis using assms(2) q wf2 Inr by (simp add: handle_stream_frame_def Let_def)
    next
      case (Inr received)
      note n = u64_add_Inr [OF Inr]
      show ?thesis
      proof (cases "max_data_local c2 < received")
        case True
        then have "c' = conn_close 0x01 ''Flow control error'' c2"
          using assms(2) q \<open>q = Inr u\<close> Inr by (simp add: handle_stream_frame_def Let_def)
        then show ?thesis using wf2 by (simp add: conn_close_def conn_wf_def)
      next
        case False
        let ?c3 = "c2\<lparr>data_received := received\<rparr>"
        have "with_stream i (receive_stream_frame (off, d, fin)) ?c3 = (r, c')"
          using assms(2) q \<open>q = Inr u\<close> Inr False by (simp add: handle_stream_frame_def Let_def)
        then show ?thesis
          using wf2 n False by (intro with_stream_wf [OF _ _ _ good_receive]) (simp_all add: conn_wf_def not_less)
      qed
    qed
  qed
qed

lemma handle_frame_wf:
  assumes "conn_wf c" and "handle_frame env sp f c = (r, c')"
  shows "conn_wf c'"
proof (cases f)
  case (StreamFrame i off d fin)
  then show ?thesis using assms handle_stream_frame_wf by simp
next
  case (CryptoFrame off d)
  then show ?thesis using assms by (auto simp: conn_wf_def split: prod.splits)
next
  case (AckFrame l d fr rs e0 e1 ce ecn)
  then show ?thesis using assms
    by (auto simp: handle_ack_frame_def map_recoveries_def conn_wf_def Let_def split: option.splits if_splits)
next
  case (MaxStreamDataFrame i m)
  then show ?thesis using assms with_stream_wf0 [OF assms(1) good_ops(1)] by simp
next
  case (DataBlockedFrame m)
  have le: "unat (max_data_local c) \<le> unat l" if "u64_plus (max_data_local c) 1048576 = Inr l" for l
    using u64_add_Inr that unfolding u64_plus_def by fastforce
  show ?thesis using assms DataBlockedFrame
    by (auto simp: conn_wf_def word_le_nat_alt split: sum.splits dest: le)
next
  case (StreamDataBlockedFrame i m)
  show ?thesis
  proof (cases "map_of (streams c) i")
    case None
    then show ?thesis using assms StreamDataBlockedFrame by simp
  next
    case (Some s)
    show ?thesis
    proof (cases "u64_plus (max_stream_data_local s) 1048576")
      case (Inl e)
      then show ?thesis using assms StreamDataBlockedFrame Some by simp
    next
      case (Inr l)
      obtain q c1 where q: "with_stream i (total_op (update_max_stream_data_local l)) c = (q, c1)" by fastforce
      have "conn_wf c1" using with_stream_wf0 [OF assms(1) good_ops(2) q] .
      then show ?thesis using assms(2) StreamDataBlockedFrame Some Inr q by (auto simp: conn_wf_def)
    qed
  qed
next
  case (ResetStreamFrame i code final)
  then show ?thesis using assms with_stream_wf0 [OF ensure_stream_wf good_ops(3)] by simp
next
  case (StopSendingFrame i code)
  show ?thesis
  proof (cases "map_of (streams c) i")
    case None
    then show ?thesis using assms StopSendingFrame by simp
  next
    case (Some s)
    have "conn_wf (c\<lparr>pending_reset_streams := pending_reset_streams c @ [(i, code, tx_offset s)]\<rparr>)"
      using assms(1) by (simp add: conn_wf_def)
    then show ?thesis using assms(2) StopSendingFrame Some with_stream_wf0 [OF _ good_ops(4)] by simp
  qed
next
  case (StreamsBlockedFrame m bidi)
  then show ?thesis using assms extend_wf by (auto split: if_splits)
next
  case (PathResponseFrame d)
  then show ?thesis using assms
    by (auto simp: conn_wf_def handle_path_response_def set_active_path_id_def Let_def split: option.splits if_splits)
next
  case (NewConnectionIdFrame sn ret cid tok)
  then show ?thesis using assms by (auto simp: conn_wf_def handle_new_cid_def Let_def split: if_splits)
qed (use assms in \<open>auto simp: conn_wf_def split: if_splits\<close>)

lemma recv_frames_wf: "conn_wf c \<Longrightarrow> recv_frames env sp io a c = (r, c') \<Longrightarrow> conn_wf c'"
proof (induction env sp io a c arbitrary: r c' rule: recv_frames.induct)
  case (1 env sp io a c)
  show ?case
  proof (cases "io = []")
    case True
    then show ?thesis using 1(2,3) by (simp add: recv_frames.simps)
  next
    case io: False
    show ?thesis
    proof (cases "QuicFrame_decode io")
      case (Inl e)
      then show ?thesis using 1(2,3) io by (simp add: recv_frames.simps [of env sp io])
    next
      case (Inr y)
      obtain f io' where y: "y = (f, io')" by fastforce
      obtain q c1 where q: "handle_frame env sp f c = (q, c1)" by fastforce
      have wf1: "conn_wf c1" using handle_frame_wf [OF 1(2) q] .
      show ?thesis
      proof (cases q)
        case (Inl e)
        then show ?thesis using 1(3) io Inr y q wf1 by (simp add: recv_frames.simps [of env sp io])
      next
        case q': (Inr u)
        then have "recv_frames env sp io' (a \<or> ack_eliciting f) c1 = (r, c')"
          using 1(3) io Inr y q by (simp add: recv_frames.simps [of env sp io])
        then show ?thesis using "1.IH" [OF io Inr y [symmetric] q [symmetric] q' wf1] by blast
      qed
    qed
  qed
qed

lemma map_pn_space_wf [simp]: "conn_wf (map_pn_space sp f c) = conn_wf c"
  by (simp add: map_pn_space_def conn_wf_def)

lemma map_path_wf [simp]: "conn_wf (map_path n f c) = conn_wf c"
  by (simp add: map_path_def conn_wf_def)

lemma map_recoveries_wf [simp]: "conn_wf (map_recoveries f c) = conn_wf c"
  by (simp add: map_recoveries_def conn_wf_def)

lemma recv_packet_wf: "conn_wf c \<Longrightarrow> recv_packet env sp pn payload c = (r, c') \<Longrightarrow> conn_wf c'"
  by (auto simp: recv_packet_def Let_def split: prod.splits sum.splits dest!: recv_frames_wf [rotated])

lemma recv_packets_wf: "conn_wf c \<Longrightarrow> recv_packets env ps c = (r, c') \<Longrightarrow> conn_wf c'"
proof (induction env ps c rule: recv_packets.induct)
  case (3 env sp pn payload ps c)
  obtain q c1 where q: "recv_packet env sp pn payload c = (q, c1)" by fastforce
  have "conn_wf c1" using recv_packet_wf [OF 3(2) q] .
  then show ?case using 3 q by (cases q) auto
qed auto

lemma conn_recv_wf: "conn_wf c \<Longrightarrow> conn_recv env data ps c = (n, c') \<Longrightarrow> conn_wf c'"
proof -
  assume wf: "conn_wf c" and r: "conn_recv env data ps c = (n, c')"
  let ?c = "map_path (active_index c) (\<lambda>p. p\<lparr>bytes_received := bytes_received p + length data\<rparr>) c"
  obtain q c1 where q: "recv_packets env ps ?c = (q, c1)" by fastforce
  have "conn_wf c1" using recv_packets_wf [OF _ q] wf by simp
  then show "conn_wf c'" using r wf q
    by (cases q) (auto simp: conn_recv_def conn_wf_def split: if_splits)
qed

lemma map_streams_table:
  assumes "\<And>i s. stream_wf s \<Longrightarrow> stream_wf (f i s)" and "\<And>i s. stream_id (f i s) = stream_id s"
    and "\<And>i s. held (f i s) = held s" and "table_wf ss"
  shows "table_wf (map_streams f ss) \<and> table_held (map_streams f ss) = table_held ss \<and>
     fst ` set (map_streams f ss) = fst ` set ss"
  using assms(4)
proof (induction ss)
  case (Cons x ss)
  then show ?case using assms(1-3) by (cases x) simp
qed simp

section \<open>Every operation keeps the connection well-formed\<close>

lemma check_and_apply_wf: "conn_wf c \<Longrightarrow> conn_wf (check_and_apply_remote_tp c)"
proof -
  assume wf: "conn_wf c"
  have t: "table_wf (map_streams (\<lambda>i. update_max_stream_data (m i)) (streams c)) \<and>
      table_held (map_streams (\<lambda>i. update_max_stream_data (m i)) (streams c)) = table_held (streams c)" for m
    using map_streams_table [of "\<lambda>i. update_max_stream_data (m i)" "streams c"] wf wf_ops(1)
    by (auto simp: conn_wf_def update_max_stream_data_def held_def)
  show ?thesis using wf t
    by (auto simp: check_and_apply_remote_tp_def conn_wf_def map_recoveries_def Let_def split: option.split)
qed

lemma stream_write_wf: "conn_wf c \<Longrightarrow> stream_write i d c = (r, c') \<Longrightarrow> conn_wf c'"
proof -
  assume wf: "conn_wf c" and w: "stream_write i d c = (r, c')"
  let ?c1 = "check_and_apply_remote_tp c"
  have b: "conn_wf (note_blocked i c1) = conn_wf c1" for c1
    by (simp add: note_blocked_def conn_wf_def Let_def)
  have "conn_wf (if map_of (streams ?c1) i = None then ensure_stream i (note_blocked i ?c1) else ?c1)"
    using check_and_apply_wf [OF wf] ensure_stream_wf b by simp
  from with_stream_wf0 [OF this good_write] w show "conn_wf c'" by (simp add: stream_write_def Let_def)
qed

lemma stream_read_wf: "conn_wf c \<Longrightarrow> stream_read i n c = (d, c') \<Longrightarrow> conn_wf c'"
proof (cases "map_of (streams c) i")
  case (Some s)
  assume wf: "conn_wf c" and r: "stream_read i n c = (d, c')"
  obtain d' s' where q: "Stream_read n s = (d', s')" by fastforce
  have ts: "table_wf (streams c)" using wf by (simp add: conn_wf_def)
  note ws = table_wf_lookup [OF ts Some]
  have "stream_wf s'" using stream_step_wf [of s "OpRead n"] ws q by simp
  moreover have "stream_id s' = i" "held s' = held s"
    using q ws by (auto simp: Stream_read_def Let_def held_def split: if_splits)
  ultimately have "table_wf (hash_set i s' (streams c))" "table_held (hash_set i s' (streams c)) = table_held (streams c)"
    using table_update [OF ts Some, of s'] by simp_all
  then show ?thesis using wf r Some q by (auto simp: stream_read_def conn_wf_def)
qed (simp add: stream_read_def)

lemma table_filter: "table_wf ss \<Longrightarrow> table_wf (filter P ss) \<and> table_held (filter P ss) \<le> table_held ss"
proof (induction ss)
  case (Cons x ss)
  obtain i s where "x = (i, s)" by fastforce
  then show ?case using Cons by auto
qed simp

lemma cleanup_wf: "conn_wf c \<Longrightarrow> conn_wf (cleanup_done_streams c)"
  using table_filter [of "streams c" "\<lambda>(_, s). \<not> fully_done s"] by (auto simp: conn_wf_def cleanup_done_streams_def)

lemma queue_lost_wf [simp]: "conn_wf (queue_lost_frames pkts c) = conn_wf c"
  by (simp add: queue_lost_frames_def conn_wf_def)

lemma set_recovery_wf [simp]: "conn_wf (set_recovery r c) = conn_wf c"
  by (simp add: set_recovery_def)

lemma conn_tick_wf:
  assumes "conn_wf c" and "conn_tick env c = (r, c')"
  shows "conn_wf c'"
proof -
  define step where "step = (case recovery_timeout (conn_recovery c) of
        None \<Rightarrow> (Inr (), c)
      | Some t \<Rightarrow>
          if t \<le> env_now env then
            (case on_pto_timeout (conn_recovery c) of
               Inl e \<Rightarrow> (Inl e, c)
             | Inr (pkts, r) \<Rightarrow> (Inr (), queue_lost_frames pkts (set_recovery r c)))
          else (Inr (), c))"
  obtain q c1 where q: "step = (q, c1)" by fastforce
  have wf1: "conn_wf c1" using q assms(1) unfolding step_def by (auto split: option.splits if_splits sum.splits prod.splits)
  have closing: "conn_wf (c2\<lparr>closed := b\<rparr>) = conn_wf c2" for c2 b by (simp add: conn_wf_def)
  show ?thesis
    using assms(2) [unfolded conn_tick_def Let_def, folded step_def, unfolded q] wf1
    by (cases q) (auto simp: closing split: option.splits if_splits prod.splits)
qed

text \<open>Sending: polling a stream takes nothing away from what it has received.\<close>

lemma poll_keeps:
  assumes "stream_wf s" and "poll_send_data m a s = (r, s')"
  shows "stream_wf s' \<and> stream_id s' = stream_id s \<and> held s' = held s"
proof -
  have "send_wf s" using assms(1) by (simp add: stream_wf_def)
  from assms(2) this have "stream_id s' = stream_id s \<and> held s' = held s"
    by (rule poll_send_data_cases) (simp_all add: held_def)
  then show ?thesis using poll_send_data_wf [OF assms] by simp
qed

lemma poll_streams_table:
  "table_wf ss \<Longrightarrow> poll_streams limit ss budget avail sent = (r, ss', sent') \<Longrightarrow>
     table_wf ss' \<and> table_held ss' = table_held ss \<and> map fst ss' = map fst ss"
proof (induction limit ss budget avail sent arbitrary: r ss' sent' rule: poll_streams.induct)
  case (2 limit i s ss budget avail sent)
  have wf: "stream_wf s" "stream_id s = i" "table_wf ss" "i \<notin> fst ` set ss" using 2(2) by simp_all
  show ?case
  proof (cases "budget \<le> 0")
    case True
    then show ?thesis using 2(2,3) by auto
  next
    case False
    obtain q s1 where q: "poll_send_data (min budget 1200) avail s = (q, s1)" by fastforce
    note k = poll_keeps [OF wf(1) q]
    show ?thesis
    proof (cases q)
      case (Inl e)
      then show ?thesis using 2(2,3) False q k by auto
    next
      case (Inr y)
      obtain off d f b where y: "y = (off, d, f, b)" by (cases y)
      show ?thesis
      proof (cases "u64_add sent (length d)")
        case (Inl e)
        then show ?thesis using 2(2,3) False q k \<open>q = Inr y\<close> y by auto
      next
        case sent1: (Inr sent1)
        obtain r2 ss2 sent2 where p: "poll_streams limit ss
            (if 0 < length d \<or> f then budget - (int (length d) + 10) else budget)
            (avail - of_nat (length d)) sent1 = (r2, ss2, sent2)" by (metis prod_cases3)
        have "ss' = (i, s1) # ss2" using 2(3) False q Inr y sent1 p by simp
        moreover have "table_wf ss2 \<and> table_held ss2 = table_held ss \<and> map fst ss2 = map fst ss"
          using "2.IH" [OF False q [symmetric] Inr y [symmetric] refl refl refl refl sent1 wf(3) p] .
        ultimately show ?thesis using k wf by (metis (no_types, lifting) image_set list.simps(9) fst_conv table_simps(3,4))
      qed
    qed
  qed
qed simp

lemma stream_data_frames_wf:
  assumes "conn_wf c" and "stream_data_frames c = (r, c')"
  shows "conn_wf c'"
proof (cases "stream_budget (path_mtu c)")
  case (Inl e)
  then show ?thesis using assms by (simp add: stream_data_frames_def Let_def)
next
  case (Inr budget)
  define avail where "avail = (if data_sent c < max_data_remote c then max_data_remote c - data_sent c else 0)"
  obtain q ss sent where p: "poll_streams (max_data_remote c) (streams c) budget avail (data_sent c) = (q, ss, sent)"
    by (metis prod_cases3)
  have "c' = c\<lparr>streams := ss, data_sent := sent\<rparr>"
    using assms(2) Inr p by (simp add: stream_data_frames_def Let_def avail_def)
  then show ?thesis using poll_streams_table [OF _ p] assms(1) by (simp add: conn_wf_def)
qed

text \<open>A part of the frames that keeps the connection well-formed\<close>

definition good_part :: "(connection \<Rightarrow> (cr_error + quic_frame list) \<times> connection) \<Rightarrow> bool" where
  "good_part f \<longleftrightarrow> (\<forall>c. conn_wf c \<longrightarrow> conn_wf (snd (f c)))"

lemma good_then: "conn_wf (snd x) \<Longrightarrow> good_part f \<Longrightarrow> conn_wf (snd (then_frames x f))"
  by (auto simp: good_part_def then_frames_def split: prod.split sum.split)

lemma good_parts:
  "good_part path_frames" "good_part (crypto_frames sp tls)" "good_part (ack_frames sp)"
  "good_part (app_frames sp tls)" "good_part (\<lambda>c. no_raise (lost_frame sp c))"
proof -
  show "good_part path_frames"
    by (auto simp: good_part_def path_frames_def conn_wf_def Let_def split: prod.split sum.split)
  show "good_part (crypto_frames sp tls)"
    by (auto simp: good_part_def crypto_frames_def conn_wf_def split: option.split sum.split)
  show "good_part (ack_frames sp)"
    by (auto simp: good_part_def ack_frames_def split: sum.split)
  show "good_part (\<lambda>c. no_raise (lost_frame sp c))"
    by (auto simp: good_part_def lost_frame_def no_raise_def conn_wf_def split: list.split)
  have "conn_wf (snd (app_control_frames sp c)) = conn_wf c" for c
    by (simp add: app_control_frames_def conn_wf_def Let_def)
  moreover have "conn_wf (snd (stream_data_frames c))" if "conn_wf c" for c
    by (rule stream_data_frames_wf [OF that prod.collapse [symmetric]])
  ultimately have "conn_wf (snd (stream_data_frames (snd (app_control_frames sp c))))" if "conn_wf c" for c
    using that by blast
  then show "good_part (app_frames sp tls)"
    by (simp add: good_part_def app_frames_def case_prod_beta split: sum.split)
qed

lemma packet_part_wf:
  assumes "conn_wf c"
    and "then_frames (then_frames (then_frames (no_raise (closing_frames c)) path_frames)
       (crypto_frames sp tls)) (ack_frames sp) = (r, c')"
  shows "conn_wf c'"
proof -
  have "conn_wf (snd (no_raise (closing_frames c)))"
    using assms(1) by (simp add: no_raise_def closing_frames_def conn_wf_def)
  then have "conn_wf (snd (then_frames (then_frames (then_frames (no_raise (closing_frames c)) path_frames)
       (crypto_frames sp tls)) (ack_frames sp)))" by (intro good_then good_parts)
  then show ?thesis by (simp add: assms(2))
qed

lemma packet_frames_wf:
  assumes "conn_wf c"
  shows "conn_wf (snd (packet_frames sp tls c))"
proof -
  have "conn_wf (snd (no_raise (closing_frames c)))"
    using assms by (simp add: no_raise_def closing_frames_def conn_wf_def)
  then show ?thesis unfolding packet_frames_def by (intro good_then good_parts)
qed

lemma conn_send_wf:
  assumes "conn_wf c" and "conn_send env sp tls final_size room c = (r, c')"
  shows "conn_wf c'"
proof -
  let ?c = "check_and_apply_remote_tp c"
  have wf: "conn_wf ?c" by (rule check_and_apply_wf [OF assms(1)])
  obtain q c1 where q: "packet_frames sp tls ?c = (q, c1)" by fastforce
  have "conn_wf c1" using packet_frames_wf [OF wf, of sp tls] q by simp
  then show ?thesis using assms(2) wf q
    by (auto simp: conn_send_def Let_def split: if_splits sum.splits)
qed

section \<open>Any sequence of operations\<close>

datatype conn_op =
    Recv env "byte list" "opened_packet list"
  | Send env pn_space "byte list option" "byte list \<Rightarrow> nat" nat
  | WriteStream u64 "byte list"
  | ReadStream u64 nat
  | Cleanup
  | QueueDatagram "byte list"
  | QueueBlocked bool u64
  | ValidatePath "byte list" u64
  | AddPath u64
  | ActivatePath u64
  | CloseConn u64 string
  | Tick env

fun conn_step :: "conn_op \<Rightarrow> connection \<Rightarrow> connection" where
  "conn_step (Recv env data ps) c = snd (conn_recv env data ps c)"
| "conn_step (Send env sp tls final_size room) c = snd (conn_send env sp tls final_size room c)"
| "conn_step (WriteStream i d) c = snd (stream_write i d c)"
| "conn_step (ReadStream i n) c = snd (stream_read i n c)"
| "conn_step Cleanup c = cleanup_done_streams c"
| "conn_step (QueueDatagram d) c = send_datagram d c"
| "conn_step (QueueBlocked b l) c = queue_streams_blocked b l c"
| "conn_step (ValidatePath d i) c = initiate_path_validation d i c"
| "conn_step (AddPath i) c = add_path i c"
| "conn_step (ActivatePath i) c = set_active_path_id i c"
| "conn_step (CloseConn code reason) c = conn_close code reason c"
| "conn_step (Tick env) c = snd (conn_tick env c)"

lemma conn_step_wf: "conn_wf c \<Longrightarrow> conn_wf (conn_step op c)"
proof (cases op)
  case (Recv env data ps)
  assume "conn_wf c"
  then show ?thesis using conn_recv_wf [OF _ prod.collapse [symmetric]] Recv by simp
next
  case (Send env sp tls final_size room)
  assume "conn_wf c"
  then show ?thesis using conn_send_wf [OF _ prod.collapse [symmetric]] Send by simp
next
  case (WriteStream i d)
  assume "conn_wf c"
  then show ?thesis using stream_write_wf [OF _ prod.collapse [symmetric]] WriteStream by simp
next
  case (ReadStream i n)
  assume "conn_wf c"
  then show ?thesis using stream_read_wf [OF _ prod.collapse [symmetric]] ReadStream by simp
next
  case (Tick env)
  assume "conn_wf c"
  then show ?thesis using conn_tick_wf [OF _ prod.collapse [symmetric]] Tick by simp
qed (simp_all add: cleanup_wf, simp_all add: conn_wf_def send_datagram_def queue_streams_blocked_def
    initiate_path_validation_def add_path_def set_active_path_id_def conn_close_def Let_def)

lemma conn_wf_new: "conn_wf (connection_new cfg server now)"
  by (simp add: conn_wf_def connection_new_def)

section \<open>What a connection holds\<close>

definition two_pieces :: "byte list" where
  "two_pieces = [0x0e, 3, 0, 2, 7, 8, 0x0e, 3, 3, 1, 9]"

lemma two_pieces_decode:
  "QuicFrame_decode two_pieces = Inr (StreamFrame 3 0 [7, 8] False, [0x0e, 3, 3, 1, 9])"
  "QuicFrame_decode [0x0e, 3, 3, 1, 9] = Inr (StreamFrame 3 3 [9] False, [])"
proof -
  have e: "QuicFrame_encode (StreamFrame 3 0 [7, 8] False) = Inr [0x0e, 3, 0, 2, 7, 8]"
    "QuicFrame_encode (StreamFrame 3 3 [9] False) = Inr [0x0e, 3, 3, 1, 9]" by code_simp+
  show "QuicFrame_decode two_pieces = Inr (StreamFrame 3 0 [7, 8] False, [0x0e, 3, 3, 1, 9])"
    "QuicFrame_decode [0x0e, 3, 3, 1, 9] = Inr (StreamFrame 3 3 [9] False, [])"
    using frame_roundtrip_stream [OF e(1), of "[0x0e, 3, 3, 1, 9]"] frame_roundtrip_stream [OF e(2), of "[]"]
    by (simp_all add: two_pieces_def)
qed

lemma recv_two_pieces:
  "recv_frames env sp two_pieces False c =
     (case handle_stream_frame 3 0 [7, 8] False c of
        (Inl e, c) \<Rightarrow> (Inl e, c)
      | (Inr _, c) \<Rightarrow>
          (case handle_stream_frame 3 3 [9] False c of (Inl e, c) \<Rightarrow> (Inl e, c) | (Inr _, c) \<Rightarrow> (Inr True, c)))"
proof -
  have "two_pieces \<noteq> []" by (simp add: two_pieces_def)
  then show ?thesis
    by (simp add: recv_frames.simps [of env sp two_pieces] recv_frames.simps [of env sp "[0x0e, 3, 3, 1, 9]"]
        recv_frames.simps [of env sp "[]"] two_pieces_decode ack_eliciting_def cong: if_cong sum.case_cong prod.case_cong)
qed

lemma flush_nothing: "ooo_buffer s = [] \<Longrightarrow> flush_ooo_buffer s = (Inr (), s)"
  by (simp add: flush_ooo_buffer.simps [of s] flush_round_def)

lemma first_segment:
  "receive_stream_frame (0, [7, 8], False) (Stream_new 3 m 10) =
     (Inr (), (Stream_new 3 m 10)\<lparr>state := Open, recv_buffer := [7, 8], rx_offset := 2\<rparr>)"
  by (simp add: Stream_new_def u64_add_def receive_stream_frame_def receive_data_def opened_def deliver_def
      flush_nothing check_fin_ready_def memory_append_def MemoryLimit_def)

lemma second_segment:
  "receive_stream_frame (3, [9], False) ((Stream_new 3 m 10)\<lparr>state := Open, recv_buffer := [7, 8], rx_offset := 2\<rparr>) =
     (Inr (), (Stream_new 3 m 10)\<lparr>state := Open, recv_buffer := [7, 8], rx_offset := 2, ooo_buffer := [(3, [9])]\<rparr>)"
  by (simp add: Stream_new_def u64_add_def receive_stream_frame_def receive_data_def opened_def)

lemma two_frames:
  assumes "streams c = []" and "data_received c = 0" and "max_data_local c = 10" and "\<not> conn_server c"
    and "config_uni (config c) = 10"
  obtains m where "recv_frames env sp two_pieces False c = (Inr True, c\<lparr>data_received := 3, streams :=
     [(3, (Stream_new 3 m 10)\<lparr>state := Open, recv_buffer := [7, 8], rx_offset := 2, ooo_buffer := [(3, [9])]\<rparr>)]\<rparr>)"
proof -
  have "snd (initial_stream_limits c 3) = 10" using assms(4,5) by (simp add: initial_stream_limits_def Let_def)
  then obtain m where lim: "initial_stream_limits c 3 = (m, 10)" by (metis prod.collapse)
  show ?thesis
    by (rule that [of m]) (simp add: recv_two_pieces handle_stream_frame_def ensure_stream_def lim assms
      u64_add_def with_stream_def first_segment second_segment Let_def)
qed

lemma recv_two_pieces_stream:
  assumes "\<not> closed c" and "\<not> stateless_reset data c" and "streams c = []" and "data_received c = 0"
    and "max_data_local c = 10" and "\<not> conn_server c" and "config_uni (config c) = 10"
  obtains m c' where "snd (conn_recv env data [Inr (SpaceApp, 0, two_pieces)] c) = c'"
    and "data_received c' = 3" and "max_data_local c' = 10" and "streams c' =
     [(3, (Stream_new 3 m 10)\<lparr>state := Open, recv_buffer := [7, 8], rx_offset := 2, ooo_buffer := [(3, [9])]\<rparr>)]"
proof -
  let ?d = "map_pn_space SpaceApp (\<lambda>n. n\<lparr>received_pns := received_pns n @ [0], largest_received_pn := max (largest_received_pn n) 0\<rparr>)
      (map_path (active_index c) (\<lambda>p. p\<lparr>bytes_received := bytes_received p + length data\<rparr>) c)"
  obtain m where "recv_frames env SpaceApp two_pieces False ?d = (Inr True, ?d\<lparr>data_received := 3, streams :=
     [(3, (Stream_new 3 m 10)\<lparr>state := Open, recv_buffer := [7, 8], rx_offset := 2, ooo_buffer := [(3, [9])]\<rparr>)]\<rparr>)"
    by (rule two_frames [of ?d]) (simp_all add: assms map_pn_space_def map_path_def)
  then show ?thesis using assms(1,2,5)
    by (intro that [OF refl, of m]) (simp_all add: conn_recv_def recv_packet_def Let_def map_pn_space_def map_path_def)
qed

lemma connection_new_fields:
  "\<not> closed (connection_new cfg server now)" "streams (connection_new cfg server now) = []"
  "data_received (connection_new cfg server now) = 0"
  "max_data_local (connection_new cfg server now) = config_initial_max_data cfg"
  "conn_server (connection_new cfg server now) = server" "remote_tp (connection_new cfg server now) = None"
  "config (connection_new cfg server now) = cfg"
  by (simp_all add: connection_new_def handshake_new_def)

text \<open>
  C4: A connection buffers no more than it has granted. After any sequence of datagrams (with any
  frames, exceptions included), packets sent, writes, reads, timer ticks and clean-ups, the streams of
  the table are well-formed, each under its own id and no id twice, and all the bytes they hold,
  reassembled or out of order, are at most the bytes counted against the connection's
  limit, which are at most the limit.
\<close>

theorem conn_run_bounded:
  "let c = fold conn_step ops (connection_new cfg server now) in
     distinct (map fst (streams c)) \<and> (\<forall>(i, s)\<in>set (streams c). stream_wf s \<and> stream_id s = i) \<and>
     (\<Sum>(i, s)\<leftarrow>streams c. length (recv_buffer s) + (\<Sum>x\<leftarrow>ooo_buffer s. length (snd x))) \<le> unat (data_received c) \<and>
     data_received c \<le> max_data_local c"
proof -
  have "conn_wf (fold conn_step ops c)" if "conn_wf c" for c
    using that by (induction ops arbitrary: c) (simp_all add: conn_step_wf)
  from this [OF conn_wf_new [of cfg server now]] show ?thesis
    by (simp add: Let_def conn_wf_def table_wf_def table_held_def held_def)
qed

definition quiet_env :: env where
  "quiet_env = \<lparr>env_ssl = (\<lambda>_. (None, False)), env_scale = (\<lambda>x k. x), env_now = 5\<rparr>"

text \<open>
  Two pieces of a stream with a gap between them, and a read of one byte: three bytes are held of the
  three counted. The witness reads the sum off the theorem.
\<close>

theorem conn_run_bounded_witness:
  "let c = fold conn_step [Recv quiet_env [0x40] [Inr (SpaceApp, 0, two_pieces)], ReadStream 3 1]
             (connection_new \<lparr>config_max_idle_timeout = 0, config_initial_max_data = 10, config_bidi_local = 10,
                config_bidi_remote = 10, config_uni = 10, config_streams_bidi = 1, config_initial_cwnd_packets = 10\<rparr> False 0)
   in map (\<lambda>(i, s). (i, recv_buffer s, recv_read_pos s, ooo_buffer s)) (streams c) = [(3, [7, 8], 1, [(3, [9])])] \<and>
      (\<Sum>(i, s)\<leftarrow>streams c. length (recv_buffer s) + (\<Sum>x\<leftarrow>ooo_buffer s. length (snd x))) = 3 \<and>
      3 \<le> unat (data_received c) \<and> data_received c \<le> 10"
proof -
  let ?cfg = "\<lparr>config_max_idle_timeout = 0, config_initial_max_data = 10, config_bidi_local = 10,
      config_bidi_remote = 10, config_uni = 10, config_streams_bidi = 1, config_initial_cwnd_packets = 10\<rparr> :: quic_config"
  let ?c = "connection_new ?cfg False 0"
  let ?ops = "[Recv quiet_env [0x40] [Inr (SpaceApp, 0, two_pieces)], ReadStream 3 1]"
  have f: "\<not> closed ?c" "\<not> stateless_reset [0x40] ?c" "streams ?c = []" "data_received ?c = 0"
    "max_data_local ?c = 10" "\<not> conn_server ?c" "config_uni (config ?c) = 10"
    by (simp_all add: connection_new_fields stateless_reset_def)
  obtain m c' where "snd (conn_recv quiet_env [0x40] [Inr (SpaceApp, 0, two_pieces)] ?c) = c'"
    and "data_received c' = 3" and c': "max_data_local c' = 10" and "streams c' =
     [(3, (Stream_new 3 m 10)\<lparr>state := Open, recv_buffer := [7, 8], rx_offset := 2, ooo_buffer := [(3, [9])]\<rparr>)]"
    using recv_two_pieces_stream [OF f] .
  then have r: "max_data_local (fold conn_step ?ops ?c) = 10"
    "map (\<lambda>(i, s). (i, recv_buffer s, recv_read_pos s, ooo_buffer s)) (streams (fold conn_step ?ops ?c)) = [(3, [7, 8], 1, [(3, [9])])]"
    "(\<Sum>(i, s)\<leftarrow>streams (fold conn_step ?ops ?c). length (recv_buffer s) + (\<Sum>x\<leftarrow>ooo_buffer s. length (snd x))) = 3"
    by (simp_all add: stream_read_def Stream_read_def Stream_new_def)
  show ?thesis
    using conn_run_bounded [of ?ops ?cfg False 0] r unfolding Let_def by (metis (no_types, lifting))
qed

section \<open>Sending within the peer's limits\<close>

fun frame_bytes :: "quic_frame \<Rightarrow> nat" where
  "frame_bytes (StreamFrame i off d fin) = length d"
| "frame_bytes _ = 0"

definition stream_bytes :: "quic_frame list \<Rightarrow> nat" where
  "stream_bytes fs = (\<Sum>f\<leftarrow>fs. frame_bytes f)"

lemma stream_bytes_simps [simp]:
  "stream_bytes [] = 0" "stream_bytes (f # fs) = frame_bytes f + stream_bytes fs"
  "stream_bytes (fs @ gs) = stream_bytes fs + stream_bytes gs"
  by (simp_all add: stream_bytes_def)

definition within_limits :: "quic_frame list \<Rightarrow> (u64 \<times> stream) list \<Rightarrow> bool" where
  "within_limits fs ss \<longleftrightarrow>
     (\<forall>i off d fin. StreamFrame i off d fin \<in> set fs \<longrightarrow>
        (\<exists>s. map_of ss i = Some s \<and> unat off + length d \<le> unat (max_stream_data_remote s)))"

lemma poll_streams_sent:
  "table_wf ss \<Longrightarrow> poll_streams limit ss budget avail sent = (Inr fs, ss', sent') \<Longrightarrow>
     unat sent + unat avail < 2 ^ 64 \<Longrightarrow>
     unat sent' = unat sent + stream_bytes fs \<and> stream_bytes fs \<le> unat avail \<and>
     int (stream_bytes fs) \<le> max 0 budget \<and> within_limits fs ss'"
proof (induction limit ss budget avail sent arbitrary: fs ss' sent' rule: poll_streams.induct)
  case (1 limit budget avail sent)
  then show ?case by (simp add: within_limits_def)
next
  case (2 limit i s ss budget avail sent)
  have wf: "stream_wf s" "stream_id s = i" "table_wf ss" "i \<notin> fst ` set ss" using 2(2) by simp_all
  have swf: "send_wf s" using wf(1) by (simp add: stream_wf_def)
  show ?case
  proof (cases "budget \<le> 0")
    case True
    then show ?thesis using 2(3) by (auto simp: within_limits_def)
  next
    case False
    obtain q s1 where q: "poll_send_data (min budget 1200) avail s = (q, s1)" by fastforce
    obtain off d f b where y: "q = Inr (off, d, f, b)"
      using 2(3) False q by (cases q) (auto split: prod.splits)
    have d: "length d \<le> unat avail" "int (length d) \<le> budget"
      "unat off + length d \<le> unat (max_stream_data_remote s1) \<or> d = [] \<and> \<not> f"
      using q [unfolded y] swf False by (cases rule: poll_send_data_cases; auto simp: send_wf_def)+
    have add: "u64_add sent (length d) = Inr (sent + of_nat (length d))"
      "unat (sent + of_nat (length d)) = unat sent + length d"
      using u64_add_small [of sent "length d"] d(1) 2(4) by simp_all
    have av: "unat (avail - of_nat (length d)) = unat avail - length d"
    proof -
      have "length d < 2 ^ 64" using d(1) unsigned_less [of avail, where ?'a = nat] by simp
      then have "unat (of_nat (length d) :: u64) = length d" by (simp add: unat_of_nat take_bit_nat_eq_self)
      then show ?thesis using d(1) by (simp add: unat_sub word_le_nat_alt)
    qed
    let ?has = "0 < length d \<or> f"
    let ?budget = "if ?has then budget - (int (length d) + 10) else budget"
    obtain r2 ss2 sent2 where p: "poll_streams limit ss ?budget (avail - of_nat (length d)) (sent + of_nat (length d)) =
        (r2, ss2, sent2)" by (metis prod_cases3)
    define hd where "hd = (if ?has then [StreamFrame (stream_id s) off d f] else [])"
    define bl where "bl = (case b of Some BlockedConnection \<Rightarrow> [DataBlockedFrame limit]
        | Some BlockedStream \<Rightarrow> [StreamDataBlockedFrame (stream_id s) (max_stream_data_remote s)] | None \<Rightarrow> [])"
    have res: "(Inr fs, ss', sent') = (rbind r2 (\<lambda>gs. Inr ((hd @ bl) @ gs)), (i, s1) # ss2, sent2)"
      using 2(3) False q y add(1) p unfolding hd_def bl_def by simp
    then obtain gs where gs: "r2 = Inr gs" "fs = (hd @ bl) @ gs" "ss' = (i, s1) # ss2" "sent' = sent2"
      by (cases r2) auto
    have ih: "unat sent2 = unat (sent + of_nat (length d)) + stream_bytes gs \<and>
        stream_bytes gs \<le> unat (avail - of_nat (length d)) \<and> int (stream_bytes gs) \<le> max 0 ?budget \<and> within_limits gs ss2"
      using "2.IH" [OF False q [symmetric] y refl refl refl refl refl add(1) wf(3) p [unfolded gs(1)]] add(2) av d(1) 2(4)
      by simp
    have hb: "stream_bytes (hd @ bl) = length d"
      by (auto simp: hd_def bl_def split: option.split blocked.split)
    have lim: "within_limits fs ss'"
      unfolding within_limits_def
    proof (intro allI impI)
      fix j o' e g assume in_fs: "StreamFrame j o' e g \<in> set fs"
      have "StreamFrame j o' e g \<notin> set bl" by (auto simp: bl_def split: option.splits blocked.splits)
      then consider "StreamFrame j o' e g \<in> set hd" | "StreamFrame j o' e g \<in> set gs" using in_fs gs(2) by auto
      then show "\<exists>s. map_of ss' j = Some s \<and> unat o' + length e \<le> unat (max_stream_data_remote s)"
      proof cases
        case 1
        then have "j = i" "o' = off" "e = d" "?has" using wf(2) by (auto simp: hd_def split: if_splits)
        then show ?thesis using d(3) gs(3) by auto
      next
        case 2
        then obtain s' where s': "map_of ss2 j = Some s'" "unat o' + length e \<le> unat (max_stream_data_remote s')"
          using ih unfolding within_limits_def by blast
        have "j \<in> fst ` set ss2" using s'(1) by (force dest: map_of_SomeD)
        then have "j \<in> fst ` set ss" using poll_streams_table [OF wf(3) p] by (metis list.set_map)
        then have "j \<noteq> i" using wf(4) by auto
        then show ?thesis using s' gs(3) by simp
      qed
    qed
    have "stream_bytes fs = length d + stream_bytes gs" using hb gs(2) by simp
    moreover have "int (length d + stream_bytes gs) \<le> max 0 budget"
      using ih d(2) False by (auto simp: max_def split: if_splits)
    moreover have "length d + stream_bytes gs \<le> unat avail" using ih av d(1) by linarith
    ultimately show ?thesis using ih lim gs(4) add(2) by simp
  qed
qed

text \<open>The other frames of a packet leave the streams and the counters alone and carry no stream data.\<close>

definition no_stream_data :: "quic_frame list \<Rightarrow> bool" where
  "no_stream_data fs \<longleftrightarrow> (\<forall>f\<in>set fs. frame_type f \<noteq> STREAM)"

definition same_streams :: "connection \<Rightarrow> connection \<Rightarrow> bool" where
  "same_streams c c' \<longleftrightarrow>
     streams c' = streams c \<and> data_sent c' = data_sent c \<and> max_data_remote c' = max_data_remote c"

lemma same_streams_trans: "same_streams c c' \<Longrightarrow> same_streams c' c'' \<Longrightarrow> same_streams c c''"
  by (simp add: same_streams_def)

lemma challenge_frames_type: "challenge_frames xs h = (Inr fs, h') \<Longrightarrow> no_stream_data fs"
proof (induction xs arbitrary: h fs)
  case (Cons x xs)
  obtain d i where x: "x = (d, i)" by fastforce
  show ?case using Cons x
    by (cases "challenge_frames xs (hash_set d i h)")
      (fastforce simp: no_stream_data_def PathChallengeFrame_new_def rbind_Inr_iff split: sum.splits if_splits)
qed (simp add: no_stream_data_def)

lemma response_frames_type: "response_frames ds = Inr fs \<Longrightarrow> no_stream_data fs"
  by (induction ds arbitrary: fs)
    (fastforce simp: no_stream_data_def PathResponseFrame_new_def rbind_Inr_iff split: if_splits)+

lemma path_frames_same:
  assumes "path_frames c = (Inr fs, c')"
  shows "no_stream_data fs \<and> same_streams c c'"
  using assms challenge_frames_type [of "pending_path_challenges c" "outstanding_path_challenges c"]
    response_frames_type [of "pending_path_responses c"]
  by (fastforce simp: path_frames_def Let_def same_streams_def no_stream_data_def split: prod.splits sum.splits)

lemma build_ack_type: "build_ack pns = Inr f \<Longrightarrow> frame_type f = ACK"
  by (auto simp: build_ack_def rbind_Inr_iff split: list.splits)

lemma other_frames_same:
  "no_stream_data (fst (closing_frames c)) \<and> same_streams c (snd (closing_frames c))"
  "crypto_frames sp tls c = (Inr fs, c') \<Longrightarrow> no_stream_data fs \<and> same_streams c c'"
  "ack_frames sp c = (Inr fs, c') \<Longrightarrow> no_stream_data fs \<and> same_streams c c'"
  "length (fst (lost_frame sp c)) \<le> 1 \<and> same_streams c (snd (lost_frame sp c))"
  by (auto simp: closing_frames_def crypto_frames_def ack_frames_def lost_frame_def map_pn_space_def
      no_stream_data_def same_streams_def dest!: build_ack_type split: option.splits sum.splits if_splits list.splits)

lemma app_control_frames_same:
  "no_stream_data (fst (app_control_frames sp c)) \<and> same_streams c (snd (app_control_frames sp c))"
proof -
  have "frame_type f \<noteq> STREAM" if "f \<in> set (stream_limit_frames F is c)" "\<And>i s. frame_type (F i s) \<noteq> STREAM" for f F "is"
    using that by (auto simp: stream_limit_frames_def split: option.splits)
  then show ?thesis
    by (auto simp: app_control_frames_def Let_def no_stream_data_def same_streams_def split: if_splits)
qed

definition sent_new :: "connection \<Rightarrow> quic_frame list \<Rightarrow> connection \<Rightarrow> bool" where
  "sent_new c new c' \<longleftrightarrow>
     unat (data_sent c') = unat (data_sent c) + stream_bytes new \<and>
     stream_bytes new \<le> unat (max_data_remote c) - unat (data_sent c) \<and> stream_bytes new \<le> 1200 \<and>
     within_limits new (streams c')"

lemma stream_data_frames_new:
  assumes "conn_wf c" and "stream_data_frames c = (Inr fs, c')"
  shows "sent_new c fs c'"
proof -
  define avail where "avail = (if data_sent c < max_data_remote c then max_data_remote c - data_sent c else 0)"
  obtain budget where b: "stream_budget (path_mtu c) = Inr budget"
    using assms(2) by (cases "stream_budget (path_mtu c)") (simp_all add: stream_data_frames_def Let_def)
  then have b2: "budget \<le> 1200" by (auto simp: stream_budget_def split: if_splits)
  obtain q ss sent where p: "poll_streams (max_data_remote c) (streams c) budget avail (data_sent c) = (q, ss, sent)"
    by (metis prod_cases3)
  have c': "q = Inr fs" "c' = c\<lparr>streams := ss, data_sent := sent\<rparr>"
    using assms(2) b p by (simp_all add: stream_data_frames_def Let_def avail_def)
  have av: "unat avail = unat (max_data_remote c) - unat (data_sent c)"
  proof (cases "data_sent c < max_data_remote c")
    case True
    then show ?thesis using unat_sub [OF less_imp_le [OF True]] by (simp add: avail_def)
  next
    case False
    then show ?thesis by (simp add: avail_def word_less_nat_alt)
  qed
  then have "unat (data_sent c) + unat avail < 2 ^ 64"
    using unsigned_less [of "max_data_remote c", where ?'a = nat] unsigned_less [of "data_sent c", where ?'a = nat]
    by simp
  from poll_streams_sent [OF _ p [unfolded c'(1)] this] assms(1) b2 av show ?thesis
    by (auto simp: c'(2) sent_new_def conn_wf_def max_def split: if_splits)
qed

lemma app_frames_new:
  assumes "conn_wf c" and "app_frames sp tls c = (Inr fs, c')"
  shows "\<exists>ctl new. fs = ctl @ new \<and> no_stream_data ctl \<and> sent_new c new c'"
proof (cases "(sp = SpaceApp \<or> sp = SpaceZeroRTT) \<and> can_send (conn_recovery c) \<and> tls = None")
  case True
  obtain ctl c1 where ctl: "app_control_frames sp c = (ctl, c1)" by fastforce
  then have s: "no_stream_data ctl" "same_streams c c1" using app_control_frames_same [of sp c] by simp_all
  have "conn_wf c1" using ctl assms(1) by (auto simp: app_control_frames_def conn_wf_def Let_def)
  obtain new where new: "stream_data_frames c1 = (Inr new, c')" "fs = ctl @ new"
    using assms(2) True ctl by (auto simp: app_frames_def split: prod.splits sum.splits)
  have "sent_new c1 new c'" by (rule stream_data_frames_new [OF \<open>conn_wf c1\<close> new(1)])
  then have "sent_new c new c'" using s(2) by (simp add: sent_new_def same_streams_def)
  then show ?thesis using new(2) s(1) by blast
next
  case False
  then have "fs = [] @ []" "c' = c" using assms(2) by (auto simp: app_frames_def)
  then show ?thesis by (intro exI [of _ "[]"]) (simp add: no_stream_data_def sent_new_def within_limits_def)
qed

lemma then_frames_Inr:
  assumes "then_frames x f = (Inr fs, c')"
  obtains as c1 bs where "x = (Inr as, c1)" "f c1 = (Inr bs, c')" "fs = as @ bs"
  using assms by (auto simp: then_frames_def split: prod.splits sum.splits)

text \<open>
  C5: A packet stays within what the peer has granted. On a connection that satisfies the
  invariant \<open>conn_wf\<close> of its runs and whenever the frames are put together without an exception: of the frames \<open>send\<close> puts into a packet, all
  but one retransmitted frame and the newly polled ones carry no stream data; the new STREAM frames
  carry exactly the bytes added to the connection's count, at most what is left of the peer's
  connection limit and at most 1200, and each ends within the limit of its stream.
\<close>

theorem send_within_limits:
  assumes "conn_wf c" and "packet_frames sp tls c = (Inr fs, c')"
  shows "\<exists>ctl new lost. fs = ctl @ new @ lost \<and> no_stream_data ctl \<and> length lost \<le> 1 \<and>
     unat (data_sent c') = unat (data_sent c) + stream_bytes new \<and>
     stream_bytes new \<le> unat (max_data_remote c) - unat (data_sent c) \<and> stream_bytes new \<le> 1200 \<and>
     within_limits new (streams c')"
proof -
  obtain f1 c1 where cl: "closing_frames c = (f1, c1)" by fastforce
  from assms(2)[unfolded packet_frames_def] obtain as5 c6 lost where
    six: "then_frames (then_frames (then_frames (then_frames (no_raise (closing_frames c)) path_frames)
       (crypto_frames sp tls)) (ack_frames sp)) (app_frames sp tls) = (Inr as5, c6)"
    "no_raise (lost_frame sp c6) = (Inr lost, c')" "fs = as5 @ lost" by (rule then_frames_Inr)
  from six(1) obtain as4 c5 f5 where
    five: "then_frames (then_frames (then_frames (no_raise (closing_frames c)) path_frames)
       (crypto_frames sp tls)) (ack_frames sp) = (Inr as4, c5)"
    "app_frames sp tls c5 = (Inr f5, c6)" "as5 = as4 @ f5" by (rule then_frames_Inr)
  from five(1) obtain as3 c4 f4 where
    four: "then_frames (then_frames (no_raise (closing_frames c)) path_frames) (crypto_frames sp tls) = (Inr as3, c4)"
    "ack_frames sp c4 = (Inr f4, c5)" "as4 = as3 @ f4" by (rule then_frames_Inr)
  from four(1) obtain as2 c3 f3 where
    three: "then_frames (no_raise (closing_frames c)) path_frames = (Inr as2, c3)"
    "crypto_frames sp tls c3 = (Inr f3, c4)" "as3 = as2 @ f3" by (rule then_frames_Inr)
  from three(1) obtain as1 c2 f2 where
    two: "no_raise (closing_frames c) = (Inr as1, c2)" "path_frames c2 = (Inr f2, c3)" "as2 = as1 @ f2"
    by (rule then_frames_Inr)
  have e1: "as1 = f1" "c2 = c1" using two(1) cl by (simp_all add: no_raise_def)
  have s: "no_stream_data f1" "same_streams c c1" "no_stream_data f2" "same_streams c1 c3"
    "no_stream_data f3" "same_streams c3 c4" "no_stream_data f4" "same_streams c4 c5"
    using other_frames_same(1) [of c] cl path_frames_same [OF two(2)] other_frames_same(2) [OF three(2)]
      other_frames_same(3) [OF four(2)] e1 by simp_all
  have same: "same_streams c c5" using s(2,4,6,8) by (blast intro: same_streams_trans)
  have l: "length lost \<le> 1" "same_streams c6 c'"
    using other_frames_same(4) [of sp c6] six(2) by (simp_all add: no_raise_def)
  have "conn_wf c5" using packet_part_wf [OF assms(1) five(1)] .
  from app_frames_new [OF this five(2)] obtain ctl new
    where new: "f5 = ctl @ new" "no_stream_data ctl" "sent_new c5 new c6" by blast
  have "fs = (f1 @ f2 @ f3 @ f4 @ ctl) @ new @ lost" using six(3) five(3) four(3) three(3) two(3) e1 new(1) by simp
  moreover have "no_stream_data (f1 @ f2 @ f3 @ f4 @ ctl)" using s new(2) by (auto simp: no_stream_data_def)
  moreover have "sent_new c new c'" using new(3) same l(2) by (simp add: sent_new_def same_streams_def)
  ultimately show ?thesis using l(1) unfolding sent_new_def by blast
qed

text \<open>Three bytes to send and a grant of two\<close>

theorem send_within_limits_witness:
  "let c = (connection_new \<lparr>config_max_idle_timeout = 0, config_initial_max_data = 10, config_bidi_local = 10,
              config_bidi_remote = 10, config_uni = 10, config_streams_bidi = 1, config_initial_cwnd_packets = 1\<rparr> False 0)
            \<lparr>max_data_remote := 2, streams := [(0, (Stream_new 0 100 100)\<lparr>send_buffer := [7, 8, 9], state := Open\<rparr>)]\<rparr>
   in \<exists>c'. packet_frames SpaceApp None c = (Inr [StreamFrame 0 0 [7, 8] False, DataBlockedFrame 2], c') \<and>
        unat (data_sent c') = 2 \<and>
        (\<exists>ctl new lost. [StreamFrame 0 0 [7, 8] False, DataBlockedFrame 2] = ctl @ new @ lost \<and>
           no_stream_data ctl \<and> length lost \<le> 1 \<and> stream_bytes new \<le> 2)"
proof -
  let ?c = "(connection_new \<lparr>config_max_idle_timeout = 0, config_initial_max_data = 10, config_bidi_local = 10,
              config_bidi_remote = 10, config_uni = 10, config_streams_bidi = 1, config_initial_cwnd_packets = 1\<rparr> False 0)
            \<lparr>max_data_remote := 2, streams := [(0, (Stream_new 0 100 100)\<lparr>send_buffer := [7, 8, 9], state := Open\<rparr>)]\<rparr>"
  let ?fs = "[StreamFrame 0 0 [7, 8] False, DataBlockedFrame 2]"
  have wf: "conn_wf ?c"
    by (simp add: conn_wf_def connection_new_def stream_wf_def send_wf_def recv_wf_def Stream_new_def held_def MemoryLimit_def)
  obtain c' where run: "packet_frames SpaceApp None ?c = (Inr ?fs, c')"
    by (simp add: packet_frames_def then_frames_def no_raise_def closing_frames_def path_frames_def crypto_frames_def
        ack_frames_def app_frames_def lost_frame_def app_control_frames_def stream_data_frames_def stream_limit_frames_def
        stream_budget_def connection_new_def path_new_def pn_state_new_def handshake_new_def can_send_def
        Recovery_new_def Stream_new_def poll_send_data_def stream_available_def should_send_fin_def
        u64_add_def Let_def MAX_DATAGRAM_SIZE_def)
  from send_within_limits [OF wf run] obtain ctl new lost where
    s: "?fs = ctl @ new @ lost" "no_stream_data ctl" "length lost \<le> 1"
      "unat (data_sent c') = unat (data_sent ?c) + stream_bytes new"
      "stream_bytes new \<le> unat (max_data_remote ?c) - unat (data_sent ?c)" by blast
  have "data_sent ?c = 0" "max_data_remote ?c = 2" by (simp_all add: connection_new_def)
  then have b: "unat (data_sent c') = stream_bytes new" "stream_bytes new \<le> 2" using s(4,5) by simp_all
  have "stream_bytes ?fs = stream_bytes ctl + stream_bytes new + stream_bytes lost" using s(1) by simp
  moreover have "unat (data_sent c') = 2" using run
    by (simp add: packet_frames_def then_frames_def no_raise_def closing_frames_def path_frames_def crypto_frames_def
        ack_frames_def app_frames_def lost_frame_def app_control_frames_def stream_data_frames_def stream_limit_frames_def
        stream_budget_def connection_new_def path_new_def pn_state_new_def handshake_new_def can_send_def
        Recovery_new_def Stream_new_def poll_send_data_def stream_available_def should_send_fin_def
        u64_add_def Let_def MAX_DATAGRAM_SIZE_def) auto
  ultimately show ?thesis unfolding Let_def using run s(1-3) b by blast
qed

section \<open>Where the accounting breaks\<close>

text \<open>
  DATA_BLOCKED of the peer raises the limit by a mebibyte whatever has been received, so a peer
  grants itself as much as it wants.
\<close>

lemma data_blocked_grants:
  assumes "unat (max_data_local c) + 1048576 < 2 ^ 64"
  shows "fst (handle_frame env sp (DataBlockedFrame m) c) = Inr () \<and>
     unat (max_data_local (snd (handle_frame env sp (DataBlockedFrame m) c))) = unat (max_data_local c) + 1048576"
  using assms u64_add_small [of "max_data_local c" 1048576] by (simp add: u64_plus_def)

text \<open>
  A packet that does not fit the buffer is dropped after its frames have left the queues and without
  being entered into loss recovery: its stream data is never sent again.
\<close>

lemma oversized_packet_forgotten:
  assumes "\<not> send_held_back (check_and_apply_remote_tp c)"
    and "\<not> nothing_to_send sp tls (check_and_apply_remote_tp c)"
    and "packet_frames sp tls (check_and_apply_remote_tp c) = (Inr (f # fs), c')"
    and "payload_encode (f # fs) = Inr payload" and "pn_encode (packet_number (pn_spaces c' sp)) = Inr pn"
    and "room < final_size payload"
  shows "conn_send env sp tls final_size room c = (Inr [], c')"
  using assms by (simp add: conn_send_def)

end
