(* ===== verification/Spec2Isabelle.thy ===== *)
theory Spec2Isabelle
  imports Go_Bench Go_Servers Go_Stress H3_Interop Cross_Interop Response_Interop
    Stream_Interop Cr_Recovery Conn_Safety
begin

text \<open>
  A verification library for quic.cr: a QUIC and HTTP/3 library in Crystal (src/src) with an
  end-to-end server (src/examples/e2e_server.cr), and the Go programs that test, cross-validate and
  measure it (src/bench). The Go programs are modelled as a whole; of the Crystal code, the parts the
  Go programs talk to: on the HTTP/3 side the frames, QPACK, the request reader, the control stream,
  the router and the routes of the end-to-end server; on the QUIC side the frames, streams, loss
  recovery, packet numbers, transport parameters, handshake streams and the connection over them.

  \<^bold>\<open>The parts and how they interact.\<close> bench/go_client/main.go runs 28 suites of HTTP requests, raw
  QUIC exchanges and concurrency tests against the end-to-end server, counts passes and failures and
  ends with an exit code. bench/go_client/cross_test repeats much of it against two servers and
  injects malformed frames that the server must reject. bench_concurrent, bench_3way, bench_h3,
  bench_qpack and stress_test issue timed requests from goroutines, collect latencies under a mutex,
  a channel or atomic counters, and print statistics; bench_3way, bench_h3 and stress_test also start
  a Go HTTP/3 server, and bench/go_server and bench/go_server_3way are servers of their own. On the
  Crystal side \<open>H3::Server#handle_request\<close> reads frames from a stream, decodes the header block with
  QPACK, dispatches through \<open>H3::Router\<close> and writes the response. Below it a \<open>QUIC::Connection\<close> takes
  the frames of opened packets, hands CRYPTO data to TLS and stream data to its \<open>Stream\<close>s, polls
  these when it sends, and reports what it sent and what was acknowledged to \<open>Recovery\<close>.

  \<^bold>\<open>Conventions.\<close> A byte is an \<open>8 word\<close>, UInt64 and uint64 are \<open>64 word\<close>; Go's \<open>int\<close>, \<open>int64\<close> and
  \<open>int32\<close> are \<open>int\<close> with \<open>wrap64\<close> and \<open>wrap32\<close> where a result may leave the range; \<open>float64\<close> is
  \<open>Go_Float.float64\<close>, a rational with the rounding of IEEE 754 written out. Strings are byte strings.
  Go errors are values of \<open>go_error\<close> that keep the format string and its arguments, a Go panic is
  \<open>Panic\<close> of \<open>go_result\<close>, a Crystal exception is the left of a sum with \<open>cr_error\<close>. A stream that has
  been received is the list of its bytes. What quic-go, net/http's transport, the clock, the
  scheduler, SHA-256 and the Huffman code of QPACK do is an argument of the definitions: a \<open>client\<close>
  maps the number of a call and a request to an error or a response, a list of picks selects the
  order in which goroutines deliver; \<open>ssl\<close> is what OpenSSL makes of the handshake bytes it has been
  given, \<open>scale\<close> the product of a time span with a float, and a datagram comes as the packets that
  header protection and decryption leave of it.

  \<^bold>\<open>Theories, in the order of the imports.\<close>
  \<^item> \<open>Prelude\<close>: integers, errors, bytes and strings, shared lemmas, the collection \<open>len_simps\<close>.
  \<^item> \<open>Go_Wire\<close>: \<open>readVarInt\<close>, \<open>writeVarInt\<close>, \<open>appendVarInt\<close>, \<open>readH3Frame\<close>, \<open>h3Frame\<close>, \<open>encodeH3Request\<close>.
  \<^item> \<open>Cr_VarInt\<close>: src/quic/varint.cr and slice_reader.cr. \<open>Wire_Interop\<close> states the contract of a codec
    as the locale \<open>varint_codec\<close>, interprets it for the four pairs of an encoder and a decoder of the two
    languages, and derives agreement on every byte string and unique decoding of frame sequences.
  \<^item> \<open>Cr_Qpack\<close>: src/h3/qpack: prefix integers, static and dynamic table, encoder instructions, header
    blocks with the validation of pseudo-headers. \<open>Cr_H3\<close>: src/h3/frame.cr, the reading half of
    \<open>handle_request\<close>, the control stream of the server.
  \<^item> \<open>Go_Raw\<close>, \<open>Go_Cross\<close>: the raw-QUIC test of suite 26 and the cross-validation client. \<open>H3_Interop\<close>:
    frames, header blocks, the five injections of phase 3 and suite 26 against the Crystal reader.
  \<^item> \<open>Go_Http\<close>: the part of net/http and strings the clients use, \<open>doRequest\<close> and the check helpers.
    \<open>Go_Harness\<close>: the suite runners, the concurrent one both as the step relation \<open>par_step\<close> of its
    goroutines, channel and wait group and as a function of the delivery order; the contract of a runner
    is the locale \<open>suite_runner\<close>, interpreted for both. \<open>Go_Suites\<close>: the tables of all 28 suites, the
    suites as steps on the counters of \<open>main\<close> (locale \<open>e2e_suites\<close>), \<open>main\<close> itself.
  \<^item> \<open>Go_Float\<close>, \<open>Go_Stats\<close>: floating point, percentiles and means. \<open>Go_Pool\<close>: the semaphore pool as a
    step relation that refines the runner. \<open>Go_Bench\<close>: the four benchmark programs. \<open>Go_Stress\<close>: the
    stress test with its shared counters at the grain of atomic actions. \<open>Go_Servers\<close>: the Go servers.
  \<^item> \<open>Cr_Router\<close>: src/h3/request.cr, response.cr, context.cr, router.cr, the answering half of
    \<open>handle_request\<close> and the nineteen routes of the end-to-end server.
  \<^item> \<open>E2E_Interop\<close>: the end-to-end client against the end-to-end server, through the request reader and
    the router. \<open>Cross_Interop\<close>: the cross-validation client against the same server.
  \<^item> \<open>Cr_Encoder\<close>: the QPACK encoder, the instruction decoder, the invariant \<open>table_ok\<close> of the dynamic
    table, \<open>write_response\<close>. \<open>Response_Interop\<close>: what the peer reads of a response.
  \<^item> \<open>Cr_Stream\<close>: src/quic/stream.cr: buffers, reassembly, flow control and closing of a stream.
    \<open>Cr_Frame\<close>: src/quic/frame.cr: all frames with their encoders and \<open>Frame.decode\<close>.
    \<open>Stream_Interop\<close>: two ends of a stream.
  \<^item> \<open>Cr_Recovery\<close>: src/quic/recovery.cr with NewReno, and the ACK frame \<open>send\<close> builds. \<open>Cr_Packet\<close>: the
    headers of src/quic/packet.cr and the packet numbers \<open>recv_packet\<close> reconstructs.
  \<^item> \<open>Cr_Transport\<close>: src/quic/transport_parameters.cr. \<open>Cr_Handshake\<close>: the CRYPTO streams of
    src/quic/connection.cr, their hand-over to TLS and the peer's transport parameters in them.
  \<^item> \<open>Cr_Conn\<close>: src/quic/connection.cr over all of these: \<open>handle_frame\<close>, the loops of \<open>recv\<close>, the timer,
    the calls of the application, the frames \<open>send\<close> assembles. \<open>Conn_Safety\<close>: its flow control, as
    an invariant of the runs of \<open>conn_step\<close>.

  \<^bold>\<open>What is shown.\<close> The number of a property is that of its \<open>text\<close> block; the properties are in the
  last section of the theories of their components. The end-to-end run of the client against the
  model of the server passes every test of its HTTP and control stream suites, given the named promises
  of the transport, and reports exactly what fails of the datagram and 0-RTT exchanges, of which nothing
  is assumed; the cross validation passes; a request that is well framed is always answered; the router
  picks the first route that matches. The concurrent runners never deadlock, lose or repeat a result, whatever the order of delivery, and the
  step relations refine the functions; the reports count every request once. The QPACK encoder
  and decoder stay in step and a response is read back as it was written, for the table sizes and
  up to the frame size the two ends share. The two languages agree
  on integers and frames, the malformed requests of the cross test are rejected. On the QUIC side a
  stream delivers a prefix of what was written, and all of it once every frame has arrived; frames,
  packet numbers and transport parameters are read as they were written; an ACK frame makes loss
  recovery forget exactly the packets it was built from, and recovery accounts for the bytes in
  flight; TLS is handed the crypto stream in order, and the connection learns what the peer's
  parameters say; what the streams of a connection hold stays within what it has granted, and
  what it sends within what the peer has granted. Beside the properties a few lemmas
  record where the code departs from its intent (\<open>shorter_frame_replaces\<close>,
  \<open>incomplete_message_overwritten\<close>, \<open>data_blocked_grants\<close>, \<open>oversized_packet_forgotten\<close>,
  \<open>large_body_rejected\<close>). Percentile indices
  computed in floating point stay within the slice; the loops that may not end are shown to end
  exactly under the stated condition.

  \<^bold>\<open>Bounds and fuel.\<close> Structural recursion and measures are used wherever the code's loops end; a loop
  on a clock or with a step that may be zero is a \<open>partial_function (option)\<close> (timed phases, the batch
  loop of bench_qpack, its callers), so that a run that does not return is \<open>None\<close>, and the termination
  properties say when it is \<open>Some\<close>. There is no fuel. \<open>max_reps\<close> keeps the \<open>int32\<close> counter of suite 16
  in range, \<open>runner_limit\<close> is the largest channel \<open>make\<close> accepts, \<open>small_request\<close> bounds the requests
  for which the transport's promise is asked (the suites stay far below).

  \<^bold>\<open>Not modelled.\<close> Terminal output beyond the lines and tables that carry a decision; TLS, certificates
  and sockets of the Go programs, and the start and stop of server processes, which are calls of other
  libraries with outcomes given to the model. Of the Crystal library: the Huffman table of QPACK;
  packet protection, keys (those of 0-RTT included) and key updates, Retry and version negotiation; in \<open>send\<close> the choice of the
  packet number space, padding and MTU probes; \<open>Packet.decode\<close> of packet_parsing.cr, which nothing
  calls; BBR and the pacing rate, which are floats; batched system calls, sockets, fibers and
  mailboxes; the HTTP/3 client.
\<close>

end
